(* ===== verification/VPrelude.thy ===== *)
theory VPrelude
  imports Main "HOL-Library.Word"
begin

unbundle bit_operations_syntax

section \<open>Shared types, results and byte encodings\<close>

text \<open>
  This theory holds what every component theory shares: machine integer types, the result type
  that makes each failing path of the C++ sources a value, the little-endian byte encodings behind
  every pointer cast of the form \<^verbatim>\<open>*(T *)buffer = x\<close>, and the generic lemmas on lists the
  components use. The build modelled is the Debug one, in which \<^verbatim>\<open>assert\<close>,
  \<^verbatim>\<open>FAIL_LOUD\<close> and the checks under \<^verbatim>\<open>_DEBUG\<close> are compiled in, on a platform with
  64-bit pointers and a 64-bit \<^verbatim>\<open>unsigned long\<close>.
\<close>

named_theorems res_simps \<open>the equations of the result monad\<close>
named_theorems bytes_simps \<open>lengths and round trips of the byte encodings\<close>

subsection \<open>Machine integers\<close>

type_synonym byte = "8 word"
type_synonym u16 = "16 word"
type_synonym u32 = "32 word"
type_synonym u64 = "64 word"
type_synonym addr = u64    \<comment> \<open>\<^verbatim>\<open>ADDR\<close>, \<^verbatim>\<open>SIZE\<close> and \<^verbatim>\<open>OBJID\<close> are \<^verbatim>\<open>UINT_PTR\<close>\<close>
type_synonym objid = u64

subsection \<open>Results\<close>

text \<open>
  A C++ function that may not return normally yields \<open>Inl\<close>: \<open>Assert_failed\<close> is a false
  \<^verbatim>\<open>assert\<close>, \<open>Fail_loud m\<close> the \<^verbatim>\<open>std::logic_error\<close> thrown by \<^verbatim>\<open>FAIL_LOUD(m)\<close>.
  The others name what the language leaves undefined, so that no theorem can rest on it:
  an access outside an allocation, the dereference of a null pointer and of a deleted object, and
  the use of a value that was never stored. \<open>Bad_array_length\<close> is the exception of an array
  allocation with a negative length, \<open>Not_terminating\<close> a loop whose fuel, given with the loop, is used up.
\<close>

datatype failure =
    Assert_failed
  | Fail_loud string
  | Out_of_bounds
  | Null_pointer
  | Dangling_pointer
  | Uninitialised
  | Bad_array_length
  | Not_terminating

type_synonym 'a res = "failure + 'a"

definition and_then :: "'a res \<Rightarrow> ('a \<Rightarrow> 'b res) \<Rightarrow> 'b res" where
  "and_then m f = (case m of Inl e \<Rightarrow> Inl e | Inr x \<Rightarrow> f x)"

definition check :: "bool \<Rightarrow> failure \<Rightarrow> unit res" where
  "check b e = (if b then Inr () else Inl e)"

definition from_option :: "failure \<Rightarrow> 'a option \<Rightarrow> 'a res" where
  "from_option e x = (case x of None \<Rightarrow> Inl e | Some y \<Rightarrow> Inr y)"

lemma and_then_Inl [simp, res_simps]: "and_then (Inl e) f = Inl e"
  by (simp add: and_then_def)

lemma and_then_Inr [simp, res_simps]: "and_then (Inr x) f = f x"
  by (simp add: and_then_def)

lemma and_then_eq_Inr_iff [res_simps]:
  "and_then m f = Inr y \<longleftrightarrow> (\<exists>x. m = Inr x \<and> f x = Inr y)"
  by (cases m) simp_all

lemma and_then_InrE [elim]:
  assumes "and_then m f = Inr y"
  obtains x where "m = Inr x" and "f x = Inr y"
  using assms by (cases m) simp_all

lemma and_then_cong [fundef_cong]:
  assumes "m = m'" and "\<And>x. m' = Inr x \<Longrightarrow> f x = f' x"
  shows "and_then m f = and_then m' f'"
  using assms by (cases m') simp_all

lemma and_then_assoc: "and_then (and_then m f) g = and_then m (\<lambda>x. and_then (f x) g)"
  by (cases m) simp_all

lemma check_simps [simp, res_simps]:
  "check True e = Inr ()"
  "check False e = Inl e"
  by (simp_all add: check_def)

lemma check_eq_Inr_iff [simp]: "check b e = Inr u \<longleftrightarrow> b"
  by (simp add: check_def)

lemma check_eq_Inl_iff [simp]: "check b e = Inl e' \<longleftrightarrow> \<not> b \<and> e' = e"
  by (auto simp: check_def)

lemma from_option_simps [simp, res_simps]:
  "from_option e None = Inl e"
  "from_option e (Some x) = Inr x"
  by (simp_all add: from_option_def)

lemma from_option_eq_Inr_iff [simp]: "from_option e x = Inr y \<longleftrightarrow> x = Some y"
  by (cases x) simp_all

text \<open>A fallible step over a list, left to right, that stops at the first failure.\<close>

fun fold_res :: "('a \<Rightarrow> 's \<Rightarrow> 's res) \<Rightarrow> 'a list \<Rightarrow> 's \<Rightarrow> 's res" where
  "fold_res f [] s = Inr s"
| "fold_res f (x # xs) s = and_then (f x s) (fold_res f xs)"

fun map_res :: "('a \<Rightarrow> 'b res) \<Rightarrow> 'a list \<Rightarrow> 'b list res" where
  "map_res f [] = Inr []"
| "map_res f (x # xs) = and_then (f x) (\<lambda>y. and_then (map_res f xs) (\<lambda>ys. Inr (y # ys)))"

lemma map_res_eq: "(\<And>x. x \<in> set xs \<Longrightarrow> f x = Inr (g x)) \<Longrightarrow> map_res f xs = Inr (map g xs)"
  by (induction xs) simp_all

lemma fold_res_append:
  "fold_res f (xs @ ys) s = and_then (fold_res f xs s) (fold_res f ys)"
proof (induction xs arbitrary: s)
  case Nil
  show ?case by simp
next
  case (Cons x xs)
  then show ?case by (cases "f x s") simp_all
qed

lemma fold_res_invariant:
  assumes "fold_res f xs s = Inr t" and "P s"
    and "\<And>x s s'. x \<in> set xs \<Longrightarrow> P s \<Longrightarrow> f x s = Inr s' \<Longrightarrow> P s'"
  shows "P t"
  using assms
proof (induction xs arbitrary: s)
  case Nil
  then show ?case by simp
next
  case (Cons x xs)
  from Cons.prems(1) obtain s' where s': "f x s = Inr s'" and rest: "fold_res f xs s' = Inr t"
    by auto
  have "P s'"
    using Cons.prems(3) [of x s s'] Cons.prems(2) s' by simp
  with rest show ?case
    by (rule Cons.IH) (meson Cons.prems(3) list.set_intros(2))
qed

subsection \<open>Ordered maps\<close>

text \<open>
  A \<^verbatim>\<open>std::map\<close>: its entries in the order of their keys, which is the order in which it is
  traversed. \<open>map_of\<close> is the lookup.
\<close>

fun omap_put :: "'k::linorder \<Rightarrow> 'v \<Rightarrow> ('k \<times> 'v) list \<Rightarrow> ('k \<times> 'v) list" where
  "omap_put k v [] = [(k, v)]"
| "omap_put k v ((k', v') # m) =
     (if k < k' then (k, v) # (k', v') # m
      else if k = k' then (k, v) # m
      else (k', v') # omap_put k v m)"

definition omap_wf :: "('k::linorder \<times> 'v) list \<Rightarrow> bool" where
  "omap_wf m \<longleftrightarrow> sorted_wrt (<) (map fst m)"

lemma omap_put_keys: "fst ` set (omap_put k v m) = insert k (fst ` set m)"
  by (induction k v m rule: omap_put.induct) auto

lemma omap_put_lookup:
  "omap_wf m \<Longrightarrow> map_of (omap_put k v m) = (map_of m)(k \<mapsto> v)"
proof (induction k v m rule: omap_put.induct)
  case (2 k v k' v' m)
  then have "k \<le> k' \<Longrightarrow> map_of m k = None"
    by (auto simp: omap_wf_def map_of_eq_None_iff)
  with 2 show ?case
    by (auto simp: omap_wf_def fun_eq_iff)
qed simp

lemma omap_put_wf: "omap_wf m \<Longrightarrow> omap_wf (omap_put k v m)"
proof (induction k v m rule: omap_put.induct)
  case (2 k v k' v' m)
  then show ?case
    using omap_put_keys [of k v m] by (auto simp: omap_wf_def)
qed (simp add: omap_wf_def)

subsection \<open>Little-endian byte encodings\<close>

fun le_bytes :: "nat \<Rightarrow> nat \<Rightarrow> byte list" where
  "le_bytes 0 x = []"
| "le_bytes (Suc n) x = word_of_nat (x mod 256) # le_bytes n (x div 256)"

fun le_nat :: "byte list \<Rightarrow> nat" where
  "le_nat [] = 0"
| "le_nat (b # bs) = unat b + 256 * le_nat bs"

lemma length_le_bytes [simp, bytes_simps]: "length (le_bytes n x) = n"
  by (induction n arbitrary: x) simp_all

lemma unat_byte_of_nat: "unat (word_of_nat n :: byte) = n mod 256"
  by (simp add: unsigned_of_nat take_bit_eq_mod)

lemma unat_byte_less [simp]: "unat (b :: byte) < 256"
  using unsigned_less [of b] by simp

lemma le_nat_le_bytes [bytes_simps]: "le_nat (le_bytes n x) = x mod 256 ^ n"
proof (induction n arbitrary: x)
  case 0
  show ?case by simp
next
  case (Suc n)
  have "le_nat (le_bytes (Suc n) x) = x mod 256 + 256 * (x div 256 mod 256 ^ n)"
    by (simp add: Suc unat_byte_of_nat)
  also have "\<dots> = x mod (256 * 256 ^ n)"
    by (simp add: mod_mult2_eq)
  finally show ?case by simp
qed

lemma le_nat_less: "le_nat bs < 256 ^ length bs"
proof (induction bs)
  case Nil
  show ?case by simp
next
  case (Cons b bs)
  have "unat b + 256 * le_nat bs < 256 + 256 * le_nat bs"
    by simp
  also have "\<dots> \<le> 256 * 256 ^ length bs"
    using Cons by (simp flip: mult_Suc_right)
  finally show ?case by simp
qed

lemma le_bytes_le_nat [bytes_simps]: "le_bytes (length bs) (le_nat bs) = bs"
proof (induction bs)
  case Nil
  show ?case by simp
next
  case (Cons b bs)
  have "(unat b + 256 * le_nat bs) mod 256 = unat b"
    by simp
  moreover have "(unat b + 256 * le_nat bs) div 256 = le_nat bs"
    by simp
  ultimately show ?case
    by (simp add: Cons)
qed

text \<open>The bytes of a machine integer in memory, and the integer read from bytes.\<close>

definition word_bytes :: "'a::len word \<Rightarrow> byte list" where
  "word_bytes w = le_bytes (LENGTH('a) div 8) (unat w)"

definition word_of_bytes :: "byte list \<Rightarrow> 'a::len word" where
  "word_of_bytes bs = word_of_nat (le_nat bs)"

lemma length_word_bytes [simp, bytes_simps]:
  "length (word_bytes (w :: 'a::len word)) = LENGTH('a) div 8"
  by (simp add: word_bytes_def)

lemma word_of_bytes_word_bytes:
  assumes "8 dvd LENGTH('a)"
  shows "word_of_bytes (word_bytes w) = (w :: 'a::len word)"
proof -
  have "(256::nat) ^ (LENGTH('a) div 8) = 2 ^ (8 * (LENGTH('a) div 8))"
    by (simp add: power_mult)
  also have "\<dots> = 2 ^ LENGTH('a)"
    using assms by simp
  finally have "le_nat (word_bytes w) = unat w mod 2 ^ LENGTH('a)"
    by (simp add: word_bytes_def le_nat_le_bytes)
  then show ?thesis
    by (simp add: word_of_bytes_def unsigned_less)
qed

lemma word_of_bytes_word_bytes_std [simp, bytes_simps]:
  "word_of_bytes (word_bytes (a :: 8 word)) = a"
  "word_of_bytes (word_bytes (b :: 16 word)) = b"
  "word_of_bytes (word_bytes (c :: 32 word)) = c"
  "word_of_bytes (word_bytes (d :: 64 word)) = d"
  by (simp_all add: word_of_bytes_word_bytes)

lemma unat_u32_of_nat: "n < 2 ^ 32 \<Longrightarrow> unat (word_of_nat n :: u32) = n"
  by (simp add: unsigned_of_nat take_bit_nat_eq_self)

subsection \<open>Codecs\<close>

text \<open>
  A reader undoes a writer when it consumes exactly what the writer produced, whatever follows.
  Sequences of values are then read back element by element.
\<close>

locale codec =
  fixes enc :: "'a \<Rightarrow> byte list"
    and dec :: "byte list \<Rightarrow> ('a \<times> byte list) option"
    and ok :: "'a \<Rightarrow> bool"
  assumes dec_enc: "ok x \<Longrightarrow> dec (enc x @ rest) = Some (x, rest)"
begin

fun dec_many :: "nat \<Rightarrow> byte list \<Rightarrow> ('a list \<times> byte list) option" where
  "dec_many 0 bs = Some ([], bs)"
| "dec_many (Suc n) bs = (case dec bs of None \<Rightarrow> None
     | Some (x, bs') \<Rightarrow> (case dec_many n bs' of None \<Rightarrow> None
        | Some (xs, bs'') \<Rightarrow> Some (x # xs, bs'')))"

lemma dec_many_enc:
  "\<forall>x \<in> set xs. ok x \<Longrightarrow>
   dec_many (length xs) (concat (map enc xs) @ rest) = Some (xs, rest)"
  by (induction xs) (simp_all add: dec_enc)

lemma enc_inj:
  assumes "ok x" and "ok y" and "enc x @ r = enc y @ s"
  shows "x = y \<and> r = s"
  using dec_enc [OF assms(1), of r] dec_enc [OF assms(2), of s] assms(3)
  by (metis option.inject prod.inject)

end

definition dec_u32 :: "byte list \<Rightarrow> (u32 \<times> byte list) option" where
  "dec_u32 bs = (if 4 \<le> length bs then Some (word_of_bytes (take 4 bs), drop 4 bs) else None)"

definition dec_u64 :: "byte list \<Rightarrow> (u64 \<times> byte list) option" where
  "dec_u64 bs = (if 8 \<le> length bs then Some (word_of_bytes (take 8 bs), drop 8 bs) else None)"

interpretation u32c: codec word_bytes dec_u32 "\<lambda>_. True"
  by unfold_locales (simp add: dec_u32_def)

interpretation u64c: codec word_bytes dec_u64 "\<lambda>_. True"
  by unfold_locales (simp add: dec_u64_def)

end
