(* ===== verification/Interval_Tree.thy ===== *)
theory Interval_Tree
  imports VPrelude
begin

section \<open>Intervals and the interval tree\<close>

text \<open>
  The classes \<^verbatim>\<open>Shift\<close> and \<^verbatim>\<open>Interval\<close> of \<^verbatim>\<open>memory/heap.cpp\<close> and the container
  \<^verbatim>\<open>IntervalTree\<close> of \<^verbatim>\<open>memory/intervalTree.h\<close>. The tree keeps a vector of pointers to
  intervals that live on the C++ heap, so its state is the vector together with the store the
  pointers point into; \<^verbatim>\<open>delete\<close> removes an object from the store and a later access is a
  \<open>Dangling_pointer\<close>. The container is a template over the interval class: the operations are
  polymorphic in the record extension, which \<^verbatim>\<open>Object\<close> instantiates.
\<close>

subsection \<open>Shift\<close>

record shift =
  oldBase :: addr
  newBase :: addr

definition shift_move :: "shift \<Rightarrow> addr \<Rightarrow> addr res" where
  "shift_move s a =
     and_then (check (oldBase s \<le> a) Assert_failed)
       (\<lambda>_. Inr (newBase s + (a - oldBase s)))"

subsection \<open>Interval\<close>

record interval =
  left :: addr
  right :: addr
  marked :: bool
  flushed :: bool

definition interval_default :: interval where
  "interval_default = \<lparr>left = 0, right = 0, marked = False, flushed = False\<rparr>"

definition mk_interval :: "addr \<Rightarrow> addr \<Rightarrow> interval" where
  "mk_interval leftValue sz =
     interval_default\<lparr>left := leftValue, right := leftValue + sz - 1\<rparr>"

definition interval_equal :: "'a interval_scheme \<Rightarrow> 'b interval_scheme \<Rightarrow> bool" where
  "interval_equal i other \<longleftrightarrow> left i = left other \<and> right i = right other"


definition interval_contains :: "'a interval_scheme \<Rightarrow> addr \<Rightarrow> bool" where
  "interval_contains i point \<longleftrightarrow> left i \<le> point \<and> point \<le> right i"

definition interval_includes :: "'a interval_scheme \<Rightarrow> 'b interval_scheme \<Rightarrow> bool" where
  "interval_includes i other \<longleftrightarrow> left i \<le> left other \<and> right other \<le> right i"

definition interval_intersects :: "'a interval_scheme \<Rightarrow> 'b interval_scheme \<Rightarrow> bool" where
  "interval_intersects i other \<longleftrightarrow>
     (left i \<le> right other \<and> right other \<le> right i) \<or>
     (left i \<le> left other \<and> left other \<le> right i)"

text \<open>
  \<^verbatim>\<open>Interval::intersect\<close> passes the smaller right end to the constructor's \<^verbatim>\<open>size\<close>
  parameter; the model keeps that call.
\<close>

definition interval_intersect :: "'a interval_scheme \<Rightarrow> 'b interval_scheme \<Rightarrow> interval res" where
  "interval_intersect i other =
     and_then (check (interval_intersects i other) Assert_failed)
       (\<lambda>_. Inr (mk_interval
          (if left i > left other then left i else left other)
          (if right i < right other then right i else right other)))"

definition interval_move :: "shift \<Rightarrow> 'a interval_scheme \<Rightarrow> 'a interval_scheme res" where
  "interval_move s i =
     and_then (shift_move s (left i)) (\<lambda>l.
     and_then (shift_move s (right i)) (\<lambda>r. Inr (i\<lparr>left := l, right := r\<rparr>)))"

definition interval_mark :: "'a interval_scheme \<Rightarrow> 'a interval_scheme res" where
  "interval_mark i =
     and_then (check (\<not> marked i) Assert_failed) (\<lambda>_. Inr (i\<lparr>marked := True\<rparr>))"

definition interval_unmark :: "'a interval_scheme \<Rightarrow> 'a interval_scheme res" where
  "interval_unmark i =
     and_then (check (marked i) Assert_failed) (\<lambda>_. Inr (i\<lparr>marked := False\<rparr>))"

definition interval_isMarked :: "'a interval_scheme \<Rightarrow> bool" where
  "interval_isMarked i = marked i"

definition interval_flush :: "'a interval_scheme \<Rightarrow> 'a interval_scheme res" where
  "interval_flush i =
     and_then (check (\<not> flushed i) Assert_failed) (\<lambda>_. Inr (i\<lparr>flushed := True\<rparr>))"

definition interval_isFlushed :: "'a interval_scheme \<Rightarrow> bool" where
  "interval_isFlushed i = flushed i"

subsection \<open>The tree\<close>

record 'o tree =
  objects :: "objid list"
  store :: "objid \<rightharpoonup> 'o"

definition deref :: "(objid \<rightharpoonup> 'o) \<Rightarrow> objid \<Rightarrow> 'o res" where
  "deref st p = from_option Dangling_pointer (st p)"

definition tree_add :: "objid \<Rightarrow> 'o tree \<Rightarrow> 'o tree" where
  "tree_add p t = t\<lparr>objects := objects t @ [p]\<rparr>"

fun find_from :: "(objid \<rightharpoonup> 'a interval_scheme) \<Rightarrow> objid list \<Rightarrow> addr \<Rightarrow> objid res" where
  "find_from st [] a = Inl (Fail_loud ''Unbound pointer!'')"
| "find_from st (p # ps) a =
     and_then (deref st p)
       (\<lambda>ob. if interval_contains ob a then Inr p else find_from st ps a)"

definition tree_find :: "'a interval_scheme tree \<Rightarrow> addr \<Rightarrow> objid res" where
  "tree_find t a = find_from (store t) (objects t) a"

text \<open>
  The body of a loop that updates the objects in place through their pointers.
\<close>

definition update_object :: "('o \<Rightarrow> 'o res) \<Rightarrow> objid \<Rightarrow> (objid \<rightharpoonup> 'o) \<Rightarrow> (objid \<rightharpoonup> 'o) res" where
  "update_object f p st =
     and_then (deref st p) (\<lambda>ob. and_then (f ob) (\<lambda>ob'. Inr (st(p \<mapsto> ob'))))"

definition move_and_mark_object ::
    "interval \<Rightarrow> shift \<Rightarrow> 'a interval_scheme \<Rightarrow> 'a interval_scheme res" where
  "move_and_mark_object iv s ob =
     (if interval_includes iv ob
      then and_then (interval_move s ob) interval_mark
      else and_then (check (\<not> interval_intersects iv ob) Assert_failed) (\<lambda>_. Inr ob))"

definition mark_object :: "interval \<Rightarrow> 'a interval_scheme \<Rightarrow> 'a interval_scheme res" where
  "mark_object iv ob =
     (if interval_includes iv ob
      then interval_mark ob
      else and_then (check (\<not> interval_intersects iv ob) Assert_failed) (\<lambda>_. Inr ob))"

definition tree_moveAndMark ::
    "interval \<Rightarrow> shift \<Rightarrow> 'a interval_scheme tree \<Rightarrow> 'a interval_scheme tree res" where
  "tree_moveAndMark iv s t =
     and_then (fold_res (update_object (move_and_mark_object iv s)) (objects t) (store t))
       (\<lambda>st. Inr (t\<lparr>store := st\<rparr>))"

definition tree_mark :: "interval \<Rightarrow> 'a interval_scheme tree \<Rightarrow> 'a interval_scheme tree res" where
  "tree_mark iv t =
     and_then (fold_res (update_object (mark_object iv)) (objects t) (store t))
       (\<lambda>st. Inr (t\<lparr>store := st\<rparr>))"

text \<open>\<^verbatim>\<open>clearUnmarked\<close> yields the marked pointers, the unmarked ones, and the store without the latter.\<close>

fun clear_loop :: "objid list \<Rightarrow> (objid \<rightharpoonup> 'a interval_scheme) \<Rightarrow>
    (objid list \<times> objid list \<times> (objid \<rightharpoonup> 'a interval_scheme)) res" where
  "clear_loop [] st = Inr ([], [], st)"
| "clear_loop (p # ps) st =
     and_then (deref st p) (\<lambda>ob.
       if interval_isMarked ob
       then and_then (interval_unmark ob) (\<lambda>ob'.
            and_then (clear_loop ps (st(p \<mapsto> ob'))) (\<lambda>(ms, us, st'). Inr (p # ms, us, st')))
       else and_then (clear_loop ps (st(p := None))) (\<lambda>(ms, us, st'). Inr (ms, p # us, st')))"

definition tree_clearUnmarked ::
    "'a interval_scheme tree \<Rightarrow> (objid list \<times> 'a interval_scheme tree) res" where
  "tree_clearUnmarked t =
     and_then (clear_loop (objects t) (store t))
       (\<lambda>(ms, us, st). Inr (us, t\<lparr>objects := ms, store := st\<rparr>))"

fun flush_loop :: "objid list \<Rightarrow> (objid \<rightharpoonup> 'a interval_scheme) \<Rightarrow>
    (objid list \<times> (objid \<rightharpoonup> 'a interval_scheme)) res" where
  "flush_loop [] st = Inr ([], st)"
| "flush_loop (p # ps) st =
     and_then (deref st p) (\<lambda>ob.
       if \<not> interval_isFlushed ob
       then and_then (interval_flush ob) (\<lambda>ob'.
            and_then (flush_loop ps (st(p \<mapsto> ob'))) (\<lambda>(ns, st'). Inr (p # ns, st')))
       else flush_loop ps st)"

definition tree_flush :: "'a interval_scheme tree \<Rightarrow> (objid list \<times> 'a interval_scheme tree) res" where
  "tree_flush t =
     and_then (flush_loop (objects t) (store t)) (\<lambda>(ns, st). Inr (ns, t\<lparr>store := st\<rparr>))"

subsection \<open>Facts about single intervals\<close>

definition interval_disjoint :: "'a interval_scheme \<Rightarrow> 'b interval_scheme \<Rightarrow> bool" where
  "interval_disjoint a b \<longleftrightarrow> right a < left b \<or> right b < left a"

definition shifted :: "shift \<Rightarrow> addr \<Rightarrow> addr" where
  "shifted s a = newBase s + (a - oldBase s)"

definition moved :: "shift \<Rightarrow> 'a interval_scheme \<Rightarrow> 'a interval_scheme" where
  "moved s i = i\<lparr>left := shifted s (left i), right := shifted s (right i)\<rparr>"

lemmas interval_defs =
  interval_contains_def interval_includes_def interval_intersects_def interval_disjoint_def

lemma interval_disjoint_sym: "interval_disjoint a b \<longleftrightarrow> interval_disjoint b a"
  by (auto simp: interval_disjoint_def)

lemma disjoint_not_contains:
  "interval_disjoint a b \<Longrightarrow> interval_contains a x \<Longrightarrow> \<not> interval_contains b x"
  by (auto simp: interval_defs)

lemma disjoint_not_intersects:
  "left b \<le> right b \<Longrightarrow> interval_disjoint a b \<Longrightarrow> \<not> interval_intersects a b"
  by (auto simp: interval_defs)

lemma interval_move_eq:
  assumes "oldBase s \<le> left i" and "left i \<le> right i"
  shows "interval_move s i = Inr (moved s i)"
proof -
  have "oldBase s \<le> right i"
    using assms by (rule order_trans)
  with assms(1) show ?thesis
    by (simp add: interval_move_def shift_move_def moved_def shifted_def)
qed

lemma moved_simps [simp]:
  "left (moved s i) = shifted s (left i)"
  "right (moved s i) = shifted s (right i)"
  "marked (moved s i) = marked i"
  "flushed (moved s i) = flushed i"
  by (simp_all add: moved_def)

text \<open>
  A shift that does not wrap around the address space keeps the order of the addresses it moves.
\<close>

definition shift_fits :: "shift \<Rightarrow> addr \<Rightarrow> bool" where
  "shift_fits s hi \<longleftrightarrow> oldBase s \<le> hi \<and> unat (newBase s) + unat (hi - oldBase s) < 2 ^ 64"

lemma unat_shifted:
  assumes "shift_fits s hi" and "oldBase s \<le> a" and "a \<le> hi"
  shows "unat (shifted s a) = unat (newBase s) + (unat a - unat (oldBase s))"
proof -
  have d: "unat (a - oldBase s) = unat a - unat (oldBase s)"
    using assms(2) by (simp add: unat_sub)
  have t: "unat (hi - oldBase s) = unat hi - unat (oldBase s)"
    using assms(1) by (simp add: shift_fits_def unat_sub)
  have "unat a \<le> unat hi"
    using assms(3) by (simp add: word_le_nat_alt)
  moreover have "unat (newBase s) + (unat hi - unat (oldBase s)) < 2 ^ 64"
    using assms(1) t by (simp add: shift_fits_def)
  ultimately have "unat (newBase s) + unat (a - oldBase s) < 2 ^ 64"
    unfolding d by linarith
  then show ?thesis
    using d by (simp add: shifted_def unat_word_ariths)
qed

lemma shifted_mono:
  assumes "shift_fits s hi" and "oldBase s \<le> a" and "a \<le> b" and "b \<le> hi"
  shows "shifted s a \<le> shifted s b"
proof -
  have "oldBase s \<le> b" and "a \<le> hi"
    using assms(2,3,4) by (auto intro: order_trans)
  then show ?thesis
    using assms(3) unat_shifted [OF assms(1,2)] unat_shifted [OF assms(1), of b] assms(4)
    by (simp add: word_le_nat_alt)
qed

lemma shifted_less_mono:
  assumes "shift_fits s hi" and "oldBase s \<le> a" and "a < b" and "b \<le> hi"
  shows "shifted s a < shifted s b"
proof -
  have o: "oldBase s \<le> b" and "a \<le> hi"
    using assms(2,3,4) by auto
  have "unat (oldBase s) \<le> unat a" "unat a < unat b"
    using assms(2,3) by (simp_all add: word_le_nat_alt word_less_nat_alt)
  then show ?thesis
    using unat_shifted [OF assms(1,2) \<open>a \<le> hi\<close>] unat_shifted [OF assms(1) o assms(4)]
    by (simp add: word_less_nat_alt)
qed

subsection \<open>Searching the tree\<close>

lemma deref_eq_Inr_iff [simp]: "deref st p = Inr ob \<longleftrightarrow> st p = Some ob"
  by (simp add: deref_def)

lemma deref_Some [simp]: "st p = Some ob \<Longrightarrow> deref st p = Inr ob"
  by simp

lemma find_from_sound:
  "find_from st ps a = Inr p \<Longrightarrow> p \<in> set ps \<and> (\<exists>ob. st p = Some ob \<and> interval_contains ob a)"
  by (induction ps) (auto split: if_splits)

lemma find_from_cases:
  assumes "\<forall>p \<in> set ps. st p \<noteq> None"
  shows "(\<exists>p. find_from st ps a = Inr p) \<or>
    (find_from st ps a = Inl (Fail_loud ''Unbound pointer!'') \<and>
     (\<forall>p \<in> set ps. \<forall>ob. st p = Some ob \<longrightarrow> \<not> interval_contains ob a))"
  using assms
proof (induction ps)
  case Nil
  then show ?case by simp
next
  case (Cons p ps)
  then obtain ob where "st p = Some ob" by auto
  with Cons show ?case
    by (cases "interval_contains ob a") auto
qed

subsection \<open>Updating every object\<close>

lemma fold_update_object_iff:
  assumes "distinct ps"
  shows "fold_res (update_object f) ps st = Inr st' \<longleftrightarrow>
    (\<forall>p \<in> set ps. \<exists>ob ob'. st p = Some ob \<and> f ob = Inr ob' \<and> st' p = Some ob') \<and>
    (\<forall>p. p \<notin> set ps \<longrightarrow> st' p = st p)"
  using assms
proof (induction ps arbitrary: st)
  case Nil
  show ?case by auto
next
  case (Cons q ps)
  then have q: "q \<notin> set ps" and IH: "\<And>st. fold_res (update_object f) ps st = Inr st' \<longleftrightarrow>
      (\<forall>p \<in> set ps. \<exists>ob ob'. st p = Some ob \<and> f ob = Inr ob' \<and> st' p = Some ob') \<and>
      (\<forall>p. p \<notin> set ps \<longrightarrow> st' p = st p)"
    by auto
  show ?case
  proof (cases "\<exists>ob ob'. st q = Some ob \<and> f ob = Inr ob'")
    case True
    then obtain ob ob' where "st q = Some ob" "f ob = Inr ob'" by blast
    moreover from this have "fold_res (update_object f) (q # ps) st =
        fold_res (update_object f) ps (st(q \<mapsto> ob'))"
      by (simp add: update_object_def)
    ultimately show ?thesis
      using q by (auto simp: IH)
  next
    case False
    then show ?thesis
      by (auto simp: update_object_def res_simps)
  qed
qed

lemma fold_update_object:
  assumes "distinct ps"
    and "\<And>p. p \<in> set ps \<Longrightarrow> \<exists>ob. st p = Some ob \<and> f ob = Inr (g ob)"
  shows "fold_res (update_object f) ps st =
    Inr (\<lambda>p. if p \<in> set ps then map_option g (st p) else st p)"
  using assms(2) by (subst fold_update_object_iff [OF assms(1)]) fastforce


lemma clear_loop_eq:
  assumes "distinct ps" and "\<And>p. p \<in> set ps \<Longrightarrow> st p \<noteq> None"
  defines "keep \<equiv> \<lambda>p. marked (the (st p))"
  shows "clear_loop ps st =
    Inr (filter keep ps, filter (\<lambda>p. \<not> keep p) ps,
      \<lambda>p. if p \<in> set ps
          then if keep p then map_option (\<lambda>ob. ob\<lparr>marked := False\<rparr>) (st p) else None
          else st p)"
  using assms(1,2) unfolding keep_def
proof (induction ps arbitrary: st)
  case Nil
  show ?case by simp
next
  case (Cons q ps)
  then obtain ob where q: "st q = Some ob" "q \<notin> set ps" "distinct ps" by auto
  define st' where "st' = st(q := if marked ob then Some (ob\<lparr>marked := False\<rparr>) else None)"
  have same: "\<And>p. p \<in> set ps \<Longrightarrow> st' p = st p"
    using q by (auto simp: st'_def)
  then have live: "\<And>p. p \<in> set ps \<Longrightarrow> st' p \<noteq> None"
    using Cons.prems(2) by simp
  have filters: "filter (\<lambda>p. marked (the (st' p))) ps = filter (\<lambda>p. marked (the (st p))) ps"
    "filter (\<lambda>p. \<not> marked (the (st' p))) ps = filter (\<lambda>p. \<not> marked (the (st p))) ps"
    using same by (auto intro!: filter_cong)
  have "clear_loop ps st' =
    Inr (filter (\<lambda>p. marked (the (st' p))) ps, filter (\<lambda>p. \<not> marked (the (st' p))) ps,
      \<lambda>p. if p \<in> set ps
          then if marked (the (st' p)) then map_option (\<lambda>ob. ob\<lparr>marked := False\<rparr>) (st' p) else None
          else st' p)"
    using q(3) live by (rule Cons.IH)
  then have "clear_loop ps st' =
    Inr (filter (\<lambda>p. marked (the (st p))) ps, filter (\<lambda>p. \<not> marked (the (st p))) ps,
      \<lambda>p. if p \<in> set ps
          then if marked (the (st p)) then map_option (\<lambda>ob. ob\<lparr>marked := False\<rparr>) (st p) else None
          else st' p)"
    unfolding filters using same by (simp cong: if_cong)
  then show ?case
    using q by (cases "marked ob")
      (auto simp: fun_eq_iff st'_def interval_isMarked_def interval_unmark_def)
qed

subsection \<open>The invariant of the tree and its operations\<close>

text \<open>
  The vector holds each live object once, the intervals are not empty and no two of them share
  an address.
\<close>

definition tree_inv :: "'a interval_scheme tree \<Rightarrow> bool" where
  "tree_inv t \<longleftrightarrow>
     distinct (objects t) \<and>
     set (objects t) = dom (store t) \<and>
     (\<forall>p ob. store t p = Some ob \<longrightarrow> left ob \<le> right ob) \<and>
     (\<forall>p q a b. p \<noteq> q \<longrightarrow> store t p = Some a \<longrightarrow> store t q = Some b \<longrightarrow> interval_disjoint a b)"

lemma tree_invD:
  assumes "tree_inv t"
  shows "distinct (objects t)"
    and "set (objects t) = dom (store t)"
    and "store t p = Some ob \<Longrightarrow> left ob \<le> right ob"
    and "p \<noteq> q \<Longrightarrow> store t p = Some a \<Longrightarrow> store t q = Some b \<Longrightarrow> interval_disjoint a b"
  using assms by (auto simp: tree_inv_def)

lemma tree_inv_live: "tree_inv t \<Longrightarrow> p \<in> set (objects t) \<Longrightarrow> \<exists>ob. store t p = Some ob"
  by (auto simp: tree_inv_def)

lemma tree_find_iff:
  assumes "tree_inv t"
  shows "tree_find t a = Inr p \<longleftrightarrow> (\<exists>ob. store t p = Some ob \<and> interval_contains ob a)"
proof
  assume "tree_find t a = Inr p"
  then show "\<exists>ob. store t p = Some ob \<and> interval_contains ob a"
    unfolding tree_find_def by (blast dest: find_from_sound)
next
  assume "\<exists>ob. store t p = Some ob \<and> interval_contains ob a"
  then obtain ob where ob: "store t p = Some ob" "interval_contains ob a" by blast
  have live: "\<forall>p \<in> set (objects t). store t p \<noteq> None"
    using tree_invD(2) [OF assms] by auto
  have "p \<in> set (objects t)"
    using ob(1) tree_invD(2) [OF assms] by auto
  with ob obtain q where q: "find_from (store t) (objects t) a = Inr q"
    using find_from_cases [OF live, of a] by blast
  then obtain ob' where "store t q = Some ob'" "interval_contains ob' a"
    by (blast dest: find_from_sound)
  then have "q = p"
    using ob disjoint_not_contains tree_invD(4) [OF assms] by blast
  with q show "tree_find t a = Inr p"
    by (simp add: tree_find_def)
qed

lemma tree_find_unbound:
  assumes "tree_inv t" and "\<And>p ob. store t p = Some ob \<Longrightarrow> \<not> interval_contains ob a"
  shows "tree_find t a = Inl (Fail_loud ''Unbound pointer!'')"
proof -
  have live: "\<forall>p \<in> set (objects t). store t p \<noteq> None"
    using tree_invD(2) [OF assms(1)] by auto
  have "\<nexists>p. find_from (store t) (objects t) a = Inr p"
    using assms(2) by (meson find_from_sound)
  then show ?thesis
    using find_from_cases [OF live, of a] by (auto simp: tree_find_def)
qed

lemma fold_store_eq:
  assumes "distinct (objects t)" and dom: "set (objects t) = dom (store t)"
    and f: "\<And>p ob. store t p = Some ob \<Longrightarrow> f ob = Inr (g ob)"
  shows "fold_res (update_object f) (objects t) (store t) = Inr (map_option g \<circ> store t)"
proof -
  have "\<exists>ob. store t p = Some ob \<and> f ob = Inr (g ob)" if "p \<in> set (objects t)" for p
    using that dom f by auto
  then have "fold_res (update_object f) (objects t) (store t) =
      Inr (\<lambda>p. if p \<in> set (objects t) then map_option g (store t p) else store t p)"
    by (rule fold_update_object [OF assms(1)])
  also have "(\<lambda>p. if p \<in> set (objects t) then map_option g (store t p) else store t p) =
      map_option g \<circ> store t"
    using dom by (auto simp: fun_eq_iff dom_def)
  finally show ?thesis .
qed

lemma clear_store_eq:
  assumes "distinct (objects t)" and dom: "set (objects t) = dom (store t)"
  defines "keep \<equiv> \<lambda>p. marked (the (store t p))"
  shows "tree_clearUnmarked t =
    Inr (filter (\<lambda>p. \<not> keep p) (objects t),
      t\<lparr>objects := filter keep (objects t),
        store := \<lambda>p. if keep p then map_option (\<lambda>ob. ob\<lparr>marked := False\<rparr>) (store t p) else None\<rparr>)"
proof -
  have "clear_loop (objects t) (store t) =
    Inr (filter keep (objects t), filter (\<lambda>p. \<not> keep p) (objects t),
      \<lambda>p. if p \<in> set (objects t)
          then if keep p then map_option (\<lambda>ob. ob\<lparr>marked := False\<rparr>) (store t p) else None
          else store t p)"
    unfolding keep_def using dom by (intro clear_loop_eq [OF assms(1)]) auto
  also have "(\<lambda>p. if p \<in> set (objects t)
          then if keep p then map_option (\<lambda>ob. ob\<lparr>marked := False\<rparr>) (store t p) else None
          else store t p) =
      (\<lambda>p. if keep p then map_option (\<lambda>ob. ob\<lparr>marked := False\<rparr>) (store t p) else None)"
    using dom by (auto simp: fun_eq_iff dom_def)
  finally show ?thesis
    by (simp add: tree_clearUnmarked_def)
qed

lemma tree_clearUnmarked_eq:
  assumes "tree_inv t"
  defines "keep \<equiv> \<lambda>p. marked (the (store t p))"
  shows "tree_clearUnmarked t =
    Inr (filter (\<lambda>p. \<not> keep p) (objects t),
      t\<lparr>objects := filter keep (objects t),
        store := \<lambda>p. if keep p then map_option (\<lambda>ob. ob\<lparr>marked := False\<rparr>) (store t p) else None\<rparr>)"
  unfolding keep_def by (rule clear_store_eq [OF tree_invD(1,2) [OF assms(1)]])

subsection \<open>Moved ranges\<close>

definition destination :: "interval \<Rightarrow> shift \<Rightarrow> interval" where
  "destination iv s = iv\<lparr>left := newBase s, right := shifted s (right iv)\<rparr>"

lemma included_moved_in_destination:
  assumes fits: "shift_fits s (right iv)" and base: "oldBase s = left iv"
    and "interval_includes iv ob" and "left ob \<le> right ob"
  shows "newBase s \<le> shifted s (left ob)" and "shifted s (left ob) \<le> shifted s (right ob)"
    and "shifted s (right ob) \<le> shifted s (right iv)"
proof -
  have le: "oldBase s \<le> left ob" "right ob \<le> right iv"
    using assms(3) base by (auto simp: interval_includes_def)
  have "shifted s (oldBase s) \<le> shifted s (left ob)"
    using fits le assms(4) by (intro shifted_mono [of s "right iv"]) auto
  then show "newBase s \<le> shifted s (left ob)"
    by (simp add: shifted_def)
  show "shifted s (left ob) \<le> shifted s (right ob)"
    using fits le assms(4) by (intro shifted_mono [of s "right iv"]) auto
  show "shifted s (right ob) \<le> shifted s (right iv)"
    using fits le assms(4) by (intro shifted_mono [of s "right iv"]) auto
qed

lemma moved_disjoint:
  assumes fits: "shift_fits s (right iv)" and base: "oldBase s = left iv" and ab: "interval_disjoint a b"
    and "interval_includes iv a" "left a \<le> right a" "interval_includes iv b" "left b \<le> right b"
  shows "interval_disjoint (moved s a) (moved s b)"
proof -
  have le: "oldBase s \<le> left a" "oldBase s \<le> left b" "right a \<le> right iv" "right b \<le> right iv"
    using assms(4,6) base by (auto simp: interval_includes_def)
  then have "oldBase s \<le> right a" "oldBase s \<le> right b" "left a \<le> right iv" "left b \<le> right iv"
    using assms(5,7) by (auto intro: order_trans)
  then show ?thesis
    using ab le shifted_less_mono [OF fits, of "right a" "left b"]
      shifted_less_mono [OF fits, of "right b" "left a"]
    by (auto simp: interval_disjoint_def)
qed

lemma tree_clearUnmarked_inv:
  assumes "tree_inv t" and "tree_clearUnmarked t = Inr (us, t')"
  shows "tree_inv t'"
  using assms tree_clearUnmarked_eq [OF assms(1)]
  by (fastforce simp: tree_inv_def dom_def interval_disjoint_def split: if_splits)

end
