(* ===== verification/Object_Bits.thy ===== *)
theory Object_Bits
  imports Interval_Tree
begin

section \<open>Objects and the concreteness of their bytes\<close>

text \<open>
  The class \<^verbatim>\<open>Object\<close> of \<^verbatim>\<open>memory/heap.cpp\<close>: an interval with one bit per byte of the
  object, packed eight to a cell, that says whether the byte is concrete. Byte \<open>k\<close> is bit
  \<open>7 - k mod 8\<close> of cell \<open>k div 8\<close>. An access to a cell outside the array is
  \<open>Out_of_bounds\<close>.
\<close>

subsection \<open>The class\<close>

record object = interval +
  concreteness :: "byte list"

abbreviation max_cell :: byte where
  "max_cell \<equiv> 0xFF"

abbreviation min_cell :: byte where
  "min_cell \<equiv> 0x00"

abbreviation sizeofCell :: nat where
  "sizeofCell \<equiv> 8"

definition mk_object :: "addr \<Rightarrow> addr \<Rightarrow> object res" where
  "mk_object address sz =
     and_then (check (0 < sz) Assert_failed) (\<lambda>_.
       let squashedSize = unat (sz + 8 - 1) div sizeofCell
       in Inr (interval.extend (mk_interval address sz)
            \<lparr>concreteness = replicate squashedSize max_cell\<rparr>))"

definition cell_at :: "byte list \<Rightarrow> nat \<Rightarrow> byte res" where
  "cell_at cs i = (if i < length cs then Inr (cs ! i) else Inl Out_of_bounds)"

definition set_cell :: "nat \<Rightarrow> byte \<Rightarrow> byte list \<Rightarrow> byte list res" where
  "set_cell i c cs = (if i < length cs then Inr (cs[i := c]) else Inl Out_of_bounds)"

text \<open>
  The masks of a read or write that starts or ends inside a cell. A \<^verbatim>\<open>cell\<close> is a
  \<^verbatim>\<open>char\<close>: both operands are promoted to \<^verbatim>\<open>int\<close> before they are shifted, so the shift
  of \<^verbatim>\<open>max\<close> to the right is an arithmetic shift of \<open>-1\<close>, and the result is cut to a cell.
\<close>

definition start_mask :: "nat \<Rightarrow> byte" where
  "start_mask startOffset =
     (let shift = sizeofCell - startOffset in word_of_int (push_bit shift 1 - 1))"

definition end_mask :: "nat \<Rightarrow> byte" where
  "end_mask endOffset =
     (let shift = sizeofCell - endOffset
      in word_of_int (push_bit shift (drop_bit shift (sint max_cell))))"

text \<open>
  The whole cells of the range: the loop variable is a 32-bit \<^verbatim>\<open>unsigned\<close>, so its first value
  is truncated.
\<close>

definition whole_cells :: "nat \<Rightarrow> nat \<Rightarrow> nat \<Rightarrow> nat list" where
  "whole_cells startIndex startOffset endIndex =
     [(startIndex + (if startOffset \<noteq> 0 then 1 else 0)) mod 2 ^ 32 ..< endIndex]"

fun all_max :: "byte list \<Rightarrow> nat list \<Rightarrow> bool res" where
  "all_max cs [] = Inr True"
| "all_max cs (i # is) =
     and_then (cell_at cs i) (\<lambda>c. if c = max_cell then all_max cs is else Inr False)"

definition object_read :: "'a object_scheme \<Rightarrow> addr \<Rightarrow> addr \<Rightarrow> bool res" where
  "object_read ob offset sz =
     and_then (check (0 < sz) Assert_failed) (\<lambda>_.
     let cs = concreteness ob;
         startOffset = unat offset mod sizeofCell;
         startIndex = unat offset div sizeofCell;
         endOffset = unat (offset + sz) mod sizeofCell;
         endIndex = unat (offset + sz) div sizeofCell;
         startMask = start_mask startOffset;
         endMask = end_mask endOffset
     in and_then (all_max cs (whole_cells startIndex startOffset endIndex)) (\<lambda>b.
        if \<not> b then Inr False else
        and_then (if startOffset \<noteq> 0
                  then and_then (cell_at cs startIndex) (\<lambda>c. Inr (c AND startMask = startMask))
                  else Inr True) (\<lambda>b.
        if \<not> b then Inr False else
        if endOffset \<noteq> 0
        then and_then (cell_at cs endIndex) (\<lambda>c. Inr (c AND endMask = endMask))
        else Inr True)))"

definition write_mask :: "nat \<Rightarrow> byte \<Rightarrow> bool \<Rightarrow> byte list \<Rightarrow> byte list res" where
  "write_mask i m vConcreteness cs =
     and_then (cell_at cs i)
       (\<lambda>c. set_cell i (if vConcreteness then c OR m else c AND NOT m) cs)"

definition object_write :: "addr \<Rightarrow> addr \<Rightarrow> bool \<Rightarrow> 'a object_scheme \<Rightarrow> 'a object_scheme res" where
  "object_write offset sz vConcreteness ob =
     and_then (check (0 < sz) Assert_failed) (\<lambda>_.
     let startOffset = unat offset mod sizeofCell;
         startIndex = unat offset div sizeofCell;
         endOffset = unat (offset + sz) mod sizeofCell;
         endIndex = unat (offset + sz) div sizeofCell;
         startMask = start_mask startOffset;
         endMask = end_mask endOffset
     in and_then (fold_res (\<lambda>i. set_cell i (if vConcreteness then max_cell else min_cell))
                    (whole_cells startIndex startOffset endIndex) (concreteness ob)) (\<lambda>cs.
        and_then (if startOffset \<noteq> 0 then write_mask startIndex startMask vConcreteness cs
                  else Inr cs) (\<lambda>cs.
        and_then (if endOffset \<noteq> 0 then write_mask endIndex endMask vConcreteness cs
                  else Inr cs) (\<lambda>cs.
        Inr (ob\<lparr>concreteness := cs\<rparr>)))))"

subsection \<open>The bytes the cells stand for\<close>

definition byte_bit :: "byte \<Rightarrow> nat \<Rightarrow> bool" where
  "byte_bit c j = bit c (7 - j)"

definition byte_concrete :: "'a object_scheme \<Rightarrow> nat \<Rightarrow> bool" where
  "byte_concrete ob k = byte_bit (concreteness ob ! (k div 8)) (k mod 8)"

text \<open>
  A range is inside an object's array when it ends at or before the last byte the cells stand for;
  it touches cell borders well when it does not lie strictly inside one cell.
\<close>

definition range_inside :: "'a object_scheme \<Rightarrow> addr \<Rightarrow> addr \<Rightarrow> bool" where
  "range_inside ob offset sz \<longleftrightarrow>
     0 < sz \<and> unat offset + unat sz \<le> 8 * length (concreteness ob) \<and>
     length (concreteness ob) < 2 ^ 32"

definition range_crosses :: "addr \<Rightarrow> addr \<Rightarrow> bool" where
  "range_crosses offset sz \<longleftrightarrow>
     unat offset mod 8 = 0 \<or> (unat offset + unat sz) mod 8 = 0 \<or>
     unat offset div 8 < (unat offset + unat sz) div 8"

lemma byte_bit_start_mask:
  assumes "s \<le> 8" and "j < 8" shows "byte_bit (start_mask s) j \<longleftrightarrow> s \<le> j"
proof -
  have "start_mask s = word_of_int (mask (8 - s))"
    by (simp add: start_mask_def mask_eq_exp_minus_1 push_bit_of_1)
  with assms show ?thesis
    by (auto simp: byte_bit_def bit_mask_iff bit_word_of_int_iff)
qed

lemma byte_bit_end_mask:
  assumes "e \<le> 8" and "j < 8" shows "byte_bit (end_mask e) j \<longleftrightarrow> j < e"
proof -
  have "sint max_cell = - 1"
    by simp
  then have "end_mask e = word_of_int (push_bit (8 - e) (- 1))"
    by (simp add: end_mask_def Let_def)
  with assms show ?thesis
    by (auto simp: byte_bit_def bit_word_of_int_iff bit_push_bit_iff bit_not_iff bit_mask_iff)
qed

lemma byte_bit_max_cell: "j < 8 \<Longrightarrow> byte_bit max_cell j"
proof -
  have "max_cell = NOT 0"
    by simp
  then show "j < 8 \<Longrightarrow> byte_bit max_cell j"
    unfolding byte_bit_def by (simp only: bit_not_iff) simp
qed

lemma byte_bit_ops:
  assumes "j < 8"
  shows "byte_bit (a OR b) j \<longleftrightarrow> byte_bit a j \<or> byte_bit b j"
    and "byte_bit (a AND b) j \<longleftrightarrow> byte_bit a j \<and> byte_bit b j"
    and "byte_bit (NOT a) j \<longleftrightarrow> \<not> byte_bit a j"
    and "\<not> byte_bit 0 j"
  using assms by (auto simp: byte_bit_def bit_or_iff bit_and_iff bit_not_iff)

lemma byte_eq_iff: "a = b \<longleftrightarrow> (\<forall>j<8. byte_bit a j \<longleftrightarrow> byte_bit b j)"
proof
  assume "\<forall>j<8. byte_bit a j \<longleftrightarrow> byte_bit b j"
  then have "bit a n \<longleftrightarrow> bit b n" if "n < 8" for n
    using that by (auto simp: byte_bit_def dest: spec [of _ "7 - n"])
  then show "a = b"
    by (intro bit_word_eqI) simp
qed simp

lemma masked_eq_iff: "c AND m = m \<longleftrightarrow> (\<forall>j<8. byte_bit m j \<longrightarrow> byte_bit c j)"
  by (auto simp: byte_eq_iff byte_bit_ops)

subsection \<open>What a read and a write touch\<close>

text \<open>
  The bytes an access of the range from \<open>o1\<close> up to \<open>e\<close> looks at or changes: the whole cells
  inside it, the tail of the cell it starts in and the head of the cell it ends in.
\<close>

definition touched :: "nat \<Rightarrow> nat \<Rightarrow> nat \<Rightarrow> bool" where
  "touched o1 e k \<longleftrightarrow>
     o1 div 8 + (if o1 mod 8 \<noteq> 0 then 1 else 0) \<le> k div 8 \<and> k div 8 < e div 8 \<or>
     o1 mod 8 \<noteq> 0 \<and> k div 8 = o1 div 8 \<and> o1 mod 8 \<le> k mod 8 \<or>
     e mod 8 \<noteq> 0 \<and> k div 8 = e div 8 \<and> k mod 8 < e mod 8"

lemma in_cell_le_iff:
  assumes "b < 8" and "d < (8::nat)"
  shows "8 * a + b \<le> 8 * c + d \<longleftrightarrow> a < c \<or> a = c \<and> b \<le> d"
  using assms by (cases a c rule: linorder_cases) auto

lemma touched_cells:
  assumes "b < 8" and "d < 8" and "j < 8"
  shows "touched (8 * a + b) (8 * c + d) (8 * i + j) \<longleftrightarrow>
     a + (if b \<noteq> 0 then 1 else 0) \<le> i \<and> i < c \<or> b \<noteq> 0 \<and> i = a \<and> b \<le> j \<or>
     d \<noteq> 0 \<and> i = c \<and> j < d"
  using assms by (simp add: touched_def)

lemma cell_cases:
  obtains a b where "n = 8 * a + b" and "b < (8::nat)"
  by (rule that [of "n div 8" "n mod 8"]) simp_all

lemma touched_crossing:
  assumes "o1 < e" and "o1 mod 8 = 0 \<or> e mod 8 = 0 \<or> o1 div 8 < e div 8"
  shows "touched o1 e k \<longleftrightarrow> o1 \<le> k \<and> k < e"
proof -
  obtain a b where o1: "o1 = 8 * a + b" and b: "b < 8" by (rule cell_cases)
  obtain c d where e: "e = 8 * c + d" and d: "d < 8" by (rule cell_cases)
  obtain i j where k: "k = 8 * i + j" and j: "j < 8" by (rule cell_cases)
  have oe: "a < c \<or> a = c \<and> b < d"
    using assms(1) in_cell_le_iff [OF d b, of c a] unfolding o1 e not_le [symmetric] by auto
  have "b = 0 \<or> d = 0 \<or> a < c"
    using assms(2) b d by (simp add: o1 e)
  moreover have "k < e \<longleftrightarrow> i < c \<or> i = c \<and> j < d"
    using in_cell_le_iff [OF d j, of c i] unfolding k e not_le [symmetric] by auto
  moreover have "o1 \<le> k \<longleftrightarrow> a < i \<or> a = i \<and> b \<le> j"
    using in_cell_le_iff [OF b j, of a i] unfolding k o1 .
  moreover have "touched o1 e k \<longleftrightarrow> a + (if b \<noteq> 0 then 1 else 0) \<le> i \<and> i < c \<or>
      b \<noteq> 0 \<and> i = a \<and> b \<le> j \<or> d \<noteq> 0 \<and> i = c \<and> j < d"
    unfolding o1 e k by (rule touched_cells [OF b d j])
  ultimately show ?thesis
    using oe by (cases "b = 0") auto
qed

lemma touched_inside_cell:
  assumes "o1 < e" and "o1 mod 8 \<noteq> 0" and "e mod 8 \<noteq> 0" and "o1 div 8 = e div 8"
  shows "touched o1 e k \<longleftrightarrow> k div 8 = o1 div 8"
proof -
  have "o1 mod 8 < e mod 8"
    using assms(1,4) by (metis add_less_cancel_left mult_div_mod_eq)
  then show ?thesis
    using assms(2-4) by (auto simp: touched_def)
qed

lemma all_max_eq:
  "\<forall>i \<in> set ns. i < length cs \<Longrightarrow> all_max cs ns = Inr (\<forall>i \<in> set ns. cs ! i = max_cell)"
  by (induction ns) (simp_all add: cell_at_def)

lemma fold_set_cell_eq:
  "\<forall>i \<in> set ns. i < length cs \<Longrightarrow>
   \<exists>cs'. fold_res (\<lambda>i. set_cell i v) ns cs = Inr cs' \<and> length cs' = length cs \<and>
     (\<forall>i < length cs. cs' ! i = (if i \<in> set ns then v else cs ! i))"
proof (induction ns arbitrary: cs)
  case Nil
  show ?case by simp
next
  case (Cons n ns)
  have "\<forall>i \<in> set ns. i < length (cs[n := v])"
    using Cons.prems by simp
  from Cons.IH [OF this] obtain cs' where cs':
      "fold_res (\<lambda>i. set_cell i v) ns (cs[n := v]) = Inr cs'"
      "length cs' = length cs"
      "\<forall>j < length cs. cs' ! j = (if j \<in> set ns then v else cs[n := v] ! j)"
    by auto
  have "set_cell n v cs = Inr (cs[n := v])"
    using Cons.prems by (simp add: set_cell_def)
  then show ?case
    using cs' by (simp add: nth_list_update)
qed

lemma write_mask_eq:
  assumes "i < length cs"
  shows "\<exists>cs'. write_mask i m v cs = Inr cs' \<and> length cs' = length cs \<and>
    (\<forall>n < length cs. \<forall>j < 8. byte_bit (cs' ! n) j =
       (if n = i \<and> byte_bit m j then v else byte_bit (cs ! n) j))"
  using assms
  by (auto simp: write_mask_def cell_at_def set_cell_def nth_list_update byte_bit_ops)

lemma range_inside_end:
  assumes "range_inside ob offset sz"
  shows "unat (offset + sz) = unat offset + unat sz" and "0 < unat sz"
    and "unat (offset + sz) \<le> 8 * length (concreteness ob)"
proof -
  have "unat offset + unat sz < 2 ^ 64"
    using assms by (simp add: range_inside_def)
  then show "unat (offset + sz) = unat offset + unat sz"
    by (simp add: unat_word_ariths)
  then show "unat (offset + sz) \<le> 8 * length (concreteness ob)"
    using assms by (simp add: range_inside_def)
  show "0 < unat sz"
    using assms by (simp add: range_inside_def word_less_nat_alt)
qed

lemma range_inside_cells:
  assumes "range_inside ob offset sz"
  defines "o1 \<equiv> unat offset" and "e \<equiv> unat (offset + sz)"
  shows "whole_cells (o1 div 8) (o1 mod 8) (e div 8) =
      [o1 div 8 + (if o1 mod 8 \<noteq> 0 then 1 else 0) ..< e div 8]"
    and "e div 8 \<le> length (concreteness ob)"
    and "e mod 8 \<noteq> 0 \<Longrightarrow> e div 8 < length (concreteness ob)"
    and "o1 div 8 < length (concreteness ob)"
proof -
  note e = range_inside_end [OF assms(1), folded o1_def e_def]
  show "e div 8 \<le> length (concreteness ob)"
    using e(3) by linarith
  show "e div 8 < length (concreteness ob)" if "e mod 8 \<noteq> 0"
    using e(3) that by presburger
  show less: "o1 div 8 < length (concreteness ob)"
    using e by linarith
  have "length (concreteness ob) < 2 ^ 32"
    using assms(1) by (simp add: range_inside_def)
  with less have "(o1 div 8 + (if o1 mod 8 \<noteq> 0 then 1 else 0)) mod 2 ^ 32 =
      o1 div 8 + (if o1 mod 8 \<noteq> 0 then 1 else 0) \<or> o1 div 8 + 1 = 2 ^ 32"
    by (intro disjCI mod_less) auto
  with less \<open>length (concreteness ob) < 2 ^ 32\<close>
  show "whole_cells (o1 div 8) (o1 mod 8) (e div 8) =
      [o1 div 8 + (if o1 mod 8 \<noteq> 0 then 1 else 0) ..< e div 8]"
    unfolding whole_cells_def by auto
qed

lemma touched_whole_cell:
  assumes "o1 < e"
  shows "(\<forall>k. touched o1 e k \<longrightarrow> P (k div 8) (k mod 8)) \<longleftrightarrow>
    (\<forall>i \<in> set [o1 div 8 + (if o1 mod 8 \<noteq> 0 then 1 else 0) ..< e div 8]. \<forall>j<8. P i j) \<and>
    (o1 mod 8 \<noteq> 0 \<longrightarrow> (\<forall>j<8. o1 mod 8 \<le> j \<longrightarrow> P (o1 div 8) j)) \<and>
    (e mod 8 \<noteq> 0 \<longrightarrow> (\<forall>j<8. j < e mod 8 \<longrightarrow> P (e div 8) j))"
    (is "?l \<longleftrightarrow> ?w \<and> ?s \<and> ?e")
proof
  assume l: ?l
  have at: "touched o1 e (8 * i + j) \<Longrightarrow> j < 8 \<Longrightarrow> P i j" for i j
    using l [rule_format, of "8 * i + j"] by simp
  show "?w \<and> ?s \<and> ?e"
    by (auto intro!: at simp: touched_def)
next
  assume r: "?w \<and> ?s \<and> ?e"
  show ?l
  proof (intro allI impI)
    fix k
    assume "touched o1 e k"
    moreover have "k mod 8 < 8"
      by simp
    ultimately show "P (k div 8) (k mod 8)"
      unfolding touched_def using r by (elim disjE conjE) simp_all
  qed
qed

lemma sequential_and:
  "(if \<not> a then Inr False else if \<not> b then Inr False else Inr c) = Inr (a \<and> b \<and> c)"
  by simp

lemma object_read_eq:
  assumes "range_inside ob offset sz"
  shows "object_read ob offset sz =
    Inr (\<forall>k. touched (unat offset) (unat (offset + sz)) k \<longrightarrow> byte_concrete ob k)"
proof -
  define o1 e where "o1 = unat offset" and "e = unat (offset + sz)"
  note cells = range_inside_cells [OF assms, folded o1_def e_def]
  note ends = range_inside_end [OF assms, folded o1_def e_def]
  let ?cs = "concreteness ob"
  have "o1 < e"
    using ends by simp
  note t = touched_whole_cell [OF this, of "\<lambda>i j. byte_bit (?cs ! i) j"]
  have whole: "all_max ?cs (whole_cells (o1 div 8) (o1 mod 8) (e div 8)) =
      Inr (\<forall>i \<in> set [o1 div 8 + (if o1 mod 8 \<noteq> 0 then 1 else 0) ..< e div 8].
        \<forall>j<8. byte_bit (?cs ! i) j)"
    unfolding cells(1) using cells(2)
    by (subst all_max_eq) (auto simp: byte_eq_iff byte_bit_max_cell)
  have start: "(if o1 mod 8 \<noteq> 0
        then and_then (cell_at ?cs (o1 div 8))
          (\<lambda>c. Inr (c AND start_mask (o1 mod 8) = start_mask (o1 mod 8)))
        else Inr True) =
      Inr (o1 mod 8 \<noteq> 0 \<longrightarrow> (\<forall>j<8. o1 mod 8 \<le> j \<longrightarrow> byte_bit (?cs ! (o1 div 8)) j))"
    using cells(4) by (auto simp: cell_at_def masked_eq_iff byte_bit_start_mask)
  have finish: "(if e mod 8 \<noteq> 0
        then and_then (cell_at ?cs (e div 8))
          (\<lambda>c. Inr (c AND end_mask (e mod 8) = end_mask (e mod 8)))
        else Inr True) =
      Inr (e mod 8 \<noteq> 0 \<longrightarrow> (\<forall>j<8. j < e mod 8 \<longrightarrow> byte_bit (?cs ! (e div 8)) j))"
    using cells(3) by (auto simp: cell_at_def masked_eq_iff byte_bit_end_mask)
  have "0 < sz"
    using assms by (simp add: range_inside_def)
  then have "object_read ob offset sz = Inr
      ((\<forall>i \<in> set [o1 div 8 + (if o1 mod 8 \<noteq> 0 then 1 else 0) ..< e div 8].
          \<forall>j<8. byte_bit (?cs ! i) j) \<and>
       (o1 mod 8 \<noteq> 0 \<longrightarrow> (\<forall>j<8. o1 mod 8 \<le> j \<longrightarrow> byte_bit (?cs ! (o1 div 8)) j)) \<and>
       (e mod 8 \<noteq> 0 \<longrightarrow> (\<forall>j<8. j < e mod 8 \<longrightarrow> byte_bit (?cs ! (e div 8)) j)))"
    unfolding object_read_def Let_def o1_def [symmetric] e_def [symmetric] whole start finish
    by (simp only: check_simps and_then_Inr sequential_and)
  then show ?thesis
    unfolding byte_concrete_def o1_def [symmetric] e_def [symmetric] t .
qed

text \<open>A step of a write that gives the bits that satisfy \<open>T\<close> the value \<open>v\<close>.\<close>

definition sets_bits :: "(nat \<Rightarrow> nat \<Rightarrow> bool) \<Rightarrow> bool \<Rightarrow> byte list \<Rightarrow> byte list \<Rightarrow> bool" where
  "sets_bits T v cs cs' \<longleftrightarrow> length cs' = length cs \<and>
     (\<forall>n < length cs. \<forall>j < 8. byte_bit (cs' ! n) j = (if T n j then v else byte_bit (cs ! n) j))"

lemma sets_bits_length: "sets_bits T v cs cs' \<Longrightarrow> length cs' = length cs"
  by (simp add: sets_bits_def)

lemma sets_bits_trans:
  "sets_bits T v cs cs' \<Longrightarrow> sets_bits T' v cs' cs'' \<Longrightarrow>
   sets_bits (\<lambda>n j. T n j \<or> T' n j) v cs cs''"
  by (auto simp: sets_bits_def)

lemma sets_bits_whole:
  assumes "\<forall>i \<in> set ns. i < length cs"
  shows "\<exists>cs'. fold_res (\<lambda>i. set_cell i (if v then max_cell else min_cell)) ns cs = Inr cs' \<and>
    sets_bits (\<lambda>n j. n \<in> set ns) v cs cs'"
  using fold_set_cell_eq [OF assms, of "if v then max_cell else min_cell"]
  by (auto simp: sets_bits_def byte_bit_max_cell byte_bit_ops)

lemma sets_bits_mask:
  assumes "b \<Longrightarrow> i < length cs"
  shows "\<exists>cs'. (if b then write_mask i m v cs else Inr cs) = Inr cs' \<and>
    sets_bits (\<lambda>n j. b \<and> n = i \<and> byte_bit m j) v cs cs'"
  using assms write_mask_eq [of i cs m v] by (cases b) (auto simp: sets_bits_def)

lemma object_write_eq:
  assumes "range_inside ob offset sz"
  shows "\<exists>cs. object_write offset sz v ob = Inr (ob\<lparr>concreteness := cs\<rparr>) \<and>
    length cs = length (concreteness ob) \<and>
    (\<forall>k < 8 * length cs. byte_bit (cs ! (k div 8)) (k mod 8) =
       (if touched (unat offset) (unat (offset + sz)) k then v else byte_concrete ob k))"
proof -
  define o1 e where "o1 = unat offset" and "e = unat (offset + sz)"
  note cells = range_inside_cells [OF assms, folded o1_def e_def]
  let ?cs = "concreteness ob" and ?ns = "whole_cells (o1 div 8) (o1 mod 8) (e div 8)"
  obtain cs1 where cs1: "fold_res (\<lambda>i. set_cell i (if v then max_cell else min_cell)) ?ns ?cs = Inr cs1"
      "sets_bits (\<lambda>n j. n \<in> set ?ns) v ?cs cs1"
    using sets_bits_whole [of ?ns ?cs v] cells(1,2) by auto
  obtain cs2 where cs2: "(if o1 mod 8 \<noteq> 0 then write_mask (o1 div 8) (start_mask (o1 mod 8)) v cs1
        else Inr cs1) = Inr cs2"
      "sets_bits (\<lambda>n j. o1 mod 8 \<noteq> 0 \<and> n = o1 div 8 \<and> byte_bit (start_mask (o1 mod 8)) j) v cs1 cs2"
    using sets_bits_mask [of "o1 mod 8 \<noteq> 0" "o1 div 8" cs1 "start_mask (o1 mod 8)" v] cells(4)
      sets_bits_length [OF cs1(2)] by auto
  obtain cs3 where cs3: "(if e mod 8 \<noteq> 0 then write_mask (e div 8) (end_mask (e mod 8)) v cs2
        else Inr cs2) = Inr cs3"
      "sets_bits (\<lambda>n j. e mod 8 \<noteq> 0 \<and> n = e div 8 \<and> byte_bit (end_mask (e mod 8)) j) v cs2 cs3"
    using sets_bits_mask [of "e mod 8 \<noteq> 0" "e div 8" cs2 "end_mask (e mod 8)" v] cells(3)
      sets_bits_length [OF cs1(2)] sets_bits_length [OF cs2(2)] by auto
  have "0 < sz"
    using assms by (simp add: range_inside_def)
  then have "object_write offset sz v ob = Inr (ob\<lparr>concreteness := cs3\<rparr>)"
    unfolding object_write_def Let_def o1_def [symmetric] e_def [symmetric]
    by (simp only: check_simps and_then_Inr cs1(1) cs2(1) cs3(1))
  moreover have all: "sets_bits (\<lambda>n j. (n \<in> set ?ns \<or>
        o1 mod 8 \<noteq> 0 \<and> n = o1 div 8 \<and> byte_bit (start_mask (o1 mod 8)) j) \<or>
        e mod 8 \<noteq> 0 \<and> n = e div 8 \<and> byte_bit (end_mask (e mod 8)) j) v ?cs cs3"
    using cs1(2) cs2(2) cs3(2) by (intro sets_bits_trans)
  moreover have "byte_bit (cs3 ! (k div 8)) (k mod 8) = (if touched o1 e k then v else byte_concrete ob k)"
    if k: "k < 8 * length cs3" for k
  proof -
    have "k div 8 < length ?cs" "k mod 8 < 8"
      using k all by (auto simp: sets_bits_def)
    moreover have "k div 8 \<in> set ?ns \<longleftrightarrow> o1 div 8 + (if o1 mod 8 \<noteq> 0 then 1 else 0) \<le> k div 8 \<and>
        k div 8 < e div 8"
      unfolding cells(1) by simp
    ultimately show ?thesis
      using all [unfolded sets_bits_def]
      by (simp add: touched_def byte_bit_start_mask byte_bit_end_mask byte_concrete_def)
  qed
  ultimately show ?thesis
    unfolding o1_def e_def by (auto simp: sets_bits_def)
qed

subsection \<open>Objects as maps from bytes to concreteness\<close>

text \<open>
  What the heap relies on: an access has a footprint of bytes, a read is the conjunction over its
  footprint, and a write changes its footprint and nothing else. \<open>ok ob off sz\<close> says that the
  access is inside the object \<open>ob\<close>.
\<close>

locale concreteness_map =
  fixes ok :: "'o \<Rightarrow> addr \<Rightarrow> addr \<Rightarrow> bool"
    and rd :: "'o \<Rightarrow> addr \<Rightarrow> addr \<Rightarrow> bool res"
    and wr :: "addr \<Rightarrow> addr \<Rightarrow> bool \<Rightarrow> 'o \<Rightarrow> 'o res"
    and get :: "'o \<Rightarrow> nat \<Rightarrow> bool"
    and footprint :: "addr \<Rightarrow> addr \<Rightarrow> nat \<Rightarrow> bool"
  assumes rd_law: "ok ob off sz \<Longrightarrow> rd ob off sz = Inr (\<forall>k. footprint off sz k \<longrightarrow> get ob k)"
    and wr_total: "ok ob off sz \<Longrightarrow> \<exists>ob'. wr off sz v ob = Inr ob'"
    and wr_get: "ok ob off sz \<Longrightarrow> wr off sz v ob = Inr ob' \<Longrightarrow> ok ob off' sz' \<Longrightarrow>
      footprint off' sz' k \<Longrightarrow> get ob' k = (if footprint off sz k then v else get ob k)"
    and wr_ok: "ok ob off sz \<Longrightarrow> wr off sz v ob = Inr ob' \<Longrightarrow> ok ob' off' sz' = ok ob off' sz'"
    and footprint_nonempty: "ok ob off sz \<Longrightarrow> \<exists>k. footprint off sz k"
begin

lemma read_after_write:
  assumes "ok ob off sz" and "wr off sz v ob = Inr ob'"
  shows "rd ob' off sz = Inr v"
proof -
  have "ok ob' off sz"
    using assms wr_ok by blast
  moreover have "get ob' k = v" if "footprint off sz k" for k
    using wr_get [OF assms assms(1) that] that by simp
  ultimately show ?thesis
    using rd_law footprint_nonempty [OF assms(1)] by auto
qed

lemma read_other_after_write:
  assumes "ok ob off sz" and "wr off sz v ob = Inr ob'" and "ok ob off' sz'"
    and "\<And>k. footprint off sz k \<Longrightarrow> \<not> footprint off' sz' k"
  shows "rd ob' off' sz' = rd ob off' sz'"
proof -
  have "ok ob' off' sz'"
    using assms(1-3) wr_ok by blast
  moreover have "get ob' k = get ob k" if "footprint off' sz' k" for k
    using wr_get [OF assms(1-3) that] assms(4) that by auto
  ultimately show ?thesis
    using rd_law assms(3) by auto
qed

lemma read_after_symbolic_write:
  assumes "ok ob off sz" and "wr off sz False ob = Inr ob'" and "ok ob off' sz'"
    and "footprint off sz k" and "footprint off' sz' k"
  shows "rd ob' off' sz' = Inr False"
proof -
  have "ok ob' off' sz'"
    using assms(1-3) wr_ok by blast
  moreover have "\<not> get ob' k"
    using wr_get [OF assms(1-3,5)] assms(4) by simp
  ultimately show ?thesis
    using rd_law assms(5) by auto
qed

end

definition object_footprint :: "addr \<Rightarrow> addr \<Rightarrow> nat \<Rightarrow> bool" where
  "object_footprint offset sz k \<longleftrightarrow> touched (unat offset) (unat (offset + sz)) k"

lemma touched_start: "o1 < e \<Longrightarrow> touched o1 e o1"
proof (cases "o1 mod 8 = 0 \<or> e mod 8 = 0 \<or> o1 div 8 < e div 8")
  case False
  then show "o1 < e \<Longrightarrow> touched o1 e o1"
    by (auto simp: touched_def)
qed (simp add: touched_crossing)

lemma touched_less:
  assumes "touched o1 e k" and "o1 < e" and "e \<le> 8 * n"
  shows "k < 8 * n"
proof (cases "o1 mod 8 = 0 \<or> e mod 8 = 0 \<or> o1 div 8 < e div 8")
  case True
  then show ?thesis
    using assms touched_crossing [OF assms(2)] by auto
next
  case False
  then have "o1 div 8 = e div 8" "e mod 8 \<noteq> 0"
    using assms(2) div_le_mono [of o1 e 8] by auto
  then have "k div 8 = e div 8"
    using assms(1,2) False touched_inside_cell by auto
  moreover have "e div 8 < n"
    using assms(3) \<open>e mod 8 \<noteq> 0\<close> by (metis less_mult_imp_div_less mod_mult_self1_is_0 mult.commute nat_less_le)
  ultimately show ?thesis
    by linarith
qed

interpretation obj: concreteness_map range_inside object_read object_write byte_concrete object_footprint
proof unfold_locales
  fix ob :: "'a object_scheme" and off sz v ob'
  assume ok: "range_inside ob off sz"
  show "object_read ob off sz = Inr (\<forall>k. object_footprint off sz k \<longrightarrow> byte_concrete ob k)"
    by (simp add: object_read_eq [OF ok] object_footprint_def)
  show "\<exists>ob'. object_write off sz v ob = Inr ob'"
    using object_write_eq [OF ok] by blast
  have less: "unat off < unat (off + sz)" "unat (off + sz) \<le> 8 * length (concreteness ob)"
    using range_inside_end [OF ok] by auto
  then show "\<exists>k. object_footprint off sz k"
    using touched_start by (auto simp: object_footprint_def)
  assume w: "object_write off sz v ob = Inr ob'"
  then obtain cs where cs: "ob' = ob\<lparr>concreteness := cs\<rparr>" "length cs = length (concreteness ob)"
      "\<forall>k < 8 * length cs. byte_bit (cs ! (k div 8)) (k mod 8) =
         (if touched (unat off) (unat (off + sz)) k then v else byte_concrete ob k)"
    using object_write_eq [OF ok, of v] by auto
  then show "range_inside ob' off' sz' = range_inside ob off' sz'" for off' sz'
    by (simp add: range_inside_def)
  show "byte_concrete ob' k = (if object_footprint off sz k then v else byte_concrete ob k)"
    if "range_inside ob off' sz'" "object_footprint off' sz' k" for off' sz' k
    using that cs range_inside_end [OF that(1)]
      touched_less [of "unat off'" "unat (off' + sz')" k "length cs"]
    by (simp add: byte_concrete_def object_footprint_def)
qed

subsection \<open>Correctness of reads and writes\<close>

lemma footprint_crossing:
  assumes "range_inside ob offset sz" and "range_crosses offset sz"
  shows "object_footprint offset sz k \<longleftrightarrow> unat offset \<le> k \<and> k < unat offset + unat sz"
proof -
  note e = range_inside_end [OF assms(1)]
  have "unat offset < unat (offset + sz)"
    using e by simp
  moreover have "unat offset mod 8 = 0 \<or> unat (offset + sz) mod 8 = 0 \<or>
      unat offset div 8 < unat (offset + sz) div 8"
    using assms(2) unfolding range_crosses_def e(1) .
  ultimately show ?thesis
    unfolding object_footprint_def by (subst touched_crossing) (simp_all add: e(1))
qed

text \<open>
  Claim C16: a read that does not lie strictly inside one cell and stays inside the object answers
  true exactly when every byte of the range is concrete.
\<close>

theorem object_read_exact:
  assumes "range_inside ob offset sz" and "range_crosses offset sz"
  shows "object_read ob offset sz =
    Inr (\<forall>k. unat offset \<le> k \<and> k < unat offset + unat sz \<longrightarrow> byte_concrete ob k)"
  using obj.rd_law [OF assms(1)] footprint_crossing [OF assms] by simp

definition sample_object :: object where
  "sample_object =
     \<lparr>left = 0x1000, right = 0x100F, marked = False, flushed = False, concreteness = [0xFF, 0xF0]\<rparr>"

theorem object_read_exact_witness:
  "range_inside sample_object 4 8 \<and> range_crosses 4 8 \<and>
   object_read sample_object 4 8 = Inr True \<and> byte_concrete sample_object 11"
proof -
  have h: "range_inside sample_object 4 8" "range_crosses 4 8"
    by (simp_all add: range_inside_def range_crosses_def sample_object_def)
  moreover have "object_read sample_object 4 8 = Inr True"
    by (simp add: object_read_def sample_object_def whole_cells_def cell_at_def start_mask_def
        end_mask_def Let_def mask_numeral)
  ultimately show ?thesis
    using object_read_exact [OF h] by simp
qed

text \<open>
  Claim C17: a write that does not lie strictly inside one cell and stays inside the object
  succeeds, gives every byte of the range the new concreteness, leaves the concreteness of every
  other byte and the rest of the object as they were.
\<close>

theorem object_write_exact:
  assumes "range_inside ob offset sz" and "range_crosses offset sz"
  shows "\<exists>cs. object_write offset sz v ob = Inr (ob\<lparr>concreteness := cs\<rparr>) \<and>
    length cs = length (concreteness ob) \<and>
    (\<forall>k < 8 * length cs. byte_concrete (ob\<lparr>concreteness := cs\<rparr>) k =
       (if unat offset \<le> k \<and> k < unat offset + unat sz then v else byte_concrete ob k))"
  using object_write_eq [OF assms(1), of v] footprint_crossing [OF assms]
  by (simp add: object_footprint_def byte_concrete_def)

theorem object_write_exact_witness:
  "range_inside sample_object 6 4 \<and> range_crosses 6 4 \<and>
   (\<exists>cs. object_write 6 4 False sample_object = Inr (sample_object\<lparr>concreteness := cs\<rparr>) \<and>
      \<not> byte_concrete (sample_object\<lparr>concreteness := cs\<rparr>) 9 \<and>
      byte_concrete (sample_object\<lparr>concreteness := cs\<rparr>) 10)"
proof -
  have h: "range_inside sample_object 6 4" "range_crosses 6 4"
    by (simp_all add: range_inside_def range_crosses_def sample_object_def)
  have 10: "byte_concrete sample_object 10"
    by code_simp
  have "length (concreteness sample_object) = 2"
    by (simp add: sample_object_def)
  then show ?thesis
    using object_write_exact [OF h, of False] h 10 by fastforce
qed

text \<open>
  Claim C24: a write whose range lies strictly inside one cell (it neither starts nor ends on a
  multiple of eight bytes and starts and ends in the same cell) changes the concreteness of all
  eight bytes of that cell, so bytes outside the range change as well.
\<close>

theorem object_write_inside_cell:
  assumes "range_inside ob offset sz" and "\<not> range_crosses offset sz"
  shows "\<exists>cs. object_write offset sz v ob = Inr (ob\<lparr>concreteness := cs\<rparr>) \<and>
    (\<forall>k < 8 * length (concreteness ob). byte_concrete (ob\<lparr>concreteness := cs\<rparr>) k =
       (if k div 8 = unat offset div 8 then v else byte_concrete ob k))"
proof -
  note e = range_inside_end [OF assms(1)]
  have off: "unat offset < unat (offset + sz)"
    using e by simp
  have n: "unat offset mod 8 \<noteq> 0" "unat (offset + sz) mod 8 \<noteq> 0"
      "\<not> unat offset div 8 < unat (offset + sz) div 8"
    using assms(2) unfolding range_crosses_def e(1) by simp_all
  have "unat offset div 8 = unat (offset + sz) div 8"
    using n(3) div_le_mono [of "unat offset" "unat (offset + sz)" 8] off by linarith
  note t = touched_inside_cell [OF off n(1,2) this]
  have bits: "byte_concrete (ob\<lparr>concreteness := cs\<rparr>) k = byte_bit (cs ! (k div 8)) (k mod 8)" for cs k
    by (simp add: byte_concrete_def)
  obtain cs where "object_write offset sz v ob = Inr (ob\<lparr>concreteness := cs\<rparr>)"
      "length cs = length (concreteness ob)"
      "\<forall>k < 8 * length cs. byte_bit (cs ! (k div 8)) (k mod 8) =
       (if k div 8 = unat offset div 8 then v else byte_concrete ob k)"
    using object_write_eq [OF assms(1), of v] unfolding t by blast
  then show ?thesis
    by (intro exI [of _ cs]) (simp only: bits simp_thms)
qed

theorem object_write_inside_cell_witness:
  "range_inside sample_object 2 4 \<and> \<not> range_crosses 2 4 \<and>
   (\<exists>cs. object_write 2 4 False sample_object = Inr (sample_object\<lparr>concreteness := cs\<rparr>) \<and>
      byte_concrete sample_object 0 \<and>
      \<not> byte_concrete (sample_object\<lparr>concreteness := cs\<rparr>) 0)"
proof -
  have h: "range_inside sample_object 2 4" "\<not> range_crosses 2 4"
    by (simp_all add: range_inside_def range_crosses_def sample_object_def)
  have 0: "byte_concrete sample_object 0"
    by code_simp
  have "length (concreteness sample_object) = 2"
    by (simp add: sample_object_def)
  then show ?thesis
    using object_write_inside_cell [OF h, of False] h 0 by fastforce
qed

end
