(* ===== verification/Heap_Model.thy ===== *)
theory Heap_Model
  imports Object_Bits
begin

section \<open>The heap of shadow objects\<close>

text \<open>
  The class \<^verbatim>\<open>Heap\<close> of \<^verbatim>\<open>memory/heap.cpp\<close>: the shadow objects of the profiled process,
  indexed by their present address range, the types of the objects that were allocated since the
  last report and the identifiers of the objects a collection removed. An identifier is the
  address of the C++ object, chosen by \<^verbatim>\<open>operator new\<close>: it is an argument of
  \<open>allocateObject\<close>.
\<close>

subsection \<open>State and operations\<close>

record virtual_address =
  obj :: objid
  offset :: addr

record heap =
  tree :: "object tree"
  newAddresses :: "(objid \<times> byte list \<times> u64) list"
  deletedAddresses :: "objid list"

definition heap_empty :: heap where
  "heap_empty =
     \<lparr>tree = \<lparr>objects = [], store = Map.empty\<rparr>, newAddresses = [], deletedAddresses = []\<rparr>"

definition allocateObject ::
    "objid \<Rightarrow> addr \<Rightarrow> addr \<Rightarrow> byte list \<Rightarrow> u64 \<Rightarrow> heap \<Rightarrow> (objid \<times> heap) res" where
  "allocateObject new_obj address sz type typeLength h =
     and_then (mk_object address sz) (\<lambda>ob.
     let t = (tree h)\<lparr>store := (store (tree h))(new_obj \<mapsto> ob)\<rparr>;
         h = h\<lparr>tree := tree_add new_obj t\<rparr>;
         h = h\<lparr>newAddresses := omap_put new_obj (type, typeLength) (newAddresses h)\<rparr>
     in Inr (new_obj, h))"

definition heap_moveAndMark :: "addr \<Rightarrow> addr \<Rightarrow> addr \<Rightarrow> heap \<Rightarrow> heap res" where
  "heap_moveAndMark oldLeft newLeft len h =
     and_then (tree_moveAndMark (mk_interval oldLeft len) \<lparr>oldBase = oldLeft, newBase = newLeft\<rparr> (tree h))
       (\<lambda>t. Inr (h\<lparr>tree := t\<rparr>))"

definition heap_resolve :: "heap \<Rightarrow> addr \<Rightarrow> virtual_address option res" where
  "heap_resolve h address =
     and_then (tree_find (tree h) address) (\<lambda>i.
       if i \<noteq> 0
       then and_then (deref (store (tree h)) i)
              (\<lambda>ob. Inr (Some \<lparr>obj = i, offset = address - left ob\<rparr>))
       else Inr None)"

definition heap_read :: "heap \<Rightarrow> addr \<Rightarrow> addr \<Rightarrow> bool res" where
  "heap_read h address sizeOfPtr =
     and_then (heap_resolve h address) (\<lambda>v. case v of
         None \<Rightarrow> Inr False
       | Some vAddress \<Rightarrow>
           and_then (deref (store (tree h)) (obj vAddress))
             (\<lambda>ob. object_read ob (offset vAddress) sizeOfPtr))"

definition heap_write :: "addr \<Rightarrow> addr \<Rightarrow> bool \<Rightarrow> heap \<Rightarrow> heap res" where
  "heap_write address sizeOfPtr vConcreteness h =
     and_then (heap_resolve h address) (\<lambda>v. case v of
         None \<Rightarrow> Inl (Fail_loud ''Writing to heap: unable to resolve address'')
       | Some vAddress \<Rightarrow>
           and_then (update_object (object_write (offset vAddress) sizeOfPtr vConcreteness)
               (obj vAddress) (store (tree h)))
             (\<lambda>st. Inr (h\<lparr>tree := (tree h)\<lparr>store := st\<rparr>\<rparr>)))"

definition markSurvivedObjects :: "addr \<Rightarrow> addr \<Rightarrow> heap \<Rightarrow> heap res" where
  "markSurvivedObjects start len h =
     and_then (tree_mark (mk_interval start len) (tree h)) (\<lambda>t. Inr (h\<lparr>tree := t\<rparr>))"

definition clearAfterGC :: "heap \<Rightarrow> heap res" where
  "clearAfterGC h =
     and_then (tree_clearUnmarked (tree h)) (\<lambda>(deleted, t).
       Inr (h\<lparr>tree := t, deletedAddresses := deletedAddresses h @ deleted\<rparr>))"

text \<open>
  \<^verbatim>\<open>flushObjects\<close> copies the map entry by entry and clears it: the copy of a map is the map.
\<close>

definition flushObjects :: "heap \<Rightarrow> (objid \<times> byte list \<times> u64) list \<times> heap" where
  "flushObjects h = (newAddresses h, h\<lparr>newAddresses := []\<rparr>)"

definition physToVirtAddress :: "heap \<Rightarrow> addr \<Rightarrow> virtual_address res" where
  "physToVirtAddress h physAddress =
     and_then (heap_resolve h physAddress) (\<lambda>v. case v of
         None \<Rightarrow> Inl (Fail_loud ''unable to resolve physical address!'')
       | Some vAddress \<Rightarrow> Inr vAddress)"

definition virtToPhysAddress :: "heap \<Rightarrow> virtual_address \<Rightarrow> addr res" where
  "virtToPhysAddress h virtAddress =
     and_then (deref (store (tree h)) (obj virtAddress))
       (\<lambda>ob. Inr (left ob + offset virtAddress))"

subsection \<open>The invariant\<close>

text \<open>
  The identifiers are not null, an object has one bit for each of its bytes, and the tree invariant
  holds.
\<close>

definition object_wf :: "object \<Rightarrow> bool" where
  "object_wf ob \<longleftrightarrow> length (concreteness ob) = (unat (right ob - left ob) + 8) div 8"

definition heap_inv :: "heap \<Rightarrow> bool" where
  "heap_inv h \<longleftrightarrow>
     tree_inv (tree h) \<and> store (tree h) 0 = None \<and>
     (\<forall>p ob. store (tree h) p = Some ob \<longrightarrow> object_wf ob)"

lemma heap_invD:
  assumes "heap_inv h"
  shows "tree_inv (tree h)" and "store (tree h) 0 = None"
    and "store (tree h) p = Some ob \<Longrightarrow> object_wf ob"
  using assms by (auto simp: heap_inv_def)

lemma heap_inv_empty: "heap_inv heap_empty"
  by (simp add: heap_inv_def heap_empty_def tree_inv_def)

lemma heap_resolve_eq:
  assumes inv: "heap_inv h" and ob: "store (tree h) p = Some ob" "interval_contains ob a"
  shows "heap_resolve h a = Inr (Some \<lparr>obj = p, offset = a - left ob\<rparr>)"
proof -
  have "tree_find (tree h) a = Inr p"
    using ob by (auto simp: tree_find_iff [OF heap_invD(1) [OF inv]])
  moreover have "p \<noteq> 0"
    using ob heap_invD(2) [OF inv] by auto
  ultimately show ?thesis
    using ob by (simp add: heap_resolve_def)
qed

lemma heap_resolve_cases:
  assumes "heap_inv h"
  obtains p ob where "store (tree h) p = Some ob" and "interval_contains ob a"
      and "heap_resolve h a = Inr (Some \<lparr>obj = p, offset = a - left ob\<rparr>)"
  | "heap_resolve h a = Inl (Fail_loud ''Unbound pointer!'')"
      and "\<And>p ob. store (tree h) p = Some ob \<Longrightarrow> \<not> interval_contains ob a"
proof (cases "\<exists>p ob. store (tree h) p = Some ob \<and> interval_contains ob a")
  case True
  then show ?thesis
    using heap_resolve_eq [OF assms] that(1) by blast
next
  case False
  then have "tree_find (tree h) a = Inl (Fail_loud ''Unbound pointer!'')"
    by (intro tree_find_unbound [OF heap_invD(1) [OF assms]]) auto
  then show ?thesis
    using False that(2) by (auto simp: heap_resolve_def)
qed

subsection \<open>Events of the heap\<close>

text \<open>
  The calls the profiler makes: an allocation, a write of a probe, the two callbacks of a
  collection, its end, and a report of the new objects. \<open>event_ok\<close> is what the runtime and the
  allocator guarantee when an allocation, a write or a report is made; the callbacks of a collection
  come as a whole, for which \<open>Heap_Collections\<close> says what is assumed of the runtime.
\<close>

datatype heap_event =
    Allocate objid addr addr "byte list" u64
  | Write addr addr bool
  | Move_and_mark addr addr addr
  | Survived addr addr
  | Clear_after_GC
  | Flush_objects

fun heap_exec :: "heap_event \<Rightarrow> heap \<Rightarrow> heap res" where
  "heap_exec (Allocate p a sz type typeLength) h =
     and_then (allocateObject p a sz type typeLength h) (\<lambda>(_, h'). Inr h')"
| "heap_exec (Write a sz v) h = heap_write a sz v h"
| "heap_exec (Move_and_mark oldLeft newLeft len) h = heap_moveAndMark oldLeft newLeft len h"
| "heap_exec (Survived start len) h = markSurvivedObjects start len h"
| "heap_exec Clear_after_GC h = clearAfterGC h"
| "heap_exec Flush_objects h = Inr (snd (flushObjects h))"

definition access_ok :: "heap \<Rightarrow> objid \<Rightarrow> addr \<Rightarrow> addr \<Rightarrow> bool" where
  "access_ok h p a sz \<longleftrightarrow> (case store (tree h) p of
       None \<Rightarrow> False
     | Some ob \<Rightarrow> interval_contains ob a \<and> 0 < sz \<and>
         unat (a - left ob) + unat sz \<le> unat (right ob - left ob) + 1 \<and>
         unat (right ob - left ob) < 2 ^ 34)"

fun event_ok :: "heap \<Rightarrow> heap_event \<Rightarrow> bool" where
  "event_ok h (Allocate p a sz type typeLength) \<longleftrightarrow>
     p \<noteq> 0 \<and> store (tree h) p = None \<and> 0 < sz \<and> unat sz + 7 < 2 ^ 64 \<and>
     unat a + unat sz \<le> 2 ^ 64 \<and>
     (\<forall>q ob. store (tree h) q = Some ob \<longrightarrow> interval_disjoint (mk_interval a sz) ob)"
| "event_ok h (Write a sz v) \<longleftrightarrow> (\<exists>p. access_ok h p a sz)"
| "event_ok h (Move_and_mark oldLeft newLeft len) \<longleftrightarrow> False"
| "event_ok h (Survived start len) \<longleftrightarrow> False"
| "event_ok h Clear_after_GC \<longleftrightarrow> False"
| "event_ok h Flush_objects \<longleftrightarrow> True"

lemma mk_interval_simps [simp]:
  "left (mk_interval a sz) = a"
  "right (mk_interval a sz) = a + sz - 1"
  "marked (mk_interval a sz) = False"
  "flushed (mk_interval a sz) = False"
  by (simp_all add: mk_interval_def interval_default_def)

lemma unat_range_length:
  assumes "0 < (sz :: addr)"
  shows "unat (a + sz - 1 - a) = unat sz - 1"
proof -
  have "a + sz - 1 - a = sz - 1"
    by simp
  moreover have "1 \<le> sz"
    using assms by (metis word_less_1 not_le less_irrefl)
  ultimately show ?thesis
    by (simp add: unat_sub)
qed

lemma range_nonempty:
  assumes "0 < (sz :: addr)" and "unat a + unat sz \<le> 2 ^ 64"
  shows "a \<le> a + sz - 1"
proof -
  have "1 \<le> sz"
    using assms(1) by (metis word_less_1 not_le less_irrefl)
  then have "unat (sz - 1) = unat sz - 1"
    by (simp add: unat_sub)
  moreover have "0 < unat sz"
    using assms(1) by (simp add: word_less_nat_alt)
  ultimately have "unat (a + (sz - 1)) = unat a + (unat sz - 1)"
    using assms(2) by (simp add: unat_word_ariths)
  then have "a \<le> a + (sz - 1)"
    by (simp add: word_le_nat_alt)
  then show ?thesis
    by (simp add: add_diff_eq)
qed

lemma object_wf_update [simp]:
  "object_wf (ob\<lparr>marked := b\<rparr>) = object_wf ob"
  by (simp add: object_wf_def)

lemma object_wf_moved: "object_wf (moved s ob) = object_wf ob"
  by (simp add: object_wf_def shifted_def moved_def)

lemma mk_object_wf:
  assumes "0 < sz" and "unat sz + 7 < 2 ^ 64"
  obtains ob where "mk_object a sz = Inr ob" and "object_wf ob"
    and "left ob = a" and "right ob = a + sz - 1" and "\<not> marked ob"
    and "concreteness ob = replicate ((unat sz + 7) div 8) max_cell"
proof -
  have "unat (sz + 8 - 1) = unat sz + 7"
    using assms(2) by (simp add: unat_word_ariths add_diff_eq [symmetric])
  moreover have "0 < unat sz"
    using assms(1) by (simp add: word_less_nat_alt)
  ultimately show ?thesis
    using assms unat_range_length [OF assms(1), of a]
    by (intro that) (auto simp: mk_object_def object_wf_def interval.defs mk_interval_def
        interval_default_def)
qed

subsection \<open>Each event succeeds and keeps the invariant\<close>

lemma heap_inv_tree:
  assumes "heap_inv h" and "tree_inv t" and "dom (store t) \<subseteq> dom (store (tree h))"
    and "\<And>p ob. store t p = Some ob \<Longrightarrow> object_wf ob"
  shows "heap_inv (h\<lparr>tree := t\<rparr>)"
  using assms by (auto simp: heap_inv_def dom_def)

lemma allocate_inv:
  assumes inv: "heap_inv h" and ok: "event_ok h (Allocate p a sz type typeLength)"
  obtains ob h' where "allocateObject p a sz type typeLength h = Inr (p, h')"
    and "mk_object a sz = Inr ob" and "store (tree h') = (store (tree h))(p \<mapsto> ob)" and "heap_inv h'"
    and "newAddresses h' = omap_put p (type, typeLength) (newAddresses h)"
proof -
  obtain ob where ob: "mk_object a sz = Inr ob" "object_wf ob" "left ob = a" "right ob = a + sz - 1"
    using ok by (auto elim!: mk_object_wf [of sz a])
  define h' where "h' = h\<lparr>tree := tree_add p ((tree h)\<lparr>store := (store (tree h))(p \<mapsto> ob)\<rparr>),
      newAddresses := omap_put p (type, typeLength) (newAddresses h)\<rparr>"
  have free: "p \<notin> dom (store (tree h))" "p \<noteq> 0"
    using ok by auto
  have le: "a \<le> a + sz - 1"
    using ok range_nonempty by simp
  have away: "interval_disjoint ob ob'" if "store (tree h) q = Some ob'" for q ob'
    using ok that ob by (auto simp: interval_disjoint_def)
  have "tree_inv (tree h')"
    using heap_invD(1) [OF inv] free le away interval_disjoint_sym [of ob] ob
    by (auto simp: h'_def tree_inv_def tree_add_def)
  then have "heap_inv h'"
    using inv free ob by (auto simp: heap_inv_def h'_def tree_add_def)
  moreover have "allocateObject p a sz type typeLength h = Inr (p, h')"
    using ob by (simp add: allocateObject_def h'_def)
  ultimately show ?thesis
    using ob that by (simp add: h'_def tree_add_def)
qed

lemma clearAfterGC_inv:
  assumes inv: "heap_inv h"
  shows "\<exists>h'. clearAfterGC h = Inr h' \<and> heap_inv h' \<and>
    (\<forall>p. store (tree h') p = (case store (tree h) p of None \<Rightarrow> None
          | Some ob \<Rightarrow> if marked ob then Some (ob\<lparr>marked := False\<rparr>) else None)) \<and>
    deletedAddresses h' = deletedAddresses h @
          filter (\<lambda>p. \<not> marked (the (store (tree h) p))) (objects (tree h))"
proof -
  let ?keep = "\<lambda>p. marked (the (store (tree h) p))"
  note t = heap_invD(1) [OF inv]
  define t' where "t' = (tree h)\<lparr>objects := filter ?keep (objects (tree h)),
      store := \<lambda>p. if ?keep p then map_option (\<lambda>ob. ob\<lparr>marked := False\<rparr>) (store (tree h) p) else None\<rparr>"
  have eq: "tree_clearUnmarked (tree h) = Inr (filter (\<lambda>p. \<not> ?keep p) (objects (tree h)), t')"
    unfolding t'_def by (rule tree_clearUnmarked_eq [OF t])
  have store: "store t' p = (case store (tree h) p of None \<Rightarrow> None
      | Some ob \<Rightarrow> if marked ob then Some (ob\<lparr>marked := False\<rparr>) else None)" for p
    by (simp add: t'_def split: option.split)
  have "heap_inv (h\<lparr>tree := t'\<rparr>)"
    using tree_clearUnmarked_inv [OF t eq] heap_invD(3) [OF inv]
    by (intro heap_inv_tree [OF inv]) (auto simp: store split: option.splits if_splits)
  then show ?thesis
    using eq by (intro exI [of _ "h\<lparr>tree := t',
          deletedAddresses := deletedAddresses h @ filter (\<lambda>p. \<not> ?keep p) (objects (tree h))\<rparr>"])
      (simp_all add: clearAfterGC_def store heap_inv_def)
qed

lemma access_ok_inside:
  assumes "heap_inv h" and "access_ok h p a sz"
  obtains ob where "store (tree h) p = Some ob" and "interval_contains ob a"
    and "range_inside ob (a - left ob) sz"
proof -
  obtain ob where ob: "store (tree h) p = Some ob" "interval_contains ob a" "0 < sz"
      "unat (a - left ob) + unat sz \<le> unat (right ob - left ob) + 1"
      "unat (right ob - left ob) < 2 ^ 34"
    using assms(2) by (auto simp: access_ok_def split: option.splits)
  have len: "length (concreteness ob) = (unat (right ob - left ob) + 8) div 8"
    using heap_invD(3) [OF assms(1) ob(1)] by (simp add: object_wf_def)
  have "range_inside ob (a - left ob) sz"
    unfolding range_inside_def len using ob(3-5) by (auto simp: less_mult_imp_div_less)
  then show ?thesis
    using ob that by blast
qed

lemma heap_write_inv:
  assumes inv: "heap_inv h" and ok: "access_ok h p a sz"
  obtains ob cs h' where "store (tree h) p = Some ob" and "interval_contains ob a"
    and "range_inside ob (a - left ob) sz"
    and "object_write (a - left ob) sz v ob = Inr (ob\<lparr>concreteness := cs\<rparr>)"
    and "heap_write a sz v h = Inr h'"
    and "h' = h\<lparr>tree := (tree h)\<lparr>store := (store (tree h))(p \<mapsto> ob\<lparr>concreteness := cs\<rparr>)\<rparr>\<rparr>"
    and "heap_inv h'"
proof -
  obtain ob where ob: "store (tree h) p = Some ob" "interval_contains ob a"
      "range_inside ob (a - left ob) sz"
    using access_ok_inside [OF inv ok] .
  obtain cs where cs: "object_write (a - left ob) sz v ob = Inr (ob\<lparr>concreteness := cs\<rparr>)"
      "length cs = length (concreteness ob)"
    using object_write_eq [OF ob(3), of v] by auto
  let ?ob = "ob\<lparr>concreteness := cs\<rparr>"
  define h' where "h' = h\<lparr>tree := (tree h)\<lparr>store := (store (tree h))(p \<mapsto> ?ob)\<rparr>\<rparr>"
  have "heap_write a sz v h = Inr h'"
    using ob cs by (simp add: heap_write_def heap_resolve_eq [OF inv] update_object_def h'_def)
  moreover have "tree_inv (tree h')"
    using heap_invD(1) [OF inv] ob(1)
    by (auto simp: h'_def tree_inv_def interval_disjoint_def dom_def)
  then have "heap_inv h'"
    using heap_invD(2,3) [OF inv] ob(1) cs(2) heap_invD(3) [OF inv ob(1)]
    by (auto simp: h'_def heap_inv_def object_wf_def)
  ultimately show ?thesis
    using ob cs that by (simp add: h'_def)
qed

lemma heap_exec_inv:
  assumes "heap_inv h" and "event_ok h e"
  shows "\<exists>h'. heap_exec e h = Inr h' \<and> heap_inv h'"
proof (cases e)
  case (Allocate p a sz type typeLength)
  then show ?thesis
    using allocate_inv [OF assms(1)] assms(2) by (metis and_then_Inr case_prod_conv heap_exec.simps(1))
next
  case (Write a sz v)
  then show ?thesis
    using assms heap_write_inv [OF assms(1)] by (metis event_ok.simps(2) heap_exec.simps(2))
next
  case Flush_objects
  then show ?thesis
    using assms(1) by (simp add: flushObjects_def heap_inv_def)
qed (use assms(2) in simp_all)

subsection \<open>Virtual addresses\<close>

lemma physToVirt_eq:
  assumes "heap_inv h"
  shows "physToVirtAddress h a = Inr v \<longleftrightarrow>
    (\<exists>ob. store (tree h) (obj v) = Some ob \<and> interval_contains ob a \<and> offset v = a - left ob)"
proof (cases rule: heap_resolve_cases [OF assms, of a])
  case (1 p ob)
  have "p = q" if "store (tree h) q = Some ob'" "interval_contains ob' a" for q ob'
    using that 1 heap_resolve_eq [OF assms] by (metis Inr_inject option.inject virtual_address.ext_inject)
  moreover have "physToVirtAddress h a = Inr v \<longleftrightarrow> v = \<lparr>obj = p, offset = a - left ob\<rparr>"
    using 1(3) by (auto simp: physToVirtAddress_def)
  moreover have "v = \<lparr>obj = p, offset = a - left ob\<rparr> \<longleftrightarrow> obj v = p \<and> offset v = a - left ob"
    by (cases v) simp
  ultimately show ?thesis
    using 1(1,2) by (metis option.inject)
next
  case 2
  then show ?thesis
    by (auto simp: physToVirtAddress_def)
qed

lemma interval_contains_offset:
  assumes "left ob \<le> right ob" and "off \<le> right ob - left ob"
  shows "interval_contains ob (left ob + off)"
proof -
  have r: "unat (right ob - left ob) = unat (right ob) - unat (left ob)"
    using assms(1) by (simp add: unat_sub)
  have "unat off \<le> unat (right ob) - unat (left ob)"
    using assms(2) by (simp add: word_le_nat_alt r)
  moreover have "unat (right ob) < 2 ^ 64" "unat (left ob) \<le> unat (right ob)"
    using assms(1) unsigned_less [of "right ob"] by (simp_all add: word_le_nat_alt)
  ultimately have "unat (left ob + off) = unat (left ob) + unat off"
      and "unat (left ob) + unat off \<le> unat (right ob)"
    by (simp_all add: unat_word_ariths)
  then show ?thesis
    by (simp add: interval_contains_def word_le_nat_alt)
qed

lemma contains_offset_le:
  assumes "interval_contains ob a" shows "a - left ob \<le> right ob - left ob"
proof -
  have le: "left ob \<le> a" "a \<le> right ob" "left ob \<le> right ob"
    using assms by (auto simp: interval_contains_def intro: order_trans)
  then have "unat (a - left ob) = unat a - unat (left ob)"
      "unat (right ob - left ob) = unat (right ob) - unat (left ob)"
    by (simp_all add: unat_sub)
  then show ?thesis
    using le(2) by (simp add: word_le_nat_alt)
qed

lemma heap_read_eq:
  assumes "heap_inv h" and "store (tree h) p = Some ob" and "interval_contains ob a"
  shows "heap_read h a sz = object_read ob (a - left ob) sz"
  using assms by (simp add: heap_read_def heap_resolve_eq)

lemma object_read_cong:
  "concreteness ob = concreteness ob' \<Longrightarrow> object_read ob off sz = object_read ob' off sz"
  by (simp add: object_read_def)

text \<open>An object that keeps its bits and its size keeps its virtual addresses and what is read through them.\<close>

lemma same_object_addresses:
  assumes inv: "heap_inv h" and inv': "heap_inv h'" and v: "physToVirtAddress h a = Inr v"
    and ob: "store (tree h) (obj v) = Some ob" and ob': "store (tree h') (obj v) = Some ob'"
    and same: "concreteness ob' = concreteness ob" "right ob' - left ob' = right ob - left ob"
  shows "\<exists>a'. virtToPhysAddress h' v = Inr a' \<and> physToVirtAddress h' a' = Inr v \<and>
    heap_read h' a' sz = heap_read h a sz"
proof -
  have at: "interval_contains ob a" "offset v = a - left ob"
    using v ob by (auto simp: physToVirt_eq [OF inv])
  have "offset v \<le> right ob' - left ob'"
    unfolding same(2) at(2) by (rule contains_offset_le [OF at(1)])
  then have c: "interval_contains ob' (left ob' + offset v)"
    by (rule interval_contains_offset [OF tree_invD(3) [OF heap_invD(1) [OF inv'] ob']])
  have "heap_read h' (left ob' + offset v) sz = heap_read h a sz"
    unfolding heap_read_eq [OF inv' ob' c] heap_read_eq [OF inv ob at(1)]
    by (simp add: at(2) object_read_cong [OF same(1)])
  then show ?thesis
    using c ob' by (auto simp: virtToPhysAddress_def physToVirt_eq [OF inv'])
qed

subsection \<open>The properties of the heap\<close>

definition sample_event :: heap_event where
  "sample_event = Allocate 0x5000 0x1000 16 [] 0"

lemma sample_event_ok: "event_ok heap_empty sample_event"
  by (simp add: sample_event_def heap_empty_def)

text \<open>
  an address lookup is exact in a well-formed tree: it finds an object if and only if
  the object is live and its interval holds the address, so the object it finds is unique, and
  otherwise it fails loudly.
\<close>

theorem tree_find_exact:
  assumes "tree_inv t"
  shows "(\<forall>p. tree_find t a = Inr p \<longleftrightarrow> (\<exists>ob. store t p = Some ob \<and> interval_contains ob a)) \<and>
    ((\<nexists>p ob. store t p = Some ob \<and> interval_contains ob a) \<longrightarrow>
     tree_find t a = Inl (Fail_loud ''Unbound pointer!''))"
  using tree_find_iff [OF assms] tree_find_unbound [OF assms, of a] by blast

definition sample_tree :: "object tree" where
  "sample_tree = \<lparr>objects = [0x5000], store = [0x5000 \<mapsto> sample_object]\<rparr>"

lemma sample_tree_inv: "tree_inv sample_tree"
  by (simp add: sample_tree_def tree_inv_def sample_object_def)

theorem tree_find_exact_witness:
  "tree_inv sample_tree \<and> tree_find sample_tree 0x1004 = Inr 0x5000 \<and>
   tree_find sample_tree 0x2000 = Inl (Fail_loud ''Unbound pointer!'')"
  using tree_find_exact [OF sample_tree_inv, of "0x1004"]
    tree_find_exact [OF sample_tree_inv, of "0x2000"] sample_tree_inv
  by (simp add: sample_tree_def sample_object_def interval_contains_def)

text \<open>
  Claim C19: the translation of physical to virtual addresses and back is the identity on every
  address an object covers.
\<close>

theorem phys_virt_roundtrip:
  assumes "heap_inv h" and "physToVirtAddress h a = Inr v"
  shows "virtToPhysAddress h v = Inr a"
  using assms by (auto simp: physToVirt_eq virtToPhysAddress_def)

definition sample_heap :: heap where
  "sample_heap = \<lparr>tree = sample_tree, newAddresses = [], deletedAddresses = []\<rparr>"

lemma sample_heap_inv: "heap_inv sample_heap"
  using sample_tree_inv
  by (simp add: heap_inv_def sample_heap_def sample_tree_def object_wf_def sample_object_def)

lemma sample_heap_store [simp]: "store (tree sample_heap) = [0x5000 \<mapsto> sample_object]"
  by (simp add: sample_heap_def sample_tree_def)

lemma sample_heap_resolves: "physToVirtAddress sample_heap 0x1004 = Inr \<lparr>obj = 0x5000, offset = 4\<rparr>"
  by (simp add: physToVirt_eq [OF sample_heap_inv] sample_object_def interval_contains_def)

theorem phys_virt_roundtrip_witness:
  "heap_inv sample_heap \<and> physToVirtAddress sample_heap 0x1004 = Inr \<lparr>obj = 0x5000, offset = 4\<rparr> \<and>
   virtToPhysAddress sample_heap \<lparr>obj = 0x5000, offset = 4\<rparr> = Inr 0x1004"
  using phys_virt_roundtrip [OF sample_heap_inv sample_heap_resolves] sample_heap_inv
    sample_heap_resolves by blast

text \<open>
  conversely a virtual address with an offset inside its object translates to a
  physical address that translates back to it.
\<close>

theorem virt_phys_roundtrip:
  assumes inv: "heap_inv h" and ob: "store (tree h) (obj v) = Some ob"
    and "offset v \<le> right ob - left ob"
  shows "\<exists>a. virtToPhysAddress h v = Inr a \<and> physToVirtAddress h a = Inr v"
proof -
  have "interval_contains ob (left ob + offset v)"
    using tree_invD(3) [OF heap_invD(1) [OF inv] ob] assms(3) by (rule interval_contains_offset)
  then show ?thesis
    using ob by (auto simp: virtToPhysAddress_def physToVirt_eq [OF inv])
qed

theorem virt_phys_roundtrip_witness:
  "\<exists>a. virtToPhysAddress sample_heap \<lparr>obj = 0x5000, offset = 7\<rparr> = Inr a \<and>
     physToVirtAddress sample_heap a = Inr \<lparr>obj = 0x5000, offset = 7\<rparr>"
  by (rule virt_phys_roundtrip [OF sample_heap_inv, of _ sample_object]) (simp_all add: sample_object_def)

text \<open>
  the end of a collection is exact: the live objects afterwards are those that were
  marked, unmarked again and otherwise unchanged, and the identifiers of all others, in the order
  of the vector, are appended to the deleted addresses.
\<close>

theorem clearAfterGC_exact:
  assumes "heap_inv h"
  shows "\<exists>h'. clearAfterGC h = Inr h' \<and>
    (\<forall>p. store (tree h') p = (case store (tree h) p of None \<Rightarrow> None
       | Some ob \<Rightarrow> if marked ob then Some (ob\<lparr>marked := False\<rparr>) else None)) \<and>
    deletedAddresses h' = deletedAddresses h @
      filter (\<lambda>p. \<not> marked (the (store (tree h) p))) (objects (tree h))"
  using clearAfterGC_inv [OF assms] by (elim exE conjE) (intro exI conjI)

theorem clearAfterGC_exact_witness:
  "\<exists>h'. clearAfterGC sample_heap = Inr h' \<and> store (tree h') 0x5000 = None \<and>
     deletedAddresses h' = [0x5000]"
  using clearAfterGC_exact [OF sample_heap_inv]
  by (auto simp: sample_object_def sample_heap_def sample_tree_def)

lemma heap_write_other:
  assumes inv: "heap_inv h" and ok: "access_ok h p a sz" and w: "heap_write a sz v h = Inr h'"
    and q: "store (tree h) q = Some ob" "interval_contains ob b" "q \<noteq> p"
  shows "heap_read h' b sz' = heap_read h b sz'"
proof -
  obtain ob1 cs h1 where h1: "heap_write a sz v h = Inr h1" "heap_inv h1"
      "h1 = h\<lparr>tree := (tree h)\<lparr>store := (store (tree h))(p \<mapsto> ob1\<lparr>concreteness := cs\<rparr>)\<rparr>\<rparr>"
    using heap_write_inv [OF inv ok, of v] by metis
  then have "h1 = h'" "store (tree h') q = Some ob"
    using w q by auto
  then show ?thesis
    using heap_read_eq [OF _ _ q(2)] h1(2) inv q(1) by simp
qed

text \<open>
  Claim C18: a write through an address inside an object succeeds; a read of the same range then
  answers what was written, and a read at any address of any other object answers what it
  answered before.
\<close>

theorem heap_read_after_write:
  assumes inv: "heap_inv h" and ok: "access_ok h p a sz"
  shows "\<exists>h'. heap_write a sz v h = Inr h' \<and> heap_read h' a sz = Inr v \<and>
    (\<forall>q ob b sz'. store (tree h) q = Some ob \<longrightarrow> interval_contains ob b \<longrightarrow> q \<noteq> p \<longrightarrow>
       heap_read h' b sz' = heap_read h b sz')"
proof -
  obtain ob cs h' where ob: "interval_contains ob a" "range_inside ob (a - left ob) sz"
      "object_write (a - left ob) sz v ob = Inr (ob\<lparr>concreteness := cs\<rparr>)"
    and h': "heap_write a sz v h = Inr h'" "heap_inv h'"
      "h' = h\<lparr>tree := (tree h)\<lparr>store := (store (tree h))(p \<mapsto> ob\<lparr>concreteness := cs\<rparr>)\<rparr>\<rparr>"
    using heap_write_inv [OF inv ok, of v] by metis
  let ?ob = "ob\<lparr>concreteness := cs\<rparr>"
  have "store (tree h') p = Some ?ob" "interval_contains ?ob a"
    using h'(3) ob(1) by (simp_all add: interval_contains_def)
  then have "heap_read h' a sz = Inr v"
    using heap_read_eq [OF h'(2)] obj.read_after_write [OF ob(2,3)] by simp
  then show ?thesis
    using h'(1) heap_write_other [OF inv ok h'(1)] by blast
qed

theorem heap_read_after_write_witness:
  "access_ok sample_heap 0x5000 0x1004 8 \<and>
   (\<exists>h'. heap_write 0x1004 8 False sample_heap = Inr h' \<and> heap_read h' 0x1004 8 = Inr False)"
proof -
  have ok: "access_ok sample_heap 0x5000 0x1004 8"
    by (simp add: access_ok_def sample_object_def interval_contains_def)
  show ?thesis
    using heap_read_after_write [OF sample_heap_inv ok, of False] ok by blast
qed

subsection \<open>Reports of new objects\<close>

text \<open>The identifiers allocated after the last report in a sequence of events.\<close>

fun new_since_flush :: "heap_event list \<Rightarrow> objid set \<Rightarrow> objid set" where
  "new_since_flush [] A = A"
| "new_since_flush (e # es) A = new_since_flush es
     (case e of Allocate p a sz type typeLength \<Rightarrow> insert p A | Flush_objects \<Rightarrow> {} | _ \<Rightarrow> A)"

lemma heap_exec_newAddresses:
  assumes "heap_exec e h = Inr h'"
  shows "newAddresses h' =
    (case e of Allocate p a sz type typeLength \<Rightarrow> omap_put p (type, typeLength) (newAddresses h)
     | Flush_objects \<Rightarrow> [] | _ \<Rightarrow> newAddresses h)"
  using assms
  by (cases e)
    (auto simp: allocateObject_def heap_write_def heap_moveAndMark_def markSurvivedObjects_def
      clearAfterGC_def flushObjects_def Let_def tree_add_def res_simps split: option.splits)

lemma heap_exec_new_keys:
  assumes "heap_exec e h = Inr h'"
  shows "fst ` set (newAddresses h') =
    (case e of Allocate p a sz type typeLength \<Rightarrow> insert p (fst ` set (newAddresses h)) | Flush_objects \<Rightarrow> {}
     | _ \<Rightarrow> fst ` set (newAddresses h))"
  unfolding heap_exec_newAddresses [OF assms] by (cases e) (simp_all add: omap_put_keys)

text \<open>
  Claim C20: whatever the sequence of calls, a report hands out exactly the identifiers that were
  allocated since the previous report, so each allocation is reported once and none is lost.
\<close>

theorem flush_reports_new_objects:
  assumes "fold_res heap_exec es heap_empty = Inr h"
  shows "fst ` set (fst (flushObjects h)) = new_since_flush es {} \<and>
    newAddresses (snd (flushObjects h)) = []"
proof -
  have "fst ` set (newAddresses h') = new_since_flush es (fst ` set (newAddresses h0))"
    if "fold_res heap_exec es h0 = Inr h'" for h0 h'
    using that
  proof (induction es arbitrary: h0)
    case (Cons e es)
    then obtain h1 where "heap_exec e h0 = Inr h1" "fold_res heap_exec es h1 = Inr h'"
      by auto
    then show ?case
      using Cons.IH by (simp add: heap_exec_new_keys)
  qed simp
  then show ?thesis
    using assms by (auto simp: flushObjects_def heap_empty_def)
qed

theorem flush_reports_new_objects_witness:
  "\<exists>h. fold_res heap_exec [sample_event] heap_empty = Inr h \<and>
     fst ` set (fst (flushObjects h)) = {0x5000}"
proof -
  obtain h where h: "fold_res heap_exec [sample_event] heap_empty = Inr h"
    using heap_exec_inv [OF heap_inv_empty sample_event_ok] by auto
  show ?thesis
    using flush_reports_new_objects [OF h] h by (auto simp: sample_event_def)
qed

subsection \<open>Where the overlap test falls short\<close>

text \<open>
  the overlap test used by the assertions of a collection misses the case in which the
  other interval properly encloses this one on both sides: it answers false although the two
  share every address of this one. In every other case of two non-empty intervals it is exact.
\<close>

theorem intersects_misses_enclosing:
  assumes "left i \<le> right i" and "left other \<le> right other"
  shows "interval_intersects i other \<longleftrightarrow>
    \<not> interval_disjoint i other \<and> \<not> (left other < left i \<and> right i < right other)"
  using assms by (auto simp: interval_defs)

theorem intersects_misses_enclosing_witness:
  "\<not> interval_intersects (mk_interval 0x20 0x10) (mk_interval 0x10 0x40) \<and>
   \<not> interval_disjoint (mk_interval 0x20 0x10) (mk_interval 0x10 0x40)"
  using intersects_misses_enclosing [of "mk_interval 0x20 0x10" "mk_interval 0x10 0x40"]
  by (simp add: interval_disjoint_def)

end
