(* ===== verification/Eval_Stack.thy ===== *)
theory Eval_Stack
  imports VPrelude
begin

section \<open>The shadow evaluation stack\<close>

text \<open>
  The classes \<^verbatim>\<open>StackFrame\<close> and \<^verbatim>\<open>Stack\<close> of \<^verbatim>\<open>memory/stack.cpp\<close>. A frame shadows
  the IL evaluation stack of one activation: a cell is \<open>CONCRETE\<close> or the number of a symbolic
  value, counted from one in the order in which the symbolic values were pushed. The counters are
  32-bit. An array that was not allocated is the empty list, the cells of a new array are
  \<open>None\<close> until they are stored to.
\<close>

subsection \<open>Frames\<close>

abbreviation CONCRETE :: u32 where
  "CONCRETE \<equiv> 0xFFFFFFFF"

record stack_frame =
  m_concreteness :: "u32 option list"
  m_capacity :: u32
  m_concretenessTop :: u32
  m_symbolsCount :: u32
  m_lastSentSymbolsCount :: u32
  m_minSymbsCountSinceLastSent :: u32
  m_args :: "bool list"
  m_locals :: "bool list"
  m_resolvedToken :: u32
  m_unresolvedToken :: u32
  m_enteredMarker :: bool
  m_spontaneous :: bool
  m_lastPoppedSymbolics :: "(u32 \<times> u32) list"

definition frame_resetPopsTracking :: "stack_frame \<Rightarrow> stack_frame" where
  "frame_resetPopsTracking f =
     f\<lparr>m_lastSentSymbolsCount := m_symbolsCount f, m_minSymbsCountSinceLastSent := m_symbolsCount f\<rparr>"

definition mk_frame :: "u32 \<Rightarrow> u32 \<Rightarrow> bool list \<Rightarrow> u32 \<Rightarrow> stack_frame res" where
  "mk_frame resolvedToken unresolvedToken args argsCount =
     and_then (check (unat argsCount \<le> length args) Out_of_bounds) (\<lambda>_.
       Inr (frame_resetPopsTracking
         \<lparr>m_concreteness = [], m_capacity = 0, m_concretenessTop = 0, m_symbolsCount = 0,
          m_lastSentSymbolsCount = 0, m_minSymbsCountSinceLastSent = 0,
          m_args = take (unat argsCount) args, m_locals = [],
          m_resolvedToken = resolvedToken, m_unresolvedToken = unresolvedToken,
          m_enteredMarker = False, m_spontaneous = False, m_lastPoppedSymbolics = []\<rparr>))"

definition frame_configure :: "u32 \<Rightarrow> u32 \<Rightarrow> stack_frame \<Rightarrow> stack_frame" where
  "frame_configure maxStackSize localsCount f =
     f\<lparr>m_capacity := maxStackSize,
       m_concreteness := replicate (unat maxStackSize) None,
       m_locals := replicate (unat localsCount) True\<rparr>"

definition frame_isEmpty :: "stack_frame \<Rightarrow> bool" where
  "frame_isEmpty f \<longleftrightarrow> m_concretenessTop f = 0"

definition frame_isFull :: "stack_frame \<Rightarrow> bool" where
  "frame_isFull f \<longleftrightarrow> m_concretenessTop f = m_capacity f"

definition load_cell :: "stack_frame \<Rightarrow> u32 \<Rightarrow> u32 res" where
  "load_cell f i =
     (if unat i < length (m_concreteness f)
      then from_option Uninitialised (m_concreteness f ! unat i)
      else Inl Out_of_bounds)"

definition store_cell :: "u32 \<Rightarrow> u32 \<Rightarrow> stack_frame \<Rightarrow> stack_frame res" where
  "store_cell i c f =
     (if unat i < length (m_concreteness f)
      then Inr (f\<lparr>m_concreteness := (m_concreteness f)[unat i := Some c]\<rparr>)
      else Inl Out_of_bounds)"

definition peek :: "stack_frame \<Rightarrow> u32 \<Rightarrow> bool res" where
  "peek f idx = and_then (load_cell f (m_concretenessTop f - idx - 1)) (\<lambda>c. Inr (c = CONCRETE))"

definition peek0 :: "stack_frame \<Rightarrow> bool res" where
  "peek0 f = and_then (load_cell f (m_concretenessTop f - 1)) (\<lambda>c. Inr (c = CONCRETE))"

definition peek1 :: "stack_frame \<Rightarrow> bool res" where
  "peek1 f = and_then (load_cell f (m_concretenessTop f - 2)) (\<lambda>c. Inr (c = CONCRETE))"

definition peek2 :: "stack_frame \<Rightarrow> bool res" where
  "peek2 f = and_then (load_cell f (m_concretenessTop f - 3)) (\<lambda>c. Inr (c = CONCRETE))"

definition pop0 :: "stack_frame \<Rightarrow> stack_frame" where
  "pop0 f = f\<lparr>m_lastPoppedSymbolics := []\<rparr>"

definition push1 :: "bool \<Rightarrow> stack_frame \<Rightarrow> stack_frame res" where
  "push1 isConcrete f =
     (if frame_isFull f then Inl (Fail_loud ''Stack overflow!'')
      else let top = m_concretenessTop f;
               f = f\<lparr>m_concretenessTop := top + 1\<rparr>
           in if isConcrete then store_cell top CONCRETE f
              else let f = f\<lparr>m_symbolsCount := m_symbolsCount f + 1\<rparr>
                   in store_cell top (m_symbolsCount f) f)"

definition push1Concrete :: "stack_frame \<Rightarrow> stack_frame res" where
  "push1Concrete f = push1 True f"

definition pop1 :: "stack_frame \<Rightarrow> (bool \<times> stack_frame) res" where
  "pop1 f =
     (if frame_isEmpty f then Inl (Fail_loud ''Corrupted stack!'')
      else let f = f\<lparr>m_lastPoppedSymbolics := []\<rparr>;
               f = f\<lparr>m_concretenessTop := m_concretenessTop f - 1\<rparr>
           in and_then (load_cell f (m_concretenessTop f)) (\<lambda>cell.
              if cell \<noteq> CONCRETE
              then Inr (False, f\<lparr>m_symbolsCount := m_symbolsCount f - 1,
                     m_lastPoppedSymbolics := m_lastPoppedSymbolics f @ [(cell, 0)]\<rparr>)
              else Inr (True, f)))"

text \<open>The loop of \<open>pop\<close>, with \<open>i\<close> counting down to the new top.\<close>

definition pop_cell :: "u32 \<Rightarrow> nat \<Rightarrow> stack_frame \<Rightarrow> stack_frame res" where
  "pop_cell cnt i f =
     and_then (load_cell f (word_of_nat (i - 1))) (\<lambda>cell.
       if cell \<noteq> CONCRETE
       then Inr (f\<lparr>m_symbolsCount := m_symbolsCount f - 1,
              m_lastPoppedSymbolics := m_lastPoppedSymbolics f @
                [(cell, m_concretenessTop f + cnt - word_of_nat i)]\<rparr>)
       else Inr f)"

definition pop :: "u32 \<Rightarrow> stack_frame \<Rightarrow> (bool \<times> stack_frame) res" where
  "pop cnt f =
     (if m_concretenessTop f < cnt then Inl (Fail_loud ''Corrupted stack!'')
      else let f = f\<lparr>m_lastPoppedSymbolics := []\<rparr>;
               f = f\<lparr>m_concretenessTop := m_concretenessTop f - cnt\<rparr>;
               is = rev [unat (m_concretenessTop f) + 1 ..< unat (m_concretenessTop f + cnt) + 1]
           in and_then (fold_res (pop_cell cnt) is f) (\<lambda>f.
              Inr (m_lastPoppedSymbolics f = [], f)))"

definition pop1Async :: "stack_frame \<Rightarrow> stack_frame res" where
  "pop1Async f =
     and_then (pop1 f) (\<lambda>(_, f).
       Inr (if m_minSymbsCountSinceLastSent f > m_symbolsCount f
            then f\<lparr>m_minSymbsCountSinceLastSent := m_symbolsCount f\<rparr> else f))"

definition frame_arg :: "stack_frame \<Rightarrow> u32 \<Rightarrow> bool res" where
  "frame_arg f index =
     (if unat index < length (m_args f) then Inr (m_args f ! unat index) else Inl Out_of_bounds)"

definition setArg :: "u32 \<Rightarrow> bool \<Rightarrow> stack_frame \<Rightarrow> stack_frame res" where
  "setArg index v f =
     (if unat index < length (m_args f) then Inr (f\<lparr>m_args := (m_args f)[unat index := v]\<rparr>)
      else Inl Out_of_bounds)"

definition frame_loc :: "stack_frame \<Rightarrow> u32 \<Rightarrow> bool res" where
  "frame_loc f index =
     (if unat index < length (m_locals f) then Inr (m_locals f ! unat index) else Inl Out_of_bounds)"

definition setLoc :: "u32 \<Rightarrow> bool \<Rightarrow> stack_frame \<Rightarrow> stack_frame res" where
  "setLoc index v f =
     (if unat index < length (m_locals f) then Inr (f\<lparr>m_locals := (m_locals f)[unat index := v]\<rparr>)
      else Inl Out_of_bounds)"

definition dup :: "stack_frame \<Rightarrow> (bool \<times> stack_frame) res" where
  "dup f =
     and_then (pop1 f) (\<lambda>(concreteness, f).
       if concreteness
       then and_then (push1 concreteness f) (\<lambda>f.
            and_then (push1 concreteness f) (\<lambda>f. Inr (concreteness, f)))
       else Inr (concreteness, f))"

definition frame_count :: "stack_frame \<Rightarrow> u32" where
  "frame_count f = m_concretenessTop f"

definition setEnteredMarker :: "bool \<Rightarrow> stack_frame \<Rightarrow> stack_frame" where
  "setEnteredMarker entered f = f\<lparr>m_enteredMarker := entered\<rparr>"

definition setSpontaneous :: "bool \<Rightarrow> stack_frame \<Rightarrow> stack_frame" where
  "setSpontaneous isUnmanaged f = f\<lparr>m_spontaneous := isUnmanaged\<rparr>"

definition evaluationStackPops :: "stack_frame \<Rightarrow> u32 res" where
  "evaluationStackPops f =
     and_then (check (m_minSymbsCountSinceLastSent f \<le> m_lastSentSymbolsCount f) Assert_failed)
       (\<lambda>_. Inr (m_lastSentSymbolsCount f - m_minSymbsCountSinceLastSent f))"

subsection \<open>Stacks of frames\<close>

text \<open>The last element of the list is the top frame, as in the \<^verbatim>\<open>std::deque\<close> of the source.\<close>

record stack =
  m_frames :: "stack_frame list"
  m_lastSentTop :: u32
  m_minTopSinceLastSent :: u32

definition stack_new :: stack where
  "stack_new = \<lparr>m_frames = [], m_lastSentTop = 0, m_minTopSinceLastSent = 0\<rparr>"

definition pushFrame :: "u32 \<Rightarrow> u32 \<Rightarrow> bool list \<Rightarrow> u32 \<Rightarrow> stack \<Rightarrow> stack res" where
  "pushFrame resolvedToken unresolvedToken args argsCount s =
     and_then (mk_frame resolvedToken unresolvedToken args argsCount)
       (\<lambda>f. Inr (s\<lparr>m_frames := m_frames s @ [f]\<rparr>))"

definition popFrameUntracked :: "stack \<Rightarrow> stack res" where
  "popFrameUntracked s =
     (if m_frames s = [] then Inl (Fail_loud ''Stack is empty! Can't pop frame!'')
      else if \<not> frame_isEmpty (last (m_frames s))
      then Inl (Fail_loud ''Corrupted stack: opstack is not empty when popping frame!'')
      else Inr (s\<lparr>m_frames := butlast (m_frames s)\<rparr>))"

definition popFrame :: "stack \<Rightarrow> stack res" where
  "popFrame s =
     and_then (popFrameUntracked s) (\<lambda>s.
       Inr (if length (m_frames s) < unat (m_minTopSinceLastSent s)
            then s\<lparr>m_minTopSinceLastSent := word_of_nat (length (m_frames s))\<rparr> else s))"

definition stack_topFrame :: "stack \<Rightarrow> stack_frame res" where
  "stack_topFrame s =
     (if m_frames s = [] then Inl (Fail_loud ''Requesting top frame of empty stack!'')
      else Inr (last (m_frames s)))"

text \<open>An operation on the reference that \<^verbatim>\<open>topFrame()\<close> returns.\<close>

definition on_topFrame :: "(stack_frame \<Rightarrow> ('a \<times> stack_frame) res) \<Rightarrow> stack \<Rightarrow> ('a \<times> stack) res" where
  "on_topFrame op s =
     and_then (stack_topFrame s) (\<lambda>f.
     and_then (op f) (\<lambda>(x, f'). Inr (x, s\<lparr>m_frames := butlast (m_frames s) @ [f']\<rparr>)))"

definition stack_isEmpty :: "stack \<Rightarrow> bool" where
  "stack_isEmpty s \<longleftrightarrow> m_frames s = []"

definition framesCount :: "stack \<Rightarrow> u32" where
  "framesCount s = word_of_nat (length (m_frames s))"

definition tokenAt :: "stack \<Rightarrow> u32 \<Rightarrow> u32 res" where
  "tokenAt s index =
     (if unat index < length (m_frames s) then Inr (m_unresolvedToken (m_frames s ! unat index))
      else Inl Out_of_bounds)"

definition unsentPops :: "stack \<Rightarrow> u32" where
  "unsentPops s = m_lastSentTop s - m_minTopSinceLastSent s"

definition stack_resetPopsTracking :: "u32 \<Rightarrow> stack \<Rightarrow> stack" where
  "stack_resetPopsTracking count s =
     (let s = s\<lparr>m_lastSentTop := count, m_minTopSinceLastSent := word_of_nat (length (m_frames s))\<rparr>
      in if m_frames s \<noteq> []
         then s\<lparr>m_frames := butlast (m_frames s) @ [frame_resetPopsTracking (last (m_frames s))]\<rparr>
         else s)"

subsection \<open>The invariant of a frame and the stack it stands for\<close>

definition symbolic :: "u32 \<Rightarrow> bool" where
  "symbolic c \<longleftrightarrow> c \<noteq> CONCRETE"

definition frame_cells :: "stack_frame \<Rightarrow> u32 list" where
  "frame_cells f = map the (take (unat (m_concretenessTop f)) (m_concreteness f))"

text \<open>
  The symbolic cells are numbered one, two, three and so on from the bottom, without gaps, and
  \<open>m_symbolsCount\<close> is the last number.
\<close>

definition frame_inv :: "stack_frame \<Rightarrow> bool" where
  "frame_inv f \<longleftrightarrow>
     m_concretenessTop f \<le> m_capacity f \<and> unat (m_capacity f) < 2 ^ 32 - 1 \<and>
     length (m_concreteness f) = unat (m_capacity f) \<and>
     None \<notin> set (take (unat (m_concretenessTop f)) (m_concreteness f)) \<and>
     filter symbolic (frame_cells f) = map word_of_nat [1 ..< unat (m_symbolsCount f) + 1] \<and>
     m_minSymbsCountSinceLastSent f \<le> m_lastSentSymbolsCount f"

text \<open>What the frame means: the concreteness of the operands, the top of the stack first.\<close>

definition frame_stack :: "stack_frame \<Rightarrow> bool list" where
  "frame_stack f = rev (map (\<lambda>c. \<not> symbolic c) (frame_cells f))"

lemma frame_invD:
  assumes "frame_inv f"
  shows "unat (m_concretenessTop f) \<le> unat (m_capacity f)" and "unat (m_capacity f) < 2 ^ 32 - 1"
    and "length (m_concreteness f) = unat (m_capacity f)"
    and "None \<notin> set (take (unat (m_concretenessTop f)) (m_concreteness f))"
    and "filter symbolic (frame_cells f) = map word_of_nat [1 ..< unat (m_symbolsCount f) + 1]"
    and "length (frame_cells f) = unat (m_concretenessTop f)"
  using assms by (auto simp: frame_inv_def frame_cells_def word_le_nat_alt)

lemma length_frame_stack: "frame_inv f \<Longrightarrow> length (frame_stack f) = unat (m_concretenessTop f)"
  by (simp add: frame_stack_def frame_invD(6))

lemma symbols_le:
  assumes "frame_inv f" shows "unat (m_symbolsCount f) \<le> unat (m_concretenessTop f)"
proof -
  have "unat (m_symbolsCount f) = length (filter symbolic (frame_cells f))"
    by (simp add: frame_invD(5) [OF assms])
  also have "\<dots> \<le> length (frame_cells f)"
    by (rule length_filter_le)
  finally show ?thesis
    by (simp add: frame_invD(6) [OF assms])
qed

lemma u32_less: "n < 2 ^ 32 \<Longrightarrow> unat (word_of_nat n :: u32) = n"
  by (simp add: unsigned_of_nat take_bit_nat_eq_self)

lemma u32_bound: "unat (w :: u32) < 2 ^ 32"
proof -
  have "unat w < 2 ^ LENGTH(32)"
    by (rule unsigned_less)
  then show ?thesis by simp
qed

lemma load_cell_eq:
  assumes "frame_inv f" and "i < unat (m_concretenessTop f)"
  shows "load_cell f (word_of_nat i) = Inr (frame_cells f ! i)"
proof -
  have len: "i < length (m_concreteness f)" "i < 2 ^ 32"
    using assms frame_invD(1-3) [OF assms(1)] by auto
  have "m_concreteness f ! i \<in> set (take (unat (m_concretenessTop f)) (m_concreteness f))"
    using assms(2) len by (auto simp: in_set_conv_nth intro!: exI [of _ i])
  then obtain c where "m_concreteness f ! i = Some c"
    using frame_invD(4) [OF assms(1)] by (metis not_None_eq)
  then show ?thesis
    using len assms(2) by (simp add: load_cell_def u32_less frame_cells_def)
qed

lemma frame_stack_nth:
  assumes "frame_inv f" and "k < unat (m_concretenessTop f)"
  shows "frame_stack f ! k \<longleftrightarrow> \<not> symbolic (frame_cells f ! (unat (m_concretenessTop f) - Suc k))"
  using assms by (simp add: frame_stack_def rev_nth frame_invD(6))

lemma push1_spec:
  assumes inv: "frame_inv f" and room: "m_concretenessTop f < m_capacity f"
  shows "\<exists>f'. push1 b f = Inr f' \<and> frame_inv f' \<and> frame_stack f' = b # frame_stack f \<and>
    m_capacity f' = m_capacity f \<and> m_lastPoppedSymbolics f' = m_lastPoppedSymbolics f \<and>
    m_symbolsCount f' = (if b then m_symbolsCount f else m_symbolsCount f + 1)"
proof -
  define T m where "T = unat (m_concretenessTop f)" and "m = unat (m_symbolsCount f)"
  define c where "c = (if b then CONCRETE else m_symbolsCount f + 1)"
  define f' where "f' = f\<lparr>m_concreteness := (m_concreteness f)[T := Some c],
      m_concretenessTop := m_concretenessTop f + 1,
      m_symbolsCount := (if b then m_symbolsCount f else m_symbolsCount f + 1)\<rparr>"
  note D = frame_invD [OF inv]
  have T: "T < length (m_concreteness f)" "T + 1 < 2 ^ 32"
    using room D(2,3) by (auto simp: T_def word_less_nat_alt)
  then have T': "unat (m_concretenessTop f + 1) = T + 1"
    by (simp add: T_def unat_word_ariths)
  have m: "unat (m_symbolsCount f + 1) = m + 1" "m + 1 < 2 ^ 32 - 1"
    using symbols_le [OF inv] room D(2) by (auto simp: T_def m_def unat_word_ariths word_less_nat_alt)
  have "m_symbolsCount f + 1 \<noteq> CONCRETE"
    using m by auto
  then have sym: "symbolic c \<longleftrightarrow> \<not> b"
    by (simp add: c_def symbolic_def)
  have "push1 b f = Inr f'"
    using room T by (auto simp: push1_def frame_isFull_def store_cell_def f'_def T_def c_def Let_def)
  moreover have cells: "frame_cells f' = frame_cells f @ [c]"
    using T by (simp add: frame_cells_def f'_def T' take_Suc_conv_app_nth flip: T_def)
  have "frame_inv f'"
    unfolding frame_inv_def cells
  proof (intro conjI)
    show "m_concretenessTop f' \<le> m_capacity f'"
      using room T' by (simp add: f'_def word_le_nat_alt word_less_nat_alt T_def)
    show "None \<notin> set (take (unat (m_concretenessTop f')) (m_concreteness f'))"
      using T D(4) by (simp add: f'_def T' take_Suc_conv_app_nth flip: T_def)
    have "m_symbolsCount f + 1 = word_of_nat (m + 1)"
      by (simp add: m_def)
    then have "map word_of_nat [1..<(m + 1) + 1] =
        map word_of_nat [1..<m + 1] @ [m_symbolsCount f + 1]"
      by simp
    then show "filter symbolic (frame_cells f @ [c]) = map word_of_nat [1..<unat (m_symbolsCount f') + 1]"
      using D(5) sym m(1) by (cases b) (simp_all add: f'_def c_def m_def)
  qed (use D(2,3) inv in \<open>simp_all add: f'_def frame_inv_def\<close>)
  moreover have "frame_stack f' = b # frame_stack f"
    using sym by (simp add: frame_stack_def cells)
  ultimately show ?thesis
    by (simp add: f'_def)
qed

lemma load_cell_cong:
  "m_concreteness f' = m_concreteness f \<Longrightarrow> load_cell f' i = load_cell f i"
  by (simp add: load_cell_def)

lemma fold_pop_cell:
  assumes "\<And>i. i \<in> set ns \<Longrightarrow> load_cell f (word_of_nat (i - 1)) = Inr (c i)"
  shows "fold_res (pop_cell cnt) ns f = Inr (f\<lparr>
      m_symbolsCount := m_symbolsCount f - word_of_nat (length (filter (\<lambda>i. symbolic (c i)) ns)),
      m_lastPoppedSymbolics := m_lastPoppedSymbolics f @
        map (\<lambda>i. (c i, m_concretenessTop f + cnt - word_of_nat i)) (filter (\<lambda>i. symbolic (c i)) ns)\<rparr>)"
  using assms
proof (induction ns arbitrary: f)
  case (Cons i ns)
  define f1 where "f1 = (if symbolic (c i) then f\<lparr>m_symbolsCount := m_symbolsCount f - 1,
      m_lastPoppedSymbolics := m_lastPoppedSymbolics f @
        [(c i, m_concretenessTop f + cnt - word_of_nat i)]\<rparr> else f)"
  have same: "m_concreteness f1 = m_concreteness f" "m_concretenessTop f1 = m_concretenessTop f"
    by (simp_all add: f1_def)
  have "pop_cell cnt i f = Inr f1"
    using Cons.prems [of i] by (simp add: pop_cell_def f1_def symbolic_def)
  moreover have "load_cell f1 (word_of_nat (j - 1)) = Inr (c j)" if "j \<in> set ns" for j
    using Cons.prems [of j] that by (simp add: load_cell_cong [OF same(1)])
  from Cons.IH [OF this] have "fold_res (pop_cell cnt) ns f1 = Inr (f1\<lparr>
      m_symbolsCount := m_symbolsCount f1 - word_of_nat (length (filter (\<lambda>i. symbolic (c i)) ns)),
      m_lastPoppedSymbolics := m_lastPoppedSymbolics f1 @
        map (\<lambda>i. (c i, m_concretenessTop f1 + cnt - word_of_nat i)) (filter (\<lambda>i. symbolic (c i)) ns)\<rparr>)"
    by simp
  ultimately show ?case
    by (simp add: f1_def diff_diff_eq)
qed simp

text \<open>
  The popped symbolic values in the form the protocol sends them: the number of the value and how
  far below the top it was.
\<close>

definition popped :: "u32 list \<Rightarrow> (u32 \<times> u32) list" where
  "popped cs = filter (\<lambda>(c, k). symbolic c) (zip cs (map word_of_nat [0 ..< length cs]))"

lemma popped_alt:
  "popped cs = map (\<lambda>k. (cs ! k, word_of_nat k)) (filter (\<lambda>k. symbolic (cs ! k)) [0 ..< length cs])"
proof -
  have "zip cs (map word_of_nat [0 ..< length cs]) =
      map (\<lambda>k. (cs ! k, word_of_nat k :: u32)) [0 ..< length cs]"
    by (rule nth_equalityI) simp_all
  then show ?thesis
    by (simp add: popped_def filter_map o_def)
qed

lemma map_fst_popped: "map fst (popped cs) = filter symbolic cs"
proof -
  have "map (\<lambda>k. cs ! k) (filter (\<lambda>k. symbolic (cs ! k)) [0 ..< length cs]) =
      filter symbolic (map (\<lambda>k. cs ! k) [0 ..< length cs])"
    by (simp add: filter_map o_def)
  then show ?thesis
    by (simp add: popped_alt o_def map_nth)
qed

lemma rev_upt_reindex: "n \<le> T \<Longrightarrow> rev [T - n + 1 ..< T + 1] = map (\<lambda>k. T - k) [0 ..< n]"
proof (induction n)
  case (Suc n)
  then have "[T - Suc n + 1 ..< T + 1] = (T - n) # [T - n + 1 ..< T + 1]"
    by (subst upt_conv_Cons) (simp_all add: Suc_diff_Suc)
  with Suc show ?case by simp
qed simp

lemma filter_numbers_split:
  assumes "filter symbolic cs = map word_of_nat [1 ..< m + 1]" and "n \<le> length cs"
  defines "k \<equiv> length (filter symbolic (drop n cs))"
  shows "k \<le> m" and "filter symbolic (take n cs) = map word_of_nat [1 ..< m - k + 1]"
    and "filter symbolic (drop n cs) = map word_of_nat [m - k + 1 ..< m + 1]"
proof -
  have split: "filter symbolic (take n cs) @ filter symbolic (drop n cs) = map word_of_nat [1 ..< m + 1]"
    using assms(1) by (metis append_take_drop_id filter_append)
  then have len: "length (filter symbolic (take n cs)) + k = m"
    unfolding k_def by (metis add_diff_cancel_right' length_append length_map length_upt)
  then show "k \<le> m"
    by simp
  have "[1 ..< m + 1] = [1 ..< m - k + 1] @ [m - k + 1 ..< m + 1]"
    using \<open>k \<le> m\<close> upt_add_eq_append [of 1 "m - k + 1" k] by simp
  then have "filter symbolic (take n cs) @ filter symbolic (drop n cs) =
      map word_of_nat [1 ..< m - k + 1] @ map word_of_nat [m - k + 1 ..< m + 1]"
    using split by simp
  moreover have "length (filter symbolic (take n cs)) = length (map word_of_nat [1 ..< m - k + 1] :: u32 list)"
    unfolding length_map length_upt using len by linarith
  ultimately have "filter symbolic (take n cs) = map word_of_nat [1 ..< m - k + 1] \<and>
      filter symbolic (drop n cs) = map word_of_nat [m - k + 1 ..< m + 1]"
    using append_eq_append_conv by blast
  then show "filter symbolic (take n cs) = map word_of_nat [1 ..< m - k + 1]"
      and "filter symbolic (drop n cs) = map word_of_nat [m - k + 1 ..< m + 1]"
    by blast+
qed

lemma popped_from_top:
  fixes t :: u32
  assumes "n \<le> T" and "length cs = T" and "t = word_of_nat T"
  shows "map (\<lambda>i. (cs ! (i - 1), t - word_of_nat i))
      (filter (\<lambda>i. symbolic (cs ! (i - 1))) (rev [T - n + 1 ..< T + 1])) = popped (take n (rev cs))"
proof -
  have tops: "take n (rev cs) ! k = cs ! (T - k - 1)" if "k < n" for k
    using that assms by (simp add: rev_nth)
  have len: "length (take n (rev cs)) = n"
    using assms by simp
  have S: "filter (\<lambda>i. symbolic (cs ! (i - 1))) (map (\<lambda>k. T - k) [0 ..< n]) =
      map (\<lambda>k. T - k) (filter (\<lambda>k. symbolic (take n (rev cs) ! k)) [0 ..< n])"
    unfolding filter_map o_def using tops by (auto intro!: arg_cong [of _ _ "map _"] filter_cong)
  show ?thesis
    unfolding rev_upt_reindex [OF assms(1)] S popped_alt len map_map
  proof (rule map_cong [OF refl])
    fix k
    assume "k \<in> set (filter (\<lambda>k. symbolic (take n (rev cs) ! k)) [0 ..< n])"
    then have k: "k < n"
      by simp
    then have "t - word_of_nat (T - k) = word_of_nat k"
      using assms by (simp add: of_nat_diff)
    then show "((\<lambda>i. (cs ! (i - 1), t - word_of_nat i)) \<circ> (\<lambda>k. T - k)) k =
        (take n (rev cs) ! k, word_of_nat k)"
      using tops [OF k] by simp
  qed
qed

lemma pop_cells_inv:
  assumes inv: "frame_inv f" and n: "n \<le> unat (m_concretenessTop f)"
    and f': "m_capacity f' = m_capacity f" "m_concreteness f' = m_concreteness f"
      "unat (m_concretenessTop f') = unat (m_concretenessTop f) - n"
      "m_symbolsCount f' = m_symbolsCount f - word_of_nat (length (popped (take n (rev (frame_cells f)))))"
      "m_minSymbsCountSinceLastSent f' \<le> m_lastSentSymbolsCount f'"
  shows "frame_inv f'" and "frame_stack f' = drop n (frame_stack f)"
proof -
  define T cs where "T = unat (m_concretenessTop f)" and "cs = frame_cells f"
  note D = frame_invD [OF inv]
  have T: "length cs = T"
    using D(6) by (simp add: T_def cs_def)
  have cells': "frame_cells f' = take (T - n) cs"
    by (simp add: frame_cells_def f' cs_def take_map min.absorb1 flip: T_def)
  have sym: "filter symbolic cs = map word_of_nat [1 ..< unat (m_symbolsCount f) + 1]"
    unfolding cs_def by (rule D(5))
  define k where "k = length (filter symbolic (drop (T - n) cs))"
  have "take n (rev cs) = rev (drop (T - n) cs)"
    using n T by (simp add: rev_drop flip: T_def)
  then have k: "length (popped (take n (rev cs))) = k"
    by (metis map_fst_popped length_map rev_filter length_rev k_def)
  have "T - n \<le> length cs"
    using T by simp
  note split = filter_numbers_split [OF sym this, folded k_def]
  have kw: "unat (word_of_nat k :: u32) = k"
    using split(1) u32_bound [of "m_symbolsCount f"] by (intro u32_less) simp
  then have count': "unat (m_symbolsCount f') = unat (m_symbolsCount f) - k"
    using split(1) f'(4) by (simp add: k unat_sub word_le_nat_alt flip: cs_def)
  have "set (take (T - n) (m_concreteness f)) \<subseteq> set (take T (m_concreteness f))"
    by (rule set_take_subset_set_take) simp
  then show "frame_inv f'"
    unfolding frame_inv_def cells' split(2) count'
    using D(1-4) f' by (auto simp: word_le_nat_alt simp flip: T_def)
  show "frame_stack f' = drop n (frame_stack f)"
    using n T by (simp add: frame_stack_def cells' rev_take rev_map drop_map flip: cs_def T_def)
qed

lemma popped_Nil_iff:
  "popped (take n (rev (frame_cells f))) = [] \<longleftrightarrow> (\<forall>b \<in> set (take n (frame_stack f)). b)"
proof -
  have "popped cs = [] \<longleftrightarrow> (\<forall>c \<in> set cs. \<not> symbolic c)" for cs
    by (metis map_fst_popped Nil_is_map_conv filter_empty_conv)
  then show ?thesis
    by (simp add: frame_stack_def rev_map take_map)
qed

lemma pop_spec:
  assumes inv: "frame_inv f" and cnt: "cnt \<le> m_concretenessTop f"
  shows "\<exists>f'. pop cnt f = Inr (\<forall>b \<in> set (take (unat cnt) (frame_stack f)). b, f') \<and> frame_inv f' \<and>
    frame_stack f' = drop (unat cnt) (frame_stack f) \<and>
    m_lastPoppedSymbolics f' = popped (take (unat cnt) (rev (frame_cells f))) \<and>
    m_symbolsCount f' = m_symbolsCount f - word_of_nat (length (m_lastPoppedSymbolics f')) \<and>
    m_capacity f' = m_capacity f"
proof -
  define T n where "T = unat (m_concretenessTop f)" and "n = unat cnt"
  note D = frame_invD [OF inv]
  have n: "n \<le> T" and top': "unat (m_concretenessTop f - cnt) = T - n"
    using cnt by (simp_all add: T_def n_def word_le_nat_alt unat_sub)
  let ?pp = "popped (take n (rev (frame_cells f)))"
  define f0 where "f0 = f\<lparr>m_lastPoppedSymbolics := [], m_concretenessTop := m_concretenessTop f - cnt\<rparr>"
  define f' where "f' = f0\<lparr>m_symbolsCount := m_symbolsCount f - word_of_nat (length ?pp),
      m_lastPoppedSymbolics := ?pp\<rparr>"
  let ?ns = "rev [T - n + 1 ..< T + 1]"
  have pp: "map (\<lambda>i. (frame_cells f ! (i - 1), m_concretenessTop f - word_of_nat i))
      (filter (\<lambda>i. symbolic (frame_cells f ! (i - 1))) ?ns) = ?pp"
    using n D(6) by (intro popped_from_top) (simp_all add: T_def)
  have lenS: "length (filter (\<lambda>i. symbolic (frame_cells f ! (i - 1))) ?ns) = length ?pp"
    by (subst pp [symmetric]) simp
  have "load_cell f0 (word_of_nat (i - 1)) = Inr (frame_cells f ! (i - 1))" if "i \<in> set ?ns" for i
    using that n load_cell_eq [OF inv, of "i - 1"] load_cell_cong [of f0 f]
    by (auto simp: f0_def T_def)
  note loop = fold_pop_cell [OF this, where ns = ?ns and cnt = cnt]
  have "m_symbolsCount f0 = m_symbolsCount f" "m_lastPoppedSymbolics f0 = []"
      "m_concretenessTop f0 + cnt = m_concretenessTop f"
    by (simp_all add: f0_def)
  then have "fold_res (pop_cell cnt) ?ns f0 = Inr f'"
    using loop unfolding lenS f'_def by (simp only: pp append_Nil)
  moreover have "pop cnt f = and_then (fold_res (pop_cell cnt) ?ns f0)
      (\<lambda>f. Inr (m_lastPoppedSymbolics f = [], f))"
    using leD [OF cnt] by (simp add: pop_def Let_def top' f0_def T_def del: upt_Suc fold_res.simps)
  ultimately have "pop cnt f = Inr (?pp = [], f')"
    by (simp add: f'_def del: upt_Suc)
  moreover have "frame_inv f'" "frame_stack f' = drop n (frame_stack f)"
    using n top' inv by (intro pop_cells_inv [OF inv]; simp add: f'_def f0_def T_def frame_inv_def)+
  ultimately show ?thesis
    by (simp add: popped_Nil_iff f'_def f0_def flip: n_def)
qed

lemma pop1_eq_pop:
  assumes inv: "frame_inv f" shows "pop1 f = pop 1 f"
proof (cases "m_concretenessTop f = 0")
  case True
  then show ?thesis
    by (simp add: pop1_def pop_def frame_isEmpty_def)
next
  case False
  let ?t = "m_concretenessTop f - 1"
  have le: "1 \<le> m_concretenessTop f"
    using False by (metis word_less_1 not_le)
  then have t: "unat ?t = unat (m_concretenessTop f) - 1"
    by (simp add: unat_sub)
  have pos: "0 < unat (m_concretenessTop f)"
    using False by (simp add: unat_gt_0)
  have upt: "rev [unat ?t + 1 ..< unat (?t + 1) + 1] = [unat (m_concretenessTop f)]"
    using pos by (simp add: t)
  have idx: "word_of_nat (unat (m_concretenessTop f) - 1) = ?t"
    unfolding t [symmetric] by simp
  then have idx: "word_of_nat (unat (m_concretenessTop f) - Suc 0) = ?t"
    by simp
  define f0 where "f0 = f\<lparr>m_lastPoppedSymbolics := [], m_concretenessTop := ?t\<rparr>"
  have "pop 1 f = and_then (fold_res (pop_cell 1) (rev [unat ?t + 1 ..< unat (?t + 1) + 1]) f0)
      (\<lambda>f. Inr (m_lastPoppedSymbolics f = [], f))"
    using leD [OF le] by (simp add: pop_def Let_def f0_def del: upt_Suc fold_res.simps)
  also have "\<dots> = and_then (and_then (pop_cell 1 (unat (m_concretenessTop f)) f0) Inr)
      (\<lambda>f. Inr (m_lastPoppedSymbolics f = [], f))"
    unfolding upt by (simp add: fold_res.simps(1) [abs_def])
  also have "\<dots> = pop1 f"
    using False by (cases "load_cell f0 ?t")
      (simp_all add: pop1_def pop_cell_def frame_isEmpty_def Let_def idx f0_def)
  finally show ?thesis by simp
qed

lemma pop_underflow: "m_concretenessTop f < cnt \<Longrightarrow> pop cnt f = Inl (Fail_loud ''Corrupted stack!'')"
  by (simp add: pop_def)

lemma push1_overflow:
  "frame_inv f \<Longrightarrow> \<not> m_concretenessTop f < m_capacity f \<Longrightarrow> push1 b f = Inl (Fail_loud ''Stack overflow!'')"
  by (auto simp: push1_def frame_isFull_def frame_inv_def)

lemma peek_spec:
  assumes inv: "frame_inv f" and idx: "idx < m_concretenessTop f"
  shows "peek f idx = Inr (frame_stack f ! unat idx)"
proof -
  have "m_concretenessTop f - idx - 1 = word_of_nat (unat (m_concretenessTop f) - Suc (unat idx))"
    using idx by (simp add: of_nat_diff word_less_nat_alt Suc_leI)
  moreover have "unat (m_concretenessTop f) - Suc (unat idx) < unat (m_concretenessTop f)"
    using idx by (simp add: word_less_nat_alt)
  ultimately have "load_cell f (m_concretenessTop f - idx - 1) =
      Inr (frame_cells f ! (unat (m_concretenessTop f) - Suc (unat idx)))"
    using load_cell_eq [OF inv] by presburger
  then show ?thesis
    using idx frame_stack_nth [OF inv, of "unat idx"]
    by (simp add: peek_def symbolic_def word_less_nat_alt)
qed

lemma peek_constants: "peek0 f = peek f 0" "peek1 f = peek f 1" "peek2 f = peek f 2"
  by (simp_all add: peek_def peek0_def peek1_def peek2_def)

subsection \<open>Operand stacks as an interface\<close>

text \<open>
  The instrumentation probes rely on the frame as a bounded stack of flags.
\<close>

locale operand_stack =
  fixes inv :: "'f \<Rightarrow> bool"
    and flags :: "'f \<Rightarrow> bool list"
    and room :: "'f \<Rightarrow> nat"
    and push :: "bool \<Rightarrow> 'f \<Rightarrow> 'f res"
    and popn :: "nat \<Rightarrow> 'f \<Rightarrow> (bool \<times> 'f) res"
  assumes push_law: "inv f \<Longrightarrow> 0 < room f \<Longrightarrow>
      \<exists>f'. push b f = Inr f' \<and> inv f' \<and> flags f' = b # flags f \<and> Suc (room f') = room f"
    and popn_law: "inv f \<Longrightarrow> n \<le> length (flags f) \<Longrightarrow>
      \<exists>f'. popn n f = Inr (\<forall>b \<in> set (take n (flags f)). b, f') \<and> inv f' \<and>
        flags f' = drop n (flags f) \<and> room f' = room f + n"
begin

lemma push_all:
  assumes "inv f" and "length bs \<le> room f"
  shows "\<exists>f'. fold_res push bs f = Inr f' \<and> inv f' \<and> flags f' = rev bs @ flags f \<and>
    room f' + length bs = room f"
  using assms
proof (induction bs arbitrary: f)
  case (Cons b bs)
  then obtain f1 where f1: "push b f = Inr f1" "inv f1" "flags f1 = b # flags f" "Suc (room f1) = room f"
    using push_law [of f b] by fastforce
  with Cons.prems have "length bs \<le> room f1"
    by simp
  then obtain f2 where "fold_res push bs f1 = Inr f2" "inv f2" "flags f2 = rev bs @ flags f1"
      "room f2 + length bs = room f1"
    using Cons.IH f1(2) by blast
  then show ?case
    using f1 by simp
qed simp

lemma pushes_then_pop:
  assumes "inv f" and "length bs \<le> room f"
  shows "\<exists>f1 f2. fold_res push bs f = Inr f1 \<and> popn (length bs) f1 = Inr (\<forall>b \<in> set bs. b, f2) \<and>
    inv f2 \<and> flags f2 = flags f \<and> room f2 = room f"
proof -
  obtain f1 where f1: "fold_res push bs f = Inr f1" "inv f1" "flags f1 = rev bs @ flags f"
      "room f1 + length bs = room f"
    using push_all [OF assms] by blast
  then show ?thesis
    using popn_law [of f1 "length bs"] by auto
qed

end

definition frame_room :: "stack_frame \<Rightarrow> nat" where
  "frame_room f = unat (m_capacity f) - unat (m_concretenessTop f)"

lemma frame_room_stack: "frame_inv f \<Longrightarrow> frame_room f = unat (m_capacity f) - length (frame_stack f)"
  by (simp add: frame_room_def length_frame_stack)

interpretation frm: operand_stack frame_inv frame_stack frame_room push1 "\<lambda>n. pop (word_of_nat n)"
proof unfold_locales
  fix f b
  assume inv: "frame_inv f" and room: "0 < frame_room f"
  then have "m_concretenessTop f < m_capacity f"
    by (simp add: frame_room_def word_less_nat_alt)
  with push1_spec [OF inv this, of b] room inv
  show "\<exists>f'. push1 b f = Inr f' \<and> frame_inv f' \<and> frame_stack f' = b # frame_stack f \<and>
      Suc (frame_room f') = frame_room f"
    by (auto simp: frame_room_stack)
next
  fix f n
  assume inv: "frame_inv f" and n: "n \<le> length (frame_stack f)"
  have len: "n \<le> unat (m_concretenessTop f)"
    using n by (simp add: length_frame_stack [OF inv])
  then have w: "unat (word_of_nat n :: u32) = n"
    using u32_bound [of "m_concretenessTop f"] by (intro u32_less) simp
  have "word_of_nat n \<le> m_concretenessTop f"
    using len w by (simp add: word_le_nat_alt)
  from pop_spec [OF inv this] obtain f' where
    f': "pop (word_of_nat n) f = Inr (\<forall>b \<in> set (take n (frame_stack f)). b, f')" "frame_inv f'"
      "frame_stack f' = drop n (frame_stack f)" "m_capacity f' = m_capacity f"
    unfolding w by blast
  moreover have "frame_room f' = frame_room f + n"
    using f' n inv frame_invD(1) [OF inv] length_frame_stack [OF inv] by (simp add: frame_room_stack)
  ultimately show "\<exists>f'. pop (word_of_nat n) f = Inr (\<forall>b \<in> set (take n (frame_stack f)). b, f') \<and> frame_inv f' \<and>
      frame_stack f' = drop n (frame_stack f) \<and> frame_room f' = frame_room f + n"
    by blast
qed

subsection \<open>Refinement of a bounded stack of flags\<close>

datatype frame_op = Push bool | Pop u32 | Pop1 | Pop1_async | Pop0 | Dup | Reset_tracking

fun frame_exec :: "frame_op \<Rightarrow> stack_frame \<Rightarrow> stack_frame res" where
  "frame_exec (Push b) f = push1 b f"
| "frame_exec (Pop n) f = and_then (pop n f) (\<lambda>(_, f'). Inr f')"
| "frame_exec Pop1 f = and_then (pop1 f) (\<lambda>(_, f'). Inr f')"
| "frame_exec Pop1_async f = pop1Async f"
| "frame_exec Pop0 f = Inr (pop0 f)"
| "frame_exec Dup f = and_then (dup f) (\<lambda>(_, f'). Inr f')"
| "frame_exec Reset_tracking f = Inr (frame_resetPopsTracking f)"

text \<open>
  The specification: the operations on a stack of flags with \<open>cap\<close> places. A duplicate of a
  symbolic operand only pops it: the pushes come with the answer of the symbolic engine.
\<close>

fun flags_step :: "nat \<Rightarrow> frame_op \<Rightarrow> bool list \<Rightarrow> bool list res" where
  "flags_step cap (Push b) s =
     (if length s < cap then Inr (b # s) else Inl (Fail_loud ''Stack overflow!''))"
| "flags_step cap (Pop n) s =
     (if unat n \<le> length s then Inr (drop (unat n) s) else Inl (Fail_loud ''Corrupted stack!''))"
| "flags_step cap Pop1 s = (if s \<noteq> [] then Inr (tl s) else Inl (Fail_loud ''Corrupted stack!''))"
| "flags_step cap Pop1_async s = (if s \<noteq> [] then Inr (tl s) else Inl (Fail_loud ''Corrupted stack!''))"
| "flags_step cap Pop0 s = Inr s"
| "flags_step cap Dup s =
     (case s of [] \<Rightarrow> Inl (Fail_loud ''Corrupted stack!'')
      | False # s' \<Rightarrow> Inr s'
      | True # s' \<Rightarrow> if length s < cap then Inr (True # s) else Inl (Fail_loud ''Stack overflow!''))"
| "flags_step cap Reset_tracking s = Inr s"

text \<open>Two results agree when they fail alike or give a frame and the stack it stands for.\<close>

definition refines :: "nat \<Rightarrow> stack_frame res \<Rightarrow> bool list res \<Rightarrow> bool" where
  "refines cap r s \<longleftrightarrow> (case r of
       Inl e \<Rightarrow> s = Inl e
     | Inr f \<Rightarrow> frame_inv f \<and> unat (m_capacity f) = cap \<and> s = Inr (frame_stack f))"

lemma refines_simps [simp]:
  "refines cap (Inl e) s \<longleftrightarrow> s = Inl e"
  "refines cap (Inr f) s \<longleftrightarrow> frame_inv f \<and> unat (m_capacity f) = cap \<and> s = Inr (frame_stack f)"
  by (simp_all add: refines_def)

lemma push1_refines:
  assumes "frame_inv f"
  shows "refines (unat (m_capacity f)) (push1 b f) (flags_step (unat (m_capacity f)) (Push b) (frame_stack f))"
proof (cases "m_concretenessTop f < m_capacity f")
  case True
  then show ?thesis
    using push1_spec [OF assms True, of b] length_frame_stack [OF assms]
    by (auto simp: word_less_nat_alt)
next
  case False
  then show ?thesis
    using push1_overflow [OF assms False] length_frame_stack [OF assms]
    by (simp add: word_less_nat_alt)
qed

lemma pop_refines:
  assumes "frame_inv f"
  shows "refines (unat (m_capacity f)) (frame_exec (Pop n) f)
    (flags_step (unat (m_capacity f)) (Pop n) (frame_stack f))"
proof (cases "n \<le> m_concretenessTop f")
  case True
  then show ?thesis
    using pop_spec [OF assms True] length_frame_stack [OF assms]
    by (auto simp: word_le_nat_alt)
next
  case False
  then show ?thesis
    using pop_underflow [of f n] length_frame_stack [OF assms]
    by (simp add: word_le_nat_alt word_less_nat_alt not_le)
qed

lemma pop1_cases:
  assumes inv: "frame_inv f"
  obtains "frame_stack f = []" and "pop1 f = Inl (Fail_loud ''Corrupted stack!'')"
  | b f' where "frame_stack f = b # frame_stack f'" and "pop1 f = Inr (b, f')" and "frame_inv f'"
      and "m_capacity f' = m_capacity f"
proof (cases "frame_stack f")
  case Nil
  then have "m_concretenessTop f < 1"
    using length_frame_stack [OF inv] by (simp add: word_less_nat_alt)
  then show ?thesis
    using that(1) Nil pop_underflow by (simp add: pop1_eq_pop [OF inv])
next
  case (Cons b s)
  then have "1 \<le> m_concretenessTop f"
    using length_frame_stack [OF inv] by (simp add: word_le_nat_alt)
  from pop_spec [OF inv this] Cons show ?thesis
    using that(2) by (auto simp: pop1_eq_pop [OF inv])
qed

lemma frame_inv_tracking:
  "frame_inv f \<Longrightarrow> m \<le> l \<Longrightarrow>
   frame_inv (f\<lparr>m_lastSentSymbolsCount := l, m_minSymbsCountSinceLastSent := m\<rparr>)"
  "frame_inv f \<Longrightarrow> m \<le> m_minSymbsCountSinceLastSent f \<Longrightarrow>
   frame_inv (f\<lparr>m_minSymbsCountSinceLastSent := m\<rparr>)"
  "frame_inv f \<Longrightarrow> frame_inv (f\<lparr>m_lastPoppedSymbolics := ps\<rparr>)"
  by (auto simp: frame_inv_def frame_cells_def)

lemma frame_stack_tracking:
  "frame_stack (f\<lparr>m_lastSentSymbolsCount := l\<rparr>) = frame_stack f"
  "frame_stack (f\<lparr>m_minSymbsCountSinceLastSent := m\<rparr>) = frame_stack f"
  "frame_stack (f\<lparr>m_lastPoppedSymbolics := ps\<rparr>) = frame_stack f"
  by (simp_all add: frame_stack_def frame_cells_def)

lemma dup_refines:
  assumes inv: "frame_inv f"
  shows "refines (unat (m_capacity f)) (frame_exec Dup f)
    (flags_step (unat (m_capacity f)) Dup (frame_stack f))"
proof (cases rule: pop1_cases [OF inv])
  case 1
  then show ?thesis by (simp add: dup_def)
next
  case (2 b f')
  have room: "m_concretenessTop f' < m_capacity f'"
    using 2 length_frame_stack [OF inv] length_frame_stack [OF 2(3)] frame_invD(1) [OF inv]
    by (simp add: word_less_nat_alt)
  obtain f1 where f1: "push1 True f' = Inr f1" "frame_inv f1" "frame_stack f1 = True # frame_stack f'"
      "m_capacity f1 = m_capacity f"
    using push1_spec [OF 2(3) room, of True] 2(4) by auto
  show ?thesis
  proof (cases b)
    case True
    have "refines (unat (m_capacity f)) (push1 True f1)
        (flags_step (unat (m_capacity f)) (Push True) (True # frame_stack f'))"
      using push1_refines [OF f1(2), of True] f1(3,4) by simp
    then show ?thesis
      using 2 True f1(1) by (cases "push1 True f1") (auto simp: dup_def)
  qed (use 2 in \<open>auto simp: dup_def\<close>)
qed

lemma frame_exec_refines:
  assumes inv: "frame_inv f"
  shows "refines (unat (m_capacity f)) (frame_exec op f)
    (flags_step (unat (m_capacity f)) op (frame_stack f))"
proof (cases op)
  case Pop1
  then show ?thesis
    by (cases rule: pop1_cases [OF inv]) auto
next
  case Pop1_async
  then show ?thesis
    by (cases rule: pop1_cases [OF inv])
      (auto simp: pop1Async_def frame_stack_tracking intro!: frame_inv_tracking(2))
next
  case Pop0
  then show ?thesis
    using inv by (simp add: pop0_def frame_inv_tracking(3) frame_stack_tracking)
next
  case Reset_tracking
  then show ?thesis
    using inv by (simp add: frame_resetPopsTracking_def frame_inv_tracking frame_stack_tracking)
qed (use push1_refines [OF inv] pop_refines [OF inv] dup_refines [OF inv] in auto)

lemma frame_run_refines:
  assumes "frame_inv f"
  shows "refines (unat (m_capacity f)) (fold_res frame_exec ops f)
    (fold_res (flags_step (unat (m_capacity f))) ops (frame_stack f))"
  using assms
proof (induction ops arbitrary: f)
  case (Cons op ops)
  show ?case
  proof (cases "frame_exec op f")
    case (Inl e)
    then show ?thesis
      using frame_exec_refines [OF Cons.prems, of op] by simp
  next
    case (Inr f')
    then have "frame_inv f'" "unat (m_capacity f') = unat (m_capacity f)"
        "flags_step (unat (m_capacity f)) op (frame_stack f) = Inr (frame_stack f')"
      using frame_exec_refines [OF Cons.prems, of op] by simp_all
    then show ?thesis
      using Cons.IH [of f'] Inr by simp
  qed
qed simp

text \<open>
  Claim C25: from a new frame configured for a stack of \<open>maxStackSize\<close> places, any sequence of
  frame operations behaves like the bounded stack of flags: the two fail at the same operation
  with the same error, and otherwise the frame stands for the stack that results and its symbolic
  cells are numbered without gaps. In particular no operation ever reads a cell that was not
  written or lies outside the array.
\<close>

theorem frame_refines_flags:
  assumes "unat maxStackSize < 2 ^ 32 - 1" and "mk_frame resolvedToken unresolvedToken args argsCount = Inr f"
  shows "refines (unat maxStackSize) (fold_res frame_exec ops (frame_configure maxStackSize localsCount f))
    (fold_res (flags_step (unat maxStackSize)) ops [])"
proof -
  let ?f = "frame_configure maxStackSize localsCount f"
  have f: "m_concretenessTop ?f = 0" "m_symbolsCount ?f = 0" "m_capacity ?f = maxStackSize"
      "frame_cells ?f = []" "m_minSymbsCountSinceLastSent ?f = 0"
    using assms(2)
    by (auto simp: mk_frame_def frame_configure_def frame_resetPopsTracking_def frame_cells_def)
  then have "frame_inv ?f"
    using assms(1) by (simp add: frame_inv_def frame_configure_def)
  moreover have "frame_stack ?f = []"
    using f by (simp add: frame_stack_def)
  ultimately show ?thesis
    using frame_run_refines [of ?f ops] f(3) by simp
qed

definition sample_frame :: stack_frame where
  "sample_frame = \<lparr>m_concreteness = [], m_capacity = 0, m_concretenessTop = 0, m_symbolsCount = 0,
     m_lastSentSymbolsCount = 0, m_minSymbsCountSinceLastSent = 0, m_args = [True], m_locals = [],
     m_resolvedToken = 7, m_unresolvedToken = 9, m_enteredMarker = False, m_spontaneous = False,
     m_lastPoppedSymbolics = []\<rparr>"

lemma sample_frame_new: "mk_frame 7 9 [True] 1 = Inr sample_frame"
  by (simp add: mk_frame_def sample_frame_def frame_resetPopsTracking_def)

theorem frame_refines_flags_witness:
  "refines 3 (fold_res frame_exec [Push True, Push False, Pop1, Dup] (frame_configure 3 0 sample_frame))
     (Inr [True, True])"
  using frame_refines_flags [OF _ sample_frame_new, of 3 "[Push True, Push False, Pop1, Dup]" 0] by simp

lemma frame_cells_numbers:
  assumes inv: "frame_inv f" and n: "n \<le> unat (m_concretenessTop f)"
  defines "cs \<equiv> take n (rev (frame_cells f))" and "m \<equiv> unat (m_symbolsCount f)"
  shows "map (unat \<circ> fst) (popped cs) = rev [m - length (popped cs) + 1 ..< m + 1]"
proof -
  let ?T = "unat (m_concretenessTop f)"
  note D = frame_invD [OF inv]
  have cs: "cs = rev (drop (?T - n) (frame_cells f))"
    using n D(6) by (simp add: cs_def rev_drop)
  have len: "length (popped cs) = length (filter symbolic (drop (?T - n) (frame_cells f)))"
    by (metis cs length_map length_rev map_fst_popped rev_filter)
  have "?T - n \<le> length (frame_cells f)"
    using D(6) by simp
  note split = filter_numbers_split [OF D(5) this, folded len m_def]
  have "map (unat \<circ> fst) (popped cs) = map unat (filter symbolic cs)"
    by (simp flip: map_fst_popped)
  also have "\<dots> = rev (map (unat \<circ> (word_of_nat :: nat \<Rightarrow> u32)) [m - length (popped cs) + 1 ..< m + 1])"
    using split(3) by (simp only: cs flip: rev_filter rev_map map_map)
  also have "map (unat \<circ> (word_of_nat :: nat \<Rightarrow> u32)) [m - length (popped cs) + 1 ..< m + 1] =
      [m - length (popped cs) + 1 ..< m + 1]"
    using u32_bound [of "m_symbolsCount f"] by (intro map_idI) (auto simp: m_def intro!: u32_less)
  finally show ?thesis .
qed

text \<open>
  Claim C26: a pop of \<open>cnt\<close> operands that are there answers whether all of them are concrete and
  records, from the top down, where the symbolic ones were; their numbers are the last ones given
  out, in descending order, so the numbers that remain are again without gaps.
\<close>

theorem pop_reports_symbolics:
  assumes inv: "frame_inv f" and cnt: "cnt \<le> m_concretenessTop f"
  shows "\<exists>f'. pop cnt f = Inr (\<forall>b \<in> set (take (unat cnt) (frame_stack f)). b, f') \<and>
    frame_stack f' = drop (unat cnt) (frame_stack f) \<and>
    map (unat \<circ> snd) (m_lastPoppedSymbolics f') = filter (\<lambda>k. \<not> frame_stack f ! k) [0 ..< unat cnt] \<and>
    map (unat \<circ> fst) (m_lastPoppedSymbolics f') =
      rev [unat (m_symbolsCount f) - length (m_lastPoppedSymbolics f') + 1 ..<
           unat (m_symbolsCount f) + 1]"
proof -
  let ?n = "unat cnt" and ?cs = "take (unat cnt) (rev (frame_cells f))"
  have n: "?n \<le> unat (m_concretenessTop f)"
    using cnt by (simp add: word_le_nat_alt)
  have nth: "?cs ! k = frame_cells f ! (unat (m_concretenessTop f) - Suc k)" if "k < ?n" for k
    using that n frame_invD(6) [OF inv] by (simp add: rev_nth)
  have len: "length ?cs = ?n"
    using n frame_invD(6) [OF inv] by simp
  have "map (unat \<circ> snd) (popped ?cs) =
      map (unat \<circ> (word_of_nat :: nat \<Rightarrow> u32)) (filter (\<lambda>k. symbolic (?cs ! k)) [0 ..< ?n])"
    unfolding popped_alt len by simp
  also have "\<dots> = filter (\<lambda>k. symbolic (?cs ! k)) [0 ..< ?n]"
    using u32_bound [of cnt] by (intro map_idI) (auto intro!: u32_less)
  also have "\<dots> = filter (\<lambda>k. \<not> frame_stack f ! k) [0 ..< ?n]"
    using nth n frame_stack_nth [OF inv] by (intro filter_cong) auto
  finally have "map (unat \<circ> snd) (popped ?cs) = filter (\<lambda>k. \<not> frame_stack f ! k) [0 ..< ?n]" .
  then show ?thesis
    using pop_spec [OF inv cnt] frame_cells_numbers [OF inv n] by auto
qed

definition sample_full :: stack_frame where
  "sample_full = (frame_configure 3 0 sample_frame)
     \<lparr>m_concreteness := [Some 1, Some CONCRETE, Some 2], m_concretenessTop := 3, m_symbolsCount := 2\<rparr>"

lemma sample_full_inv: "frame_inv sample_full"
proof -
  have "[1 ..< 3] = [1, 2 :: nat]"
    by (simp add: upt_rec)
  then show ?thesis
    by (simp add: frame_inv_def sample_full_def sample_frame_def frame_configure_def frame_cells_def
        symbolic_def take_Cons')
qed

theorem pop_reports_symbolics_witness:
  "\<exists>f'. pop 2 sample_full = Inr (False, f') \<and> map (unat \<circ> snd) (m_lastPoppedSymbolics f') = [0]"
proof -
  have "2 \<le> m_concretenessTop sample_full"
    by (simp add: sample_full_def)
  moreover have "frame_stack sample_full = [False, True, False]"
    by (simp add: sample_full_def sample_frame_def frame_configure_def frame_cells_def frame_stack_def
        symbolic_def take_Cons')
  moreover have "[0 ..< 2] = [0, 1 :: nat]"
    by (simp add: upt_rec)
  ultimately show ?thesis
    using pop_reports_symbolics [OF sample_full_inv, of 2] by auto
qed

text \<open>
  operands that are pushed and popped together leave the frame's stack as it was, and
  the pop answers whether all of them were concrete.
\<close>

theorem push_pop_balance:
  assumes "frame_inv f" and "length bs \<le> frame_room f"
  shows "\<exists>f1 f2. fold_res push1 bs f = Inr f1 \<and>
    pop (word_of_nat (length bs)) f1 = Inr (\<forall>b \<in> set bs. b, f2) \<and>
    frame_inv f2 \<and> frame_stack f2 = frame_stack f"
  using frm.pushes_then_pop [OF assms] by blast

theorem push_pop_balance_witness:
  "\<exists>f1 f2. fold_res push1 [True, False] (frame_configure 3 0 sample_frame) = Inr f1 \<and>
     pop 2 f1 = Inr (False, f2) \<and> frame_stack f2 = []"
proof -
  let ?f = "frame_configure 3 0 sample_frame"
  have "frame_inv ?f" and "length [True, False] \<le> frame_room ?f" and "frame_stack ?f = []"
    by (simp_all add: frame_inv_def frame_room_def frame_stack_def frame_configure_def sample_frame_def
        frame_cells_def)
  then show ?thesis
    using push_pop_balance [of ?f "[True, False]"] by auto
qed

subsection \<open>Unsent frames\<close>

text \<open>
  The calls that change the stack of frames between two messages to the symbolic engine: a call,
  a return, and any work on the top frame that keeps its token.
\<close>

datatype stack_op =
    Push_frame u32 u32 "bool list" u32
  | Pop_frame
  | Configure_top u32 u32
  | On_top frame_op

fun stack_exec :: "stack_op \<Rightarrow> stack \<Rightarrow> stack res" where
  "stack_exec (Push_frame resolved unresolved args n) s = pushFrame resolved unresolved args n s"
| "stack_exec Pop_frame s = popFrame s"
| "stack_exec (Configure_top maxStackSize localsCount) s =
     and_then (on_topFrame (\<lambda>f. Inr ((), frame_configure maxStackSize localsCount f)) s) (\<lambda>(_, s). Inr s)"
| "stack_exec (On_top op) s =
     and_then (on_topFrame (\<lambda>f. and_then (frame_exec op f) (\<lambda>f'. Inr ((), f'))) s) (\<lambda>(_, s). Inr s)"

definition tokens :: "stack \<Rightarrow> u32 list" where
  "tokens s = map m_unresolvedToken (m_frames s)"

lemma length_tokens [simp]: "length (tokens s) = length (m_frames s)"
  by (simp add: tokens_def)

lemma push1_token: "push1 b f = Inr f' \<Longrightarrow> m_unresolvedToken f' = m_unresolvedToken f"
  by (auto simp: push1_def store_cell_def Let_def split: if_splits)

lemma pop1_token: "pop1 f = Inr (b, f') \<Longrightarrow> m_unresolvedToken f' = m_unresolvedToken f"
  by (auto simp: pop1_def Let_def res_simps split: if_splits)

lemma pop_token:
  assumes "pop n f = Inr (b, f')" shows "m_unresolvedToken f' = m_unresolvedToken f"
proof -
  have step: "m_unresolvedToken f2 = m_unresolvedToken f1" if "pop_cell n i f1 = Inr f2" for i f1 f2
    using that by (auto simp: pop_cell_def res_simps split: if_splits)
  let ?f0 = "f\<lparr>m_lastPoppedSymbolics := [], m_concretenessTop := m_concretenessTop f - n\<rparr>"
  let ?t = "m_concretenessTop f - n"
  have loop: "fold_res (pop_cell n) (rev [unat ?t + 1 ..< unat (?t + n) + 1]) ?f0 = Inr f'"
    using assms by (simp add: pop_def Let_def res_simps del: upt_Suc split: if_splits)
  show ?thesis
    by (rule fold_res_invariant [OF loop, of "\<lambda>g. m_unresolvedToken g = m_unresolvedToken f"])
      (simp_all add: step)
qed

lemma frame_exec_token: "frame_exec op f = Inr f' \<Longrightarrow> m_unresolvedToken f' = m_unresolvedToken f"
  by (cases op)
    (auto simp: pop1Async_def pop0_def dup_def frame_resetPopsTracking_def res_simps
      split: if_splits dest!: push1_token pop1_token pop_token)

lemma on_topFrame_tokens:
  assumes "on_topFrame op s = Inr (x, s')"
    and "\<And>f x f'. op f = Inr (x, f') \<Longrightarrow> m_unresolvedToken f' = m_unresolvedToken f"
  shows "tokens s' = tokens s" and "m_lastSentTop s' = m_lastSentTop s"
    and "m_minTopSinceLastSent s' = m_minTopSinceLastSent s"
proof -
  obtain f' where f': "m_frames s \<noteq> []" "op (last (m_frames s)) = Inr (x, f')"
      "s' = s\<lparr>m_frames := butlast (m_frames s) @ [f']\<rparr>"
    using assms(1) by (auto simp: on_topFrame_def stack_topFrame_def res_simps split: if_splits)
  have "tokens s = map m_unresolvedToken (butlast (m_frames s) @ [last (m_frames s)])"
    using f'(1) by (simp add: tokens_def)
  then show "tokens s' = tokens s"
    using f'(3) assms(2) [OF f'(2)] by (simp add: tokens_def)
  show "m_lastSentTop s' = m_lastSentTop s" "m_minTopSinceLastSent s' = m_minTopSinceLastSent s"
    using f'(3) by simp_all
qed

text \<open>
  What holds between two messages, with \<open>ts\<close> the tokens at the first of them: the frames below
  the lowest top reached since then are still there.
\<close>

definition unsent_inv :: "u32 list \<Rightarrow> stack \<Rightarrow> bool" where
  "unsent_inv ts s \<longleftrightarrow>
     m_lastSentTop s = word_of_nat (length ts) \<and> length ts < 2 ^ 32 \<and>
     unat (m_minTopSinceLastSent s) \<le> length ts \<and>
     unat (m_minTopSinceLastSent s) \<le> length (tokens s) \<and>
     take (unat (m_minTopSinceLastSent s)) (tokens s) = take (unat (m_minTopSinceLastSent s)) ts"

lemma popFrame_unsent:
  assumes inv: "unsent_inv ts s" and ex: "popFrame s = Inr s'"
  shows "unsent_inv ts s'"
proof -
  define n where "n = length (m_frames s) - 1"
  have s': "s' = (if n < unat (m_minTopSinceLastSent s)
      then s\<lparr>m_frames := butlast (m_frames s), m_minTopSinceLastSent := word_of_nat n\<rparr>
      else s\<lparr>m_frames := butlast (m_frames s)\<rparr>)"
    using ex by (auto simp: popFrame_def popFrameUntracked_def n_def split: if_splits)
  have tok: "tokens s' = take n (tokens s)"
    by (simp add: s' tokens_def n_def butlast_conv_take take_map)
  have min: "unat (m_minTopSinceLastSent s') = min n (unat (m_minTopSinceLastSent s))"
    using inv by (auto simp: s' unsent_inv_def u32_less)
  have "m_lastSentTop s' = m_lastSentTop s"
    by (simp add: s')
  then show ?thesis
    using inv unfolding unsent_inv_def tok min
    by (auto simp: n_def take_take min_def) (metis (no_types, opaque_lifting) min.absorb1 nat_less_le take_take)
qed

lemma stack_exec_unsent:
  assumes inv: "unsent_inv ts s" and ex: "stack_exec op s = Inr s'"
  shows "unsent_inv ts s'"
proof (cases op)
  case (Push_frame resolved unresolved args n)
  then obtain f where "s' = s\<lparr>m_frames := m_frames s @ [f]\<rparr>"
    using ex by (auto simp: pushFrame_def res_simps)
  then have "tokens s' = tokens s @ [m_unresolvedToken f]" "m_lastSentTop s' = m_lastSentTop s"
      "m_minTopSinceLastSent s' = m_minTopSinceLastSent s"
    by (simp_all add: tokens_def)
  then show ?thesis
    using inv by (simp add: unsent_inv_def)
next
  case Pop_frame
  then show ?thesis
    using popFrame_unsent [OF inv] ex by simp
next
  case (Configure_top maxStackSize localsCount)
  then obtain x where "on_topFrame (\<lambda>f. Inr ((), frame_configure maxStackSize localsCount f)) s = Inr (x, s')"
    using ex by auto
  note on_topFrame_tokens [OF this]
  then show ?thesis
    using inv by (simp add: unsent_inv_def frame_configure_def)
next
  case (On_top op')
  then obtain x where
    "on_topFrame (\<lambda>f. and_then (frame_exec op' f) (\<lambda>f'. Inr ((), f'))) s = Inr (x, s')"
    using ex by auto
  note on_topFrame_tokens [OF this]
  then show ?thesis
    using inv by (fastforce simp: unsent_inv_def res_simps dest: frame_exec_token)
qed

text \<open>
  Claim C27: between two messages the receiver can reconstruct the frames. If it knows the tokens
  at the first message, drops as many of them from the top as \<open>unsentPops\<close> says and appends the
  tokens of the frames from \<open>m_minTopSinceLastSent\<close> upwards, it has the tokens of the present
  stack, whatever calls, returns and stack operations happened in between.
\<close>

theorem unsent_frames_reconstruct:
  assumes "length (m_frames s) < 2 ^ 32"
    and run: "fold_res stack_exec ops (stack_resetPopsTracking (framesCount s) s) = Inr s'"
  shows "take (length (tokens s) - unat (unsentPops s')) (tokens s) @
      drop (unat (m_minTopSinceLastSent s')) (tokens s') = tokens s'"
proof -
  let ?s = "stack_resetPopsTracking (framesCount s) s"
  have "tokens ?s = tokens s"
    by (cases "m_frames s" rule: rev_cases)
      (simp_all add: stack_resetPopsTracking_def tokens_def frame_resetPopsTracking_def Let_def)
  then have "unsent_inv (tokens s) ?s"
    using assms(1)
    by (auto simp: unsent_inv_def stack_resetPopsTracking_def framesCount_def u32_less Let_def)
  then have inv: "unsent_inv (tokens s) s'"
    by (rule fold_res_invariant [OF run]) (rule stack_exec_unsent)
  then have le: "m_minTopSinceLastSent s' \<le> m_lastSentTop s'"
    by (auto simp: unsent_inv_def word_le_nat_alt u32_less)
  have "unat (unsentPops s') = length (tokens s) - unat (m_minTopSinceLastSent s')"
    using inv le by (simp add: unsentPops_def unat_sub unsent_inv_def u32_less)
  then have "length (tokens s) - unat (unsentPops s') = unat (m_minTopSinceLastSent s')"
    using inv by (simp add: unsent_inv_def)
  then show ?thesis
    using inv by (simp add: unsent_inv_def) (metis append_take_drop_id)
qed

definition sample_stack :: stack where
  "sample_stack = \<lparr>m_frames = [sample_frame, sample_frame\<lparr>m_unresolvedToken := 5\<rparr>],
     m_lastSentTop = 0, m_minTopSinceLastSent = 0\<rparr>"

theorem unsent_frames_reconstruct_witness:
  "\<exists>s'. fold_res stack_exec [Pop_frame, Push_frame 1 2 [] 0]
       (stack_resetPopsTracking (framesCount sample_stack) sample_stack) = Inr s' \<and>
     unsentPops s' = 1 \<and>
     take (2 - unat (unsentPops s')) (tokens sample_stack) @
       drop (unat (m_minTopSinceLastSent s')) (tokens s') = [9, 2]"
proof -
  let ?s = "stack_resetPopsTracking (framesCount sample_stack) sample_stack"
  obtain s' where s': "fold_res stack_exec [Pop_frame, Push_frame 1 2 [] 0] ?s = Inr s'"
      "unsentPops s' = 1" "tokens s' = [9, 2]"
    by (simp add: sample_stack_def stack_resetPopsTracking_def framesCount_def popFrame_def
        popFrameUntracked_def frame_isEmpty_def frame_resetPopsTracking_def sample_frame_def
        pushFrame_def mk_frame_def tokens_def unsentPops_def Let_def)
  have "length (m_frames sample_stack) < 2 ^ 32" "length (tokens sample_stack) = 2"
    by (simp_all add: sample_stack_def)
  then show ?thesis
    using unsent_frames_reconstruct [OF _ s'(1)] s' by auto
qed

end
