(* ===== verification/Operand_Memory.thy ===== *)
theory Operand_Memory
  imports Heap_Model Eval_Stack
begin

section \<open>Stacks of threads and the operand buffer\<close>

text \<open>
  \<^verbatim>\<open>memory/memory.cpp\<close>: the shadow stack of every thread, the switch between them, the
  pool of debug strings, and the buffer through which probes hand over the values of operands.
  The getter of the current thread is an argument \<open>tid\<close> of the operations that call it. The
  buffer is two \<^verbatim>\<open>std::vector\<close>s that are filled through \<^verbatim>\<open>operator[]\<close> and
  \<^verbatim>\<open>data()\<close> after a mere \<^verbatim>\<open>reserve\<close>, so a vector is modelled by its allocation (one
  slot for each place of the capacity, \<open>None\<close> where nothing was stored) and its size.
\<close>

subsection \<open>Vectors\<close>

record 'a vector =
  slots :: "'a option list"
  vsize :: nat

definition vector_empty :: "'a vector" where
  "vector_empty = \<lparr>slots = [], vsize = 0\<rparr>"

text \<open>
  A larger \<^verbatim>\<open>reserve\<close> and a \<^verbatim>\<open>resize\<close> beyond the capacity move the first \<open>vsize\<close>
  elements to a new allocation; the elements a \<^verbatim>\<open>resize\<close> appends are zero.
\<close>

definition vector_reserve :: "nat \<Rightarrow> 'a vector \<Rightarrow> 'a vector" where
  "vector_reserve n v =
     (if n \<le> length (slots v) then v
      else v\<lparr>slots := take (vsize v) (slots v) @ replicate (n - vsize v) None\<rparr>)"

definition vector_resize :: "'a \<Rightarrow> nat \<Rightarrow> 'a vector \<Rightarrow> 'a vector" where
  "vector_resize zero n v =
     (if n \<le> vsize v then v\<lparr>vsize := n\<rparr>
      else let filled = take (vsize v) (slots v) @ replicate (n - vsize v) (Some zero);
               capacity = (if n \<le> length (slots v) then length (slots v) else max n (2 * vsize v));
               rest = (if n \<le> length (slots v) then drop n (slots v)
                       else replicate (capacity - n) None)
           in \<lparr>slots = filled @ rest, vsize = n\<rparr>)"

definition vector_get :: "'a vector \<Rightarrow> nat \<Rightarrow> 'a res" where
  "vector_get v i =
     (if i < length (slots v) then from_option Uninitialised (slots v ! i) else Inl Out_of_bounds)"

definition vector_set :: "nat \<Rightarrow> 'a \<Rightarrow> 'a vector \<Rightarrow> 'a vector res" where
  "vector_set i x v =
     (if i < length (slots v) then Inr (v\<lparr>slots := (slots v)[i := Some x]\<rparr>) else Inl Out_of_bounds)"

text \<open>A block of bytes copied into or read from the allocation.\<close>

fun vector_write :: "nat \<Rightarrow> 'a list \<Rightarrow> 'a vector \<Rightarrow> 'a vector res" where
  "vector_write i [] v = Inr v"
| "vector_write i (x # xs) v = and_then (vector_set i x v) (vector_write (Suc i) xs)"

fun vector_read :: "'a vector \<Rightarrow> nat \<Rightarrow> nat \<Rightarrow> 'a list res" where
  "vector_read v i 0 = Inr []"
| "vector_read v i (Suc n) =
     and_then (vector_get v i) (\<lambda>x. and_then (vector_read v (Suc i) n) (\<lambda>xs. Inr (x # xs)))"

subsection \<open>The operand buffer\<close>

text \<open>\<^verbatim>\<open>CorElementType\<close> is an enumeration of four bytes.\<close>

type_synonym cor_element_type = u32

abbreviation ELEMENT_TYPE_I1 :: cor_element_type where "ELEMENT_TYPE_I1 \<equiv> 0x4"
abbreviation ELEMENT_TYPE_I2 :: cor_element_type where "ELEMENT_TYPE_I2 \<equiv> 0x6"
abbreviation ELEMENT_TYPE_I4 :: cor_element_type where "ELEMENT_TYPE_I4 \<equiv> 0x8"
abbreviation ELEMENT_TYPE_I8 :: cor_element_type where "ELEMENT_TYPE_I8 \<equiv> 0xA"
abbreviation ELEMENT_TYPE_R4 :: cor_element_type where "ELEMENT_TYPE_R4 \<equiv> 0xC"
abbreviation ELEMENT_TYPE_R8 :: cor_element_type where "ELEMENT_TYPE_R8 \<equiv> 0xD"
abbreviation ELEMENT_TYPE_PTR :: cor_element_type where "ELEMENT_TYPE_PTR \<equiv> 0xF"

record operands =
  entries_count :: u32
  data_ptr :: u32
  data :: "byte vector"
  dataPtrs :: "u32 vector"
  memSize :: int

definition operands_initial :: operands where
  "operands_initial =
     \<lparr>entries_count = 0, data_ptr = 0, data = vector_empty, dataPtrs = vector_empty, memSize = 0\<rparr>"

definition clear_mem :: "operands \<Rightarrow> operands" where
  "clear_mem m =
     m\<lparr>entries_count := 0, data_ptr := 0, memSize := 3,
       dataPtrs := vector_reserve 3 (dataPtrs m),
       data := vector_reserve (3 * (8 + 4)) (data m)\<rparr>"

text \<open>
  An index is a signed byte; as the index of a vector a negative one becomes a huge number.
\<close>

definition vector_index :: "byte \<Rightarrow> nat" where
  "vector_index idx = unat (word_of_int (sint idx) :: u64)"

definition mem_at :: "byte list \<Rightarrow> cor_element_type \<Rightarrow> byte \<Rightarrow> operands \<Rightarrow> operands res" where
  "mem_at v t idx m =
     (let m = (if sint idx > memSize m
               then let n = nat (sint idx + 1)
                    in m\<lparr>memSize := sint idx + 1,
                         dataPtrs := vector_resize 0 n (dataPtrs m),
                         data := vector_resize 0 (n * (8 + 4)) (data m)\<rparr>
               else m);
          m = m\<lparr>entries_count := entries_count m + 1\<rparr>
      in and_then (vector_set (vector_index idx) (data_ptr m) (dataPtrs m)) (\<lambda>ptrs.
         let p = unat (data_ptr m) in
         and_then (vector_write p (word_bytes t) (data m)) (\<lambda>d.
         and_then (vector_write (p + 4) v d) (\<lambda>d.
         Inr (m\<lparr>dataPtrs := ptrs, data := d,
              data_ptr := data_ptr m + word_of_nat (length v + 4)\<rparr>)))))"

definition mem_next :: "byte list \<Rightarrow> cor_element_type \<Rightarrow> operands \<Rightarrow> operands res" where
  "mem_next v t m = mem_at v t (ucast (entries_count m)) m"

definition mem_update :: "byte list \<Rightarrow> byte \<Rightarrow> operands \<Rightarrow> operands res" where
  "mem_update v idx m =
     and_then (vector_get (dataPtrs m) (vector_index idx)) (\<lambda>p.
     and_then (vector_write (unat p + 4) v (data m)) (\<lambda>d. Inr (m\<lparr>data := d\<rparr>)))"

definition unmemType :: "byte \<Rightarrow> operands \<Rightarrow> cor_element_type res" where
  "unmemType idx m =
     and_then (vector_get (dataPtrs m) (vector_index idx)) (\<lambda>p.
     and_then (vector_read (data m) (unat p) 4) (\<lambda>bs. Inr (word_of_bytes bs)))"

text \<open>The common body of the typed readers: check the stored type, read \<open>n\<close> bytes behind it.\<close>

definition unmem :: "cor_element_type \<Rightarrow> nat \<Rightarrow> byte \<Rightarrow> operands \<Rightarrow> byte list res" where
  "unmem t n idx m =
     and_then (vector_get (dataPtrs m) (vector_index idx)) (\<lambda>p.
     and_then (vector_read (data m) (unat p) 4) (\<lambda>bs.
     and_then (check (word_of_bytes bs = t) Assert_failed) (\<lambda>_.
     vector_read (data m) (unat p + 4) n)))"

subsection \<open>The typed accessors\<close>

text \<open>Floating-point values are their bit patterns.\<close>

definition mem_i1 :: "byte \<Rightarrow> operands \<Rightarrow> operands res" where
  "mem_i1 v = mem_next (word_bytes v) ELEMENT_TYPE_I1"
definition mem_i1_at :: "byte \<Rightarrow> byte \<Rightarrow> operands \<Rightarrow> operands res" where
  "mem_i1_at v idx = mem_at (word_bytes v) ELEMENT_TYPE_I1 idx"
definition mem_i2 :: "u16 \<Rightarrow> operands \<Rightarrow> operands res" where
  "mem_i2 v = mem_next (word_bytes v) ELEMENT_TYPE_I2"
definition mem_i2_at :: "u16 \<Rightarrow> byte \<Rightarrow> operands \<Rightarrow> operands res" where
  "mem_i2_at v idx = mem_at (word_bytes v) ELEMENT_TYPE_I2 idx"
definition mem_i4 :: "u32 \<Rightarrow> operands \<Rightarrow> operands res" where
  "mem_i4 v = mem_next (word_bytes v) ELEMENT_TYPE_I4"
definition mem_i4_at :: "u32 \<Rightarrow> byte \<Rightarrow> operands \<Rightarrow> operands res" where
  "mem_i4_at v idx = mem_at (word_bytes v) ELEMENT_TYPE_I4 idx"
definition mem_i8 :: "u64 \<Rightarrow> operands \<Rightarrow> operands res" where
  "mem_i8 v = mem_next (word_bytes v) ELEMENT_TYPE_I8"
definition mem_i8_at :: "u64 \<Rightarrow> byte \<Rightarrow> operands \<Rightarrow> operands res" where
  "mem_i8_at v idx = mem_at (word_bytes v) ELEMENT_TYPE_I8 idx"
definition mem_f4 :: "u32 \<Rightarrow> operands \<Rightarrow> operands res" where
  "mem_f4 v = mem_next (word_bytes v) ELEMENT_TYPE_R4"
definition mem_f4_at :: "u32 \<Rightarrow> byte \<Rightarrow> operands \<Rightarrow> operands res" where
  "mem_f4_at v idx = mem_at (word_bytes v) ELEMENT_TYPE_R4 idx"
definition mem_f8 :: "u64 \<Rightarrow> operands \<Rightarrow> operands res" where
  "mem_f8 v = mem_next (word_bytes v) ELEMENT_TYPE_R8"
definition mem_f8_at :: "u64 \<Rightarrow> byte \<Rightarrow> operands \<Rightarrow> operands res" where
  "mem_f8_at v idx = mem_at (word_bytes v) ELEMENT_TYPE_R8 idx"
definition mem_p :: "u64 \<Rightarrow> operands \<Rightarrow> operands res" where
  "mem_p v = mem_next (word_bytes v) ELEMENT_TYPE_PTR"
definition mem_p_at :: "u64 \<Rightarrow> byte \<Rightarrow> operands \<Rightarrow> operands res" where
  "mem_p_at v idx = mem_at (word_bytes v) ELEMENT_TYPE_PTR idx"

definition update_i1 :: "byte \<Rightarrow> byte \<Rightarrow> operands \<Rightarrow> operands res" where
  "update_i1 v idx = mem_update (word_bytes v) idx"
definition update_i2 :: "u16 \<Rightarrow> byte \<Rightarrow> operands \<Rightarrow> operands res" where
  "update_i2 v idx = mem_update (word_bytes v) idx"
definition update_i4 :: "u32 \<Rightarrow> byte \<Rightarrow> operands \<Rightarrow> operands res" where
  "update_i4 v idx = mem_update (word_bytes v) idx"
definition update_i8 :: "u64 \<Rightarrow> byte \<Rightarrow> operands \<Rightarrow> operands res" where
  "update_i8 v idx = mem_update (word_bytes v) idx"

text \<open>
  \<^verbatim>\<open>update_f4\<close> takes the bits of a double and narrows it; the conversion of the hardware is the
  argument \<open>narrow\<close>.
\<close>

definition update_f4 :: "(u64 \<Rightarrow> u32) \<Rightarrow> u64 \<Rightarrow> byte \<Rightarrow> operands \<Rightarrow> operands res" where
  "update_f4 narrow v idx = mem_update (word_bytes (narrow v)) idx"
definition update_f8 :: "u64 \<Rightarrow> byte \<Rightarrow> operands \<Rightarrow> operands res" where
  "update_f8 v idx = mem_update (word_bytes v) idx"
definition update_p :: "u64 \<Rightarrow> byte \<Rightarrow> operands \<Rightarrow> operands res" where
  "update_p v idx = mem_update (word_bytes v) idx"

definition unmem_i1 :: "byte \<Rightarrow> operands \<Rightarrow> byte res" where
  "unmem_i1 idx m = and_then (unmem ELEMENT_TYPE_I1 1 idx m) (\<lambda>bs. Inr (word_of_bytes bs))"
definition unmem_i2 :: "byte \<Rightarrow> operands \<Rightarrow> u16 res" where
  "unmem_i2 idx m = and_then (unmem ELEMENT_TYPE_I2 2 idx m) (\<lambda>bs. Inr (word_of_bytes bs))"
definition unmem_i4 :: "byte \<Rightarrow> operands \<Rightarrow> u32 res" where
  "unmem_i4 idx m = and_then (unmem ELEMENT_TYPE_I4 4 idx m) (\<lambda>bs. Inr (word_of_bytes bs))"
definition unmem_i8 :: "byte \<Rightarrow> operands \<Rightarrow> u64 res" where
  "unmem_i8 idx m = and_then (unmem ELEMENT_TYPE_I8 8 idx m) (\<lambda>bs. Inr (word_of_bytes bs))"
definition unmem_f4 :: "byte \<Rightarrow> operands \<Rightarrow> u32 res" where
  "unmem_f4 idx m = and_then (unmem ELEMENT_TYPE_R4 4 idx m) (\<lambda>bs. Inr (word_of_bytes bs))"
definition unmem_f8 :: "byte \<Rightarrow> operands \<Rightarrow> u64 res" where
  "unmem_f8 idx m = and_then (unmem ELEMENT_TYPE_R8 8 idx m) (\<lambda>bs. Inr (word_of_bytes bs))"
definition unmem_p :: "byte \<Rightarrow> operands \<Rightarrow> u64 res" where
  "unmem_p idx m = and_then (unmem ELEMENT_TYPE_PTR 8 idx m) (\<lambda>bs. Inr (word_of_bytes bs))"

subsection \<open>Threads\<close>

text \<open>
  \<open>currentStack\<close> is a pointer into the map of stacks: the thread whose stack it points to. An entry
  of the pool of strings may be a null pointer.
\<close>

record memory =
  lastThreadID :: u64
  currentStack :: "u64 option"
  stacks :: "u64 \<rightharpoonup> stack"
  mheap :: heap
  stringsPool :: "u32 \<rightharpoonup> string option"
  topStringIndex :: u32
  operand_mem :: operands
  main_entered :: bool

definition memory_initial :: memory where
  "memory_initial = \<lparr>lastThreadID = 0, currentStack = None, stacks = Map.empty, mheap = heap_empty,
     stringsPool = Map.empty, topStringIndex = 0, operand_mem = operands_initial, main_entered = False\<rparr>"

text \<open>
  No lock protects the two global variables, so a switch is two steps: the number of the thread is
  stored, then its stack is looked up or created and becomes the current one.
\<close>

definition switch_claim :: "u64 \<Rightarrow> memory \<Rightarrow> memory" where
  "switch_claim tid m = m\<lparr>lastThreadID := tid\<rparr>"

definition switch_install :: "u64 \<Rightarrow> memory \<Rightarrow> memory" where
  "switch_install tid m =
     m\<lparr>stacks := (if stacks m tid = None then (stacks m)(tid \<mapsto> stack_new) else stacks m),
       currentStack := Some tid\<rparr>"

definition switchContext :: "u64 \<Rightarrow> memory \<Rightarrow> memory" where
  "switchContext tid m = (if tid \<noteq> lastThreadID m then switch_install tid (switch_claim tid m) else m)"

text \<open>
  An operation on the reference \<^verbatim>\<open>stack()\<close> or \<^verbatim>\<open>topFrame()\<close> returns: after the switch the
  current stack is used, whichever it is by then. \<open>on_stack\<close> is an access that no other thread interrupts.
\<close>

definition use_stack :: "(stack \<Rightarrow> ('a \<times> stack) res) \<Rightarrow> memory \<Rightarrow> ('a \<times> memory) res" where
  "use_stack op m =
     (case currentStack m of
        None \<Rightarrow> Inl Null_pointer
      | Some c \<Rightarrow> and_then (from_option Dangling_pointer (stacks m c)) (\<lambda>s.
          and_then (op s) (\<lambda>(x, s'). Inr (x, m\<lparr>stacks := (stacks m)(c \<mapsto> s')\<rparr>))))"

definition on_stack :: "u64 \<Rightarrow> (stack \<Rightarrow> ('a \<times> stack) res) \<Rightarrow> memory \<Rightarrow> ('a \<times> memory) res" where
  "on_stack tid op m = use_stack op (switchContext tid m)"

definition on_frame :: "u64 \<Rightarrow> (stack_frame \<Rightarrow> ('a \<times> stack_frame) res) \<Rightarrow> memory \<Rightarrow> ('a \<times> memory) res" where
  "on_frame tid op = on_stack tid (on_topFrame op)"

text \<open>The map of stacks is traversed in the order of its keys; \<open>tids\<close> lists them.\<close>

fun validate_stacks :: "(u64 \<rightharpoonup> stack) \<Rightarrow> u64 list \<Rightarrow> unit res" where
  "validate_stacks ss [] = Inr ()"
| "validate_stacks ss (t # tids) =
     and_then (from_option Null_pointer (ss t)) (\<lambda>s.
       if \<not> stack_isEmpty s then Inl (Fail_loud ''Stack is not empty after program termination!!'')
       else validate_stacks ss tids)"

definition validateStackEmptyness :: "u64 list \<Rightarrow> memory \<Rightarrow> unit res" where
  "validateStackEmptyness tids m = validate_stacks (stacks m) tids"

definition allocateString :: "string \<Rightarrow> memory \<Rightarrow> u32 \<times> memory" where
  "allocateString s m =
     (let currentIndex = topStringIndex m
      in (currentIndex, m\<lparr>stringsPool := (stringsPool m)(currentIndex \<mapsto> Some s),
            topStringIndex := topStringIndex m + 1\<rparr>))"

definition mainEntered :: "memory \<Rightarrow> memory" where
  "mainEntered m = m\<lparr>main_entered := True\<rparr>"

definition mainLeft :: "u64 \<Rightarrow> memory \<Rightarrow> (bool \<times> memory) res" where
  "mainLeft tid m =
     (if main_entered m then on_stack tid (\<lambda>s. Inr (stack_isEmpty s, s)) m else Inr (False, m))"

definition resolve :: "u64 \<Rightarrow> memory \<Rightarrow> virtual_address res" where
  "resolve p m = physToVirtAddress (mheap m) p"

subsection \<open>Blocks of a vector\<close>

lemma vector_write_eq:
  "i + length xs \<le> length (slots v) \<Longrightarrow>
   vector_write i xs v =
     Inr (v\<lparr>slots := take i (slots v) @ map Some xs @ drop (i + length xs) (slots v)\<rparr>)"
proof (induction xs arbitrary: i v)
  case (Cons x xs)
  let ?v = "v\<lparr>slots := (slots v)[i := Some x]\<rparr>"
  have "vector_write (Suc i) xs ?v =
      Inr (?v\<lparr>slots := take (Suc i) (slots ?v) @ map Some xs @ drop (Suc i + length xs) (slots ?v)\<rparr>)"
    using Cons.prems by (intro Cons.IH) simp
  moreover have "take (Suc i) ((slots v)[i := Some x]) = take i (slots v) @ [Some x]"
    using Cons.prems by (simp add: take_Suc_conv_app_nth)
  ultimately show ?case
    using Cons.prems by (simp add: vector_set_def)
qed simp

lemma vector_read_eq:
  "i + n \<le> length (slots v) \<Longrightarrow> take n (drop i (slots v)) = map Some xs \<Longrightarrow>
   vector_read v i n = Inr xs"
proof (induction n arbitrary: i xs)
  case (Suc n)
  then obtain x ys where xs: "xs = x # ys"
    by (cases xs) auto
  have i: "i < length (slots v)"
    using Suc.prems(1) by simp
  have "take (Suc n) (drop i (slots v)) = slots v ! i # take n (drop (Suc i) (slots v))"
    using i by (simp add: Cons_nth_drop_Suc [symmetric])
  then have "slots v ! i = Some x" and "take n (drop (Suc i) (slots v)) = map Some ys"
    using Suc.prems(2) xs by simp_all
  then show ?case
    using Suc i xs by (simp add: vector_get_def)
qed simp

lemma sint_small:
  assumes "i < 128" shows "sint (word_of_nat i :: byte) = int i"
  using assms by (simp add: signed_of_nat signed_take_bit_int_eq_self)

lemma vector_index_small: "i < 128 \<Longrightarrow> vector_index (word_of_nat i) = i"
  by (simp add: vector_index_def sint_small unsigned_of_nat take_bit_nat_eq_self)

subsection \<open>The entries a buffer holds\<close>

type_synonym entry = "cor_element_type \<times> byte list"

definition layout :: "entry list \<Rightarrow> byte list" where
  "layout es = concat (map (\<lambda>(t, v). word_bytes t @ v) es)"

definition small_entries :: "entry list \<Rightarrow> bool" where
  "small_entries es \<longleftrightarrow> length es \<le> 3 \<and> (\<forall>(t, v) \<in> set es. length v \<le> 8)"

text \<open>
  The buffer holds the entries \<open>es\<close>: they lie one behind the other at the start of \<open>data\<close>, each a
  type and a value, and \<open>dataPtrs\<close> says where each starts.
\<close>

definition holds :: "operands \<Rightarrow> entry list \<Rightarrow> bool" where
  "holds m es \<longleftrightarrow>
     small_entries es \<and> memSize m = 3 \<and>
     3 \<le> length (slots (dataPtrs m)) \<and> 36 \<le> length (slots (data m)) \<and>
     entries_count m = word_of_nat (length es) \<and>
     data_ptr m = word_of_nat (length (layout es)) \<and>
     take (length (layout es)) (slots (data m)) = map Some (layout es) \<and>
     (\<forall>i < length es. slots (dataPtrs m) ! i = Some (word_of_nat (length (layout (take i es)))))"

lemma layout_simps [simp]:
  "layout [] = []"
  "layout (e # es) = word_bytes (fst e) @ snd e @ layout es"
  "layout (es @ es') = layout es @ layout es'"
  by (simp_all add: layout_def split_beta)

lemma length_layout: "\<forall>(t, v) \<in> set es. length v \<le> 8 \<Longrightarrow> length (layout es) \<le> 12 * length es"
  by (induction es) auto

lemma layout_bound: "small_entries es \<Longrightarrow> length (layout es) \<le> 36"
  using length_layout [of es] by (simp add: small_entries_def)

lemma layout_take_bound: "small_entries es \<Longrightarrow> length (layout (take i es)) \<le> 36"
  by (rule layout_bound) (auto simp: small_entries_def dest: in_set_takeD)

lemma unat_layout: "n \<le> 36 \<Longrightarrow> unat (word_of_nat n :: u32) = n"
  by (simp add: unsigned_of_nat take_bit_nat_eq_self)

definition operands_wf :: "operands \<Rightarrow> bool" where
  "operands_wf m \<longleftrightarrow>
     vsize (data m) \<le> length (slots (data m)) \<and> vsize (dataPtrs m) \<le> length (slots (dataPtrs m))"

lemma clear_mem_holds: "operands_wf m \<Longrightarrow> holds (clear_mem m) []"
  by (auto simp: holds_def clear_mem_def small_entries_def vector_reserve_def operands_wf_def)

lemma mem_next_holds:
  assumes h: "holds m es" and room: "length es < 3" "length v \<le> 8"
  shows "\<exists>m'. mem_next v t m = Inr m' \<and> holds m' (es @ [(t, v)])"
proof -
  let ?n = "length es" and ?p = "length (layout es)"
  have small: "small_entries es"
    using h by (simp add: holds_def)
  have p: "?p \<le> 24"
    using length_layout [of es] small room(1) by (simp add: small_entries_def)
  have idx: "ucast (entries_count m) = (word_of_nat ?n :: byte)"
    using h room(1) by (simp add: holds_def unsigned_of_nat take_bit_nat_eq_self)
  have up: "unat (data_ptr m) = ?p"
    using h p by (simp add: holds_def unat_layout)
  have cap: "?p + 12 \<le> length (slots (data m))" "?n < length (slots (dataPtrs m))"
    using h p room(1) by (simp_all add: holds_def)
  have m3: "\<not> sint (word_of_nat ?n :: byte) > memSize m"
    using h room(1) by (simp add: sint_small holds_def)
  have ix: "vector_index (word_of_nat ?n) = ?n"
    using room(1) by (simp add: vector_index_small)
  let ?s = "slots (data m)" and ?w = "word_bytes t"
  define d where "d = (data m)\<lparr>slots := take ?p ?s @ map Some ?w @ drop (?p + 4) ?s\<rparr>"
  define d' where "d' = d\<lparr>slots := take ?p ?s @ map Some ?w @ map Some v @ drop (?p + 4 + length v) ?s\<rparr>"
  have 1: "vector_write ?p ?w (data m) = Inr d"
    using cap by (simp add: vector_write_eq d_def)
  have 2: "vector_write (?p + 4) v d = Inr d'"
    using cap room(2) by (simp add: vector_write_eq d_def d'_def add.commute add.left_commute)
  let ?m = "m\<lparr>entries_count := entries_count m + 1,
      dataPtrs := (dataPtrs m)\<lparr>slots := (slots (dataPtrs m))[?n := Some (data_ptr m)]\<rparr>, data := d',
      data_ptr := data_ptr m + word_of_nat (length v + 4)\<rparr>"
  have "mem_next v t m = Inr ?m"
    unfolding mem_next_def mem_at_def idx Let_def if_not_P [OF m3] ix
    using cap 1 2 by (simp add: vector_set_def up)
  moreover have "holds ?m (es @ [(t, v)])"
    unfolding holds_def
  proof (intro conjI allI impI)
    show "small_entries (es @ [(t, v)])"
      using small room by (auto simp: small_entries_def)
    show "take (length (layout (es @ [(t, v)]))) (slots (data ?m)) = map Some (layout (es @ [(t, v)]))"
      using h cap by (simp add: d'_def holds_def)
    fix i
    assume "i < length (es @ [(t, v)])"
    then show "slots (dataPtrs ?m) ! i = Some (word_of_nat (length (layout (take i (es @ [(t, v)])))))"
      using h cap(2) by (cases "i = ?n") (simp_all add: holds_def)
  qed (use h cap room(2) in \<open>auto simp: holds_def d'_def d_def\<close>)
  ultimately show ?thesis
    by blast
qed

lemma layout_split:
  assumes "i < length es" and "es ! i = (t, v)"
  shows "layout es = layout (take i es) @ word_bytes t @ v @ layout (drop (Suc i) es)"
proof -
  have "es = take i es @ (t, v) # drop (Suc i) es"
    using id_take_nth_drop [OF assms(1)] assms(2) by simp
  then have "layout es = layout (take i es @ (t, v) # drop (Suc i) es)"
    by simp
  then show ?thesis
    by simp
qed

lemma holds_entry:
  assumes h: "holds m es" and i: "i < length es" "es ! i = (t, v)"
  defines "p \<equiv> length (layout (take i es))"
  shows "vector_get (dataPtrs m) (vector_index (word_of_nat i)) = Inr (word_of_nat p)"
    and "unat (word_of_nat p :: u32) = p" and "p + 4 + length v \<le> length (slots (data m))"
    and "take 4 (drop p (slots (data m))) = map Some (word_bytes t)"
    and "take (length v) (drop (p + 4) (slots (data m))) = map Some v"
proof -
  have small: "small_entries es"
    using h by (simp add: holds_def)
  then show "unat (word_of_nat p :: u32) = p"
    unfolding p_def by (intro unat_layout layout_take_bound)
  have "i < 3"
    using i(1) small by (simp add: small_entries_def)
  then show "vector_get (dataPtrs m) (vector_index (word_of_nat i)) = Inr (word_of_nat p)"
    using h i(1) by (simp add: vector_index_small vector_get_def holds_def p_def)
  have len: "length (layout es) = p + (4 + (length v + length (layout (drop (Suc i) es))))"
    using layout_split [OF i] by (simp add: p_def)
  then show le: "p + 4 + length v \<le> length (slots (data m))"
    using layout_bound [OF small] h by (simp add: holds_def)
  have all: "take (length (layout es)) (slots (data m)) =
      map Some (layout (take i es) @ word_bytes t @ v @ layout (drop (Suc i) es))"
    using h layout_split [OF i] by (simp add: holds_def)
  have "take 4 (drop p (take (length (layout es)) (slots (data m)))) = map Some (word_bytes t)"
    unfolding all by (simp add: p_def)
  then show "take 4 (drop p (slots (data m))) = map Some (word_bytes t)"
    using len by (simp add: drop_take min_def)
  have "take (length v) (drop (p + 4) (take (length (layout es)) (slots (data m)))) = map Some v"
    unfolding all by (simp add: p_def)
  then show "take (length v) (drop (p + 4) (slots (data m))) = map Some v"
    using len by (simp add: drop_take min_def)
qed

lemma unmem_holds:
  assumes "holds m es" and "i < length es" and "es ! i = (t, v)"
  shows "unmem t (length v) (word_of_nat i) m = Inr v" and "unmemType (word_of_nat i) m = Inr t"
proof -
  note e = holds_entry [OF assms]
  let ?p = "length (layout (take i es))"
  have t: "vector_read (data m) ?p 4 = Inr (word_bytes t)"
    using e(3,4) by (intro vector_read_eq) simp_all
  have "vector_read (data m) (?p + 4) (length v) = Inr v"
    using e(3,5) by (intro vector_read_eq) simp_all
  then show "unmem t (length v) (word_of_nat i) m = Inr v"
    unfolding unmem_def e(1) and_then_Inr e(2) t by simp
  show "unmemType (word_of_nat i) m = Inr t"
    unfolding unmemType_def e(1) and_then_Inr e(2) t by simp
qed

lemma mem_update_holds:
  assumes h: "holds m es" and i: "i < length es" "es ! i = (t, v)" and len: "length v' = length v"
  shows "\<exists>m'. mem_update v' (word_of_nat i) m = Inr m' \<and> holds m' (es[i := (t, v')])"
proof -
  note e = holds_entry [OF h i]
  let ?p = "length (layout (take i es))" and ?s = "slots (data m)"
  let ?d = "(data m)\<lparr>slots := take (?p + 4) ?s @ map Some v' @ drop (?p + 4 + length v') ?s\<rparr>"
  have w: "vector_write (?p + 4) v' (data m) = Inr ?d"
    using e(3) len by (intro vector_write_eq) simp
  have upd: "es[i := (t, v')] = take i es @ (t, v') # drop (Suc i) es"
    using i(1) by (rule upd_conv_take_nth_drop)
  have lay: "layout (es[i := (t, v')]) = layout (take i es) @ word_bytes t @ v' @ layout (drop (Suc i) es)"
    unfolding upd by simp
  have lens: "length (layout (es[i := (t, v')])) = length (layout es)"
    using len layout_split [OF i] unfolding lay by simp
  have small: "small_entries (es[i := (t, v')])"
    using h i len nth_mem [OF i(1)] unfolding upd
    by (auto simp: holds_def small_entries_def dest: in_set_takeD in_set_dropD)
  have "take (length (layout es)) (slots ?d) = map Some (layout (es[i := (t, v')]))"
  proof -
    have all: "take (length (layout es)) ?s = map Some (layout es)"
      using h by (simp add: holds_def)
    have "length (layout es) = ?p + 4 + length v' + length (layout (drop (Suc i) es))"
      using layout_split [OF i] len by simp
    moreover have "take (?p + 4) ?s = map Some (layout (take i es) @ word_bytes t)"
      using arg_cong [OF all, of "take (?p + 4)"] layout_split [OF i] calculation by (simp add: min_def)
    moreover have "take (length (layout (drop (Suc i) es))) (drop (?p + 4 + length v') ?s) =
        map Some (layout (drop (Suc i) es))"
      using arg_cong [OF all, of "drop (?p + 4 + length v')"] layout_split [OF i] calculation(1) len
      by (simp add: drop_take)
    ultimately show ?thesis
      using e(3) len unfolding lay by simp
  qed
  moreover have "layout (take j (es[i := (t, v')])) = layout (take j es) \<or>
      length (layout (take j (es[i := (t, v')]))) = length (layout (take j es))" if "j < length es" for j
  proof (cases "j \<le> i")
    case False
    have "layout (take j (es[i := (t, v')])) = layout ((take j es)[i := (t, v')])"
      by (simp add: take_update_swap)
    moreover have "length (layout ((take j es)[i := (t, v')])) = length (layout (take j es))"
      using len layout_split [of i "take j es" t v] False that i
      by (simp add: upd_conv_take_nth_drop)
    ultimately show ?thesis by simp
  qed simp
  ultimately have "holds (m\<lparr>data := ?d\<rparr>) (es[i := (t, v')])"
    using h small e(3) len lens unfolding holds_def by (auto simp: lens) metis
  then show ?thesis
    unfolding mem_update_def e(1) and_then_Inr e(2) w by simp
qed

lemma mem_run_holds:
  assumes "holds m es0" and "small_entries (es0 @ es)"
  shows "\<exists>m'. fold_res (\<lambda>(t, v). mem_next v t) es m = Inr m' \<and> holds m' (es0 @ es)"
  using assms
proof (induction es arbitrary: es0 m)
  case (Cons e es)
  obtain t v where e: "e = (t, v)"
    by (cases e)
  have "length es0 < 3" "length v \<le> 8"
    using Cons.prems(2) e by (auto simp: small_entries_def)
  then obtain m1 where "mem_next v t m = Inr m1" "holds m1 (es0 @ [e])"
    using mem_next_holds [OF Cons.prems(1)] e by blast
  moreover from this obtain m' where "fold_res (\<lambda>(t, v). mem_next v t) es m1 = Inr m'"
      "holds m' ((es0 @ [e]) @ es)"
    using Cons.IH [of m1 "es0 @ [e]"] Cons.prems(2) by auto
  ultimately show ?case
    by (auto simp: e)
qed auto

text \<open>
  up to three operands of at most eight bytes that are stored after the buffer was
  cleared are read back with the type and the value they were stored with, and an update of one
  of them changes that value and no other.
\<close>

theorem operands_roundtrip:
  assumes "operands_wf m" and "small_entries es" and "i < length es" and "es ! i = (t, v)"
    and "j < length es" and "es ! j = (t', v')" and "length v'' = length v'"
  shows "\<exists>m1 m2. fold_res (\<lambda>(t, v). mem_next v t) es (clear_mem m) = Inr m1 \<and>
    unmemType (word_of_nat i) m1 = Inr t \<and> unmem t (length v) (word_of_nat i) m1 = Inr v \<and>
    mem_update v'' (word_of_nat j) m1 = Inr m2 \<and>
    unmem t (length v) (word_of_nat i) m2 = Inr (if i = j then v'' else v)"
proof -
  obtain m1 where m1: "fold_res (\<lambda>(t, v). mem_next v t) es (clear_mem m) = Inr m1" "holds m1 es"
    using mem_run_holds [OF clear_mem_holds [OF assms(1)], of es] assms(2) by auto
  obtain m2 where m2: "mem_update v'' (word_of_nat j) m1 = Inr m2" "holds m2 (es[j := (t', v'')])"
    using mem_update_holds [OF m1(2) assms(5-7)] by blast
  have "unmem t (length v) (word_of_nat i) m2 = Inr (if i = j then v'' else v)"
    using unmem_holds(1) [OF m2(2), of i t "if i = j then v'' else v"] assms(3-7) by (cases "i = j") auto
  then show ?thesis
    using m1(1) m2(1) unmem_holds [OF m1(2) assms(3,4)] by blast
qed

definition sample_entries :: "entry list" where
  "sample_entries = [(ELEMENT_TYPE_I4, word_bytes (77 :: u32)), (ELEMENT_TYPE_I8, word_bytes (5 :: u64))]"

theorem operands_roundtrip_witness:
  "\<exists>m1 m2. fold_res (\<lambda>(t, v). mem_next v t) sample_entries (clear_mem operands_initial) = Inr m1 \<and>
     unmemType 0 m1 = Inr ELEMENT_TYPE_I4 \<and> unmem ELEMENT_TYPE_I4 4 0 m1 = Inr (word_bytes (77 :: u32)) \<and>
     mem_update (word_bytes (6 :: u64)) 1 m1 = Inr m2 \<and>
     unmem ELEMENT_TYPE_I4 4 0 m2 = Inr (word_bytes (77 :: u32))"
  using operands_roundtrip [of operands_initial sample_entries 0 ELEMENT_TYPE_I4 "word_bytes (77 :: u32)" 1
      ELEMENT_TYPE_I8 "word_bytes (5 :: u64)" "word_bytes (6 :: u64)"]
  by (simp add: operands_wf_def operands_initial_def vector_empty_def sample_entries_def small_entries_def)

text \<open>
  the typed writers and readers agree: what \<open>mem_i1\<close>, \<open>mem_i2\<close>, \<open>mem_i4\<close>, \<open>mem_i8\<close>,
  \<open>mem_f4\<close>, \<open>mem_f8\<close> or \<open>mem_p\<close> stores as the first operand is what the reader of the same type
  returns for it.
\<close>

theorem typed_operands_roundtrip:
  assumes "operands_wf m"
  shows "and_then (mem_i1 a (clear_mem m)) (unmem_i1 0) = Inr a \<and>
    and_then (mem_i2 b (clear_mem m)) (unmem_i2 0) = Inr b \<and>
    and_then (mem_i4 c (clear_mem m)) (unmem_i4 0) = Inr c \<and>
    and_then (mem_i8 d (clear_mem m)) (unmem_i8 0) = Inr d \<and>
    and_then (mem_f4 c (clear_mem m)) (unmem_f4 0) = Inr c \<and>
    and_then (mem_f8 d (clear_mem m)) (unmem_f8 0) = Inr d \<and>
    and_then (mem_p d (clear_mem m)) (unmem_p 0) = Inr d"
proof -
  have 1: "and_then (mem_next v t (clear_mem m)) (unmem t (length v) 0) = Inr v"
    if v: "length v \<le> 8" for v t
  proof -
    obtain m' where "mem_next v t (clear_mem m) = Inr m'" "holds m' [(t, v)]"
      using mem_next_holds [OF clear_mem_holds [OF assms] _ v] by auto
    then show ?thesis
      using unmem_holds(1) [of m' "[(t, v)]" 0 t v] by simp
  qed
  have 2: "and_then (mem_next (word_bytes w) t (clear_mem m))
      (\<lambda>m. and_then (unmem t (LENGTH('a) div 8) 0 m) (\<lambda>bs. Inr (word_of_bytes bs))) =
      Inr (word_of_bytes (word_bytes w) :: 'a word)" if "LENGTH('a) \<le> 64" for w :: "'a::len word" and t
    using 1 [of "word_bytes w" t] that by (simp add: and_then_assoc [symmetric] div_le_mono
        [of "LENGTH('a)" 64 8, simplified])
  show ?thesis
    using 2 [of a ELEMENT_TYPE_I1] 2 [of b ELEMENT_TYPE_I2] 2 [of c ELEMENT_TYPE_I4]
      2 [of d ELEMENT_TYPE_I8] 2 [of c ELEMENT_TYPE_R4] 2 [of d ELEMENT_TYPE_R8] 2 [of d ELEMENT_TYPE_PTR]
    by (simp add: mem_i1_def mem_i2_def mem_i4_def mem_i8_def mem_f4_def mem_f8_def mem_p_def
        unmem_i1_def [abs_def] unmem_i2_def [abs_def] unmem_i4_def [abs_def] unmem_i8_def [abs_def]
        unmem_f4_def [abs_def] unmem_f8_def [abs_def] unmem_p_def [abs_def])
qed

theorem typed_operands_roundtrip_witness:
  "and_then (mem_i4 41 (clear_mem operands_initial)) (unmem_i4 0) = Inr 41"
  using typed_operands_roundtrip [of operands_initial 0 0 41 0]
  by (simp add: operands_wf_def operands_initial_def vector_empty_def)

text \<open>
  Claim C28: the first time the buffer is used, a fourth operand is stored one place past the end
  of the index vector: the test for growing compares the index with \<open>>\<close> where the vector has
  room for indices below its capacity only.
\<close>

theorem fourth_operand_overflows:
  assumes "small_entries [a, b, c]" and "length (snd d) \<le> 8"
  shows "fold_res (\<lambda>(t, v). mem_next v t) [a, b, c, d] (clear_mem operands_initial) = Inl Out_of_bounds"
proof -
  have wf: "operands_wf operands_initial"
    by (simp add: operands_wf_def operands_initial_def vector_empty_def)
  have cap: "length (slots (dataPtrs m')) = length (slots (dataPtrs m))"
    if "mem_next v t m = Inr m'" "entries_count m \<in> {0, 1, 2}" "memSize m = 3" for v t m m'
  proof -
    have "sint (ucast (entries_count m) :: byte) \<le> 2"
      using that(2) by auto
    then show ?thesis
      using that by (auto simp: mem_next_def mem_at_def vector_set_def Let_def res_simps split: if_splits)
  qed
  obtain ta va tb vb tc vc td vd where abcd: "a = (ta, va)" "b = (tb, vb)" "c = (tc, vc)" "d = (td, vd)"
    by (cases a, cases b, cases c, cases d)
  obtain m1 where m1: "mem_next va ta (clear_mem operands_initial) = Inr m1" "holds m1 [a]"
    using mem_next_holds [OF clear_mem_holds [OF wf], of va ta] assms(1) abcd
    by (auto simp: small_entries_def)
  obtain m2 where m2: "mem_next vb tb m1 = Inr m2" "holds m2 [a, b]"
    using mem_next_holds [OF m1(2), of vb tb] assms(1) abcd by (auto simp: small_entries_def)
  obtain m3 where m3: "mem_next vc tc m2 = Inr m3" "holds m3 [a, b, c]"
    using mem_next_holds [OF m2(2), of vc tc] assms(1) abcd by (auto simp: small_entries_def)
  have "length (slots (dataPtrs (clear_mem operands_initial))) = 3"
    by (simp add: clear_mem_def operands_initial_def vector_empty_def vector_reserve_def)
  then have "length (slots (dataPtrs m3)) = 3"
    using cap [OF m1(1)] cap [OF m2(1)] cap [OF m3(1)] m1(2) m2(2)
    by (simp add: holds_def clear_mem_def operands_initial_def)
  moreover have "entries_count m3 = 3" "memSize m3 = 3"
    using m3(2) by (simp_all add: holds_def)
  ultimately have "mem_next vd td m3 = Inl Out_of_bounds"
    by (simp add: mem_next_def mem_at_def vector_set_def vector_index_def Let_def)
  then show ?thesis
    using m1(1) m2(1) m3(1) by (simp add: abcd)
qed

theorem fourth_operand_overflows_witness:
  "fold_res (\<lambda>(t, v). mem_next v t)
     [(ELEMENT_TYPE_I1, [1]), (ELEMENT_TYPE_I1, [2]), (ELEMENT_TYPE_I1, [3]), (ELEMENT_TYPE_I1, [4])]
     (clear_mem operands_initial) = Inl Out_of_bounds"
  by (rule fourth_operand_overflows) (simp_all add: small_entries_def)

subsection \<open>Threads do not share stacks\<close>

definition memory_inv :: "memory \<Rightarrow> bool" where
  "memory_inv m \<longleftrightarrow> (case currentStack m of
       None \<Rightarrow> lastThreadID m = 0 \<and> stacks m = Map.empty
     | Some c \<Rightarrow> c = lastThreadID m \<and> stacks m c \<noteq> None)"

definition own_stack :: "u64 \<Rightarrow> memory \<Rightarrow> stack" where
  "own_stack tid m = (case stacks m tid of None \<Rightarrow> stack_new | Some s \<Rightarrow> s)"

lemma memory_inv_cong:
  "currentStack m' = currentStack m \<Longrightarrow> lastThreadID m' = lastThreadID m \<Longrightarrow> stacks m' = stacks m \<Longrightarrow>
   memory_inv m' = memory_inv m \<and> own_stack tid m' = own_stack tid m"
  by (simp add: memory_inv_def own_stack_def split: option.split)

lemma memory_inv_update [simp]:
  "memory_inv (m\<lparr>mheap := h\<rparr>) = memory_inv m" "own_stack tid (m\<lparr>mheap := h\<rparr>) = own_stack tid m"
  "memory_inv (m\<lparr>operand_mem := ops\<rparr>) = memory_inv m" "own_stack tid (m\<lparr>operand_mem := ops\<rparr>) = own_stack tid m"
  "memory_inv (m\<lparr>main_entered := b\<rparr>) = memory_inv m" "own_stack tid (m\<lparr>main_entered := b\<rparr>) = own_stack tid m"
  using memory_inv_cong [of "m\<lparr>mheap := h\<rparr>" m] memory_inv_cong [of "m\<lparr>operand_mem := ops\<rparr>" m]
    memory_inv_cong [of "m\<lparr>main_entered := b\<rparr>" m] by simp_all

lemma memory_inv_initial: "memory_inv memory_initial"
  by (simp add: memory_inv_def memory_initial_def)

lemma switchContext_eq:
  "switchContext tid m =
     (if tid \<noteq> lastThreadID m
      then m\<lparr>lastThreadID := tid,
             stacks := (if stacks m tid = None then (stacks m)(tid \<mapsto> stack_new) else stacks m),
             currentStack := Some tid\<rparr>
      else m)"
  by (simp add: switchContext_def switch_claim_def switch_install_def)

lemma switchContext_inv: "memory_inv m \<Longrightarrow> memory_inv (switchContext tid m)"
  by (auto simp: memory_inv_def switchContext_eq split: option.splits)

lemma switchContext_current:
  assumes "memory_inv m" and "tid \<noteq> 0 \<or> currentStack m \<noteq> None"
  shows "currentStack (switchContext tid m) = Some tid"
    and "stacks (switchContext tid m) = (stacks m)(tid \<mapsto> own_stack tid m)"
  using assms by (auto simp: memory_inv_def switchContext_eq own_stack_def fun_eq_iff split: option.splits)

lemma on_stack_eq:
  assumes "memory_inv m" and "tid \<noteq> 0 \<or> currentStack m \<noteq> None"
  shows "on_stack tid op m = and_then (op (own_stack tid m)) (\<lambda>(x, s').
      Inr (x, (switchContext tid m)\<lparr>stacks := (stacks m)(tid \<mapsto> s')\<rparr>))"
  by (simp add: on_stack_def use_stack_def switchContext_current [OF assms])

lemma on_stack_success:
  assumes "memory_inv m" and "tid \<noteq> 0 \<or> currentStack m \<noteq> None" and "op (own_stack tid m) = Inr (x, s)"
  shows "\<exists>m'. on_stack tid op m = Inr (x, m') \<and> memory_inv m' \<and> currentStack m' = Some tid \<and>
    own_stack tid m' = s \<and> (\<forall>t. t \<noteq> tid \<longrightarrow> stacks m' t = stacks m t) \<and> mheap m' = mheap m \<and>
    operand_mem m' = operand_mem m"
proof -
  have "lastThreadID (switchContext tid m) = tid" "mheap (switchContext tid m) = mheap m"
      "operand_mem (switchContext tid m) = operand_mem m"
    by (simp_all add: switchContext_eq)
  then show ?thesis
    using assms(3)
    by (simp add: on_stack_eq [OF assms(1,2)] memory_inv_def own_stack_def switchContext_current(1) [OF assms(1,2)])
qed

text \<open>
  As long as no two threads access their stacks at the same time, an operation of thread \<open>tid\<close> works on that
  thread's own stack, which is a new one at its first operation, fails exactly when it fails
  there, and leaves the stacks of all other threads and the heap alone. The only exception is the
  thread number zero before any other thread was seen.
\<close>

theorem thread_isolation:
  assumes "memory_inv m" and "tid \<noteq> 0 \<or> currentStack m \<noteq> None"
  shows "(case op (own_stack tid m) of
      Inl e \<Rightarrow> on_stack tid op m = Inl e
    | Inr (x, s) \<Rightarrow> \<exists>m'. on_stack tid op m = Inr (x, m') \<and> memory_inv m' \<and>
        own_stack tid m' = s \<and> (\<forall>t. t \<noteq> tid \<longrightarrow> stacks m' t = stacks m t) \<and> mheap m' = mheap m)"
proof (cases "op (own_stack tid m)")
  case (Inl e)
  then show ?thesis
    by (simp add: on_stack_eq [OF assms])
next
  case (Inr r)
  obtain x s where r: "r = (x, s)"
    by (cases r)
  show ?thesis
    using on_stack_success [OF assms, of op x s] Inr by (auto simp: r)
qed

theorem thread_isolation_witness:
  "\<exists>m'. on_stack 7 (\<lambda>s. Inr (stack_isEmpty s, s)) memory_initial = Inr (True, m') \<and> memory_inv m'"
  using thread_isolation [OF memory_inv_initial, of 7 "\<lambda>s. Inr (stack_isEmpty s, s)"]
  by (auto simp: own_stack_def memory_initial_def stack_isEmpty_def stack_new_def)

text \<open>
  Claim C29: the switch between threads is not protected against other threads. If a thread \<open>b\<close>
  switches between the switch of a thread \<open>a\<close> and its access, the operation of \<open>a\<close> is carried out on
  the stack of \<open>b\<close>. If \<open>b\<close> switches between the two assignments of the switch of \<open>a\<close>, then
  a later access of \<open>b\<close> works on the stack of \<open>a\<close> even if nothing interrupts it, as \<open>b\<close> is still
  recorded as the last thread and does not switch again.
\<close>

theorem interleaved_switches_mix_stacks:
  assumes "a \<noteq> b" and "a \<noteq> lastThreadID m"
  shows "(use_stack op (switchContext b (switchContext a m))
      = and_then (op (own_stack b m)) (\<lambda>(x, s).
          Inr (x, (switchContext b (switchContext a m))
            \<lparr>stacks := (stacks m)(a \<mapsto> own_stack a m, b \<mapsto> s)\<rparr>)))
    \<and> (on_stack b op (switch_install a (switchContext b (switch_claim a m)))
      = and_then (op (own_stack a m)) (\<lambda>(x, s).
          Inr (x, (switch_install a (switchContext b (switch_claim a m)))
            \<lparr>stacks := (stacks m)(b \<mapsto> own_stack b m, a \<mapsto> s)\<rparr>)))"
proof -
  have "currentStack (switchContext b (switchContext a m)) = Some b"
    and "stacks (switchContext b (switchContext a m)) = (stacks m)(a \<mapsto> own_stack a m, b \<mapsto> own_stack b m)"
    using assms by (auto simp: switchContext_eq own_stack_def fun_eq_iff)
  then have first: "use_stack op (switchContext b (switchContext a m))
      = and_then (op (own_stack b m)) (\<lambda>(x, s).
          Inr (x, (switchContext b (switchContext a m))
            \<lparr>stacks := (stacks m)(a \<mapsto> own_stack a m, b \<mapsto> s)\<rparr>))"
    by (simp add: use_stack_def)
  let ?m = "switch_install a (switchContext b (switch_claim a m))"
  have "currentStack ?m = Some a" and "stacks ?m = (stacks m)(b \<mapsto> own_stack b m, a \<mapsto> own_stack a m)"
    and "switchContext b ?m = ?m"
    using assms by (auto simp: switchContext_eq switch_install_def switch_claim_def own_stack_def fun_eq_iff)
  then have "on_stack b op ?m
      = and_then (op (own_stack a m)) (\<lambda>(x, s). Inr (x, ?m\<lparr>stacks := (stacks m)(b \<mapsto> own_stack b m, a \<mapsto> s)\<rparr>))"
    by (simp add: on_stack_def use_stack_def)
  with first show ?thesis ..
qed

theorem interleaved_switches_mix_stacks_witness:
  "\<exists>m'. on_stack 8 (\<lambda>s. Inr (stack_isEmpty s, s)) (switch_install 7 (switchContext 8
      (switch_claim 7 (memory_initial\<lparr>stacks := [7 \<mapsto> sample_stack]\<rparr>)))) = Inr (False, m')"
  using interleaved_switches_mix_stacks [of 7 8 "memory_initial\<lparr>stacks := [7 \<mapsto> sample_stack]\<rparr>"
      "\<lambda>s. Inr (stack_isEmpty s, s)"]
  by (simp add: memory_initial_def own_stack_def stack_isEmpty_def sample_stack_def)

text \<open>
  the check at the end of the program succeeds exactly when the stack of every thread
  that was seen is empty, and otherwise fails loudly.
\<close>

theorem validateStackEmptyness_exact:
  assumes "set tids = dom (stacks m)"
  shows "validateStackEmptyness tids m =
    (if \<forall>s \<in> ran (stacks m). stack_isEmpty s then Inr ()
     else Inl (Fail_loud ''Stack is not empty after program termination!!''))"
proof -
  have "validate_stacks ss ts = (if \<forall>t \<in> set ts. stack_isEmpty (the (ss t)) then Inr ()
      else Inl (Fail_loud ''Stack is not empty after program termination!!''))"
    if "set ts \<subseteq> dom ss" for ss ts
    using that by (induction ts) auto
  moreover have "(\<forall>t \<in> set tids. stack_isEmpty (the (stacks m t))) \<longleftrightarrow> (\<forall>s \<in> ran (stacks m). stack_isEmpty s)"
    using assms by (auto simp: ran_def dom_def)
  ultimately show ?thesis
    using assms by (simp add: validateStackEmptyness_def)
qed

theorem validateStackEmptyness_exact_witness:
  "validateStackEmptyness [7] (memory_initial\<lparr>stacks := [7 \<mapsto> sample_stack]\<rparr>) =
     Inl (Fail_loud ''Stack is not empty after program termination!!'')"
  by (subst validateStackEmptyness_exact) (simp_all add: stack_isEmpty_def sample_stack_def)

end
