(* ===== verification/Pipe_Protocol.thy ===== *)
theory Pipe_Protocol
  imports VPrelude
begin

section \<open>The protocol with the symbolic engine\<close>

text \<open>
  The class \<^verbatim>\<open>Protocol\<close> of \<^verbatim>\<open>communication/protocol.cpp\<close> over the socket of
  \<^verbatim>\<open>communication/unixFifoCommunicator.cpp\<close>. The state of the socket is the bytes the peer has
  sent and will send, the bytes written so far, and the results the operating system gives to the
  coming calls: a call may transfer fewer bytes than asked for or fail. When the listed results are
  used up, calls transfer as much as they can. A read at the end of the stream returns zero.
\<close>

subsection \<open>The communicator\<close>

datatype os_result = Os_error | Upto nat

record comm =
  inbox :: "byte list"
  outbox :: "byte list"
  reads :: "os_result list"
  writes :: "os_result list"

text \<open>\<open>transfer r n\<close>: how many of \<open>n\<close> bytes a call transfers, at least one if there are any.\<close>

fun transfer :: "os_result list \<Rightarrow> nat \<Rightarrow> nat option" where
  "transfer [] n = Some n"
| "transfer (Os_error # rs) n = None"
| "transfer (Upto k # rs) n = Some (min (Suc k) n)"

definition comm_read :: "nat \<Rightarrow> comm \<Rightarrow> int \<times> byte list \<times> comm" where
  "comm_read cnt c =
     (let c' = c\<lparr>reads := tl (reads c)\<rparr> in
      case transfer (reads c) (min cnt (length (inbox c))) of
        None \<Rightarrow> (-1, [], c')
      | Some n \<Rightarrow> (int n, take n (inbox c), c'\<lparr>inbox := drop n (inbox c)\<rparr>))"

definition comm_write :: "byte list \<Rightarrow> comm \<Rightarrow> int \<times> comm" where
  "comm_write bs c =
     (let c' = c\<lparr>writes := tl (writes c)\<rparr> in
      case transfer (writes c) (length bs) of
        None \<Rightarrow> (-1, c')
      | Some n \<Rightarrow> (int n, c'\<lparr>outbox := outbox c @ take n bs\<rparr>))"

subsection \<open>Confirmations, counts and buffers\<close>

abbreviation Confirmation :: byte where "Confirmation \<equiv> 0x55"
abbreviation InstrumentCommand :: byte where "InstrumentCommand \<equiv> 0x56"
abbreviation ExecuteCommand :: byte where "ExecuteCommand \<equiv> 0x57"
abbreviation ReadMethodBody :: byte where "ReadMethodBody \<equiv> 0x58"
abbreviation ReadString :: byte where "ReadString \<equiv> 0x59"

definition readConfirmation :: "comm \<Rightarrow> bool \<times> comm" where
  "readConfirmation c =
     (let (bytesRead, buffer, c) = comm_read 1 c
      in (\<not> (bytesRead \<noteq> 1 \<or> buffer ! 0 \<noteq> Confirmation), c))"

definition writeConfirmation :: "comm \<Rightarrow> bool \<times> comm" where
  "writeConfirmation c =
     (let (bytesWritten, c) = comm_write [Confirmation] c in (bytesWritten = 1, c))"

text \<open>The count is \<open>None\<close> when it could not be read.\<close>

definition readCount :: "comm \<Rightarrow> u32 option \<times> comm" where
  "readCount c =
     (let (countCount, bs, c) = comm_read 4 c
      in (if countCount \<noteq> 4 then None else Some (word_of_bytes bs), c))"

definition writeCount :: "u32 \<Rightarrow> comm \<Rightarrow> bool \<times> comm" where
  "writeCount cnt c =
     (let (bytesWritten, c) = comm_write (word_bytes cnt) c in (bytesWritten = 4, c))"

text \<open>
  The loop of \<open>readBuffer\<close>: \<open>bytesRead\<close> is also the place in the buffer of \<open>cnt\<close> bytes that is
  written next. A failed read returns minus one, which the source adds like any other count, so
  the place may become negative.
\<close>

definition store_at :: "int \<Rightarrow> byte list \<Rightarrow> byte list \<Rightarrow> byte list res" where
  "store_at pos bs buf =
     (if bs = [] then Inr buf
      else if 0 \<le> pos \<and> pos + int (length bs) \<le> int (length buf)
      then Inr (take (nat pos) buf @ bs @ drop (nat pos + length bs) buf)
      else Inl Out_of_bounds)"

lemma comm_read_progress:
  assumes "comm_read n c = (k, bs, c')" and "k \<noteq> 0"
  shows "length (reads c') + length (inbox c') < length (reads c) + length (inbox c)"
  using assms
  by (cases "reads c" rule: list.exhaust [case_names Nil Cons])
    (auto simp: comm_read_def Let_def split: option.splits elim: transfer.elims)

function read_loop :: "int \<Rightarrow> int \<Rightarrow> byte list \<Rightarrow> comm \<Rightarrow> (int \<times> byte list \<times> comm) res" where
  "read_loop cnt bytesRead buf c =
     (if bytesRead < cnt
      then let (newBytesCount, bs, c') = comm_read (nat (cnt - bytesRead)) c
           in and_then (store_at bytesRead bs buf) (\<lambda>buf'.
                if newBytesCount = 0 then Inr (bytesRead, buf', c')
                else read_loop cnt (bytesRead + newBytesCount) buf' c')
      else Inr (bytesRead, buf, c))"
  by pat_completeness auto

termination
  by (relation "measure (\<lambda>(cnt, bytesRead, buf, c). length (reads c) + length (inbox c))")
    (auto dest: comm_read_progress [OF sym])

declare read_loop.simps [simp del]

text \<open>\<open>None\<close> stands for the result false, in which the buffer was deleted or never allocated.\<close>

definition readBuffer :: "comm \<Rightarrow> (byte list option \<times> comm) res" where
  "readBuffer c =
     (case readCount c of
        (None, c) \<Rightarrow> Inr (None, c)
      | (Some cnt, c) \<Rightarrow>
          if sint cnt \<le> 0 then Inr (None, c)
          else let (ok, c) = writeConfirmation c
               in if \<not> ok then Inr (None, c)
                  else and_then (read_loop (sint cnt) 0 (replicate (nat (sint cnt)) 0) c)
                    (\<lambda>(bytesRead, buffer, c).
                       if bytesRead \<noteq> sint cnt then Inr (None, c)
                       else let (ok, c) = writeConfirmation c
                            in Inr (if ok then Some buffer else None, c)))"

definition writeBuffer :: "byte list \<Rightarrow> comm \<Rightarrow> bool \<times> comm" where
  "writeBuffer buffer c =
     (let (ok, c) = writeCount (word_of_nat (length buffer)) c
      in if \<not> ok then (False, c)
         else let (ok, c) = readConfirmation c
              in if \<not> ok then (False, c)
                 else let (bytesWritten, c) = comm_write buffer c
                      in if bytesWritten \<noteq> int (length buffer) then (False, c)
                         else readConfirmation c)"

subsection \<open>Sessions and messages\<close>

definition ascii :: "string \<Rightarrow> byte list" where
  "ascii s = map (\<lambda>ch. of_char ch) s"

text \<open>
  \<^verbatim>\<open>strcmp\<close> with a terminated literal: it reads the buffer up to the first difference or up to
  the terminator of both, and past the end of a buffer that has no terminator.
\<close>

fun c_strcmp_eq :: "byte list \<Rightarrow> byte list \<Rightarrow> bool res" where
  "c_strcmp_eq [] ys = Inl Out_of_bounds"
| "c_strcmp_eq (x # xs) [] = Inr (x = 0)"
| "c_strcmp_eq (x # xs) (y # ys) = (if x = y then c_strcmp_eq xs ys else Inr False)"

definition handshake :: "comm \<Rightarrow> (bool \<times> comm) res" where
  "handshake c =
     and_then (readBuffer c) (\<lambda>(message, c). case message of
         None \<Rightarrow> Inr (False, c)
       | Some message \<Rightarrow>
           and_then (c_strcmp_eq message (ascii ''Hi!'')) (\<lambda>equal.
             if \<not> equal then Inr (False, c)
             else and_then (store_at 0 (ascii ''Hi!'' @ [0]) message) (\<lambda>message.
                  Inr (writeBuffer (take 3 message) c))))"

text \<open>\<open>opened\<close> says whether \<^verbatim>\<open>Communicator::open\<close> could connect.\<close>

definition connect :: "bool \<Rightarrow> comm \<Rightarrow> (bool \<times> comm) res" where
  "connect opened c = (if opened then handshake c else Inr (False, c))"

definition sendProbes :: "u64 list \<Rightarrow> comm \<Rightarrow> bool \<times> comm" where
  "sendProbes probesAddresses c = writeBuffer (concat (map word_bytes probesAddresses)) c"

definition startSession :: "bool \<Rightarrow> u64 list \<Rightarrow> comm \<Rightarrow> (bool \<times> comm) res" where
  "startSession opened probesAddresses c =
     and_then (connect opened c) (\<lambda>(ok, c).
       Inr (if ok then sendProbes probesAddresses c else (False, c)))"

definition acceptEntryPoint :: "comm \<Rightarrow> (byte list \<times> comm) res" where
  "acceptEntryPoint c =
     and_then (readBuffer c) (\<lambda>(message, c). case message of
         None \<Rightarrow> Inl (Fail_loud ''Exec response validation failed!'')
       | Some entryPointBytes \<Rightarrow> Inr (entryPointBytes, c))"

definition acceptCommand :: "comm \<Rightarrow> (byte option \<times> comm) res" where
  "acceptCommand c =
     and_then (readBuffer c) (\<lambda>(message, c). case message of
         None \<Rightarrow> Inr (None, c)
       | Some message \<Rightarrow>
           if message = [] then Inl Out_of_bounds else Inr (Some (message ! 0), c))"

definition acceptString :: "comm \<Rightarrow> (byte list option \<times> comm) res" where
  "acceptString c = readBuffer c"

definition sendStringsPoolIndex :: "u32 \<Rightarrow> comm \<Rightarrow> bool \<times> comm" where
  "sendStringsPoolIndex index c = writeBuffer (word_bytes index) c"

record method_body =
  bytecode :: "byte list"
  codeLength :: u32
  maxStackSize :: u32
  ehs :: "byte list"
  ehsLength :: u32

text \<open>A block of a message, as \<^verbatim>\<open>memcpy\<close> copies it.\<close>

definition block :: "nat \<Rightarrow> nat \<Rightarrow> byte list \<Rightarrow> byte list res" where
  "block i n bs = (if i + n \<le> length bs then Inr (take n (drop i bs)) else Inl Out_of_bounds)"

definition parse_method_body :: "byte list \<Rightarrow> method_body res" where
  "parse_method_body message =
     and_then (block 0 4 message) (\<lambda>bs. let codeLength = word_of_bytes bs :: u32 in
     and_then (block 4 4 message) (\<lambda>bs. let maxStackSize = word_of_bytes bs :: u32 in
     and_then (check (0 \<le> sint codeLength) Bad_array_length) (\<lambda>_.
     and_then (block 8 (nat (sint codeLength)) message) (\<lambda>bytecode.
     let ehsLength = word_of_nat (length message) - 4 - 4 - codeLength in
     and_then (block (8 + nat (sint codeLength)) (unat ehsLength) message) (\<lambda>ehs.
       Inr \<lparr>bytecode = bytecode, codeLength = codeLength, maxStackSize = maxStackSize,
            ehs = ehs, ehsLength = ehsLength\<rparr>)))))"

definition acceptMethodBody :: "comm \<Rightarrow> (method_body option \<times> comm) res" where
  "acceptMethodBody c =
     and_then (readBuffer c) (\<lambda>(message, c). case message of
         None \<Rightarrow> Inr (None, c)
       | Some message \<Rightarrow> and_then (parse_method_body message) (\<lambda>b. Inr (Some b, c)))"

definition sendSerializable :: "byte \<Rightarrow> byte list \<Rightarrow> comm \<Rightarrow> bool \<times> comm" where
  "sendSerializable commandByte bytes c =
     (let (ok, c) = writeBuffer [commandByte] c
      in if \<not> ok then (False, c) else writeBuffer bytes c)"

definition acceptExecResult :: "comm \<Rightarrow> (byte list \<times> comm) res" where
  "acceptExecResult c =
     and_then (readBuffer c) (\<lambda>(message, c). case message of
         None \<Rightarrow> Inl (Fail_loud ''Exec response validation failed!'')
       | Some bytes \<Rightarrow>
           and_then (check (5 \<le> length bytes) Assert_failed) (\<lambda>_. Inr (bytes, c)))"

definition shutdown :: "comm \<Rightarrow> bool \<times> comm" where
  "shutdown c = writeCount (-1) c"

subsection \<open>Reading in pieces\<close>

lemma store_at_prefix:
  assumes "length done + length bs \<le> n"
  shows "store_at (int (length done)) bs (done @ replicate (n - length done) 0) =
    Inr ((done @ bs) @ replicate (n - length (done @ bs)) 0)"
  using assms by (auto simp: store_at_def drop_replicate)

text \<open>
  Whatever pieces the operating system delivers, the loop collects exactly the bytes asked for,
  as long as no call fails.
\<close>

lemma read_loop_collects:
  assumes "Os_error \<notin> set (reads c)" and "n = length done + length m" and "inbox c = m @ rest"
    and "n < 2 ^ 31"
  shows "\<exists>c'. read_loop (int n) (int (length done)) (done @ replicate (n - length done) 0) c =
      Inr (int n, done @ m, c') \<and> inbox c' = rest \<and> outbox c' = outbox c \<and> writes c' = writes c \<and>
      (\<exists>k. reads c' = drop k (reads c))"
  using assms
proof (induction "length (reads c) + length m" arbitrary: c "done" m rule: less_induct)
  case less
  show ?case
  proof (cases "m = []")
    case True
    then show ?thesis
      using less.prems by (intro exI [of _ c]) (auto simp: read_loop.simps intro: exI [of _ 0])
  next
    case False
    obtain k where k: "transfer (reads c) (length m) = Some k" "0 < k" "k \<le> length m"
      using False less.prems(1) by (cases "(reads c, length m)" rule: transfer.cases) auto
    define c1 where "c1 = c\<lparr>reads := tl (reads c), inbox := drop k m @ rest\<rparr>"
    have cnt: "nat (int n - int (length done)) = length m"
      using less.prems(2) by simp
    have rd: "comm_read (length m) c = (int k, take k m, c1)"
      using less.prems(3) k by (simp add: comm_read_def c1_def)
    have st: "store_at (int (length done)) (take k m) (done @ replicate (n - length done) 0) =
        Inr ((done @ take k m) @ replicate (n - length (done @ take k m)) 0)"
      using k less.prems(2) by (intro store_at_prefix) simp
    have pos: "int (length done) + int k = int (length (done @ take k m))"
      using k by simp
    have "length (reads c1) + length (drop k m) < length (reads c) + length m"
      using k by (simp add: c1_def)
    moreover have "Os_error \<notin> set (reads c1)"
      using less.prems(1) by (cases "reads c") (simp_all add: c1_def)
    ultimately obtain c' where c': "read_loop (int n) (int (length (done @ take k m)))
          ((done @ take k m) @ replicate (n - length (done @ take k m)) 0) c1 =
          Inr (int n, (done @ take k m) @ drop k m, c')" "inbox c' = rest" "outbox c' = outbox c1"
        "writes c' = writes c1" "\<exists>j. reads c' = drop j (reads c1)"
      using less.hyps [of c1 "drop k m" "done @ take k m"] less.prems(2,4) k
      by (auto simp: c1_def)
    have lt: "int (length done) < int n" and nz: "int k \<noteq> 0"
      using less.prems(2) False k(2) by simp_all
    have "read_loop (int n) (int (length done)) (done @ replicate (n - length done) 0) c =
        Inr (int n, done @ m, c')"
      unfolding read_loop.simps [of "int n" "int (length done)"] if_P [OF lt] cnt rd Let_def prod.case st
        and_then_Inr if_not_P [OF nz] pos c'(1) by simp
    moreover obtain j where "reads c' = drop (j + 1) (reads c)"
      using c'(5) by (auto simp: c1_def drop_Suc [symmetric])
    ultimately show ?thesis
      using c'(2-4) by (auto simp: c1_def)
  qed
qed

subsection \<open>Messages get through\<close>

text \<open>The bytes of a message on the wire, apart from the confirmations.\<close>

definition frame :: "byte list \<Rightarrow> byte list" where
  "frame m = word_bytes (word_of_nat (length m) :: u32) @ m"

definition sendable :: "byte list \<Rightarrow> bool" where
  "sendable m \<longleftrightarrow> 0 < length m \<and> length m < 2 ^ 31"

lemma sint_count:
  assumes "sendable m" shows "sint (word_of_nat (length m) :: u32) = int (length m)"
  using assms by (simp add: sendable_def signed_of_nat signed_take_bit_int_eq_self)

lemma writeConfirmation_eq:
  assumes "Os_error \<notin> set (writes c)"
  shows "writeConfirmation c = (True, c\<lparr>writes := tl (writes c), outbox := outbox c @ [Confirmation]\<rparr>)"
  using assms by (cases "(writes c, 1 :: nat)" rule: transfer.cases)
    (auto simp: writeConfirmation_def comm_write_def)

lemma readCount_eq:
  assumes "inbox c = word_bytes (n :: u32) @ r" and "transfer (reads c) 4 = Some 4"
  shows "readCount c = (Some n, c\<lparr>reads := tl (reads c), inbox := r\<rparr>)"
  using assms by (simp add: readCount_def comm_read_def)

lemma readBuffer_frame:
  assumes m: "sendable m" and inb: "inbox c = frame m @ rest"
    and ok: "Os_error \<notin> set (reads c)" "Os_error \<notin> set (writes c)" "transfer (reads c) 4 = Some 4"
  shows "\<exists>c'. readBuffer c = Inr (Some m, c') \<and> inbox c' = rest \<and>
    outbox c' = outbox c @ [Confirmation, Confirmation] \<and> writes c' = drop 2 (writes c) \<and>
    (\<exists>k. reads c' = drop k (reads c))"
proof -
  let ?n = "length m" and ?w = "word_of_nat (length m) :: u32"
  define c1 where "c1 = c\<lparr>reads := tl (reads c), inbox := m @ rest, writes := tl (writes c),
      outbox := outbox c @ [Confirmation]\<rparr>"
  have cnt: "readCount c = (Some ?w, c\<lparr>reads := tl (reads c), inbox := m @ rest\<rparr>)"
    using readCount_eq [of c ?w "m @ rest"] inb ok(3) by (simp add: frame_def)
  have conf: "writeConfirmation (c\<lparr>reads := tl (reads c), inbox := m @ rest\<rparr>) = (True, c1)"
    using ok(2) by (subst writeConfirmation_eq) (simp_all add: c1_def)
  have no_err: "Os_error \<notin> set (reads c1)" "Os_error \<notin> set (writes c1)"
    using ok(1,2) by (cases "reads c"; cases "writes c"; simp add: c1_def)+
  obtain c2 where c2: "read_loop (int ?n) 0 (replicate ?n 0) c1 = Inr (int ?n, m, c2)" "inbox c2 = rest"
      "outbox c2 = outbox c1" "writes c2 = writes c1" "\<exists>k. reads c2 = drop k (reads c1)"
    using read_loop_collects [OF no_err(1), of ?n "[]" m rest] m by (auto simp: c1_def sendable_def)
  have pos: "\<not> int ?n \<le> 0"
    using m by (simp add: sendable_def)
  have "writeConfirmation c2 =
      (True, c2\<lparr>writes := tl (writes c2), outbox := outbox c2 @ [Confirmation]\<rparr>)"
    using no_err(2) c2(4) by (intro writeConfirmation_eq) simp
  then have "readBuffer c =
      Inr (Some m, c2\<lparr>writes := tl (writes c2), outbox := outbox c2 @ [Confirmation]\<rparr>)"
    using m pos by (simp add: readBuffer_def cnt sint_count conf c2(1))
  moreover obtain k where "reads c2 = drop (Suc k) (reads c)"
    using c2(5) by (auto simp: c1_def drop_Suc)
  ultimately show ?thesis
    using c2(2-4) by (auto simp: c1_def drop_Suc eval_nat_numeral intro: exI [of _ "Suc k"])
qed

lemma readConfirmation_eq:
  assumes "inbox c = Confirmation # r" and "Os_error \<notin> set (reads c)"
  shows "readConfirmation c = (True, c\<lparr>reads := tl (reads c), inbox := r\<rparr>)"
  using assms by (cases "(reads c, 1 :: nat)" rule: transfer.cases)
    (auto simp: readConfirmation_def comm_read_def)

lemma writeBuffer_frame:
  assumes "inbox c = [Confirmation, Confirmation] @ rest"
    and "Os_error \<notin> set (reads c)" and "writes c = []"
  shows "writeBuffer m c =
    (True, c\<lparr>reads := drop 2 (reads c), inbox := rest, outbox := outbox c @ frame m\<rparr>)"
proof -
  define c1 where "c1 = c\<lparr>outbox := outbox c @ word_bytes (word_of_nat (length m) :: u32)\<rparr>"
  have 1: "writeCount (word_of_nat (length m)) c = (True, c1)"
    using assms(3) by (simp add: writeCount_def comm_write_def c1_def)
  define c2 where "c2 = c1\<lparr>reads := tl (reads c), inbox := Confirmation # rest\<rparr>"
  have 2: "readConfirmation c1 = (True, c2)"
    using assms by (simp add: readConfirmation_eq c1_def c2_def)
  define c3 where "c3 = c2\<lparr>outbox := outbox c2 @ m\<rparr>"
  have 3: "comm_write m c2 = (int (length m), c3)"
    using assms(3) by (simp add: comm_write_def c1_def c2_def c3_def)
  have "Os_error \<notin> set (tl (reads c))"
    using assms(2) by (cases "reads c") simp_all
  then have 4: "readConfirmation c3 = (True, c3\<lparr>reads := tl (tl (reads c)), inbox := rest\<rparr>)"
    by (simp add: readConfirmation_eq c1_def c2_def c3_def)
  show ?thesis
    unfolding writeBuffer_def 1 Let_def prod.case
    by (simp add: 2 3 4) (simp add: c1_def c2_def c3_def frame_def drop_Suc eval_nat_numeral)
qed

text \<open>
  Claim C30: a message of at least one byte and less than two gigabytes gets through if no call of the
  operating system fails, the writer's calls transfer all their bytes, and the reader's first call returns all four
  bytes of the length. The writer, given the two confirmations, succeeds and puts the length and the
  message on the wire. The reader, given those bytes, the message itself in pieces of any sizes, succeeds, obtains
  the message, leaves what follows it unread and answers with the two confirmations the writer waits for.
\<close>

theorem message_roundtrip:
  assumes "sendable m"
    and "inbox cw = [Confirmation, Confirmation] @ r1" and "Os_error \<notin> set (reads cw)" and "writes cw = []"
    and "inbox cr = frame m @ r2" and "Os_error \<notin> set (reads cr)" and "Os_error \<notin> set (writes cr)"
    and "transfer (reads cr) 4 = Some 4"
  shows "\<exists>cw' cr'. writeBuffer m cw = (True, cw') \<and> outbox cw' = outbox cw @ frame m \<and> inbox cw' = r1 \<and>
    readBuffer cr = Inr (Some m, cr') \<and> inbox cr' = r2 \<and>
    outbox cr' = outbox cr @ [Confirmation, Confirmation]"
  using writeBuffer_frame [OF assms(2-4), of m] readBuffer_frame [OF assms(1,5-8)] by auto

definition sample_comm :: "byte list \<Rightarrow> os_result list \<Rightarrow> comm" where
  "sample_comm bs rs = \<lparr>inbox = bs, outbox = [], reads = rs, writes = []\<rparr>"

theorem message_roundtrip_witness:
  "\<exists>cw' cr'. writeBuffer [7, 8, 9] (sample_comm [Confirmation, Confirmation] []) = (True, cw') \<and>
     readBuffer (sample_comm (outbox cw') [Upto 3, Upto 0, Upto 1]) = Inr (Some [7, 8, 9], cr') \<and>
     outbox cr' = [Confirmation, Confirmation]"
  using message_roundtrip [of "[7, 8, 9]" "sample_comm [Confirmation, Confirmation] []" "[]"
      "sample_comm (frame [7, 8, 9]) [Upto 3, Upto 0, Upto 1]" "[]"]
  by (auto simp: sendable_def sample_comm_def)

text \<open>
  only the message may arrive in pieces. If the first call returns fewer than the four bytes of the
  length, the reader gives up: it reports a failure without a confirmation, and the bytes it has taken from the
  stream are lost, so that the next read starts inside the length of this message.
\<close>

theorem split_length_is_refused:
  assumes "inbox c = frame m @ rest" and "Os_error \<notin> set (reads c)" and "transfer (reads c) 4 \<noteq> Some 4"
  shows "\<exists>c' k. readBuffer c = Inr (None, c') \<and> outbox c' = outbox c \<and> 0 < k \<and> k < 4
    \<and> inbox c' = drop k (inbox c)"
proof -
  obtain k rs where k: "reads c = Upto k # rs"
    using assms(2,3) by (cases "(reads c, 4 :: nat)" rule: transfer.cases) auto
  have "Suc k < 4"
    using assms(3) by (simp add: k min_def split: if_splits)
  moreover have "4 \<le> length (inbox c)"
    by (simp add: assms(1) frame_def)
  ultimately show ?thesis
    by (intro exI [of _ "c\<lparr>reads := rs, inbox := drop (Suc k) (inbox c)\<rparr>"] exI [of _ "Suc k"])
      (simp add: readBuffer_def readCount_def comm_read_def k)
qed

theorem split_length_is_refused_witness:
  "\<exists>c' k. readBuffer (sample_comm (frame [7, 8, 9]) [Upto 1]) = Inr (None, c') \<and> outbox c' = []
     \<and> inbox c' = drop k (frame [7, 8, 9]) \<and> 0 < k \<and> k < 4"
  using split_length_is_refused [of "sample_comm (frame [7, 8, 9]) [Upto 1]" "[7, 8, 9]" "[]"]
  by (auto simp: sample_comm_def)

lemma ascii_Hi: "ascii ''Hi!'' = [0x48, 0x69, 0x21]"
  by (simp add: ascii_def)

text \<open>
  the handshake succeeds with a peer that sends the terminated greeting and confirms,
  and the reply on the wire is the greeting without the terminator.
\<close>

theorem handshake_succeeds:
  assumes "writes c = []" and "reads c = []"
    and "inbox c = frame (ascii ''Hi!'' @ [0]) @ [Confirmation, Confirmation] @ rest"
  shows "\<exists>c'. handshake c = Inr (True, c') \<and> inbox c' = rest \<and>
    outbox c' = outbox c @ [Confirmation, Confirmation] @ frame (ascii ''Hi!'')"
proof -
  let ?hi = "ascii ''Hi!''"
  have "sendable (?hi @ [0])"
    by (simp add: ascii_Hi sendable_def)
  then obtain c1 where c1: "readBuffer c = Inr (Some (?hi @ [0]), c1)" "reads c1 = []" "writes c1 = []"
      "inbox c1 = [Confirmation, Confirmation] @ rest" "outbox c1 = outbox c @ [Confirmation, Confirmation]"
    using readBuffer_frame [of "?hi @ [0]" c] assms by auto
  have "writeBuffer ?hi c1 =
      (True, c1\<lparr>reads := drop 2 (reads c1), inbox := rest, outbox := outbox c1 @ frame ?hi\<rparr>)"
    using c1 by (intro writeBuffer_frame) simp_all
  then have "handshake c =
      Inr (True, c1\<lparr>reads := drop 2 (reads c1), inbox := rest, outbox := outbox c1 @ frame ?hi\<rparr>)"
    using c1(1) by (simp add: handshake_def ascii_Hi store_at_def)
  then show ?thesis
    using c1(5) by simp
qed

theorem handshake_succeeds_witness:
  "\<exists>c'. handshake (sample_comm (frame (ascii ''Hi!'' @ [0]) @ [Confirmation, Confirmation]) []) = Inr (True, c')"
  using handshake_succeeds [of "sample_comm (frame (ascii ''Hi!'' @ [0]) @ [Confirmation, Confirmation]) []" "[]"]
  by (auto simp: sample_comm_def)

text \<open>
  a peer that sends the three characters of the greeting without a terminator makes the
  comparison read past the end of the received buffer.
\<close>

theorem handshake_unterminated:
  assumes "writes c = []" and "reads c = []" and "inbox c = frame (ascii ''Hi!'') @ rest"
  shows "handshake c = Inl Out_of_bounds"
proof -
  obtain c1 where "readBuffer c = Inr (Some (ascii ''Hi!''), c1)"
    using readBuffer_frame [of "ascii ''Hi!''" c] assms by (auto simp: ascii_Hi sendable_def)
  then show ?thesis
    by (simp add: handshake_def ascii_Hi)
qed

theorem handshake_unterminated_witness:
  "handshake (sample_comm (frame (ascii ''Hi!'')) []) = Inl Out_of_bounds"
  by (rule handshake_unterminated [of _ "[]"]) (simp_all add: sample_comm_def)

text \<open>
  a read that fails while nothing of a message has arrived yet moves the write position
  before the start of the buffer: the next successful read stores its bytes there.
\<close>

theorem failed_read_underflows:
  assumes "sendable m" and "inbox c = frame m @ rest" and "reads c = [Upto 3, Os_error]" and "writes c = []"
  shows "readBuffer c = Inl Out_of_bounds"
proof -
  let ?n = "length m" and ?w = "word_of_nat (length m) :: u32"
  define c1 where "c1 = c\<lparr>reads := [Os_error], inbox := m @ rest, outbox := outbox c @ [Confirmation]\<rparr>"
  have cnt: "readCount c = (Some ?w, c\<lparr>reads := [Os_error], inbox := m @ rest\<rparr>)"
    using readCount_eq [of c ?w "m @ rest"] assms by (simp add: frame_def)
  have conf: "writeConfirmation (c\<lparr>reads := [Os_error], inbox := m @ rest\<rparr>) = (True, c1)"
    using assms(4) by (subst writeConfirmation_eq) (simp_all add: c1_def)
  have n: "0 < int ?n"
    using assms(1) by (simp add: sendable_def)
  have r1: "comm_read ?n c1 = (-1, [], c1\<lparr>reads := []\<rparr>)"
    by (simp add: comm_read_def c1_def)
  define k where "k = min (Suc ?n) (length (m @ rest))"
  have k: "0 < k"
    using assms(1) by (simp add: k_def sendable_def)
  have r2: "comm_read (Suc ?n) (c1\<lparr>reads := []\<rparr>) =
      (int k, take k (m @ rest), c1\<lparr>reads := [], inbox := drop k (m @ rest)\<rparr>)"
    by (simp add: comm_read_def c1_def k_def)
  have "store_at (-1) (take k (m @ rest)) (replicate ?n 0) = Inl Out_of_bounds"
    using k assms(1) by (auto simp: store_at_def sendable_def)
  then have "read_loop (int ?n) (-1) (replicate ?n 0) (c1\<lparr>reads := []\<rparr>) = Inl Out_of_bounds"
    using n by (subst read_loop.simps) (simp add: r2 nat_add_distrib)
  then have "read_loop (int ?n) 0 (replicate ?n 0) c1 = Inl Out_of_bounds"
    using n by (subst read_loop.simps) (simp add: r1 store_at_def)
  then show ?thesis
    using n by (simp add: readBuffer_def cnt sint_count [OF assms(1)] conf)
qed

theorem failed_read_underflows_witness:
  "readBuffer (sample_comm (frame [1, 2, 3]) [Upto 3, Os_error]) = Inl Out_of_bounds"
  by (rule failed_read_underflows [of "[1, 2, 3]" _ "[]"]) (simp_all add: sendable_def sample_comm_def)

lemma parse_method_body_eq:
  assumes "8 + length code + length clauses < 2 ^ 31"
  shows "parse_method_body (word_bytes (word_of_nat (length code) :: u32) @ word_bytes stackSize @ code @ clauses) =
    Inr \<lparr>bytecode = code, codeLength = word_of_nat (length code), maxStackSize = stackSize,
         ehs = clauses, ehsLength = word_of_nat (length clauses)\<rparr>"
proof -
  have s: "sint (word_of_nat (length code) :: u32) = int (length code)"
    using assms by (simp add: signed_of_nat signed_take_bit_int_eq_self)
  have u: "unat (word_of_nat (length clauses) :: u32) = length clauses"
    using assms by (simp add: unsigned_of_nat take_bit_nat_eq_self)
  show ?thesis
    by (simp add: parse_method_body_def block_def s u)
qed

text \<open>
  Claim C31: the parser of instrumented method bodies undoes the layout the peer sends: the length
  of the code, the stack size, the code and the exception clauses, which are all that is left.
\<close>

theorem method_body_roundtrip:
  assumes "8 + length code + length clauses < 2 ^ 31"
  shows "parse_method_body (word_bytes (word_of_nat (length code) :: u32) @ word_bytes stackSize @ code @ clauses) =
    Inr \<lparr>bytecode = code, codeLength = word_of_nat (length code), maxStackSize = stackSize,
         ehs = clauses, ehsLength = word_of_nat (length clauses)\<rparr>"
  using assms by (rule parse_method_body_eq)

theorem method_body_roundtrip_witness:
  "parse_method_body (word_bytes (2 :: u32) @ word_bytes (8 :: u32) @ [0x00, 0x2A] @ [1]) =
     Inr \<lparr>bytecode = [0x00, 0x2A], codeLength = 2, maxStackSize = 8, ehs = [1], ehsLength = 1\<rparr>"
  using method_body_roundtrip [of "[0x00, 0x2A]" "[1]" 8] by simp

end
