(* ===== verification/Probe_Commands.thy ===== *)
theory Probe_Commands
  imports Operand_Memory Pipe_Protocol
begin

section \<open>Commands to the symbolic engine\<close>

text \<open>
  The first part of \<^verbatim>\<open>probes.h\<close>: the operands and commands the profiler sends, the answers it
  receives, and \<open>sendCommand\<close>, which every probe calls when a symbolic value is involved. The
  state is the memory of the profiler and the pipe. The conversions between the two
  floating-point formats are those of the hardware; they are arguments (\<open>widen\<close>, \<open>narrow\<close>) on bit
  patterns.
\<close>

subsection \<open>Programs on the state of the profiler\<close>

record machine =
  mem :: memory
  pipe :: comm

type_synonym 'a prog = "machine \<Rightarrow> ('a \<times> machine) res"

definition ret :: "'a \<Rightarrow> 'a prog" where
  "ret x s = Inr (x, s)"

definition fail :: "failure \<Rightarrow> 'a prog" where
  "fail e s = Inl e"

definition seq :: "'a prog \<Rightarrow> ('a \<Rightarrow> 'b prog) \<Rightarrow> 'b prog" where
  "seq p k s = and_then (p s) (\<lambda>(x, s'). k x s')"

definition lift_res :: "'a res \<Rightarrow> 'a prog" where
  "lift_res r s = and_then r (\<lambda>x. Inr (x, s))"

definition demand :: "bool \<Rightarrow> unit prog" where
  "demand b = lift_res (check b Assert_failed)"

definition with_stack :: "u64 \<Rightarrow> (stack \<Rightarrow> ('a \<times> stack) res) \<Rightarrow> 'a prog" where
  "with_stack tid op s = and_then (on_stack tid op (mem s)) (\<lambda>(x, m). Inr (x, s\<lparr>mem := m\<rparr>))"

definition with_frame :: "u64 \<Rightarrow> (stack_frame \<Rightarrow> ('a \<times> stack_frame) res) \<Rightarrow> 'a prog" where
  "with_frame tid op s = and_then (on_frame tid op (mem s)) (\<lambda>(x, m). Inr (x, s\<lparr>mem := m\<rparr>))"

definition with_operands :: "(operands \<Rightarrow> operands res) \<Rightarrow> unit prog" where
  "with_operands op s =
     and_then (op (operand_mem (mem s))) (\<lambda>ops. Inr ((), s\<lparr>mem := (mem s)\<lparr>operand_mem := ops\<rparr>\<rparr>))"

definition get_operands :: "(operands \<Rightarrow> 'a res) \<Rightarrow> 'a prog" where
  "get_operands op s = and_then (op (operand_mem (mem s))) (\<lambda>x. Inr (x, s))"

definition get_heap :: "(heap \<Rightarrow> 'a res) \<Rightarrow> 'a prog" where
  "get_heap op s = and_then (op (mheap (mem s))) (\<lambda>x. Inr (x, s))"

definition with_heap :: "(heap \<Rightarrow> ('a \<times> heap) res) \<Rightarrow> 'a prog" where
  "with_heap op s =
     and_then (op (mheap (mem s))) (\<lambda>(x, h). Inr (x, s\<lparr>mem := (mem s)\<lparr>mheap := h\<rparr>\<rparr>))"

definition with_pipe :: "(comm \<Rightarrow> ('a \<times> comm) res) \<Rightarrow> 'a prog" where
  "with_pipe op s = and_then (op (pipe s)) (\<lambda>(x, c). Inr (x, s\<lparr>pipe := c\<rparr>))"

fun for_each :: "('a \<Rightarrow> unit prog) \<Rightarrow> 'a list \<Rightarrow> unit prog" where
  "for_each f [] = ret ()"
| "for_each f (x # xs) = seq (f x) (\<lambda>_. for_each f xs)"

lemma seq_cong [fundef_cong]:
  assumes "p s = p' s" and "\<And>x s'. p' s = Inr (x, s') \<Longrightarrow> k x s' = k' x s'" and "s = t"
  shows "seq p k s = seq p' k' t"
  using assms by (auto simp: seq_def and_then_def split: sum.splits)

subsection \<open>Operands\<close>

text \<open>
  The content of an operand is a union of a number and a virtual address: the number shares its
  eight bytes with the object of the address.
\<close>

abbreviation OpSymbolic :: u32 where "OpSymbolic \<equiv> 1"
abbreviation OpI4 :: u32 where "OpI4 \<equiv> 2"
abbreviation OpI8 :: u32 where "OpI8 \<equiv> 3"
abbreviation OpR4 :: u32 where "OpR4 \<equiv> 4"
abbreviation OpR8 :: u32 where "OpR8 \<equiv> 5"
abbreviation OpRef :: u32 where "OpRef \<equiv> 6"

record eval_operand =
  op_typ :: u32
  content :: virtual_address

abbreviation number :: "eval_operand \<Rightarrow> u64" where
  "number op \<equiv> obj (content op)"

definition mk_number :: "u32 \<Rightarrow> u64 \<Rightarrow> eval_operand" where
  "mk_number t n = \<lparr>op_typ = t, content = \<lparr>obj = n, offset = 0\<rparr>\<rparr>"

definition operand_size :: "eval_operand \<Rightarrow> nat" where
  "operand_size op = (if op_typ op = OpRef then 4 + 8 + 8 else 4 + 8)"

definition operand_serialize :: "eval_operand \<Rightarrow> byte list" where
  "operand_serialize op =
     word_bytes (op_typ op) @
     (if op_typ op = OpRef
      then word_bytes (obj (content op)) @ word_bytes (offset (content op))
      else word_bytes (number op))"

text \<open>
  Reading an operand over the previous one: a number leaves the offset of the address as it was.
\<close>

definition operand_deserialize :: "eval_operand \<Rightarrow> byte list \<Rightarrow> (eval_operand \<times> byte list) res" where
  "operand_deserialize old bs =
     and_then (from_option Out_of_bounds (dec_u32 bs)) (\<lambda>(t, bs).
       if t = OpRef
       then and_then (from_option Out_of_bounds (dec_u64 bs)) (\<lambda>(ob, bs).
            and_then (from_option Out_of_bounds (dec_u64 bs)) (\<lambda>(off, bs).
              Inr (\<lparr>op_typ = t, content = \<lparr>obj = ob, offset = off\<rparr>\<rparr>, bs)))
       else and_then (from_option Out_of_bounds (dec_u64 bs)) (\<lambda>(n, bs).
              Inr (\<lparr>op_typ = t, content = (content old)\<lparr>obj := n\<rparr>\<rparr>, bs)))"

subsection \<open>Commands\<close>

text \<open>An operand of a new array is \<open>None\<close> until it is assigned.\<close>

record exec_command =
  cmd_offset :: u32
  isBranch :: u32
  newCallStackFramesCount :: u32
  callStackFramesPops :: u32
  evaluationStackPushesCount :: u32
  cmd_evaluationStackPops :: u32
  newAddressesCount :: u32
  newCallStackFrames :: "u32 list"
  evaluationStackPushes :: "eval_operand option list"
  cmd_newAddresses :: "u64 list"
  newAddressesTypeLengths :: "u64 list"
  newAddressesTypes :: "byte list"

definition pushes :: "exec_command \<Rightarrow> eval_operand list res" where
  "pushes cmd =
     (if unat (evaluationStackPushesCount cmd) \<le> length (evaluationStackPushes cmd)
      then let ops = take (unat (evaluationStackPushesCount cmd)) (evaluationStackPushes cmd)
           in if None \<in> set ops then Inl Uninitialised else Inr (map the ops)
      else Inl Out_of_bounds)"

definition command_serialize :: "exec_command \<Rightarrow> (byte list \<times> u32) res" where
  "command_serialize cmd =
     and_then (pushes cmd) (\<lambda>ops.
     and_then (check (unat (newAddressesCount cmd) \<le> length (newAddressesTypeLengths cmd) \<and>
         unat (newAddressesCount cmd) \<le> length (cmd_newAddresses cmd) \<and>
         unat (newCallStackFramesCount cmd) \<le> length (newCallStackFrames cmd)) Out_of_bounds) (\<lambda>_.
     let addrs = unat (newAddressesCount cmd);
         lens = take addrs (newAddressesTypeLengths cmd);
         fullTypesSize = sum_list lens;
         cnt = 7 * 4 + 4 * newCallStackFramesCount cmd;
         cnt = cnt + sum_list (map (\<lambda>op. word_of_nat (operand_size op)) ops);
         cnt = cnt + 8 * newAddressesCount cmd;
         cnt = cnt + newAddressesCount cmd * 8;
         cnt = cnt + ucast fullTypesSize
     in and_then (check (unat fullTypesSize \<le> length (newAddressesTypes cmd)) Out_of_bounds) (\<lambda>_.
        let bytes =
            word_bytes (cmd_offset cmd) @ word_bytes (isBranch cmd) @
            word_bytes (newCallStackFramesCount cmd) @ word_bytes (callStackFramesPops cmd) @
            word_bytes (evaluationStackPushesCount cmd) @ word_bytes (cmd_evaluationStackPops cmd) @
            word_bytes (newAddressesCount cmd) @
            concat (map word_bytes (take (unat (newCallStackFramesCount cmd)) (newCallStackFrames cmd))) @
            concat (map operand_serialize ops) @
            concat (map word_bytes (take addrs (cmd_newAddresses cmd))) @
            concat (map word_bytes lens) @
            take (unat fullTypesSize) (newAddressesTypes cmd)
        in and_then (check (length bytes \<le> unat cnt) Out_of_bounds) (\<lambda>_. Inr (bytes, cnt)))))"

text \<open>\<open>ops[idx].typ = OpSymbolic; ops[idx].content.number = currentSymbs - first\<close> for one popped value.\<close>

definition set_symbolic :: "u32 \<Rightarrow> u32 \<Rightarrow> u32 \<times> u32 \<Rightarrow> eval_operand option list \<Rightarrow> eval_operand option list res" where
  "set_symbolic opsCount currentSymbs pair ops =
     and_then (check (sint opsCount - sint (snd pair) - 1 \<ge> 0) Assert_failed) (\<lambda>_.
     let idx = opsCount - snd pair - 1 in
     and_then (check (idx < opsCount) Assert_failed) (\<lambda>_.
     if unat idx < length ops
     then let old = (case ops ! unat idx of None \<Rightarrow> mk_number 0 0 | Some op \<Rightarrow> op)
          in Inr (ops[unat idx := Some \<lparr>op_typ = OpSymbolic,
               content = (content old)\<lparr>obj := ucast (currentSymbs - fst pair)\<rparr>\<rparr>])
     else Inl Out_of_bounds))"

text \<open>What \<open>initCommand\<close> reads from the stack: the new frames, the pops and the top frame.\<close>

definition call_stack_update :: "stack \<Rightarrow> ((u32 list \<times> u32 \<times> stack_frame) \<times> stack) res" where
  "call_stack_update s =
     and_then (stack_topFrame s) (\<lambda>frm.
     let minCallFrames = m_minTopSinceLastSent s;
         currCallFrames = framesCount s in
     and_then (check (minCallFrames \<le> currCallFrames) Assert_failed) (\<lambda>_.
     and_then (map_res (\<lambda>i. tokenAt s (word_of_nat i)) [unat minCallFrames ..< unat currCallFrames]) (\<lambda>toks.
     Inr ((toks, unsentPops s, frm), s))))"

definition initCommand ::
    "u64 \<Rightarrow> u32 \<Rightarrow> bool \<Rightarrow> u32 \<Rightarrow> eval_operand option list \<Rightarrow> exec_command prog" where
  "initCommand tid off branch opsCount ops =
     seq (with_stack tid call_stack_update) (\<lambda>(toks, pops, frm).
     let poppedSymbs = m_lastPoppedSymbolics frm;
         currentSymbs = m_symbolsCount frm + word_of_nat (length poppedSymbs) in
     seq (lift_res (fold_res (set_symbolic opsCount currentSymbs) poppedSymbs ops)) (\<lambda>ops.
     seq (lift_res (evaluationStackPops frm)) (\<lambda>evalPops.
     seq (with_heap (\<lambda>h. Inr (flushObjects h))) (\<lambda>newAddrs.
     seq (lift_res (map_res (\<lambda>(_, type, typeSize).
            if unat typeSize \<le> length type then Inr (take (unat typeSize) type) else Inl Out_of_bounds)
          newAddrs)) (\<lambda>types.
     ret \<lparr>cmd_offset = off, isBranch = (if branch then 1 else 0),
          newCallStackFramesCount = word_of_nat (length toks),
          callStackFramesPops = pops,
          evaluationStackPushesCount = opsCount,
          cmd_evaluationStackPops = evalPops,
          newAddressesCount = word_of_nat (length newAddrs),
          newCallStackFrames = toks,
          evaluationStackPushes = ops,
          cmd_newAddresses = map fst newAddrs,
          newAddressesTypeLengths = map (snd \<circ> snd) newAddrs,
          newAddressesTypes = concat types\<rparr>)))))"

subsection \<open>Answers\<close>

record exec_response =
  resp_framesCount :: u32
  resp_lastPush :: byte
  resp_opsLength :: u32
  resp_hasInternalCallResult :: bool

text \<open>The header of an answer, and what is left of the message behind it.\<close>

definition read_header :: "byte list \<Rightarrow> (exec_response \<times> byte list) res" where
  "read_header bytes =
     and_then (from_option Out_of_bounds (dec_u32 bytes)) (\<lambda>(fc, bs).
     and_then (block 0 1 bs) (\<lambda>lp. let bs = drop 1 bs in
     and_then (from_option Out_of_bounds (dec_u32 bs)) (\<lambda>(ol, bs).
     and_then (block 0 1 bs) (\<lambda>ic. let bs = drop 1 bs in
     Inr (\<lparr>resp_framesCount = fc, resp_lastPush = lp ! 0, resp_opsLength = ol,
           resp_hasInternalCallResult = (sint (ic ! 0) > 0)\<rparr>, bs)))))"

fun deserialize_ops ::
    "nat \<Rightarrow> nat \<Rightarrow> eval_operand option list \<Rightarrow> byte list \<Rightarrow> (eval_operand option list \<times> byte list) res" where
  "deserialize_ops i 0 ops bs = Inr (ops, bs)"
| "deserialize_ops i (Suc n) ops bs =
     (if i < length ops
      then let old = (case ops ! i of None \<Rightarrow> mk_number 0 0 | Some op \<Rightarrow> op)
           in and_then (operand_deserialize old bs) (\<lambda>(op, bs).
                deserialize_ops (Suc i) n (ops[i := Some op]) bs)
      else Inl Out_of_bounds)"

text \<open>The result: whether the operands were concretized, the operands, their count, the frames count and the result of an internal call.\<close>

definition readExecResponse ::
    "u64 \<Rightarrow> eval_operand option list \<Rightarrow> u32 \<Rightarrow> eval_operand \<Rightarrow>
     (bool \<times> eval_operand option list \<times> u32 \<times> u32 \<times> eval_operand) prog" where
  "readExecResponse tid ops cnt result =
     seq (with_pipe acceptExecResult) (\<lambda>bytes.
     seq (lift_res (read_header bytes)) (\<lambda>(hd, bs).
     let opsLength = resp_opsLength hd;
         opsConcretized = sint opsLength > -1 in
     seq (if sint (resp_lastPush hd) > 0
          then with_frame tid (\<lambda>f. and_then (push1 (resp_lastPush hd = 2) f) (\<lambda>f. Inr ((), f)))
          else ret ()) (\<lambda>_.
     seq (if opsConcretized
          then seq (demand (opsLength = cnt \<or> opsLength = 0)) (\<lambda>_.
               lift_res (deserialize_ops 0 (unat opsLength) ops bs))
          else ret (ops, bs)) (\<lambda>(ops, bs).
     seq (if resp_hasInternalCallResult hd
          then lift_res (operand_deserialize result bs) else ret (result, bs)) (\<lambda>(result, bs).
     seq (demand (bs = [])) (\<lambda>_.
     ret (opsConcretized, ops, opsLength, resp_framesCount hd, result)))))))"

definition updateMemory :: "(u64 \<Rightarrow> u32) \<Rightarrow> eval_operand \<Rightarrow> u32 \<Rightarrow> unit prog" where
  "updateMemory narrow op idx =
     (let i = ucast idx :: byte in
      if op_typ op = OpI4 then with_operands (update_i4 (ucast (number op)) i)
      else if op_typ op = OpI8 then with_operands (update_i8 (number op) i)
      else if op_typ op = OpR4 then with_operands (update_f4 narrow (number op) i)
      else if op_typ op = OpR8 then with_operands (update_f8 (number op) i)
      else if op_typ op = OpRef then
        seq (get_heap (\<lambda>h. virtToPhysAddress h (content op))) (\<lambda>p. with_operands (update_p p i))
      else if op_typ op = OpSymbolic then
        fail (Fail_loud ''updateMemory: unexpected symbolic value after concretization!'')
      else ret ())"

text \<open>The update of one operand that was symbolic, after the engine concretized it.\<close>

definition update_concretized ::
    "(u64 \<Rightarrow> u32) \<Rightarrow> u32 \<Rightarrow> eval_operand option list \<Rightarrow> u32 \<times> u32 \<Rightarrow> unit prog" where
  "update_concretized narrow opsCount ops pair =
     seq (demand (sint opsCount - sint (snd pair) - 1 \<ge> 0)) (\<lambda>_.
     let idx = opsCount - snd pair - 1 in
     seq (demand (idx < opsCount)) (\<lambda>_.
     seq (lift_res (if unat idx < length ops then from_option Uninitialised (ops ! unat idx)
                    else Inl Out_of_bounds)) (\<lambda>op.
     updateMemory narrow op idx)))"

definition sendCommand ::
    "(u64 \<Rightarrow> u32) \<Rightarrow> u64 \<Rightarrow> u32 \<Rightarrow> u32 \<Rightarrow> eval_operand option list \<Rightarrow> bool prog" where
  "sendCommand narrow tid off opsCount ops =
     seq (initCommand tid off False opsCount ops) (\<lambda>command.
     seq (lift_res (command_serialize command)) (\<lambda>(bytes, cnt).
     seq (with_pipe (\<lambda>c. Inr (sendSerializable ExecuteCommand bytes c))) (\<lambda>_.
     seq (readExecResponse tid (evaluationStackPushes command) opsCount (mk_number OpSymbolic 0))
       (\<lambda>(opsConcretized, ops, newCount, framesCount, internalCallResult).
     seq (if opsConcretized \<and> newCount > 0
          then seq (with_frame tid (\<lambda>f. Inr (m_lastPoppedSymbolics f, f))) (\<lambda>poppedSymbs.
               for_each (update_concretized narrow newCount ops) poppedSymbs)
          else ret ()) (\<lambda>_.
     seq (if op_typ internalCallResult \<noteq> OpSymbolic
          then updateMemory narrow internalCallResult opsCount else ret ()) (\<lambda>_.
     seq (with_stack tid (\<lambda>s. Inr ((), stack_resetPopsTracking framesCount s))) (\<lambda>_.
     ret opsConcretized)))))))"

definition sendCommand0 :: "(u64 \<Rightarrow> u32) \<Rightarrow> u64 \<Rightarrow> u32 \<Rightarrow> bool prog" where
  "sendCommand0 narrow tid off = sendCommand narrow tid off 0 []"

definition sendCommand1 :: "(u64 \<Rightarrow> u32) \<Rightarrow> u64 \<Rightarrow> u32 \<Rightarrow> bool prog" where
  "sendCommand1 narrow tid off = sendCommand narrow tid off 1 [None]"

subsection \<open>Building operands\<close>

definition mkop_4 :: "u32 \<Rightarrow> eval_operand" where
  "mkop_4 op = mk_number OpI4 (scast op)"

definition mkop_8 :: "u64 \<Rightarrow> eval_operand" where
  "mkop_8 op = mk_number OpI8 op"

definition mkop_f4 :: "(u32 \<Rightarrow> u64) \<Rightarrow> u32 \<Rightarrow> eval_operand" where
  "mkop_f4 widen op = mk_number OpR4 (widen op)"

definition mkop_f8 :: "u64 \<Rightarrow> eval_operand" where
  "mkop_f8 op = mk_number OpR8 op"

definition mkop_p :: "u64 \<Rightarrow> eval_operand prog" where
  "mkop_p op s = and_then (resolve op (mem s)) (\<lambda>a. Inr (\<lparr>op_typ = OpRef, content = a\<rparr>, s))"

definition mkop_struct :: "u64 \<Rightarrow> eval_operand prog" where
  "mkop_struct op = fail (Fail_loud ''not implemented'')"

definition create_op :: "(u32 \<Rightarrow> u64) \<Rightarrow> nat \<Rightarrow> eval_operand prog" where
  "create_op widen n =
     (let i = word_of_nat n :: byte in
      seq (get_operands (unmemType i)) (\<lambda>type.
        if type = ELEMENT_TYPE_I1 then seq (get_operands (unmem_i1 i)) (\<lambda>v. ret (mkop_4 (scast v)))
        else if type = ELEMENT_TYPE_I2 then seq (get_operands (unmem_i2 i)) (\<lambda>v. ret (mkop_4 (scast v)))
        else if type = ELEMENT_TYPE_I4 then seq (get_operands (unmem_i4 i)) (\<lambda>v. ret (mkop_4 v))
        else if type = ELEMENT_TYPE_I8 then seq (get_operands (unmem_i8 i)) (\<lambda>v. ret (mkop_8 v))
        else if type = ELEMENT_TYPE_R4 then seq (get_operands (unmem_f4 i)) (\<lambda>v. ret (mkop_f4 widen v))
        else if type = ELEMENT_TYPE_R8 then seq (get_operands (unmem_f8 i)) (\<lambda>v. ret (mkop_f8 v))
        else if type = ELEMENT_TYPE_PTR then seq (get_operands (unmem_p i)) mkop_p
        else fail (Fail_loud ''Exec_Call: not implemented'')))"

fun create_ops_from :: "(u32 \<Rightarrow> u64) \<Rightarrow> nat \<Rightarrow> nat \<Rightarrow> eval_operand list prog" where
  "create_ops_from widen i 0 = ret []"
| "create_ops_from widen i (Suc n) =
     seq (create_op widen i) (\<lambda>op. seq (create_ops_from widen (Suc i) n) (\<lambda>ops. ret (op # ops)))"

definition createOps :: "(u32 \<Rightarrow> u64) \<Rightarrow> u32 \<Rightarrow> eval_operand option list prog" where
  "createOps widen opsCount =
     (if sint opsCount < 0 then fail Bad_array_length
      else seq (create_ops_from widen 0 (nat (sint opsCount))) (\<lambda>ops. ret (map Some ops)))"

subsection \<open>The wire format of operands and commands\<close>

lemmas dec_word_append = u32c.dec_enc [OF TrueI] u64c.dec_enc [OF TrueI]

definition operand_ok :: "eval_operand \<Rightarrow> bool" where
  "operand_ok op \<longleftrightarrow> op_typ op = OpRef \<or> offset (content op) = 0"

definition dec_operand :: "byte list \<Rightarrow> (eval_operand \<times> byte list) option" where
  "dec_operand bs = (case operand_deserialize (mk_number 0 0) bs of Inl _ \<Rightarrow> None | Inr r \<Rightarrow> Some r)"

lemma operand_deserialize_serialize:
  "operand_deserialize old (operand_serialize op @ rest) =
     Inr (if op_typ op = OpRef then op else op\<lparr>content := (content old)\<lparr>obj := number op\<rparr>\<rparr>, rest)"
  by (simp add: operand_deserialize_def operand_serialize_def dec_word_append)

interpretation opc: codec operand_serialize dec_operand operand_ok
proof unfold_locales
  fix op :: eval_operand and rest
  assume "operand_ok op"
  then have "(if op_typ op = OpRef then op
      else op\<lparr>content := (content (mk_number 0 0))\<lparr>obj := number op\<rparr>\<rparr>) = op"
    by (cases op; cases "content op") (auto simp: operand_ok_def mk_number_def)
  then show "dec_operand (operand_serialize op @ rest) = Some (op, rest)"
    by (simp add: dec_operand_def operand_deserialize_serialize)
qed

lemma length_operand_serialize: "length (operand_serialize op) = operand_size op"
  by (simp add: operand_serialize_def operand_size_def)

text \<open>
  The reader on the other side of the pipe: the counts come first, so it knows how many frames,
  operands, addresses and lengths of types follow; what is left are the types.
\<close>

definition dec_command :: "byte list \<Rightarrow> exec_command option" where
  "dec_command bs =
     (case u32c.dec_many 7 bs of
        Some ([off, br, frames, framePops, ops, opPops, addrs], bs) \<Rightarrow>
         (case u32c.dec_many (unat frames) bs of None \<Rightarrow> None | Some (toks, bs) \<Rightarrow>
         (case opc.dec_many (unat ops) bs of None \<Rightarrow> None | Some (operands, bs) \<Rightarrow>
         (case u64c.dec_many (unat addrs) bs of None \<Rightarrow> None | Some (addresses, bs) \<Rightarrow>
         (case u64c.dec_many (unat addrs) bs of None \<Rightarrow> None | Some (lens, bs) \<Rightarrow>
          Some \<lparr>cmd_offset = off, isBranch = br, newCallStackFramesCount = frames,
            callStackFramesPops = framePops, evaluationStackPushesCount = ops,
            cmd_evaluationStackPops = opPops, newAddressesCount = addrs,
            newCallStackFrames = toks, evaluationStackPushes = map Some operands,
            cmd_newAddresses = addresses, newAddressesTypeLengths = lens, newAddressesTypes = bs\<rparr>))))
      | _ \<Rightarrow> None)"

definition command_length :: "exec_command \<Rightarrow> nat" where
  "command_length cmd =
     28 + 4 * length (newCallStackFrames cmd) +
     sum_list (map (\<lambda>op. operand_size (the op)) (evaluationStackPushes cmd)) +
     16 * length (cmd_newAddresses cmd) + length (newAddressesTypes cmd)"

text \<open>
  A command as \<open>initCommand\<close> builds it: the counts are the lengths of the arrays, every operand
  is set, and the message is shorter than four gigabytes.
\<close>

definition command_ok :: "exec_command \<Rightarrow> bool" where
  "command_ok cmd \<longleftrightarrow>
     length (newCallStackFrames cmd) = unat (newCallStackFramesCount cmd) \<and>
     length (evaluationStackPushes cmd) = unat (evaluationStackPushesCount cmd) \<and>
     length (cmd_newAddresses cmd) = unat (newAddressesCount cmd) \<and>
     length (newAddressesTypeLengths cmd) = unat (newAddressesCount cmd) \<and>
     length (newAddressesTypes cmd) = unat (sum_list (newAddressesTypeLengths cmd)) \<and>
     (\<forall>op \<in> set (evaluationStackPushes cmd). \<exists>op'. op = Some op' \<and> operand_ok op') \<and>
     command_length cmd < 2 ^ 32"

lemma concat_word_bytes_length:
  "length (concat (map word_bytes (xs :: u32 list))) = 4 * length xs"
  "length (concat (map word_bytes (ys :: u64 list))) = 8 * length ys"
  by (induction xs) (simp_all, induction ys, simp_all)

lemma concat_operands_length:
  "length (concat (map operand_serialize ops)) = sum_list (map operand_size ops)"
  by (simp add: length_concat length_operand_serialize o_def)

definition command_bytes :: "exec_command \<Rightarrow> byte list" where
  "command_bytes cmd =
     concat (map word_bytes [cmd_offset cmd, isBranch cmd, newCallStackFramesCount cmd, callStackFramesPops cmd,
       evaluationStackPushesCount cmd, cmd_evaluationStackPops cmd, newAddressesCount cmd]) @
     concat (map word_bytes (newCallStackFrames cmd)) @
     concat (map operand_serialize (map the (evaluationStackPushes cmd))) @
     concat (map word_bytes (cmd_newAddresses cmd)) @
     concat (map word_bytes (newAddressesTypeLengths cmd)) @ newAddressesTypes cmd"

lemma command_bytes_length:
  assumes "command_ok cmd" shows "length (command_bytes cmd) = command_length cmd"
proof -
  have "length (newAddressesTypeLengths cmd) = length (cmd_newAddresses cmd)"
    using assms by (simp add: command_ok_def)
  then show ?thesis
    unfolding command_bytes_def length_append concat_operands_length concat_word_bytes_length
    by (simp add: command_length_def o_def)
qed

lemma word_sum_list: "sum_list (map (\<lambda>x. word_of_nat (f x)) xs) = word_of_nat (sum_list (map f xs))"
  by (induction xs) simp_all

lemma command_serialize_eq:
  assumes ok: "command_ok cmd"
  shows "command_serialize cmd = Inr (command_bytes cmd, word_of_nat (length (command_bytes cmd)))"
proof -
  let ?ops = "map the (evaluationStackPushes cmd)"
  have ops: "pushes cmd = Inr ?ops"
    using ok by (auto simp: pushes_def command_ok_def)
  have n1: "newCallStackFramesCount cmd = word_of_nat (length (newCallStackFrames cmd))"
    and n2: "newAddressesCount cmd = word_of_nat (length (cmd_newAddresses cmd))"
    using ok by (simp_all add: command_ok_def)
  have types: "ucast (sum_list (newAddressesTypeLengths cmd)) = (word_of_nat (length (newAddressesTypes cmd)) :: u32)"
    using ok by (simp add: command_ok_def unsigned_ucast_eq)
  have cnt: "7 * 4 + 4 * newCallStackFramesCount cmd + sum_list (map (\<lambda>op. word_of_nat (operand_size op)) ?ops) +
      8 * newAddressesCount cmd + newAddressesCount cmd * 8 + ucast (sum_list (newAddressesTypeLengths cmd)) =
      (word_of_nat (command_length cmd) :: u32)"
    unfolding types word_sum_list n1 n2 command_length_def by (simp add: o_def)
  have full: "take (unat (newCallStackFramesCount cmd)) (newCallStackFrames cmd) = newCallStackFrames cmd"
      "take (unat (newAddressesCount cmd)) (newAddressesTypeLengths cmd) = newAddressesTypeLengths cmd"
      "take (unat (newAddressesCount cmd)) (cmd_newAddresses cmd) = cmd_newAddresses cmd"
      "take (unat (sum_list (newAddressesTypeLengths cmd))) (newAddressesTypes cmd) = newAddressesTypes cmd"
    using ok by (simp_all add: command_ok_def)
  have head: "word_bytes (cmd_offset cmd) @ word_bytes (isBranch cmd) @
      word_bytes (newCallStackFramesCount cmd) @ word_bytes (callStackFramesPops cmd) @
      word_bytes (evaluationStackPushesCount cmd) @ word_bytes (cmd_evaluationStackPops cmd) @
      word_bytes (newAddressesCount cmd) @ concat (map word_bytes (newCallStackFrames cmd)) @
      concat (map operand_serialize ?ops) @ concat (map word_bytes (cmd_newAddresses cmd)) @
      concat (map word_bytes (newAddressesTypeLengths cmd)) @ newAddressesTypes cmd = command_bytes cmd"
    by (simp add: command_bytes_def)
  have "unat (word_of_nat (command_length cmd) :: u32) = command_length cmd"
    using ok by (intro u32_less) (simp add: command_ok_def)
  moreover have "unat (newAddressesCount cmd) \<le> length (newAddressesTypeLengths cmd)"
      "unat (newAddressesCount cmd) \<le> length (cmd_newAddresses cmd)"
      "unat (newCallStackFramesCount cmd) \<le> length (newCallStackFrames cmd)"
      "unat (sum_list (newAddressesTypeLengths cmd)) \<le> length (newAddressesTypes cmd)"
    using ok by (simp_all add: command_ok_def)
  ultimately show ?thesis
    unfolding command_serialize_def ops and_then_Inr Let_def full cnt head
    using command_bytes_length [OF ok] by simp
qed

lemma dec_command_bytes:
  assumes ok: "command_ok cmd" shows "dec_command (command_bytes cmd) = Some cmd"
proof -
  have ops: "map Some (map the (evaluationStackPushes cmd)) = evaluationStackPushes cmd"
    using ok by (auto simp: command_ok_def intro!: map_idI)
  have ok': "\<forall>op \<in> set (map the (evaluationStackPushes cmd)). operand_ok op"
    using ok by (auto simp: command_ok_def)
  have 1: "u32c.dec_many 7 (concat (map word_bytes [a, b, c, d, e, f, g]) @ r) = Some ([a, b, c, d, e, f, g], r)"
    for a b c d e f g :: u32 and r
  proof -
    have "length [a, b, c, d, e, f, g] = 7"
      by simp
    then show ?thesis
      using u32c.dec_many_enc [of "[a, b, c, d, e, f, g]" r] by metis
  qed
  have 2: "u32c.dec_many (unat (newCallStackFramesCount cmd)) (concat (map word_bytes (newCallStackFrames cmd)) @ r) =
      Some (newCallStackFrames cmd, r)" for r
    using u32c.dec_many_enc [of "newCallStackFrames cmd" r] ok by (simp add: command_ok_def)
  have 3: "opc.dec_many (unat (evaluationStackPushesCount cmd))
      (concat (map operand_serialize (map the (evaluationStackPushes cmd))) @ r) =
      Some (map the (evaluationStackPushes cmd), r)" for r
    using opc.dec_many_enc [OF ok', of r] ok by (simp add: command_ok_def)
  have 4: "u64c.dec_many (unat (newAddressesCount cmd)) (concat (map word_bytes (cmd_newAddresses cmd)) @ r) =
      Some (cmd_newAddresses cmd, r)" for r
    using u64c.dec_many_enc [of "cmd_newAddresses cmd" r] ok by (simp add: command_ok_def)
  have 5: "u64c.dec_many (unat (newAddressesCount cmd)) (concat (map word_bytes (newAddressesTypeLengths cmd)) @ r) =
      Some (newAddressesTypeLengths cmd, r)" for r
    using u64c.dec_many_enc [of "newAddressesTypeLengths cmd" r] ok by (simp add: command_ok_def)
  show ?thesis
    unfolding dec_command_def command_bytes_def 1 2 3 4 5 option.case list.case prod.case ops by simp
qed

text \<open>
  Claim C32: a command whose counts are the lengths of its arrays is serialized into exactly the
  number of bytes computed beforehand, so the buffer is neither overrun nor left with a gap, and
  the bytes determine the command: a reader that takes the counts first recovers all of it.
\<close>

theorem command_roundtrip:
  assumes "command_ok cmd"
  shows "\<exists>bytes cnt. command_serialize cmd = Inr (bytes, cnt) \<and> unat cnt = length bytes \<and>
    dec_command bytes = Some cmd"
proof -
  have "length (command_bytes cmd) < 2 ^ 32"
    using assms command_bytes_length [OF assms] by (simp add: command_ok_def)
  then show ?thesis
    using command_serialize_eq [OF assms] dec_command_bytes [OF assms] u32_less by auto
qed

definition sample_command :: exec_command where
  "sample_command = \<lparr>cmd_offset = 12, isBranch = 0, newCallStackFramesCount = 1, callStackFramesPops = 0,
     evaluationStackPushesCount = 2, cmd_evaluationStackPops = 1, newAddressesCount = 1,
     newCallStackFrames = [0x06000001],
     evaluationStackPushes = [Some (mk_number OpI4 7), Some \<lparr>op_typ = OpRef, content = \<lparr>obj = 0x5000, offset = 8\<rparr>\<rparr>],
     cmd_newAddresses = [0x5000], newAddressesTypeLengths = [3], newAddressesTypes = [1, 2, 3]\<rparr>"

theorem command_roundtrip_witness:
  "\<exists>bytes cnt. command_serialize sample_command = Inr (bytes, cnt) \<and> unat cnt = length bytes \<and>
     dec_command bytes = Some sample_command"
  by (rule command_roundtrip)
    (simp add: command_ok_def sample_command_def operand_ok_def mk_number_def command_length_def operand_size_def)

subsection \<open>Symbolic operands in commands\<close>

definition symbolic_op :: "eval_operand option \<Rightarrow> u64 \<Rightarrow> eval_operand" where
  "symbolic_op old n =
     \<lparr>op_typ = OpSymbolic,
      content = (content (case old of None \<Rightarrow> mk_number 0 0 | Some op \<Rightarrow> op))\<lparr>obj := n\<rparr>\<rparr>"

lemma index_from_top:
  fixes N :: u32
  assumes "k < unat N" and "unat N < 2 ^ 31"
  shows "sint N - sint (word_of_nat k :: u32) - 1 \<ge> 0" and "unat (N - word_of_nat k - 1) = unat N - 1 - k"
    and "N - word_of_nat k - 1 < N"
proof -
  have "int (unat N) < int (2 ^ 31)"
    using assms(2) by (simp only: of_nat_less_iff)
  moreover have "- (2 ^ 31) \<le> uint N"
    by (rule order_trans [of _ 0]) simp_all
  ultimately have N: "sint N = int (unat N)"
    by (simp add: sint_uint signed_take_bit_int_eq_self)
  have k: "sint (word_of_nat k :: u32) = int k"
    using assms by (simp add: signed_of_nat signed_take_bit_int_eq_self)
  show "sint N - sint (word_of_nat k :: u32) - 1 \<ge> 0"
    unfolding N k using assms(1) by linarith
  have eq: "N - word_of_nat k - 1 = word_of_nat (unat N - (k + 1))"
    using assms(1) by (simp add: of_nat_diff Suc_leI)
  show u: "unat (N - word_of_nat k - 1) = unat N - 1 - k"
    unfolding eq using assms by (subst u32_less) simp_all
  then show "N - word_of_nat k - 1 < N"
    using assms(1) by (simp add: word_less_nat_alt)
qed

lemma set_symbolic_eq:
  assumes "k < unat N" and "unat N < 2 ^ 31" and "length ops = unat N"
  shows "set_symbolic N cur (c, word_of_nat k) ops =
    Inr (ops[unat N - 1 - k := Some (symbolic_op (ops ! (unat N - 1 - k)) (ucast (cur - c)))])"
  using index_from_top [OF assms(1,2)] assms(1,3)
  by (auto simp: set_symbolic_def symbolic_op_def Let_def)

lemma fold_set_symbolic:
  assumes "unat N < 2 ^ 31" and "length ops = unat N" and "distinct ks" and "\<forall>k \<in> set ks. k < unat N"
  shows "\<exists>ops'. fold_res (set_symbolic N cur) (map (\<lambda>k. (c k, word_of_nat k)) ks) ops = Inr ops' \<and>
    length ops' = unat N \<and>
    (\<forall>k < unat N. ops' ! (unat N - 1 - k) =
       (if k \<in> set ks then Some (symbolic_op (ops ! (unat N - 1 - k)) (ucast (cur - c k)))
        else ops ! (unat N - 1 - k)))"
  using assms(2-4)
proof (induction ks arbitrary: ops)
  case (Cons k ks)
  let ?i = "unat N - 1 - k"
  let ?ops = "ops[?i := Some (symbolic_op (ops ! ?i) (ucast (cur - c k)))]"
  obtain ops' where ops': "fold_res (set_symbolic N cur) (map (\<lambda>k. (c k, word_of_nat k)) ks) ?ops = Inr ops'"
      "length ops' = unat N"
      "\<forall>j < unat N. ops' ! (unat N - 1 - j) =
       (if j \<in> set ks then Some (symbolic_op (?ops ! (unat N - 1 - j)) (ucast (cur - c j)))
        else ?ops ! (unat N - 1 - j))"
    using Cons.IH [of ?ops] Cons.prems by auto
  have "ops' ! (unat N - 1 - j) =
      (if j \<in> set (k # ks) then Some (symbolic_op (ops ! (unat N - 1 - j)) (ucast (cur - c j)))
       else ops ! (unat N - 1 - j))" if j: "j < unat N" for j
  proof -
    have "unat N - 1 - j = ?i \<longleftrightarrow> j = k"
      using j Cons.prems by auto
    then have "?ops ! (unat N - 1 - j) =
        (if j = k then Some (symbolic_op (ops ! (unat N - 1 - j)) (ucast (cur - c j))) else ops ! (unat N - 1 - j))"
      using j Cons.prems by (auto simp: nth_list_update)
    then show ?thesis
      using ops'(3) j Cons.prems by auto
  qed
  then show ?case
    using ops' set_symbolic_eq [OF _ assms(1) Cons.prems(1), of k cur "c k"] Cons.prems by simp
qed simp

text \<open>The number of a symbolic cell is the count of symbolic values minus those above it.\<close>

lemma cell_number:
  assumes inv: "frame_inv f" and k: "k < unat (m_concretenessTop f)" and sym: "symbolic (rev (frame_cells f) ! k)"
  shows "unat (rev (frame_cells f) ! k) =
      unat (m_symbolsCount f) - length (filter symbolic (take k (rev (frame_cells f))))"
    and "length (filter symbolic (take k (rev (frame_cells f)))) < unat (m_symbolsCount f)"
proof -
  let ?cs = "rev (frame_cells f)" and ?m = "unat (m_symbolsCount f)"
  let ?p = "filter symbolic (take k ?cs)"
  have len: "k < length ?cs"
    using k frame_invD(6) [OF inv] by simp
  have split: "filter symbolic (take (Suc k) ?cs) = ?p @ [?cs ! k]"
    using len sym by (simp add: take_Suc_conv_app_nth)
  have "map unat (filter symbolic (take (Suc k) ?cs)) =
      rev [?m - length (popped (take (Suc k) ?cs)) + 1 ..< ?m + 1]"
    using frame_cells_numbers [OF inv, of "Suc k"] k by (simp flip: map_fst_popped)
  moreover have "length (popped (take (Suc k) ?cs)) = Suc (length ?p)"
    by (metis map_fst_popped length_map split length_append_singleton)
  ultimately have eq: "map unat (?p @ [?cs ! k]) = rev [?m - Suc (length ?p) + 1 ..< ?m + 1]"
    by (simp only: split)
  then have "length (map unat (?p @ [?cs ! k])) = length (rev [?m - Suc (length ?p) + 1 ..< ?m + 1])"
    by (rule arg_cong)
  then have less: "length ?p < ?m"
    by (simp del: upt_Suc)
  then show "length ?p < ?m" .
  have "[?m - Suc (length ?p) + 1 ..< ?m + 1] = (?m - length ?p) # [?m - length ?p + 1 ..< ?m + 1]"
    using less by (subst upt_conv_Cons) (simp_all add: Suc_diff_Suc)
  then have "last (map unat (?p @ [?cs ! k])) = ?m - length ?p"
    unfolding eq by simp
  then show "unat (?cs ! k) = ?m - length ?p"
    by simp
qed

subsection \<open>What a command says about the stacks\<close>

definition ready :: "u64 \<Rightarrow> machine \<Rightarrow> bool" where
  "ready tid s \<longleftrightarrow> memory_inv (mem s) \<and> (tid \<noteq> 0 \<or> currentStack (mem s) \<noteq> None)"

abbreviation stack_of :: "u64 \<Rightarrow> machine \<Rightarrow> stack" where
  "stack_of tid s \<equiv> own_stack tid (mem s)"

lemma with_stack_success:
  assumes "ready tid s" and "op (stack_of tid s) = Inr (x, st)"
  shows "\<exists>s'. with_stack tid op s = Inr (x, s') \<and> ready tid s' \<and> stack_of tid s' = st \<and>
    mheap (mem s') = mheap (mem s) \<and> operand_mem (mem s') = operand_mem (mem s) \<and> pipe s' = pipe s"
  using on_stack_success [of "mem s" tid op x st] assms by (auto simp: ready_def with_stack_def)

lemma with_frame_success:
  assumes "ready tid s" and "m_frames (stack_of tid s) = fs @ [f]" and "op f = Inr (x, f')"
  shows "\<exists>s'. with_frame tid op s = Inr (x, s') \<and> ready tid s' \<and>
    stack_of tid s' = (stack_of tid s)\<lparr>m_frames := fs @ [f']\<rparr> \<and>
    mheap (mem s') = mheap (mem s) \<and> operand_mem (mem s') = operand_mem (mem s) \<and> pipe s' = pipe s"
proof -
  have "on_topFrame op (stack_of tid s) = Inr (x, (stack_of tid s)\<lparr>m_frames := fs @ [f']\<rparr>)"
    using assms(2,3) by (simp add: on_topFrame_def stack_topFrame_def)
  from with_stack_success [where op = "on_topFrame op", OF assms(1) this] show ?thesis
    by (simp add: with_frame_def with_stack_def on_frame_def)
qed

lemma call_stack_update_eq:
  assumes "m_frames st = fs @ [f]" and "length (m_frames st) < 2 ^ 32"
    and "unat (m_minTopSinceLastSent st) \<le> length (m_frames st)"
  shows "call_stack_update st =
    Inr ((drop (unat (m_minTopSinceLastSent st)) (tokens st), unsentPops st, f), st)"
proof -
  let ?n = "length (m_frames st)" and ?m = "unat (m_minTopSinceLastSent st)"
  have fc: "unat (framesCount st) = ?n"
    using assms(2) by (simp add: framesCount_def u32_less)
  have "map_res (\<lambda>i. tokenAt st (word_of_nat i)) [?m ..< ?n] = Inr (map (\<lambda>i. tokens st ! i) [?m ..< ?n])"
    using assms(2) by (intro map_res_eq) (simp add: tokenAt_def u32_less tokens_def)
  moreover have "map (\<lambda>i. tokens st ! i) [?m ..< ?n] = drop ?m (tokens st)"
    by (rule nth_equalityI) simp_all
  moreover have "m_minTopSinceLastSent st \<le> framesCount st"
    using assms(3) by (simp add: word_le_nat_alt fc)
  moreover have "stack_topFrame st = Inr f"
    using assms(1) by (simp add: stack_topFrame_def)
  ultimately show ?thesis
    by (simp add: call_stack_update_def fc)
qed

definition types_ok :: "heap \<Rightarrow> bool" where
  "types_ok h \<longleftrightarrow> (\<forall>(_, type, len) \<in> set (newAddresses h). length type = unat len)"

lemma initCommand_eq:
  assumes r: "ready tid s" and st: "m_frames (stack_of tid s) = fs @ [f]"
      "length (m_frames (stack_of tid s)) < 2 ^ 32"
      "unat (m_minTopSinceLastSent (stack_of tid s)) \<le> length (m_frames (stack_of tid s))"
    and ops: "fold_res (set_symbolic cnt (m_symbolsCount f + word_of_nat (length (m_lastPoppedSymbolics f))))
      (m_lastPoppedSymbolics f) ops = Inr ops'"
    and pops: "evaluationStackPops f = Inr evalPops" and types: "types_ok (mheap (mem s))"
  shows "\<exists>s'. initCommand tid off branch cnt ops s = Inr
      (\<lparr>cmd_offset = off, isBranch = (if branch then 1 else 0),
        newCallStackFramesCount = word_of_nat (length (m_frames (stack_of tid s)) -
          unat (m_minTopSinceLastSent (stack_of tid s))),
        callStackFramesPops = unsentPops (stack_of tid s),
        evaluationStackPushesCount = cnt, cmd_evaluationStackPops = evalPops,
        newAddressesCount = word_of_nat (length (newAddresses (mheap (mem s)))),
        newCallStackFrames = drop (unat (m_minTopSinceLastSent (stack_of tid s))) (tokens (stack_of tid s)),
        evaluationStackPushes = ops',
        cmd_newAddresses = map fst (newAddresses (mheap (mem s))),
        newAddressesTypeLengths = map (snd \<circ> snd) (newAddresses (mheap (mem s))),
        newAddressesTypes = concat (map (fst \<circ> snd) (newAddresses (mheap (mem s))))\<rparr>, s') \<and>
    ready tid s' \<and> stack_of tid s' = stack_of tid s \<and> newAddresses (mheap (mem s')) = [] \<and> pipe s' = pipe s"
proof -
  let ?st = "stack_of tid s" and ?new = "newAddresses (mheap (mem s))"
  obtain s1 where s1: "with_stack tid call_stack_update s =
        Inr ((drop (unat (m_minTopSinceLastSent ?st)) (tokens ?st), unsentPops ?st, f), s1)"
      "ready tid s1" "stack_of tid s1 = ?st" "mheap (mem s1) = mheap (mem s)" "pipe s1 = pipe s"
    using with_stack_success [where op = call_stack_update, OF r call_stack_update_eq [OF st]] by blast
  have types': "map_res (\<lambda>(_, type, typeSize).
      if unat typeSize \<le> length type then Inr (take (unat typeSize) type) else Inl Out_of_bounds) ?new =
      Inr (map (fst \<circ> snd) ?new)"
    using types by (intro map_res_eq) (auto simp: types_ok_def)
  let ?s = "s1\<lparr>mem := (mem s1)\<lparr>mheap := (mheap (mem s))\<lparr>newAddresses := []\<rparr>\<rparr>\<rparr>"
  have "ready tid ?s" "stack_of tid ?s = ?st" "pipe ?s = pipe s" "newAddresses (mheap (mem ?s)) = []"
    using s1 by (auto simp: ready_def)
  then show ?thesis
    by (intro exI [of _ ?s])
      (simp add: initCommand_def seq_def s1(1) lift_res_def ops pops with_heap_def flushObjects_def s1(4)
        types' ret_def)
qed

lemma popped_symbolic_ops:
  assumes inv: "frame_inv f" and cnt: "cnt \<le> m_concretenessTop f" "unat cnt < 2 ^ 31"
    and ops: "length ops = unat cnt" and p: "pop cnt f = Inr (b, f')"
  shows "\<exists>ops'. fold_res (set_symbolic cnt (m_symbolsCount f' + word_of_nat (length (m_lastPoppedSymbolics f'))))
      (m_lastPoppedSymbolics f') ops = Inr ops' \<and> length ops' = unat cnt \<and>
    (\<forall>k < unat cnt. ops' ! (unat cnt - 1 - k) =
       (if frame_stack f ! k then ops ! (unat cnt - 1 - k)
        else Some (symbolic_op (ops ! (unat cnt - 1 - k))
               (word_of_nat (length (filter Not (take k (frame_stack f))))))))"
proof -
  let ?n = "unat cnt" and ?cs = "rev (frame_cells f)" and ?m = "m_symbolsCount f"
  have n: "?n \<le> unat (m_concretenessTop f)" "?n \<le> length ?cs"
    using cnt(1) frame_invD(6) [OF inv] by (simp_all add: word_le_nat_alt)
  have f': "m_lastPoppedSymbolics f' = popped (take ?n ?cs)"
      "m_symbolsCount f' + word_of_nat (length (m_lastPoppedSymbolics f')) = ?m"
    using pop_spec [OF inv cnt(1)] p by auto
  define ks where "ks = filter (\<lambda>k. symbolic (?cs ! k)) [0 ..< ?n]"
  have dist: "distinct ks" "\<forall>k \<in> set ks. k < ?n"
    by (simp_all add: ks_def)
  have ps: "popped (take ?n ?cs) = map (\<lambda>k. (?cs ! k, word_of_nat k)) ks"
    using n by (auto simp: popped_alt ks_def min_def intro!: map_cong filter_cong)
  have flags: "frame_stack f ! k \<longleftrightarrow> \<not> symbolic (?cs ! k)" if "k < ?n" for k
    using that n by (simp add: frame_stack_def rev_map)
  have rank: "length (filter Not (take k (frame_stack f))) = length (filter symbolic (take k ?cs))" if "k < ?n" for k
    by (simp add: frame_stack_def rev_map take_map filter_map o_def)
  have num: "ucast (?m - ?cs ! k) = (word_of_nat (length (filter Not (take k (frame_stack f)))) :: u64)"
    if k: "k < ?n" "symbolic (?cs ! k)" for k
  proof -
    have kT: "k < unat (m_concretenessTop f)"
      using k(1) n by simp
    note c = cell_number [OF inv kT k(2)]
    have "unat (?m - ?cs ! k) = unat ?m - unat (?cs ! k)"
      using c by (intro unat_sub) (simp add: word_le_nat_alt)
    also have "\<dots> = length (filter symbolic (take k ?cs))"
      using c by simp
    finally have "(word_of_nat (unat (?m - ?cs ! k)) :: u64) = word_of_nat (length (filter symbolic (take k ?cs)))"
      by simp
    then show ?thesis
      unfolding rank [OF k(1)] by simp
  qed
  obtain ops' where "fold_res (set_symbolic cnt ?m) (map (\<lambda>k. (?cs ! k, word_of_nat k)) ks) ops = Inr ops'"
      "length ops' = ?n"
      "\<forall>k < ?n. ops' ! (?n - 1 - k) =
       (if k \<in> set ks then Some (symbolic_op (ops ! (?n - 1 - k)) (ucast (?m - ?cs ! k)))
        else ops ! (?n - 1 - k))"
    using fold_set_symbolic [OF cnt(2) ops dist, of ?m "\<lambda>k. ?cs ! k"] by blast
  moreover have "k \<in> set ks \<longleftrightarrow> \<not> frame_stack f ! k" if "k < ?n" for k
    using that flags by (simp add: ks_def)
  ultimately show ?thesis
    unfolding f'(2) unfolding f'(1) ps using num flags by (intro exI [of _ ops']) simp
qed

text \<open>
  Claim C33: the command that is built after a pop of \<open>cnt\<close> operands describes the state of the
  thread. It carries the tokens of the frames above the lowest top since the last message and the
  number of frames to drop. An operand that was concrete is sent as the probe supplied it; the
  others are sent as symbolic, each with the number of symbolic operands that were above it. The
  new objects of the heap are sent, and removed from the list of new objects.
\<close>

theorem command_describes_state:
  assumes r: "ready tid s" and st: "m_frames (stack_of tid s) = fs @ [f]"
      "length (m_frames (stack_of tid s)) < 2 ^ 32"
      "unat (m_minTopSinceLastSent (stack_of tid s)) \<le> length (m_frames (stack_of tid s))"
    and f: "frame_inv f" "cnt \<le> m_concretenessTop f" "unat cnt < 2 ^ 31" and ops: "length ops = unat cnt"
    and types: "types_ok (mheap (mem s))"
  shows "\<exists>cmd s'. seq (with_frame tid (pop cnt)) (\<lambda>_. initCommand tid off branch cnt ops) s = Inr (cmd, s') \<and>
    newCallStackFrames cmd = drop (unat (m_minTopSinceLastSent (stack_of tid s))) (tokens (stack_of tid s)) \<and>
    callStackFramesPops cmd = unsentPops (stack_of tid s) \<and>
    length (evaluationStackPushes cmd) = unat cnt \<and>
    (\<forall>k < unat cnt. evaluationStackPushes cmd ! (unat cnt - 1 - k) =
       (if frame_stack f ! k then ops ! (unat cnt - 1 - k)
        else Some (symbolic_op (ops ! (unat cnt - 1 - k))
               (word_of_nat (length (filter Not (take k (frame_stack f)))))))) \<and>
    cmd_newAddresses cmd = map fst (newAddresses (mheap (mem s))) \<and>
    newAddresses (mheap (mem s')) = []"
proof -
  let ?st = "stack_of tid s"
  obtain b f' where p: "pop cnt f = Inr (b, f')" "frame_inv f'"
    using pop_spec [OF f(1,2)] by blast
  then obtain evalPops where ev: "evaluationStackPops f' = Inr evalPops"
    by (simp add: evaluationStackPops_def frame_inv_def)
  have token: "m_unresolvedToken f' = m_unresolvedToken f"
    using pop_token [OF p(1)] .
  obtain s1 where s1: "with_frame tid (pop cnt) s = Inr (b, s1)" "ready tid s1"
      "stack_of tid s1 = ?st\<lparr>m_frames := fs @ [f']\<rparr>" "mheap (mem s1) = mheap (mem s)"
    using with_frame_success [where op = "pop cnt", OF r st(1) p(1)] by blast
  have toks: "tokens (stack_of tid s1) = tokens ?st"
    using token st(1) by (simp add: s1(3) tokens_def)
  obtain ops' where ops': "fold_res (set_symbolic cnt (m_symbolsCount f' + word_of_nat (length (m_lastPoppedSymbolics f'))))
      (m_lastPoppedSymbolics f') ops = Inr ops'" "length ops' = unat cnt"
      "\<forall>k < unat cnt. ops' ! (unat cnt - 1 - k) =
       (if frame_stack f ! k then ops ! (unat cnt - 1 - k)
        else Some (symbolic_op (ops ! (unat cnt - 1 - k))
               (word_of_nat (length (filter Not (take k (frame_stack f)))))))"
    using popped_symbolic_ops [OF f ops p(1)] by blast
  have st1: "m_frames (stack_of tid s1) = fs @ [f']" "length (m_frames (stack_of tid s1)) < 2 ^ 32"
      "unat (m_minTopSinceLastSent (stack_of tid s1)) \<le> length (m_frames (stack_of tid s1))"
    using st by (simp_all add: s1(3))
  have "types_ok (mheap (mem s1))"
    using types s1(4) by simp
  from initCommand_eq [OF s1(2) st1 ops'(1) ev this, of off branch] show ?thesis
    using ops'(2,3) toks by (auto simp: seq_def s1(1,3,4) unsentPops_def)
qed

definition sample_machine :: machine where
  "sample_machine = \<lparr>mem = memory_initial\<lparr>lastThreadID := 7, currentStack := Some 7,
       stacks := [7 \<mapsto> \<lparr>m_frames = [sample_full], m_lastSentTop = 1, m_minTopSinceLastSent = 1\<rparr>]\<rparr>,
     pipe = sample_comm [] []\<rparr>"

lemma sample_machine_ready:
  "ready 7 sample_machine"
  "m_frames (stack_of 7 sample_machine) = [] @ [sample_full]"
  "unat (m_minTopSinceLastSent (stack_of 7 sample_machine)) \<le> length (m_frames (stack_of 7 sample_machine))"
  "types_ok (mheap (mem sample_machine))"
  by (simp_all add: sample_machine_def ready_def memory_inv_def own_stack_def memory_initial_def
      heap_empty_def types_ok_def)

lemma sample_full_stack: "frame_stack sample_full = [False, True, False]"
  by (simp add: sample_full_def sample_frame_def frame_configure_def frame_cells_def frame_stack_def
      symbolic_def take_Cons')

theorem command_describes_state_witness:
  "\<exists>cmd s'. seq (with_frame 7 (pop 2)) (\<lambda>_. initCommand 7 12 False 2 [Some (mkop_4 5), None]) sample_machine = Inr (cmd, s') \<and>
     evaluationStackPushes cmd ! 1 = Some (symbolic_op None 0) \<and>
     evaluationStackPushes cmd ! 0 = Some (mkop_4 5)"
proof -
  have "\<exists>cmd s'. seq (with_frame 7 (pop 2)) (\<lambda>_. initCommand 7 12 False 2 [Some (mkop_4 5), None]) sample_machine = Inr (cmd, s') \<and>
     (\<forall>k < unat (2 :: u32). evaluationStackPushes cmd ! (unat (2 :: u32) - 1 - k) =
       (if frame_stack sample_full ! k then [Some (mkop_4 5), None] ! (unat (2 :: u32) - 1 - k)
        else Some (symbolic_op ([Some (mkop_4 5), None] ! (unat (2 :: u32) - 1 - k))
               (word_of_nat (length (filter Not (take k (frame_stack sample_full))))))))"
    using command_describes_state [OF sample_machine_ready(1,2) _ sample_machine_ready(3) sample_full_inv _ _ _
        sample_machine_ready(4), of 2 "[Some (mkop_4 5), None]" 12 False]
    by (fastforce simp: sample_full_def sample_machine_def own_stack_def)
  then obtain cmd s' where 1: "seq (with_frame 7 (pop 2)) (\<lambda>_. initCommand 7 12 False 2 [Some (mkop_4 5), None])
      sample_machine = Inr (cmd, s')"
    and 2: "\<And>k. k < unat (2 :: u32) \<Longrightarrow> evaluationStackPushes cmd ! (unat (2 :: u32) - 1 - k) =
       (if frame_stack sample_full ! k then [Some (mkop_4 5), None] ! (unat (2 :: u32) - 1 - k)
        else Some (symbolic_op ([Some (mkop_4 5), None] ! (unat (2 :: u32) - 1 - k))
               (word_of_nat (length (filter Not (take k (frame_stack sample_full)))))))"
    by blast
  show ?thesis
    using 1 2 [of 0] 2 [of 1] by (simp add: sample_full_stack)
qed

end
