(* ===== verification/Probes.thy ===== *)
theory Probes
  imports Probe_Commands
begin

section \<open>The probes\<close>

text \<open>
  The second part of \<^verbatim>\<open>probes.h\<close>: the functions the instrumented code calls at each IL
  instruction. A probe takes the identifier \<open>tid\<close> of the current thread and the floating-point
  conversions of the hardware; its other arguments are those of the source. Integers that the
  source declares signed are words of the same width.
\<close>

record hw =
  widen :: "u32 \<Rightarrow> u64"
  narrow :: "u64 \<Rightarrow> u32"

subsection \<open>Shapes the probes share\<close>

definition void :: "'a prog \<Rightarrow> unit prog" where
  "void p = seq p (\<lambda>_. ret ())"

definition f_pop1 :: "u64 \<Rightarrow> bool prog" where
  "f_pop1 tid = with_frame tid pop1"

definition f_pop :: "u64 \<Rightarrow> u32 \<Rightarrow> bool prog" where
  "f_pop tid n = with_frame tid (pop n)"

definition f_push1 :: "u64 \<Rightarrow> bool \<Rightarrow> unit prog" where
  "f_push1 tid b = with_frame tid (\<lambda>f. and_then (push1 b f) (\<lambda>f. Inr ((), f)))"

definition f_push1Concrete :: "u64 \<Rightarrow> unit prog" where
  "f_push1Concrete tid = with_frame tid (\<lambda>f. and_then (push1Concrete f) (\<lambda>f. Inr ((), f)))"

definition f_pop0 :: "u64 \<Rightarrow> unit prog" where
  "f_pop0 tid = with_frame tid (\<lambda>f. Inr ((), pop0 f))"

definition f_get :: "u64 \<Rightarrow> (stack_frame \<Rightarrow> 'a res) \<Rightarrow> 'a prog" where
  "f_get tid g = with_frame tid (\<lambda>f. and_then (g f) (\<lambda>x. Inr (x, f)))"

definition f_set :: "u64 \<Rightarrow> (stack_frame \<Rightarrow> stack_frame res) \<Rightarrow> unit prog" where
  "f_set tid g = with_frame tid (\<lambda>f. and_then (g f) (\<lambda>f. Inr ((), f)))"

definition send :: "hw \<Rightarrow> u64 \<Rightarrow> u32 \<Rightarrow> eval_operand list \<Rightarrow> bool prog" where
  "send hw tid off ops = sendCommand (narrow hw) tid off (word_of_nat (length ops)) (map Some ops)"

definition unless_concrete :: "bool prog \<Rightarrow> 'a prog \<Rightarrow> unit prog" where
  "unless_concrete test p = seq test (\<lambda>concrete. if \<not> concrete then void p else ret ())"

subsection \<open>Arguments, locals and constants\<close>

definition ldarg :: "u64 \<Rightarrow> u16 \<Rightarrow> bool prog" where
  "ldarg tid idx =
     seq (f_pop0 tid) (\<lambda>_.
     seq (f_get tid (\<lambda>f. frame_arg f (scast idx))) (\<lambda>concreteness.
     seq (if concreteness then f_push1Concrete tid else ret ()) (\<lambda>_.
     ret concreteness)))"

definition Track_Ldarg_0 :: "hw \<Rightarrow> u64 \<Rightarrow> u32 \<Rightarrow> unit prog" where
  "Track_Ldarg_0 hw tid off =
     unless_concrete (ldarg tid 0) (sendCommand0 (narrow hw) tid off)"

definition Track_Ldarg_1 :: "hw \<Rightarrow> u64 \<Rightarrow> u32 \<Rightarrow> unit prog" where
  "Track_Ldarg_1 hw tid off =
     unless_concrete (ldarg tid 1) (sendCommand0 (narrow hw) tid off)"

definition Track_Ldarg_2 :: "hw \<Rightarrow> u64 \<Rightarrow> u32 \<Rightarrow> unit prog" where
  "Track_Ldarg_2 hw tid off =
     unless_concrete (ldarg tid 2) (sendCommand0 (narrow hw) tid off)"

definition Track_Ldarg_3 :: "hw \<Rightarrow> u64 \<Rightarrow> u32 \<Rightarrow> unit prog" where
  "Track_Ldarg_3 hw tid off =
     unless_concrete (ldarg tid 3) (sendCommand0 (narrow hw) tid off)"

definition Track_Ldarg_S :: "hw \<Rightarrow> u64 \<Rightarrow> byte \<Rightarrow> u32 \<Rightarrow> unit prog" where
  "Track_Ldarg_S hw tid idx off =
     unless_concrete (ldarg tid (ucast idx)) (sendCommand0 (narrow hw) tid off)"

definition Track_Ldarg :: "hw \<Rightarrow> u64 \<Rightarrow> u16 \<Rightarrow> u32 \<Rightarrow> unit prog" where
  "Track_Ldarg hw tid idx off =
     unless_concrete (ldarg tid idx) (sendCommand0 (narrow hw) tid off)"

definition Track_Ldarga :: "u64 \<Rightarrow> u64 \<Rightarrow> u16 \<Rightarrow> unit prog" where
  "Track_Ldarga tid ptr idx =
     f_push1Concrete tid"

definition ldloc :: "u64 \<Rightarrow> u16 \<Rightarrow> bool prog" where
  "ldloc tid idx =
     seq (f_pop0 tid) (\<lambda>_.
     seq (f_get tid (\<lambda>f. frame_loc f (scast idx))) (\<lambda>concreteness.
     seq (if concreteness then f_push1Concrete tid else ret ()) (\<lambda>_.
     ret concreteness)))"

definition Track_Ldloc_0 :: "hw \<Rightarrow> u64 \<Rightarrow> u32 \<Rightarrow> unit prog" where
  "Track_Ldloc_0 hw tid off =
     unless_concrete (ldloc tid 0) (sendCommand0 (narrow hw) tid off)"

definition Track_Ldloc_1 :: "hw \<Rightarrow> u64 \<Rightarrow> u32 \<Rightarrow> unit prog" where
  "Track_Ldloc_1 hw tid off =
     unless_concrete (ldloc tid 1) (sendCommand0 (narrow hw) tid off)"

definition Track_Ldloc_2 :: "hw \<Rightarrow> u64 \<Rightarrow> u32 \<Rightarrow> unit prog" where
  "Track_Ldloc_2 hw tid off =
     unless_concrete (ldloc tid 2) (sendCommand0 (narrow hw) tid off)"

definition Track_Ldloc_3 :: "hw \<Rightarrow> u64 \<Rightarrow> u32 \<Rightarrow> unit prog" where
  "Track_Ldloc_3 hw tid off =
     unless_concrete (ldloc tid 3) (sendCommand0 (narrow hw) tid off)"

definition Track_Ldloc_S :: "hw \<Rightarrow> u64 \<Rightarrow> byte \<Rightarrow> u32 \<Rightarrow> unit prog" where
  "Track_Ldloc_S hw tid idx off =
     unless_concrete (ldloc tid (ucast idx)) (sendCommand0 (narrow hw) tid off)"

definition Track_Ldloc :: "hw \<Rightarrow> u64 \<Rightarrow> u16 \<Rightarrow> u32 \<Rightarrow> unit prog" where
  "Track_Ldloc hw tid idx off =
     unless_concrete (ldloc tid idx) (sendCommand0 (narrow hw) tid off)"

definition Track_Ldloca :: "u64 \<Rightarrow> u64 \<Rightarrow> u16 \<Rightarrow> unit prog" where
  "Track_Ldloca tid ptr idx =
     f_push1Concrete tid"

definition starg :: "u64 \<Rightarrow> u16 \<Rightarrow> bool prog" where
  "starg tid idx =
     seq (f_pop1 tid) (\<lambda>concreteness.
     seq (f_set tid (setArg (scast idx) concreteness)) (\<lambda>_.
     ret concreteness))"

definition Track_Starg_S :: "hw \<Rightarrow> u64 \<Rightarrow> byte \<Rightarrow> u32 \<Rightarrow> unit prog" where
  "Track_Starg_S hw tid idx off =
     unless_concrete (starg tid (ucast idx)) (sendCommand1 (narrow hw) tid off)"

definition Track_Starg :: "hw \<Rightarrow> u64 \<Rightarrow> u16 \<Rightarrow> u32 \<Rightarrow> unit prog" where
  "Track_Starg hw tid idx off =
     unless_concrete (starg tid idx) (sendCommand1 (narrow hw) tid off)"

definition stloc :: "u64 \<Rightarrow> u16 \<Rightarrow> bool prog" where
  "stloc tid idx =
     seq (f_pop1 tid) (\<lambda>concreteness.
     seq (f_set tid (setLoc (scast idx) concreteness)) (\<lambda>_.
     ret concreteness))"

definition Track_Stloc_0 :: "hw \<Rightarrow> u64 \<Rightarrow> u32 \<Rightarrow> unit prog" where
  "Track_Stloc_0 hw tid off =
     unless_concrete (stloc tid 0) (sendCommand1 (narrow hw) tid off)"

definition Track_Stloc_1 :: "hw \<Rightarrow> u64 \<Rightarrow> u32 \<Rightarrow> unit prog" where
  "Track_Stloc_1 hw tid off =
     unless_concrete (stloc tid 1) (sendCommand1 (narrow hw) tid off)"

definition Track_Stloc_2 :: "hw \<Rightarrow> u64 \<Rightarrow> u32 \<Rightarrow> unit prog" where
  "Track_Stloc_2 hw tid off =
     unless_concrete (stloc tid 2) (sendCommand1 (narrow hw) tid off)"

definition Track_Stloc_3 :: "hw \<Rightarrow> u64 \<Rightarrow> u32 \<Rightarrow> unit prog" where
  "Track_Stloc_3 hw tid off =
     unless_concrete (stloc tid 3) (sendCommand1 (narrow hw) tid off)"

definition Track_Stloc_S :: "hw \<Rightarrow> u64 \<Rightarrow> byte \<Rightarrow> u32 \<Rightarrow> unit prog" where
  "Track_Stloc_S hw tid idx off =
     unless_concrete (stloc tid (ucast idx)) (sendCommand1 (narrow hw) tid off)"

definition Track_Stloc :: "hw \<Rightarrow> u64 \<Rightarrow> u16 \<Rightarrow> u32 \<Rightarrow> unit prog" where
  "Track_Stloc hw tid idx off =
     unless_concrete (stloc tid idx) (sendCommand1 (narrow hw) tid off)"

definition Track_Ldc :: "u64 \<Rightarrow> unit prog" where
  "Track_Ldc tid =
     f_push1Concrete tid"

definition Track_Dup :: "hw \<Rightarrow> u64 \<Rightarrow> u32 \<Rightarrow> unit prog" where
  "Track_Dup hw tid off =
     seq (with_frame tid dup) (\<lambda>concrete.
       if \<not> concrete
       then seq (sendCommand1 (narrow hw) tid off) (\<lambda>_. f_push1 tid False)
       else ret ())"

definition Track_Pop :: "u64 \<Rightarrow> unit prog" where
  "Track_Pop tid =
     f_set tid pop1Async"

subsection \<open>Branches and operators\<close>

definition branch :: "hw \<Rightarrow> u64 \<Rightarrow> u32 \<Rightarrow> bool prog" where
  "branch hw tid off =
     seq (f_pop1 tid) (\<lambda>concrete. if \<not> concrete then sendCommand1 (narrow hw) tid off else ret True)"

definition BrTrue :: "hw \<Rightarrow> u64 \<Rightarrow> u32 \<Rightarrow> unit prog" where
  "BrTrue hw tid off =
     void (branch hw tid off)"

definition BrFalse :: "hw \<Rightarrow> u64 \<Rightarrow> u32 \<Rightarrow> unit prog" where
  "BrFalse hw tid off =
     void (branch hw tid off)"

definition Switch :: "u64 \<Rightarrow> u32 \<Rightarrow> unit prog" where
  "Switch tid off =
     void (f_pop1 tid)"

definition Track_UnOp :: "hw \<Rightarrow> u64 \<Rightarrow> u16 \<Rightarrow> u32 \<Rightarrow> unit prog" where
  "Track_UnOp hw tid op off =
     seq (f_pop1 tid) (\<lambda>concreteness.
       if concreteness then f_push1Concrete tid else void (sendCommand1 (narrow hw) tid off))"

definition Track_BinOp :: "u64 \<Rightarrow> bool prog" where
  "Track_BinOp tid =
     seq (f_pop tid 2) (\<lambda>concreteness.
     seq (if concreteness then f_push1Concrete tid else ret ()) (\<lambda>_. ret concreteness))"

definition Exec_BinOp_4 :: "hw \<Rightarrow> u64 \<Rightarrow> u16 \<Rightarrow> u32 \<Rightarrow> u32 \<Rightarrow> u32 \<Rightarrow> unit prog" where
  "Exec_BinOp_4 hw tid op arg1 arg2 off =
     void (send hw tid off [mkop_4 arg1, mkop_4 arg2])"

definition Exec_BinOp_8 :: "hw \<Rightarrow> u64 \<Rightarrow> u16 \<Rightarrow> u64 \<Rightarrow> u64 \<Rightarrow> u32 \<Rightarrow> unit prog" where
  "Exec_BinOp_8 hw tid op arg1 arg2 off =
     void (send hw tid off [mkop_8 arg1, mkop_8 arg2])"

definition Exec_BinOp_f4 :: "hw \<Rightarrow> u64 \<Rightarrow> u16 \<Rightarrow> u32 \<Rightarrow> u32 \<Rightarrow> u32 \<Rightarrow> unit prog" where
  "Exec_BinOp_f4 hw tid op arg1 arg2 off =
     void (send hw tid off [mkop_f4 (widen hw) arg1, mkop_f4 (widen hw) arg2])"

definition Exec_BinOp_f8 :: "hw \<Rightarrow> u64 \<Rightarrow> u16 \<Rightarrow> u64 \<Rightarrow> u64 \<Rightarrow> u32 \<Rightarrow> unit prog" where
  "Exec_BinOp_f8 hw tid op arg1 arg2 off =
     void (send hw tid off [mkop_f8 arg1, mkop_f8 arg2])"

definition Exec_BinOp_p :: "hw \<Rightarrow> u64 \<Rightarrow> u16 \<Rightarrow> u64 \<Rightarrow> u64 \<Rightarrow> u32 \<Rightarrow> unit prog" where
  "Exec_BinOp_p hw tid op arg1 arg2 off =
     seq (mkop_p arg1) (\<lambda>a. seq (mkop_p arg2) (\<lambda>b. void (send hw tid off [a, b])))"

definition Exec_BinOp_8_4 :: "hw \<Rightarrow> u64 \<Rightarrow> u16 \<Rightarrow> u64 \<Rightarrow> u32 \<Rightarrow> u32 \<Rightarrow> unit prog" where
  "Exec_BinOp_8_4 hw tid op arg1 arg2 off =
     void (send hw tid off [mkop_8 arg1, mkop_4 arg2])"

definition Exec_BinOp_4_p :: "hw \<Rightarrow> u64 \<Rightarrow> u16 \<Rightarrow> u32 \<Rightarrow> u64 \<Rightarrow> u32 \<Rightarrow> unit prog" where
  "Exec_BinOp_4_p hw tid op arg1 arg2 off =
     seq (mkop_p arg2) (\<lambda>b. void (send hw tid off [mkop_4 arg1, b]))"

definition Exec_BinOp_p_4 :: "hw \<Rightarrow> u64 \<Rightarrow> u16 \<Rightarrow> u64 \<Rightarrow> u32 \<Rightarrow> u32 \<Rightarrow> unit prog" where
  "Exec_BinOp_p_4 hw tid op arg1 arg2 off =
     seq (mkop_p arg1) (\<lambda>a. void (send hw tid off [a, mkop_4 arg2]))"

definition Exec_BinOp_4_ovf :: "hw \<Rightarrow> u64 \<Rightarrow> u16 \<Rightarrow> u32 \<Rightarrow> u32 \<Rightarrow> u32 \<Rightarrow> unit prog" where
  "Exec_BinOp_4_ovf hw tid op arg1 arg2 off =
     void (send hw tid off [mkop_4 arg1, mkop_4 arg2])"

definition Exec_BinOp_8_ovf :: "hw \<Rightarrow> u64 \<Rightarrow> u16 \<Rightarrow> u64 \<Rightarrow> u64 \<Rightarrow> u32 \<Rightarrow> unit prog" where
  "Exec_BinOp_8_ovf hw tid op arg1 arg2 off =
     void (send hw tid off [mkop_8 arg1, mkop_8 arg2])"

definition Exec_BinOp_f4_ovf :: "hw \<Rightarrow> u64 \<Rightarrow> u16 \<Rightarrow> u32 \<Rightarrow> u32 \<Rightarrow> u32 \<Rightarrow> unit prog" where
  "Exec_BinOp_f4_ovf hw tid op arg1 arg2 off =
     void (send hw tid off [mkop_f4 (widen hw) arg1, mkop_f4 (widen hw) arg2])"

definition Exec_BinOp_f8_ovf :: "hw \<Rightarrow> u64 \<Rightarrow> u16 \<Rightarrow> u64 \<Rightarrow> u64 \<Rightarrow> u32 \<Rightarrow> unit prog" where
  "Exec_BinOp_f8_ovf hw tid op arg1 arg2 off =
     void (send hw tid off [mkop_f8 arg1, mkop_f8 arg2])"

definition Exec_BinOp_p_ovf :: "hw \<Rightarrow> u64 \<Rightarrow> u16 \<Rightarrow> u64 \<Rightarrow> u64 \<Rightarrow> u32 \<Rightarrow> unit prog" where
  "Exec_BinOp_p_ovf hw tid op arg1 arg2 off =
     seq (mkop_p arg1) (\<lambda>a. seq (mkop_p arg2) (\<lambda>b. void (send hw tid off [a, b])))"

definition Exec_BinOp_8_4_ovf :: "hw \<Rightarrow> u64 \<Rightarrow> u16 \<Rightarrow> u64 \<Rightarrow> u32 \<Rightarrow> u32 \<Rightarrow> unit prog" where
  "Exec_BinOp_8_4_ovf hw tid op arg1 arg2 off =
     void (send hw tid off [mkop_8 arg1, mkop_4 arg2])"

definition Exec_BinOp_4_p_ovf :: "hw \<Rightarrow> u64 \<Rightarrow> u16 \<Rightarrow> u32 \<Rightarrow> u64 \<Rightarrow> u32 \<Rightarrow> unit prog" where
  "Exec_BinOp_4_p_ovf hw tid op arg1 arg2 off =
     seq (mkop_p arg2) (\<lambda>b. void (send hw tid off [mkop_4 arg1, b]))"

definition Exec_BinOp_p_4_ovf :: "hw \<Rightarrow> u64 \<Rightarrow> u16 \<Rightarrow> u64 \<Rightarrow> u32 \<Rightarrow> u32 \<Rightarrow> unit prog" where
  "Exec_BinOp_p_4_ovf hw tid op arg1 arg2 off =
     seq (mkop_p arg1) (\<lambda>a. void (send hw tid off [a, mkop_4 arg2]))"

subsection \<open>Memory\<close>

definition Track_Ldind :: "u64 \<Rightarrow> u32 \<Rightarrow> unit prog" where
  "Track_Ldind ptr off =
     ret ()"

definition Track_Stind :: "u64 \<Rightarrow> u64 \<Rightarrow> u32 \<Rightarrow> bool prog" where
  "Track_Stind tid ptr sizeOfPtr =
     seq (f_get tid peek0) (\<lambda>valueIsConcrete.
     seq (f_get tid peek1) (\<lambda>addressIsConcrete.
     seq (if addressIsConcrete
          then with_heap (\<lambda>h. and_then (heap_write ptr (scast sizeOfPtr) valueIsConcrete h) (\<lambda>h. Inr ((), h)))
          else ret ()) (\<lambda>_.
     f_pop tid 2)))"

definition Exec_Stind_I1 :: "hw \<Rightarrow> u64 \<Rightarrow> u64 \<Rightarrow> byte \<Rightarrow> u32 \<Rightarrow> unit prog" where
  "Exec_Stind_I1 hw tid ptr v off =
     seq (mkop_p ptr) (\<lambda>a. void (send hw tid off [a, mkop_4 (scast v)]))"

definition Exec_Stind_I2 :: "hw \<Rightarrow> u64 \<Rightarrow> u64 \<Rightarrow> u16 \<Rightarrow> u32 \<Rightarrow> unit prog" where
  "Exec_Stind_I2 hw tid ptr v off =
     seq (mkop_p ptr) (\<lambda>a. void (send hw tid off [a, mkop_4 (scast v)]))"

definition Exec_Stind_I4 :: "hw \<Rightarrow> u64 \<Rightarrow> u64 \<Rightarrow> u32 \<Rightarrow> u32 \<Rightarrow> unit prog" where
  "Exec_Stind_I4 hw tid ptr v off =
     seq (mkop_p ptr) (\<lambda>a. void (send hw tid off [a, mkop_4 v]))"

definition Exec_Stind_I8 :: "hw \<Rightarrow> u64 \<Rightarrow> u64 \<Rightarrow> u64 \<Rightarrow> u32 \<Rightarrow> unit prog" where
  "Exec_Stind_I8 hw tid ptr v off =
     seq (mkop_p ptr) (\<lambda>a. void (send hw tid off [a, mkop_8 v]))"

definition Exec_Stind_R4 :: "hw \<Rightarrow> u64 \<Rightarrow> u64 \<Rightarrow> u32 \<Rightarrow> u32 \<Rightarrow> unit prog" where
  "Exec_Stind_R4 hw tid ptr v off =
     seq (mkop_p ptr) (\<lambda>a. void (send hw tid off [a, mkop_f4 (widen hw) v]))"

definition Exec_Stind_R8 :: "hw \<Rightarrow> u64 \<Rightarrow> u64 \<Rightarrow> u64 \<Rightarrow> u32 \<Rightarrow> unit prog" where
  "Exec_Stind_R8 hw tid ptr v off =
     seq (mkop_p ptr) (\<lambda>a. void (send hw tid off [a, mkop_f8 v]))"

definition Exec_Stind_ref :: "hw \<Rightarrow> u64 \<Rightarrow> u64 \<Rightarrow> u64 \<Rightarrow> u32 \<Rightarrow> unit prog" where
  "Exec_Stind_ref hw tid ptr v off =
     seq (mkop_p ptr) (\<lambda>a. seq (mkop_p v) (\<lambda>b. void (send hw tid off [a, b])))"

definition conv :: "hw \<Rightarrow> u64 \<Rightarrow> u32 \<Rightarrow> unit prog" where
  "conv hw tid off =
     seq (f_pop1 tid) (\<lambda>concreteness.
       if concreteness then f_push1Concrete tid else void (sendCommand1 (narrow hw) tid off))"

definition Track_Conv :: "hw \<Rightarrow> u64 \<Rightarrow> u32 \<Rightarrow> unit prog" where
  "Track_Conv hw tid off =
     conv hw tid off"

definition Track_Conv_Ovf :: "hw \<Rightarrow> u64 \<Rightarrow> u32 \<Rightarrow> unit prog" where
  "Track_Conv_Ovf hw tid off =
     conv hw tid off"

definition Track_Newarr :: "u64 \<Rightarrow> u32 \<Rightarrow> u32 \<Rightarrow> unit prog" where
  "Track_Newarr x0 x1 x2 =
     ret ()"

definition Track_Localloc :: "u64 \<Rightarrow> u32 \<Rightarrow> unit prog" where
  "Track_Localloc x0 x1 =
     ret ()"

definition Track_Ldobj :: "u64 \<Rightarrow> u32 \<Rightarrow> unit prog" where
  "Track_Ldobj x0 x1 =
     ret ()"

definition Track_Ldstr :: "u64 \<Rightarrow> u64 \<Rightarrow> unit prog" where
  "Track_Ldstr tid ptr =
     f_push1Concrete tid"

definition Track_Ldtoken :: "u64 \<Rightarrow> unit prog" where
  "Track_Ldtoken tid =
     f_push1Concrete tid"

definition Track_Stobj :: "u64 \<Rightarrow> u64 \<Rightarrow> unit prog" where
  "Track_Stobj tid ptr =
     void (f_pop tid 2)"

definition Track_Initobj :: "u64 \<Rightarrow> u64 \<Rightarrow> unit prog" where
  "Track_Initobj tid ptr =
     void (f_pop1 tid)"

definition Track_Ldlen :: "hw \<Rightarrow> u64 \<Rightarrow> u64 \<Rightarrow> u32 \<Rightarrow> unit prog" where
  "Track_Ldlen hw tid ptr off =
     seq (f_pop1 tid) (\<lambda>concreteness.
       if concreteness then f_push1Concrete tid else void (sendCommand1 (narrow hw) tid off))"

definition Track_Cpobj :: "u64 \<Rightarrow> u64 \<Rightarrow> u64 \<Rightarrow> bool prog" where
  "Track_Cpobj tid dest src =
     f_pop tid 2"

definition Exec_Cpobj :: "u32 \<Rightarrow> u64 \<Rightarrow> u64 \<Rightarrow> u32 \<Rightarrow> unit prog" where
  "Exec_Cpobj x0 x1 x2 x3 =
     ret ()"

definition Track_Cpblk :: "u64 \<Rightarrow> u64 \<Rightarrow> u64 \<Rightarrow> bool prog" where
  "Track_Cpblk tid dest src =
     f_pop tid 3"

definition Exec_Cpblk :: "u64 \<Rightarrow> u64 \<Rightarrow> u64 \<Rightarrow> u32 \<Rightarrow> unit prog" where
  "Exec_Cpblk x0 x1 x2 x3 =
     ret ()"

definition Track_Initblk :: "u64 \<Rightarrow> u64 \<Rightarrow> bool prog" where
  "Track_Initblk tid ptr =
     f_pop tid 3"

definition Exec_Initblk :: "u64 \<Rightarrow> byte \<Rightarrow> u64 \<Rightarrow> u32 \<Rightarrow> unit prog" where
  "Exec_Initblk x0 x1 x2 x3 =
     ret ()"

definition Track_Castclass :: "u64 \<Rightarrow> u32 \<Rightarrow> u32 \<Rightarrow> unit prog" where
  "Track_Castclass x0 x1 x2 =
     ret ()"

definition Track_Isinst :: "u64 \<Rightarrow> u32 \<Rightarrow> u32 \<Rightarrow> unit prog" where
  "Track_Isinst x0 x1 x2 =
     ret ()"

definition Track_Box :: "u64 \<Rightarrow> u64 \<Rightarrow> u32 \<Rightarrow> unit prog" where
  "Track_Box tid ptr off =
     seq (f_pop1 tid) (\<lambda>_. f_push1Concrete tid)"

definition Track_Unbox :: "u64 \<Rightarrow> u32 \<Rightarrow> u32 \<Rightarrow> unit prog" where
  "Track_Unbox x0 x1 x2 =
     ret ()"

definition Track_Unbox_Any :: "u64 \<Rightarrow> u32 \<Rightarrow> u32 \<Rightarrow> unit prog" where
  "Track_Unbox_Any x0 x1 x2 =
     ret ()"

subsection \<open>Fields, elements and other values\<close>

definition ldfld :: "u64 \<Rightarrow> u64 \<Rightarrow> u32 \<Rightarrow> bool prog" where
  "ldfld tid fieldPtr fieldSize =
     seq (f_pop1 tid) (\<lambda>ptrIsConcrete.
     seq (if ptrIsConcrete then get_heap (\<lambda>h. heap_read h fieldPtr (scast fieldSize)) else ret False)
       (\<lambda>fieldIsConcrete. ret (ptrIsConcrete \<and> fieldIsConcrete)))"

definition Track_Ldfld :: "hw \<Rightarrow> u64 \<Rightarrow> u64 \<Rightarrow> u32 \<Rightarrow> u32 \<Rightarrow> u32 \<Rightarrow> unit prog" where
  "Track_Ldfld hw tid objPtr fieldOffset fieldSize off =
     seq (ldfld tid (objPtr + scast fieldOffset) fieldSize) (\<lambda>concrete.
       if \<not> concrete
       then seq (mkop_p objPtr) (\<lambda>a. void (send hw tid off [a]))
       else f_push1Concrete tid)"

definition Track_Ldflda :: "u64 \<Rightarrow> u32 \<Rightarrow> u32 \<Rightarrow> unit prog" where
  "Track_Ldflda x0 x1 x2 =
     ret ()"

definition stfld :: "u64 \<Rightarrow> u32 \<Rightarrow> u64 \<Rightarrow> bool prog" where
  "stfld tid fieldToken ptr =
     f_pop tid 2"

definition Track_Stfld_4 :: "hw \<Rightarrow> u64 \<Rightarrow> u32 \<Rightarrow> u64 \<Rightarrow> u32 \<Rightarrow> u32 \<Rightarrow> unit prog" where
  "Track_Stfld_4 hw tid fieldToken ptr v off =
     unless_concrete (stfld tid fieldToken ptr)
       (seq (mkop_p ptr) (\<lambda>a. void (send hw tid off [a, mkop_4 v])))"

definition Track_Stfld_8 :: "hw \<Rightarrow> u64 \<Rightarrow> u32 \<Rightarrow> u64 \<Rightarrow> u64 \<Rightarrow> u32 \<Rightarrow> unit prog" where
  "Track_Stfld_8 hw tid fieldToken ptr v off =
     unless_concrete (stfld tid fieldToken ptr)
       (seq (mkop_p ptr) (\<lambda>a. void (send hw tid off [a, mkop_8 v])))"

definition Track_Stfld_f4 :: "hw \<Rightarrow> u64 \<Rightarrow> u32 \<Rightarrow> u64 \<Rightarrow> u32 \<Rightarrow> u32 \<Rightarrow> unit prog" where
  "Track_Stfld_f4 hw tid fieldToken ptr v off =
     unless_concrete (stfld tid fieldToken ptr)
       (seq (mkop_p ptr) (\<lambda>a. void (send hw tid off [a, mkop_f4 (widen hw) v])))"

definition Track_Stfld_f8 :: "hw \<Rightarrow> u64 \<Rightarrow> u32 \<Rightarrow> u64 \<Rightarrow> u64 \<Rightarrow> u32 \<Rightarrow> unit prog" where
  "Track_Stfld_f8 hw tid fieldToken ptr v off =
     unless_concrete (stfld tid fieldToken ptr)
       (seq (mkop_p ptr) (\<lambda>a. void (send hw tid off [a, mkop_f8 v])))"

definition Track_Stfld_p :: "hw \<Rightarrow> u64 \<Rightarrow> u32 \<Rightarrow> u64 \<Rightarrow> u64 \<Rightarrow> u32 \<Rightarrow> unit prog" where
  "Track_Stfld_p hw tid fieldToken ptr v off =
     unless_concrete (stfld tid fieldToken ptr)
       (seq (mkop_p ptr) (\<lambda>a. seq (mkop_p v) (\<lambda>b. void (send hw tid off [a, b]))))"

definition Track_Stfld_struct :: "hw \<Rightarrow> u64 \<Rightarrow> u32 \<Rightarrow> u64 \<Rightarrow> u64 \<Rightarrow> u32 \<Rightarrow> unit prog" where
  "Track_Stfld_struct hw tid fieldToken ptr v off =
     unless_concrete (stfld tid fieldToken ptr)
       (seq (mkop_p ptr) (\<lambda>a. seq (mkop_struct v) (\<lambda>b. void (send hw tid off [a, b]))))"

definition Track_Ldsfld :: "u64 \<Rightarrow> u32 \<Rightarrow> u32 \<Rightarrow> unit prog" where
  "Track_Ldsfld tid fieldToken off =
     f_push1Concrete tid"

definition Track_Ldsflda :: "u64 \<Rightarrow> u64 \<Rightarrow> unit prog" where
  "Track_Ldsflda tid ptr =
     f_push1Concrete tid"

definition Track_Stsfld :: "u64 \<Rightarrow> u32 \<Rightarrow> u32 \<Rightarrow> unit prog" where
  "Track_Stsfld tid fieldToken off =
     void (f_pop1 tid)"

definition Track_Ldelema :: "u64 \<Rightarrow> u64 \<Rightarrow> u64 \<Rightarrow> bool prog" where
  "Track_Ldelema tid ptr index =
     seq (f_pop1 tid) (\<lambda>concrete. if concrete then f_get tid peek0 else ret False)"

definition Track_Ldelem :: "u64 \<Rightarrow> u64 \<Rightarrow> u64 \<Rightarrow> bool prog" where
  "Track_Ldelem tid ptr index =
     seq (f_pop1 tid) (\<lambda>concrete. if concrete then f_get tid peek0 else ret False)"

definition Exec_Ldelema :: "u64 \<Rightarrow> u64 \<Rightarrow> u32 \<Rightarrow> unit prog" where
  "Exec_Ldelema x0 x1 x2 =
     ret ()"

definition Exec_Ldelem :: "u64 \<Rightarrow> u64 \<Rightarrow> u32 \<Rightarrow> unit prog" where
  "Exec_Ldelem x0 x1 x2 =
     ret ()"

definition Track_Stelem :: "u64 \<Rightarrow> u64 \<Rightarrow> u64 \<Rightarrow> bool prog" where
  "Track_Stelem tid ptr index =
     f_pop tid 3"

definition Exec_Stelem_I :: "u64 \<Rightarrow> u64 \<Rightarrow> u64 \<Rightarrow> u32 \<Rightarrow> unit prog" where
  "Exec_Stelem_I x0 x1 x2 x3 =
     ret ()"

definition Exec_Stelem_I1 :: "u64 \<Rightarrow> u64 \<Rightarrow> byte \<Rightarrow> u32 \<Rightarrow> unit prog" where
  "Exec_Stelem_I1 x0 x1 x2 x3 =
     ret ()"

definition Exec_Stelem_I2 :: "u64 \<Rightarrow> u64 \<Rightarrow> u16 \<Rightarrow> u32 \<Rightarrow> unit prog" where
  "Exec_Stelem_I2 x0 x1 x2 x3 =
     ret ()"

definition Exec_Stelem_I4 :: "u64 \<Rightarrow> u64 \<Rightarrow> u32 \<Rightarrow> u32 \<Rightarrow> unit prog" where
  "Exec_Stelem_I4 x0 x1 x2 x3 =
     ret ()"

definition Exec_Stelem_I8 :: "u64 \<Rightarrow> u64 \<Rightarrow> u64 \<Rightarrow> u32 \<Rightarrow> unit prog" where
  "Exec_Stelem_I8 x0 x1 x2 x3 =
     ret ()"

definition Exec_Stelem_R4 :: "u64 \<Rightarrow> u64 \<Rightarrow> u32 \<Rightarrow> u32 \<Rightarrow> unit prog" where
  "Exec_Stelem_R4 x0 x1 x2 x3 =
     ret ()"

definition Exec_Stelem_R8 :: "u64 \<Rightarrow> u64 \<Rightarrow> u64 \<Rightarrow> u32 \<Rightarrow> unit prog" where
  "Exec_Stelem_R8 x0 x1 x2 x3 =
     ret ()"

definition Exec_Stelem_Ref :: "u64 \<Rightarrow> u64 \<Rightarrow> u64 \<Rightarrow> u32 \<Rightarrow> unit prog" where
  "Exec_Stelem_Ref x0 x1 x2 x3 =
     ret ()"

definition Exec_Stelem_Struct :: "u64 \<Rightarrow> u64 \<Rightarrow> u64 \<Rightarrow> u32 \<Rightarrow> unit prog" where
  "Exec_Stelem_Struct x0 x1 x2 x3 =
     ret ()"

definition Track_Ckfinite :: "unit prog" where
  "Track_Ckfinite =
     ret ()"

definition Track_Sizeof :: "u64 \<Rightarrow> unit prog" where
  "Track_Sizeof tid =
     f_push1Concrete tid"

definition Track_Ldftn :: "u64 \<Rightarrow> unit prog" where
  "Track_Ldftn tid =
     f_push1Concrete tid"

definition Track_Arglist :: "u64 \<Rightarrow> unit prog" where
  "Track_Arglist tid =
     f_push1Concrete tid"

definition Track_Ldvirtftn :: "u64 \<Rightarrow> u32 \<Rightarrow> u32 \<Rightarrow> unit prog" where
  "Track_Ldvirtftn x0 x1 x2 =
     ret ()"

definition Track_Mkrefany :: "u64 \<Rightarrow> unit prog" where
  "Track_Mkrefany tid =
     void (f_pop1 tid)"

subsection \<open>Calls and returns\<close>

definition enter_frame :: "u32 \<Rightarrow> u32 \<Rightarrow> u32 \<Rightarrow> u32 \<Rightarrow> stack \<Rightarrow> (unit \<times> stack) res" where
  "enter_frame token maxStack argsCount localsCount s =
     and_then (check (\<not> stack_isEmpty s) Assert_failed) (\<lambda>_.
     and_then (stack_topFrame s) (\<lambda>frm.
     let expected = m_resolvedToken frm in
     and_then (if expected = 0 \<or> expected = token
               then on_topFrame (\<lambda>f. Inr ((), setSpontaneous False f)) s
               else and_then (pushFrame token token (replicate (unat argsCount) True) argsCount s)
                      (on_topFrame (\<lambda>f. Inr ((), setSpontaneous True f)))) (\<lambda>(_, s).
     on_topFrame (\<lambda>f. Inr ((), frame_configure maxStack localsCount (setEnteredMarker True f))) s)))"

definition Track_Enter :: "u64 \<Rightarrow> u32 \<Rightarrow> u32 \<Rightarrow> u32 \<Rightarrow> u32 \<Rightarrow> unit prog" where
  "Track_Enter tid token maxStack argsCount localsCount =
     with_stack tid (enter_frame token maxStack argsCount localsCount)"

definition Track_EnterMain :: "u64 \<Rightarrow> u32 \<Rightarrow> u16 \<Rightarrow> bool \<Rightarrow> u32 \<Rightarrow> u32 \<Rightarrow> unit prog" where
  "Track_EnterMain tid token argsCount argsConcreteness maxStack localsCount =
     seq (\<lambda>s. Inr ((), s\<lparr>mem := mainEntered (mem s)\<rparr>)) (\<lambda>_.
     seq (with_stack tid (\<lambda>s.
         and_then (check (stack_isEmpty s) Assert_failed) (\<lambda>_.
         and_then (pushFrame token token (replicate (unat argsCount) argsConcreteness) (ucast argsCount) s)
           (\<lambda>s. Inr ((), s))))) (\<lambda>_.
     seq (Track_Enter tid token maxStack (ucast argsCount) localsCount) (\<lambda>_.
     with_stack tid (\<lambda>s. Inr ((), stack_resetPopsTracking 1 s)))))"

text \<open>
  \<^verbatim>\<open>Track_Leave\<close> keeps the reference \<^verbatim>\<open>top\<close> to the last frame of the deque while it pops frames, so the
  reference is modelled as the position of the frame. A frame lives as long as its position is
  in the deque; the argument \<open>dead\<close> is what a read of a destroyed frame yields: \<open>Inl Dangling_pointer\<close>
  if it is an error, \<open>Inr g\<close> if the memory is still there and holds \<open>g\<close>.
\<close>

definition frame_at :: "stack_frame res \<Rightarrow> nat \<Rightarrow> stack \<Rightarrow> stack_frame res" where
  "frame_at dead pos s = (if pos < length (m_frames s) then Inr (m_frames s ! pos) else dead)"

definition leave_frame :: "stack_frame res \<Rightarrow> byte \<Rightarrow> stack \<Rightarrow> (unit \<times> stack) res" where
  "leave_frame dead returnValues s =
     and_then (stack_topFrame s) (\<lambda>frm.
     let top = length (m_frames s) - 1 in
     and_then (check (returnValues = 0 \<or> returnValues = 1) Assert_failed) (\<lambda>_.
     if frame_count frm \<noteq> ucast returnValues
     then Inl (Fail_loud ''Corrupted stack: stack is not empty when popping frame!'')
     else if returnValues \<noteq> 0
     then and_then (on_topFrame pop1 s) (\<lambda>(returnValue, s).
          and_then (popFrame s) (\<lambda>s.
          if \<not> stack_isEmpty s
          then and_then (frame_at dead top s) (\<lambda>frm.
               if \<not> m_spontaneous frm
               then on_topFrame (\<lambda>f. and_then (push1 returnValue f) (\<lambda>f. Inr ((), f))) s
               else Inr ((), s))
          else Inl (Fail_loud ''Function returned result, but there is no frame to push return value!'')))
     else and_then (popFrame s) (\<lambda>s. Inr ((), s))))"

definition Track_Leave :: "stack_frame res \<Rightarrow> u64 \<Rightarrow> byte \<Rightarrow> u32 \<Rightarrow> unit prog" where
  "Track_Leave dead tid returnValues off = with_stack tid (leave_frame dead returnValues)"

definition leaveMain :: "hw \<Rightarrow> u64 \<Rightarrow> u32 \<Rightarrow> eval_operand list \<Rightarrow> unit prog" where
  "leaveMain hw tid off ops =
     seq (if ops \<noteq> [] then void (f_pop1 tid) else f_get tid (\<lambda>_. Inr ())) (\<lambda>_.
     seq (send hw tid off ops) (\<lambda>_.
     seq (if ops \<noteq> [] then void (f_pop1 tid) else ret ()) (\<lambda>_.
     with_stack tid (\<lambda>s. and_then (popFrame s) (\<lambda>s. Inr ((), s))))))"

definition Track_LeaveMain_0 :: "hw \<Rightarrow> u64 \<Rightarrow> u32 \<Rightarrow> unit prog" where
  "Track_LeaveMain_0 hw tid off = leaveMain hw tid off []"

definition Track_LeaveMain_4 :: "hw \<Rightarrow> u64 \<Rightarrow> u32 \<Rightarrow> u32 \<Rightarrow> unit prog" where
  "Track_LeaveMain_4 hw tid returnValue off = leaveMain hw tid off [mkop_4 returnValue]"

definition Track_LeaveMain_8 :: "hw \<Rightarrow> u64 \<Rightarrow> u64 \<Rightarrow> u32 \<Rightarrow> unit prog" where
  "Track_LeaveMain_8 hw tid returnValue off = leaveMain hw tid off [mkop_8 returnValue]"

definition Track_LeaveMain_f4 :: "hw \<Rightarrow> u64 \<Rightarrow> u32 \<Rightarrow> u32 \<Rightarrow> unit prog" where
  "Track_LeaveMain_f4 hw tid returnValue off = leaveMain hw tid off [mkop_f4 (widen hw) returnValue]"

definition Track_LeaveMain_f8 :: "hw \<Rightarrow> u64 \<Rightarrow> u64 \<Rightarrow> u32 \<Rightarrow> unit prog" where
  "Track_LeaveMain_f8 hw tid returnValue off = leaveMain hw tid off [mkop_f8 returnValue]"

definition Track_LeaveMain_p :: "hw \<Rightarrow> u64 \<Rightarrow> u64 \<Rightarrow> u32 \<Rightarrow> unit prog" where
  "Track_LeaveMain_p hw tid returnValue off =
     seq (mkop_p returnValue) (\<lambda>a. leaveMain hw tid off [a])"

definition finalize_call :: "byte \<Rightarrow> stack \<Rightarrow> (unit \<times> stack) res" where
  "finalize_call returnValues s =
     and_then (stack_topFrame s) (\<lambda>frm.
       if \<not> m_enteredMarker frm
       then and_then (popFrame s) (\<lambda>s.
            and_then (check (returnValues = 0 \<or> returnValues = 1) Assert_failed) (\<lambda>_.
            if stack_isEmpty s
            then Inl (Fail_loud ''Corrupted stack: stack is empty after executing external function!'')
            else if returnValues \<noteq> 0
            then on_topFrame (\<lambda>f. and_then (push1Concrete f) (\<lambda>f. Inr ((), f))) s
            else Inr ((), s)))
       else Inr ((), s))"

definition Finalize_Call :: "u64 \<Rightarrow> byte \<Rightarrow> unit prog" where
  "Finalize_Call tid returnValues = with_stack tid (finalize_call returnValues)"

definition Exec_Call :: "hw \<Rightarrow> u64 \<Rightarrow> u32 \<Rightarrow> u32 \<Rightarrow> unit prog" where
  "Exec_Call hw tid argsCount off =
     seq (createOps (widen hw) argsCount) (\<lambda>ops.
     void (sendCommand (narrow hw) tid off argsCount ops))"

definition Track_Call :: "u64 \<Rightarrow> u16 \<Rightarrow> bool prog" where
  "Track_Call tid argsCount = with_stack tid (on_topFrame (pop (ucast argsCount)))"

definition memset_bool :: "nat \<Rightarrow> nat \<Rightarrow> bool \<Rightarrow> bool list \<Rightarrow> bool list res" where
  "memset_bool i n v xs =
     (if i + n \<le> length xs then Inr (take i xs @ replicate n v @ drop (i + n) xs) else Inl Out_of_bounds)"

definition set_arg_symbolic :: "u16 \<Rightarrow> u32 \<times> u32 \<Rightarrow> bool list \<Rightarrow> bool list res" where
  "set_arg_symbolic argsCount pair args =
     and_then (check (uint argsCount - sint (snd pair) - 1 \<ge> 0) Assert_failed) (\<lambda>_.
     let idx = ucast argsCount - snd pair - 1 :: u32 in
     and_then (check (idx < ucast argsCount) Assert_failed) (\<lambda>_.
     if unat idx < length args then Inr (args[unat idx := False]) else Inl Out_of_bounds))"

definition push_call_frame :: "u32 \<Rightarrow> u32 \<Rightarrow> bool \<Rightarrow> u16 \<Rightarrow> stack \<Rightarrow> (unit \<times> stack) res" where
  "push_call_frame unresolvedToken resolvedToken newobj argsCount s =
     and_then (stack_topFrame s) (\<lambda>frm.
     let argsCount = (if newobj then argsCount + 1 else argsCount);
         args = replicate (unat argsCount) False in
     and_then (if newobj then memset_bool 0 1 True args else Inr args) (\<lambda>args.
     and_then (memset_bool (if newobj then 1 else 0) (unat argsCount) True args) (\<lambda>args.
     and_then (fold_res (set_arg_symbolic argsCount) (m_lastPoppedSymbolics frm) args) (\<lambda>args.
     and_then (pushFrame resolvedToken unresolvedToken args (ucast argsCount) s) (\<lambda>s.
     Inr ((), s))))))"

definition PushFrame :: "u64 \<Rightarrow> u32 \<Rightarrow> u32 \<Rightarrow> bool \<Rightarrow> u16 \<Rightarrow> u32 \<Rightarrow> unit prog" where
  "PushFrame tid unresolvedToken resolvedToken newobj argsCount off =
     with_stack tid (push_call_frame unresolvedToken resolvedToken newobj argsCount)"

definition Track_CallVirt :: "u64 \<Rightarrow> u16 \<Rightarrow> u32 \<Rightarrow> unit prog" where
  "Track_CallVirt tid cnt off = seq (Track_Call tid cnt) (\<lambda>_. PushFrame tid 0 0 False cnt off)"

definition Track_Newobj :: "u64 \<Rightarrow> u64 \<Rightarrow> unit prog" where
  "Track_Newobj tid ptr = f_push1Concrete tid"

definition Track_Calli :: "u32 \<Rightarrow> u32 \<Rightarrow> unit prog" where
  "Track_Calli signature off = fail (Fail_loud ''CALLI NOT IMLEMENTED!'')"

definition Track_Throw :: "u64 \<Rightarrow> u32 \<Rightarrow> unit prog" where
  "Track_Throw tid off = void (f_pop1 tid)"

definition Track_Rethrow :: "u32 \<Rightarrow> unit prog" where
  "Track_Rethrow off = ret ()"

subsection \<open>Handing over operands\<close>

definition m_clear :: "operands \<Rightarrow> operands res" where
  "m_clear m = Inr (clear_mem m)"

definition then_mem :: "(operands \<Rightarrow> operands res) \<Rightarrow> (operands \<Rightarrow> operands res) \<Rightarrow> unit prog" where
  "then_mem p q = with_operands (\<lambda>m. and_then (p m) q)"

definition if_first :: "byte \<Rightarrow> operands \<Rightarrow> operands res" where
  "if_first order m = Inr (if order = 0 then clear_mem m else m)"

definition Mem_p :: "u64 \<Rightarrow> unit prog" where
  "Mem_p arg = then_mem m_clear (mem_p arg)"

definition Mem_1_idx :: "byte \<Rightarrow> byte \<Rightarrow> byte \<Rightarrow> unit prog" where
  "Mem_1_idx arg idx order = then_mem (if_first order) (mem_i1_at arg idx)"

definition Mem_2_idx :: "u16 \<Rightarrow> byte \<Rightarrow> byte \<Rightarrow> unit prog" where
  "Mem_2_idx arg idx order = then_mem (if_first order) (mem_i2_at arg idx)"

definition Mem_4_idx :: "u32 \<Rightarrow> byte \<Rightarrow> byte \<Rightarrow> unit prog" where
  "Mem_4_idx arg idx order = then_mem (if_first order) (mem_i4_at arg idx)"

definition Mem_8_idx :: "u64 \<Rightarrow> byte \<Rightarrow> byte \<Rightarrow> unit prog" where
  "Mem_8_idx arg idx order = then_mem (if_first order) (mem_i8_at arg idx)"

definition Mem_f4_idx :: "u32 \<Rightarrow> byte \<Rightarrow> byte \<Rightarrow> unit prog" where
  "Mem_f4_idx arg idx order = then_mem (if_first order) (mem_f4_at arg idx)"

definition Mem_f8_idx :: "u64 \<Rightarrow> byte \<Rightarrow> byte \<Rightarrow> unit prog" where
  "Mem_f8_idx arg idx order = then_mem (if_first order) (mem_f8_at arg idx)"

definition Mem_p_idx :: "u64 \<Rightarrow> byte \<Rightarrow> byte \<Rightarrow> unit prog" where
  "Mem_p_idx arg idx order = then_mem (if_first order) (mem_p_at arg idx)"

definition Mem2_4 :: "u32 \<Rightarrow> u32 \<Rightarrow> unit prog" where
  "Mem2_4 arg1 arg2 = then_mem m_clear (\<lambda>m. and_then (mem_i4 arg1 m) (mem_i4 arg2))"

definition Mem2_8 :: "u64 \<Rightarrow> u64 \<Rightarrow> unit prog" where
  "Mem2_8 arg1 arg2 = then_mem m_clear (\<lambda>m. and_then (mem_i8 arg1 m) (mem_i8 arg2))"

definition Mem2_f4 :: "u32 \<Rightarrow> u32 \<Rightarrow> unit prog" where
  "Mem2_f4 arg1 arg2 = then_mem m_clear (\<lambda>m. and_then (mem_f4 arg1 m) (mem_f4 arg2))"

definition Mem2_f8 :: "u64 \<Rightarrow> u64 \<Rightarrow> unit prog" where
  "Mem2_f8 arg1 arg2 = then_mem m_clear (\<lambda>m. and_then (mem_f8 arg1 m) (mem_f8 arg2))"

definition Mem2_8_4 :: "u64 \<Rightarrow> u32 \<Rightarrow> unit prog" where
  "Mem2_8_4 arg1 arg2 = then_mem m_clear (\<lambda>m. and_then (mem_i8 arg1 m) (mem_i4 arg2))"

definition Unmem_1 :: "byte \<Rightarrow> byte prog" where
  "Unmem_1 idx = get_operands (unmem_i1 idx)"

definition Unmem_2 :: "byte \<Rightarrow> u16 prog" where
  "Unmem_2 idx = get_operands (unmem_i2 idx)"

definition Unmem_4 :: "byte \<Rightarrow> u32 prog" where
  "Unmem_4 idx = get_operands (unmem_i4 idx)"

definition Unmem_8 :: "byte \<Rightarrow> u64 prog" where
  "Unmem_8 idx = get_operands (unmem_i8 idx)"

definition Unmem_f4 :: "byte \<Rightarrow> u32 prog" where
  "Unmem_f4 idx = get_operands (unmem_f4 idx)"

definition Unmem_f8 :: "byte \<Rightarrow> u64 prog" where
  "Unmem_f8 idx = get_operands (unmem_f8 idx)"

definition Unmem_p :: "byte \<Rightarrow> u64 prog" where
  "Unmem_p idx = get_operands (unmem_p idx)"

text \<open>
  \<^verbatim>\<open>DumpInstruction\<close> looks the string up with \<^verbatim>\<open>operator[]\<close>, which enters a null pointer
  for an index the pool does not have.
\<close>

definition DumpInstruction :: "u64 \<Rightarrow> u32 \<Rightarrow> unit prog" where
  "DumpInstruction tid index s =
     (let pool = stringsPool (mem s);
          pool' = (if pool index = None then pool(index \<mapsto> None) else pool);
          s = s\<lparr>mem := (mem s)\<lparr>stringsPool := pool'\<rparr>\<rparr>
      in if pool' index = Some None then Inr ((), s) else f_get tid (\<lambda>_. Inr ()) s)"

text \<open>The addresses of the probes, in the order of their declarations.\<close>

definition registerProbe :: "u64 \<Rightarrow> u64 list \<Rightarrow> u64 list" where
  "registerProbe probe probesAddresses = probesAddresses @ [probe]"

subsection \<open>Calls hand over the concreteness of the arguments\<close>

lemma set_arg_symbolic_eq:
  assumes "k < unat n" and "length args = unat n"
  shows "set_arg_symbolic n (c, word_of_nat k) args = Inr (args[unat n - 1 - k := False])"
proof -
  have "unat n < 2 ^ LENGTH(16)"
    by (rule unsigned_less)
  then have n: "unat (ucast n :: u32) = unat n" "unat n < 2 ^ 16"
    by (simp_all add: unsigned_ucast_eq take_bit_nat_eq_self)
  note i = index_from_top [of k "ucast n"]
  have "sint (word_of_nat k :: u32) = int k"
    using assms(1) n(2) by (simp add: signed_of_nat signed_take_bit_int_eq_self)
  moreover have "uint n = int (unat n)"
    by simp
  ultimately have "uint n - sint (word_of_nat k :: u32) - 1 \<ge> 0"
    using assms(1) by linarith
  then show ?thesis
    using i n assms by (simp add: set_arg_symbolic_def Let_def)
qed

lemma fold_set_arg_symbolic:
  assumes "length args = unat n" and "\<forall>k \<in> set ks. k < unat n"
  shows "\<exists>args'. fold_res (set_arg_symbolic n) (map (\<lambda>k. (c k, word_of_nat k)) ks) args = Inr args' \<and>
    length args' = unat n \<and>
    (\<forall>k < unat n. args' ! (unat n - 1 - k) = (args ! (unat n - 1 - k) \<and> k \<notin> set ks))"
  using assms
proof (induction ks arbitrary: args)
  case (Cons k ks)
  let ?args = "args[unat n - 1 - k := False]"
  obtain args' where args': "fold_res (set_arg_symbolic n) (map (\<lambda>k. (c k, word_of_nat k)) ks) ?args = Inr args'"
      "length args' = unat n"
      "\<forall>j < unat n. args' ! (unat n - 1 - j) = (?args ! (unat n - 1 - j) \<and> j \<notin> set ks)"
    using Cons.IH [of ?args] Cons.prems by auto
  have "args' ! (unat n - 1 - j) = (args ! (unat n - 1 - j) \<and> j \<notin> set (k # ks))" if j: "j < unat n" for j
  proof -
    have "unat n - 1 - j = unat n - 1 - k \<longleftrightarrow> j = k"
      using j Cons.prems(2) by auto
    then show ?thesis
      using args'(3) j Cons.prems by (auto simp: nth_list_update)
  qed
  then show ?case
    using args' set_arg_symbolic_eq [of k n args "c k"] Cons.prems by simp
qed simp

lemma u16_bounds: "unat (ucast n :: u32) = unat (n :: u16)" "unat n < 2 ^ 16"
proof -
  have "unat n < 2 ^ LENGTH(16)"
    by (rule unsigned_less)
  then show "unat (ucast n :: u32) = unat n" "unat n < 2 ^ 16"
    by (simp_all add: unsigned_ucast_eq take_bit_nat_eq_self)
qed

lemma push_call_frame_args:
  assumes fr: "m_frames st = fs @ [f']"
    and f: "frame_inv f" "ucast n \<le> m_concretenessTop f" "pop (ucast n) f = Inr (b, f')"
  shows "\<exists>g. push_call_frame unresolved resolved False n st = Inr ((), st\<lparr>m_frames := fs @ [f', g]\<rparr>) \<and>
    m_args g = rev (take (unat n) (frame_stack f)) \<and> m_resolvedToken g = resolved \<and>
    m_unresolvedToken g = unresolved \<and> \<not> m_enteredMarker g \<and> \<not> m_spontaneous g"
proof -
  let ?n = "unat n" and ?cs = "rev (frame_cells f)"
  have n: "unat (ucast n :: u32) = ?n" "?n \<le> length ?cs"
    using f(2) frame_invD(6) [OF f(1)] by (simp_all add: u16_bounds word_le_nat_alt)
  define ks where "ks = filter (\<lambda>k. symbolic (?cs ! k)) [0 ..< ?n]"
  have ps: "m_lastPoppedSymbolics f' = map (\<lambda>k. (?cs ! k, word_of_nat k)) ks"
    using pop_spec [OF f(1,2)] f(3) n
    by (auto simp: popped_alt ks_def min_def intro!: map_cong filter_cong)
  obtain args where args: "fold_res (set_arg_symbolic n) (m_lastPoppedSymbolics f') (replicate ?n True) = Inr args"
      "length args = ?n" "\<forall>k < ?n. args ! (?n - 1 - k) = (k \<notin> set ks)"
    using fold_set_arg_symbolic [of "replicate ?n True" n ks "\<lambda>k. ?cs ! k"] by (auto simp: ps ks_def)
  have "args = rev (take ?n (frame_stack f))"
  proof (rule nth_equalityI)
    show "length args = length (rev (take ?n (frame_stack f)))"
      using args(2) n by (simp add: frame_stack_def)
    fix i
    assume "i < length args"
    then have i: "i < ?n" "?n - 1 - i < ?n" "?n - 1 - (?n - 1 - i) = i"
      using args(2) by auto
    have "args ! i = (?n - 1 - i \<notin> set ks)"
      using args(3) i by metis
    also have "\<dots> = frame_stack f ! (?n - 1 - i)"
      using i n by (simp add: ks_def frame_stack_def rev_map)
    also have "\<dots> = rev (take ?n (frame_stack f)) ! i"
      using i n by (simp add: rev_nth frame_stack_def)
    finally show "args ! i = rev (take ?n (frame_stack f)) ! i" .
  qed
  moreover obtain g where g: "mk_frame resolved unresolved args (ucast n) = Inr g" "m_args g = args"
      "m_resolvedToken g = resolved" "m_unresolvedToken g = unresolved" "\<not> m_enteredMarker g" "\<not> m_spontaneous g"
    using args(2) n(1) by (simp add: mk_frame_def frame_resetPopsTracking_def)
  moreover have "push_call_frame unresolved resolved False n st = Inr ((), st\<lparr>m_frames := fs @ [f', g]\<rparr>)"
    using fr args(1) g(1) by (simp add: push_call_frame_def stack_topFrame_def memset_bool_def pushFrame_def)
  ultimately show ?thesis
    by blast
qed

text \<open>
  Claim C34: a call that pops \<open>n\<close> operands and pushes a frame gives the callee one flag for each
  argument, in the order of the arguments: argument \<open>i\<close> is concrete exactly when the operand that
  was pushed for it was. The caller keeps the operands below the arguments.
\<close>

theorem call_passes_concreteness:
  assumes r: "ready tid s" and st: "m_frames (stack_of tid s) = fs @ [f]"
    and f: "frame_inv f" "unat n \<le> length (frame_stack f)"
  shows "\<exists>s' f' g. seq (Track_Call tid n) (\<lambda>_. PushFrame tid unresolved resolved False n off) s = Inr ((), s') \<and>
    m_frames (stack_of tid s') = fs @ [f', g] \<and>
    frame_stack f' = drop (unat n) (frame_stack f) \<and> frame_inv f' \<and>
    m_args g = rev (take (unat n) (frame_stack f)) \<and> m_unresolvedToken g = unresolved"
proof -
  have n: "ucast n \<le> m_concretenessTop f"
    using f(2) by (simp add: word_le_nat_alt u16_bounds length_frame_stack [OF f(1)])
  obtain b f' where p: "pop (ucast n) f = Inr (b, f')" "frame_inv f'"
      "frame_stack f' = drop (unat n) (frame_stack f)"
    using pop_spec [OF f(1) n] by (auto simp: u16_bounds)
  have "on_topFrame (pop (ucast n)) (stack_of tid s) = Inr (b, (stack_of tid s)\<lparr>m_frames := fs @ [f']\<rparr>)"
    using st p(1) by (simp add: on_topFrame_def stack_topFrame_def)
  from with_stack_success [where op = "on_topFrame (pop (ucast n))", OF r this]
  obtain s1 where s1: "Track_Call tid n s = Inr (b, s1)" "ready tid s1"
      "stack_of tid s1 = (stack_of tid s)\<lparr>m_frames := fs @ [f']\<rparr>"
    by (auto simp: Track_Call_def)
  then have fr: "m_frames (stack_of tid s1) = fs @ [f']"
    by simp
  obtain g where g: "push_call_frame unresolved resolved False n (stack_of tid s1) =
        Inr ((), (stack_of tid s1)\<lparr>m_frames := fs @ [f', g]\<rparr>)"
      "m_args g = rev (take (unat n) (frame_stack f))" "m_unresolvedToken g = unresolved"
    using push_call_frame_args [OF fr f(1) n p(1)] by blast
  from with_stack_success [where op = "push_call_frame unresolved resolved False n", OF s1(2) g(1)]
  show ?thesis
    using g p s1(1) by (fastforce simp: seq_def PushFrame_def)
qed

theorem call_passes_concreteness_witness:
  "\<exists>s' f' g. seq (Track_Call 7 2) (\<lambda>_. PushFrame 7 0x0A000001 0x06000002 False 2 0) sample_machine = Inr ((), s') \<and>
     m_frames (stack_of 7 s') = [f', g] \<and> m_args g = [True, False] \<and> frame_stack f' = [False]"
  using call_passes_concreteness [OF sample_machine_ready(1,2) sample_full_inv, of 2 "0x0A000001" "0x06000002" 0]
  by (fastforce simp: sample_full_stack)

text \<open>
  Claim C35: the frame of a constructor call is never set up inside the bounds: the flags of the
  arguments are filled from the second place on, but for as many places as the whole array has.
\<close>

theorem newobj_overflows:
  assumes "m_frames st \<noteq> []" and "n + 1 \<noteq> 0"
  shows "push_call_frame unresolved resolved True n st = Inl Out_of_bounds"
proof -
  have "1 \<le> unat (n + 1)"
    using assms(2) by (simp add: Suc_leI unat_gt_0)
  then show ?thesis
    using assms(1) by (simp add: push_call_frame_def stack_topFrame_def memset_bool_def Let_def)
qed

theorem newobj_overflows_witness:
  "push_call_frame 1 2 True 0 sample_stack = Inl Out_of_bounds"
  by (rule newobj_overflows) (simp_all add: sample_stack_def)

subsection \<open>Returns\<close>

lemma popFrame_frames:
  assumes "m_frames st = fs @ [g]" and "frame_isEmpty g"
  shows "\<exists>st'. popFrame st = Inr st' \<and> m_frames st' = fs"
  using assms by (simp add: popFrame_def popFrameUntracked_def)

lemma leave_frame_eq:
  assumes fr: "m_frames st = fs @ [f, g]" and g: "frame_inv g" "frame_stack g = [b]"
  shows "\<exists>st'. m_frames st' = fs @ [f] \<and>
    leave_frame dead 1 st = and_then dead (\<lambda>g.
      if \<not> m_spontaneous g then on_topFrame (\<lambda>f. and_then (push1 b f) (\<lambda>f. Inr ((), f))) st' else Inr ((), st'))"
proof -
  have one: "m_concretenessTop g = 1"
    using arg_cong [OF length_frame_stack [OF g(1)], of "word_of_nat :: nat \<Rightarrow> u32"] g(2) by simp
  obtain g' where g': "pop1 g = Inr (b, g')" "frame_stack g' = []" "frame_inv g'"
    using pop1_cases [OF g(1)] g(2) by (metis list.inject list.distinct(1))
  then have "frame_isEmpty g'"
    using length_frame_stack [OF g'(3)] by (simp add: frame_isEmpty_def unat_eq_0)
  then obtain st' where st': "popFrame (st\<lparr>m_frames := (fs @ [f]) @ [g']\<rparr>) = Inr st'" "m_frames st' = fs @ [f]"
    using popFrame_frames [of "st\<lparr>m_frames := (fs @ [f]) @ [g']\<rparr>" "fs @ [f]" g'] by auto
  have "on_topFrame pop1 st = Inr (b, st\<lparr>m_frames := (fs @ [f]) @ [g']\<rparr>)"
    using fr g'(1) by (simp add: on_topFrame_def stack_topFrame_def butlast_append)
  then show ?thesis
    using fr one st'
    by (intro exI [of _ st']) (simp add: leave_frame_def frame_at_def stack_topFrame_def frame_count_def stack_isEmpty_def)
qed

text \<open>
  if the memory of the destroyed frame still shows that the frame was entered from managed code, a return with one
  value pops the callee's frame and pushes the concreteness of the returned value on the caller's stack.
\<close>

theorem return_passes_value:
  assumes fr: "m_frames st = fs @ [f, g]" and g: "frame_inv g" "frame_stack g = [b]" "\<not> m_spontaneous g'"
    and f: "frame_inv f" "0 < frame_room f"
  shows "\<exists>st' f'. leave_frame (Inr g') 1 st = Inr ((), st') \<and> m_frames st' = fs @ [f'] \<and>
    frame_inv f' \<and> frame_stack f' = b # frame_stack f"
proof -
  obtain st1 where st1: "m_frames st1 = fs @ [f]"
      "leave_frame (Inr g') 1 st = on_topFrame (\<lambda>f. and_then (push1 b f) (\<lambda>f. Inr ((), f))) st1"
    using leave_frame_eq [OF fr g(1,2), of "Inr g'"] g(3) by auto
  obtain f' where "push1 b f = Inr f'" "frame_inv f'" "frame_stack f' = b # frame_stack f"
    using frm.push_law [OF f, of b] by blast
  then show ?thesis
    using st1 by (simp add: on_topFrame_def stack_topFrame_def)
qed

definition sample_call_stack :: stack where
  "sample_call_stack = \<lparr>m_frames = [frame_configure 3 0 sample_frame, (frame_configure 1 0 sample_frame)
       \<lparr>m_concreteness := [Some CONCRETE], m_concretenessTop := 1\<rparr>],
     m_lastSentTop = 0, m_minTopSinceLastSent = 0\<rparr>"

lemma sample_call_stack_frames:
  "m_frames sample_call_stack = [] @ [frame_configure 3 0 sample_frame, (frame_configure 1 0 sample_frame)
     \<lparr>m_concreteness := [Some CONCRETE], m_concretenessTop := 1\<rparr>]"
  by (simp add: sample_call_stack_def)

theorem return_passes_value_witness:
  "\<exists>st' f'. leave_frame (Inr sample_frame) 1 sample_call_stack = Inr ((), st') \<and> m_frames st' = [f']
     \<and> frame_stack f' = [True]"
  using return_passes_value [OF sample_call_stack_frames, of True sample_frame]
  by (fastforce simp: frame_inv_def frame_room_def frame_stack_def frame_configure_def sample_frame_def
      frame_cells_def symbolic_def)

text \<open>
  A return with one value to a caller reads the frame it has just destroyed: if such a read is an error,
  so is the return, and if the memory was reused and now shows a spontaneous frame, the returned
  value is lost and nothing is pushed on the caller's stack, whatever the flag of the frame was.
\<close>

theorem return_reads_destroyed_frame:
  assumes "m_frames st = fs @ [f, g]" and "frame_inv g" and "frame_stack g = [b]" and "m_spontaneous g'"
  shows "leave_frame (Inl Dangling_pointer) 1 st = Inl Dangling_pointer
    \<and> (\<exists>st'. leave_frame (Inr g') 1 st = Inr ((), st') \<and> m_frames st' = fs @ [f])"
  using leave_frame_eq [OF assms(1-3), of "Inl Dangling_pointer"] leave_frame_eq [OF assms(1-3), of "Inr g'"] assms(4)
  by auto

theorem return_reads_destroyed_frame_witness:
  "leave_frame (Inl Dangling_pointer) 1 sample_call_stack = Inl Dangling_pointer"
  using return_reads_destroyed_frame [OF sample_call_stack_frames, of True "setSpontaneous True sample_frame"]
  by (simp add: frame_inv_def frame_stack_def frame_configure_def sample_frame_def
      frame_cells_def symbolic_def setSpontaneous_def)

subsection \<open>Operators and locals\<close>

lemma f_push1Concrete_success:
  assumes "ready tid s" and "m_frames (stack_of tid s) = fs @ [f]" and "frame_inv f" "0 < frame_room f"
  shows "\<exists>s' f'. f_push1Concrete tid s = Inr ((), s') \<and> ready tid s' \<and>
    m_frames (stack_of tid s') = fs @ [f'] \<and> frame_inv f' \<and> frame_stack f' = True # frame_stack f"
proof -
  obtain f' where f': "push1 True f = Inr f'" "frame_inv f'" "frame_stack f' = True # frame_stack f"
    using frm.push_law [OF assms(3,4), of True] by blast
  have "(\<lambda>f. and_then (push1Concrete f) (\<lambda>f. Inr ((), f))) f = Inr ((), f')"
    using f'(1) by (simp add: push1Concrete_def)
  from with_frame_success [where op = "\<lambda>f. and_then (push1Concrete f) (\<lambda>f. Inr ((), f))", OF assms(1,2) this]
  show ?thesis
    using f' by (fastforce simp: f_push1Concrete_def)
qed

text \<open>
  a binary operator pops two operands; when both are concrete it pushes a concrete
  result, otherwise it leaves the push to the symbolic engine and tells the caller so.
\<close>

theorem binop_effect:
  assumes r: "ready tid s" and st: "m_frames (stack_of tid s) = fs @ [f]"
    and f: "frame_inv f" "frame_stack f = a # b # rest"
  shows "\<exists>s' f'. Track_BinOp tid s = Inr (a \<and> b, s') \<and> m_frames (stack_of tid s') = fs @ [f'] \<and>
    frame_inv f' \<and> frame_stack f' = (if a \<and> b then True # rest else rest)"
proof -
  have "2 \<le> m_concretenessTop f"
    using length_frame_stack [OF f(1)] f(2) by (simp add: word_le_nat_alt)
  then obtain f1 where f1: "pop 2 f = Inr (a \<and> b, f1)" "frame_inv f1" "frame_stack f1 = rest" "m_capacity f1 = m_capacity f"
    using pop_spec [OF f(1)] f(2) by fastforce
  obtain s1 where s1: "f_pop tid 2 s = Inr (a \<and> b, s1)" "ready tid s1" "m_frames (stack_of tid s1) = fs @ [f1]"
    using with_frame_success [where op = "pop 2", OF r st f1(1)] by (auto simp: f_pop_def)
  have "0 < frame_room f1"
    using frame_room_stack [OF f1(2)] f1(3,4) length_frame_stack [OF f(1)] f(2) frame_invD(1) [OF f(1)] by simp
  then show ?thesis
    using s1 f1 f_push1Concrete_success [OF s1(2,3) f1(2)]
    by (cases "a \<and> b") (auto simp: Track_BinOp_def seq_def ret_def)
qed

theorem binop_effect_witness:
  "\<exists>s' f'. Track_BinOp 7 sample_machine = Inr (False, s') \<and> m_frames (stack_of 7 s') = [f'] \<and> frame_stack f' = [False]"
  using binop_effect [OF sample_machine_ready(1,2) sample_full_inv sample_full_stack] by auto

end
