(* ===== verification/Sig_Parser.thy ===== *)
theory Sig_Parser
  imports VPrelude
begin

unbundle bit_operations_syntax

section \<open>The parser of metadata signatures\<close>

text \<open>
  \<^verbatim>\<open>sigparse.h\<close>: a recursive-descent parser of the signatures of methods, fields, properties and local
  variables, which reports what it reads to callbacks. Tokens are read by \<^verbatim>\<open>CorSigUncompressToken\<close> of
  \<^verbatim>\<open>cor.h\<close>.

  The state is the part of the blob between \<^verbatim>\<open>pbCur\<close> and \<^verbatim>\<open>pbEnd\<close> and the list of the
  callbacks made so far. A parsing function returns \<open>None\<close> where the code returns false; a read behind the
  end of the blob is the failure \<open>Out_of_bounds\<close>. The function for types calls itself through the
  functions for methods and parameters; these take the parser of types as an argument, and the recursion
  \<open>ParseType\<close> has the depth of the nesting as fuel. The length of the blob is always enough.
\<close>

type_synonym sig_count = u32

datatype sig_event =
  NotifyBeginMethod byte | NotifyEndMethod | NotifyParamCount sig_count
| NotifyBeginRetType | NotifyEndRetType | NotifyBeginParam | NotifyEndParam | NotifySentinal
| NotifyGenericParamCount sig_count
| NotifyBeginField byte | NotifyEndField
| NotifyBeginLocals byte | NotifyEndLocals | NotifyLocalsCount sig_count
| NotifyBeginLocal | NotifyEndLocal | NotifyConstraint byte
| NotifyBeginProperty byte | NotifyEndProperty
| NotifyBeginArrayShape | NotifyEndArrayShape | NotifyRank sig_count
| NotifyNumSizes sig_count | NotifySize sig_count | NotifyNumLoBounds sig_count | NotifyLoBound sig_count
| NotifyBeginType | NotifyEndType | NotifyTypedByref | NotifyByref | NotifyVoid
| NotifyCustomMod byte u32 | NotifyTypeSimple byte | NotifyTypeDefOrRef u32
| NotifyTypeGenericInst byte u32 u32 | NotifyTypeGenericTypeVariable u32
| NotifyTypeGenericMemberVariable u32
| NotifyTypeValueType | NotifyTypeClass | NotifyTypePointer | NotifyTypeFunctionPointer
| NotifyTypeArray | NotifyTypeSzArray

record sig_parser =
  unread :: "byte list"
  notified :: "sig_event list"

subsection \<open>Sequencing\<close>

type_synonym 'a parsing = "sig_parser \<Rightarrow> ('a option \<times> sig_parser) res"

definition parsed :: "'a \<Rightarrow> 'a parsing" where
  "parsed x s = Inr (Some x, s)"

definition return_false :: "'a parsing" where
  "return_false s = Inr (None, s)"

definition and_parse :: "'a parsing \<Rightarrow> ('a \<Rightarrow> 'b parsing) \<Rightarrow> 'b parsing" where
  "and_parse m f s =
     and_then (m s) (\<lambda>(r, s). case r of None \<Rightarrow> Inr (None, s) | Some x \<Rightarrow> f x s)"

definition notify :: "sig_event \<Rightarrow> unit parsing" where
  "notify e s = Inr (Some (), s\<lparr>notified := notified s @ [e]\<rparr>)"

text \<open>The byte at \<^verbatim>\<open>pbCur\<close> after the test \<^verbatim>\<open>if (pbCur >= pbEnd) return false\<close>.\<close>

definition current :: "byte parsing" where
  "current s = (case unread s of [] \<Rightarrow> Inr (None, s) | b # _ \<Rightarrow> Inr (Some b, s))"

definition advance :: "unit parsing" where
  "advance s = Inr (Some (), s\<lparr>unread := tl (unread s)\<rparr>)"

text \<open>The loop \<^verbatim>\<open>for (i = 0; i < n; i++) if (!p) return false\<close>.\<close>

primrec repeat_parse :: "nat \<Rightarrow> unit parsing \<Rightarrow> unit parsing" where
  "repeat_parse 0 p = parsed ()"
| "repeat_parse (Suc n) p = and_parse p (\<lambda>_. repeat_parse n p)"

subsection \<open>Bytes, numbers and tokens\<close>

definition ParseByte :: "byte parsing" where
  "ParseByte s =
     (case unread s of [] \<Rightarrow> Inr (None, s) | b # bs \<Rightarrow> Inr (Some b, s\<lparr>unread := bs\<rparr>))"

definition ParseNumber :: "sig_count parsing" where
  "ParseNumber =
     and_parse ParseByte (\<lambda>b1.
     if b1 = 0xff then return_false
     else if b1 AND 0x80 = 0 then parsed (ucast b1)
     else and_parse ParseByte (\<lambda>b2.
     if b1 AND 0x40 = 0 then parsed (push_bit 8 (ucast b1 AND 0x3f) OR ucast b2)
     else if b1 AND 0x20 \<noteq> 0 then return_false
     else and_parse ParseByte (\<lambda>b3.
          and_parse ParseByte (\<lambda>b4.
          parsed (push_bit 24 (ucast b1 AND 0x1f) OR push_bit 16 (ucast b2) OR push_bit 8 (ucast b3)
                  OR ucast b4)))))"

text \<open>The reads of the runtime's functions are not bounded by the end of the blob.\<close>

fun CorSigUncompressData :: "byte list \<Rightarrow> (u32 \<times> byte list) res" where
  "CorSigUncompressData (b1 # bs) =
     (if b1 AND 0x80 = 0 then Inr (ucast b1, bs)
      else if b1 AND 0xC0 = 0x80
      then (case bs of b2 # bs \<Rightarrow> Inr (push_bit 8 (ucast b1 AND 0x3f) OR ucast b2, bs)
            | _ \<Rightarrow> Inl Out_of_bounds)
      else (case bs of b2 # b3 # b4 # bs \<Rightarrow>
              Inr (push_bit 24 (ucast b1 AND 0x1f) OR push_bit 16 (ucast b2) OR push_bit 8 (ucast b3)
                   OR ucast b4, bs)
            | _ \<Rightarrow> Inl Out_of_bounds))"
| "CorSigUncompressData [] = Inl Out_of_bounds"

definition CorSigDecodeTokenType :: "nat \<Rightarrow> u32" where
  "CorSigDecodeTokenType encoded = [0x02000000, 0x01000000, 0x1b000000, 0x72000000] ! encoded"

definition CorSigUncompressToken :: "byte list \<Rightarrow> (u32 \<times> byte list) res" where
  "CorSigUncompressToken pData =
     and_then (CorSigUncompressData pData) (\<lambda>(tk, pData).
     Inr (drop_bit 2 tk OR CorSigDecodeTokenType (unat (tk AND 3)), pData))"

definition ParseTypeDefOrRefEncoded :: "u32 parsing" where
  "ParseTypeDefOrRefEncoded s =
     and_then (CorSigUncompressToken (unread s)) (\<lambda>(token, rest). Inr (Some token, s\<lparr>unread := rest\<rparr>))"

subsection \<open>Custom modifiers\<close>

definition ParseCustomMod :: "unit parsing" where
  "ParseCustomMod =
     and_parse ParseByte (\<lambda>cmod.
     if cmod = 0x20 \<or> cmod = 0x1f
     then and_parse ParseTypeDefOrRefEncoded (\<lambda>token. notify (NotifyCustomMod cmod token))
     else return_false)"

lemma CorSigUncompressData_shorter:
  "CorSigUncompressData bs = Inr (n, bs') \<Longrightarrow> length bs' < length bs"
  by (induction bs rule: CorSigUncompressData.induct) (auto split: if_splits list.splits)

lemma ParseCustomMod_shorter:
  assumes "ParseCustomMod s = Inr (r, s')" and "unread s \<noteq> []"
  shows "length (unread s') < length (unread s)"
proof -
  obtain b bs where s: "unread s = b # bs"
    using assms(2) by (cases "unread s") auto
  show ?thesis
  proof (cases "b = 0x20 \<or> b = 0x1f")
    case True
    then obtain token rest where "CorSigUncompressToken bs = Inr (token, rest)" and "unread s' = rest"
      using assms(1) s
      by (auto simp: ParseCustomMod_def and_parse_def ParseByte_def ParseTypeDefOrRefEncoded_def notify_def res_simps)
    then have "length (unread s') < length bs"
      using CorSigUncompressData_shorter by (auto simp: CorSigUncompressToken_def res_simps)
    with s show ?thesis by simp
  next
    case False
    with assms(1) s show ?thesis
      by (auto simp: ParseCustomMod_def and_parse_def ParseByte_def return_false_def)
  qed
qed

text \<open>The two loops over modifiers; each round reads at least one byte.\<close>

function ParseOptionalCustomMods :: "unit parsing" where
  "ParseOptionalCustomMods s =
     (if unread s = [] \<or> \<not> (hd (unread s) = 0x20 \<or> hd (unread s) = 0x1f) then Inr (Some (), s)
      else case ParseCustomMod s of
             Inl e \<Rightarrow> Inl e
           | Inr (None, s) \<Rightarrow> Inr (None, s)
           | Inr (Some _, s) \<Rightarrow> ParseOptionalCustomMods s)"
  by pat_completeness auto
termination
  by (relation "measure (\<lambda>s. length (unread s))") (auto dest: ParseCustomMod_shorter)

function ParseOptionalCustomModsOrConstraint :: "unit parsing" where
  "ParseOptionalCustomModsOrConstraint s =
     (if unread s = [] then Inr (Some (), s)
      else if hd (unread s) = 0x20 \<or> hd (unread s) = 0x1f
      then (case ParseCustomMod s of
              Inl e \<Rightarrow> Inl e
            | Inr (None, s) \<Rightarrow> Inr (None, s)
            | Inr (Some _, s) \<Rightarrow> ParseOptionalCustomModsOrConstraint s)
      else if hd (unread s) = 0x45
      then ParseOptionalCustomModsOrConstraint
             (s\<lparr>notified := notified s @ [NotifyConstraint (hd (unread s))], unread := tl (unread s)\<rparr>)
      else Inr (Some (), s))"
  by pat_completeness auto
termination
  by (relation "measure (\<lambda>s. length (unread s))") (auto dest: ParseCustomMod_shorter)

declare ParseOptionalCustomMods.simps [simp del] ParseOptionalCustomModsOrConstraint.simps [simp del]

subsection \<open>Parameters, return types and methods\<close>

definition ParseParam :: "unit parsing \<Rightarrow> unit parsing" where
  "ParseParam pt =
     and_parse (notify NotifyBeginParam) (\<lambda>_.
     and_parse ParseOptionalCustomMods (\<lambda>_.
     and_parse current (\<lambda>c.
     if c = 0x16
     then and_parse (notify NotifyTypedByref) (\<lambda>_. and_parse advance (\<lambda>_. notify NotifyEndParam))
     else
       and_parse (if c = 0x10 then and_parse (notify NotifyByref) (\<lambda>_. advance) else parsed ()) (\<lambda>_.
       and_parse pt (\<lambda>_. notify NotifyEndParam)))))"

definition ParseRetType :: "unit parsing \<Rightarrow> unit parsing" where
  "ParseRetType pt =
     and_parse (notify NotifyBeginRetType) (\<lambda>_.
     and_parse ParseOptionalCustomMods (\<lambda>_.
     and_parse current (\<lambda>c.
     if c = 0x16
     then and_parse (notify NotifyTypedByref) (\<lambda>_. and_parse advance (\<lambda>_. notify NotifyEndRetType))
     else if c = 0x01
     then and_parse (notify NotifyVoid) (\<lambda>_. and_parse advance (\<lambda>_. notify NotifyEndRetType))
     else
       and_parse (if c = 0x10 then and_parse (notify NotifyByref) (\<lambda>_. advance) else parsed ()) (\<lambda>_.
       and_parse pt (\<lambda>_. notify NotifyEndRetType)))))"

primrec parse_params :: "nat \<Rightarrow> bool \<Rightarrow> unit parsing \<Rightarrow> unit parsing" where
  "parse_params 0 fEncounteredSentinal pt = parsed ()"
| "parse_params (Suc n) fEncounteredSentinal pt =
     and_parse current (\<lambda>c.
     if c = 0x41
     then (if fEncounteredSentinal then return_false
           else and_parse (notify NotifySentinal) (\<lambda>_.
                and_parse advance (\<lambda>_.
                and_parse (ParseParam pt) (\<lambda>_. parse_params n True pt))))
     else and_parse (ParseParam pt) (\<lambda>_. parse_params n fEncounteredSentinal pt))"

definition ParseMethod :: "unit parsing \<Rightarrow> byte \<Rightarrow> unit parsing" where
  "ParseMethod pt elem_type =
     and_parse (notify (NotifyBeginMethod elem_type)) (\<lambda>_.
     and_parse (if elem_type AND 0x10 \<noteq> 0
                then and_parse ParseNumber (\<lambda>n. notify (NotifyGenericParamCount n)) else parsed ()) (\<lambda>_.
     and_parse ParseNumber (\<lambda>param_count.
     and_parse (notify (NotifyParamCount param_count)) (\<lambda>_.
     and_parse (ParseRetType pt) (\<lambda>_.
     and_parse (parse_params (unat param_count) False pt) (\<lambda>_.
     notify NotifyEndMethod))))))"

subsection \<open>Types\<close>

definition ParseArrayShape :: "unit parsing" where
  "ParseArrayShape =
     and_parse (notify NotifyBeginArrayShape) (\<lambda>_.
     and_parse ParseNumber (\<lambda>rank.
     and_parse (notify (NotifyRank rank)) (\<lambda>_.
     and_parse ParseNumber (\<lambda>numsizes.
     and_parse (notify (NotifyNumSizes numsizes)) (\<lambda>_.
     and_parse (repeat_parse (unat numsizes) (and_parse ParseNumber (\<lambda>n. notify (NotifySize n)))) (\<lambda>_.
     and_parse ParseNumber (\<lambda>numsizes.
     and_parse (notify (NotifyNumLoBounds numsizes)) (\<lambda>_.
     and_parse (repeat_parse (unat numsizes) (and_parse ParseNumber (\<lambda>n. notify (NotifyLoBound n)))) (\<lambda>_.
     notify NotifyEndArrayShape)))))))))"

definition simple_types :: "byte list" where
  "simple_types = [0x02, 0x03, 0x04, 0x05, 0x07, 0x06, 0x08, 0x09, 0x0a, 0x0b, 0x0c, 0x0d, 0x18, 0x19, 0x0e, 0x1c]"

text \<open>The body of the switch; an element type without a case falls through it.\<close>

definition parse_elem :: "unit parsing \<Rightarrow> byte \<Rightarrow> unit parsing" where
  "parse_elem pt elem_type =
     (if elem_type \<in> set simple_types then notify (NotifyTypeSimple elem_type)
      else if elem_type = 0x0f
      then and_parse (notify NotifyTypePointer) (\<lambda>_.
           and_parse ParseOptionalCustomMods (\<lambda>_.
           and_parse current (\<lambda>c.
           if c = 0x01 then and_parse advance (\<lambda>_. notify NotifyVoid) else pt)))
      else if elem_type = 0x12
      then and_parse (notify NotifyTypeClass) (\<lambda>_.
           and_parse ParseTypeDefOrRefEncoded (\<lambda>token. notify (NotifyTypeDefOrRef token)))
      else if elem_type = 0x11
      then and_parse (notify NotifyTypeValueType) (\<lambda>_.
           and_parse ParseTypeDefOrRefEncoded (\<lambda>token. notify (NotifyTypeDefOrRef token)))
      else if elem_type = 0x1b
      then and_parse (notify NotifyTypeFunctionPointer) (\<lambda>_. and_parse ParseByte (ParseMethod pt))
      else if elem_type = 0x14
      then and_parse (notify NotifyTypeArray) (\<lambda>_. and_parse pt (\<lambda>_. ParseArrayShape))
      else if elem_type = 0x1d
      then and_parse (notify NotifyTypeSzArray) (\<lambda>_. and_parse ParseOptionalCustomMods (\<lambda>_. pt))
      else if elem_type = 0x15
      then and_parse ParseByte (\<lambda>elem_type.
           if elem_type \<noteq> 0x12 \<and> elem_type \<noteq> 0x11 then return_false
           else and_parse ParseTypeDefOrRefEncoded (\<lambda>token.
                and_parse ParseNumber (\<lambda>number.
                and_parse (notify (NotifyTypeGenericInst elem_type token number)) (\<lambda>_.
                repeat_parse (unat number) pt))))
      else if elem_type = 0x13
      then and_parse ParseNumber (\<lambda>number. notify (NotifyTypeGenericTypeVariable number))
      else if elem_type = 0x1e
      then and_parse ParseNumber (\<lambda>number. notify (NotifyTypeGenericMemberVariable number))
      else parsed ())"

fun ParseType :: "nat \<Rightarrow> unit parsing" where
  "ParseType 0 s = Inl Not_terminating"
| "ParseType (Suc n) s =
     and_parse (notify NotifyBeginType) (\<lambda>_.
     and_parse ParseByte (\<lambda>elem_type.
     and_parse (parse_elem (ParseType n) elem_type) (\<lambda>_. notify NotifyEndType))) s"

subsection \<open>Fields, properties, local variables\<close>

definition ParseField :: "unit parsing \<Rightarrow> byte \<Rightarrow> unit parsing" where
  "ParseField pt elem_type =
     and_parse (notify (NotifyBeginField elem_type)) (\<lambda>_.
     and_parse ParseOptionalCustomMods (\<lambda>_.
     and_parse pt (\<lambda>_. notify NotifyEndField)))"

definition ParseProperty :: "unit parsing \<Rightarrow> byte \<Rightarrow> unit parsing" where
  "ParseProperty pt elem_type =
     and_parse (notify (NotifyBeginProperty elem_type)) (\<lambda>_.
     and_parse ParseNumber (\<lambda>param_count.
     and_parse (notify (NotifyParamCount param_count)) (\<lambda>_.
     and_parse ParseOptionalCustomMods (\<lambda>_.
     and_parse pt (\<lambda>_.
     and_parse (repeat_parse (unat param_count) (ParseParam pt)) (\<lambda>_.
     notify NotifyEndProperty))))))"

definition ParseLocal :: "unit parsing \<Rightarrow> unit parsing" where
  "ParseLocal pt =
     and_parse (notify NotifyBeginLocal) (\<lambda>_.
     and_parse current (\<lambda>c.
     if c = 0x16
     then and_parse (notify NotifyTypedByref) (\<lambda>_. and_parse advance (\<lambda>_. notify NotifyEndLocal))
     else
       and_parse ParseOptionalCustomModsOrConstraint (\<lambda>_.
       and_parse current (\<lambda>c.
       and_parse (if c = 0x10 then and_parse (notify NotifyByref) (\<lambda>_. advance) else parsed ()) (\<lambda>_.
       and_parse pt (\<lambda>_. notify NotifyEndLocal))))))"

definition ParseLocals :: "unit parsing \<Rightarrow> byte \<Rightarrow> unit parsing" where
  "ParseLocals pt elem_type =
     and_parse (notify (NotifyBeginLocals elem_type)) (\<lambda>_.
     and_parse ParseNumber (\<lambda>local_count.
     and_parse (notify (NotifyLocalsCount local_count)) (\<lambda>_.
     and_parse (repeat_parse (unat local_count) (ParseLocal pt)) (\<lambda>_.
     notify NotifyEndLocals))))"

definition Parse :: "byte list \<Rightarrow> (unit option \<times> sig_parser) res" where
  "Parse pb =
     (let pt = ParseType (length pb) in
      and_parse ParseByte (\<lambda>elem_type.
      let kind = elem_type AND 0xf in
      if kind \<in> {0, 1, 2, 3, 4, 5} then ParseMethod pt elem_type
      else if kind = 6 then ParseField pt elem_type
      else if kind = 7 then ParseLocals pt elem_type
      else if kind = 8 then ParseProperty pt elem_type
      else return_false)) \<lparr>unread = pb, notified = []\<rparr>"

subsection \<open>The parser ends\<close>

text \<open>
  On inputs shorter than \<open>k\<close> a parser does not run out of fuel and does not move backwards.
\<close>

named_theorems ends_intros \<open>parsers that end\<close>

definition ends :: "nat \<Rightarrow> 'a parsing \<Rightarrow> bool" where
  "ends k p \<longleftrightarrow>
     (\<forall>s. length (unread s) < k \<longrightarrow>
        p s \<noteq> Inl Not_terminating
        \<and> (\<forall>r s'. p s = Inr (r, s') \<longrightarrow> length (unread s') \<le> length (unread s)))"

lemma endsI:
  assumes "\<And>s. length (unread s) < k \<Longrightarrow> p s \<noteq> Inl Not_terminating"
    and "\<And>s r s'. length (unread s) < k \<Longrightarrow> p s = Inr (r, s') \<Longrightarrow> length (unread s') \<le> length (unread s)"
  shows "ends k p"
  using assms by (simp add: ends_def)

lemma endsD:
  assumes "ends k p" and "length (unread s) < k"
  shows "p s \<noteq> Inl Not_terminating" and "p s = Inr (r, s') \<Longrightarrow> length (unread s') \<le> length (unread s)"
  using assms by (auto simp: ends_def)

lemma ends_and_parse [ends_intros]:
  assumes "ends k m" and "\<And>x. ends k (f x)"
  shows "ends k (and_parse m f)"
proof -
  have "and_parse m f s \<noteq> Inl Not_terminating
      \<and> (\<forall>r s'. and_parse m f s = Inr (r, s') \<longrightarrow> length (unread s') \<le> length (unread s))"
    if s: "length (unread s) < k" for s
  proof (cases "m s")
    case (Inl e)
    with assms(1) s show ?thesis by (auto simp: ends_def and_parse_def)
  next
    case (Inr b)
    obtain r s1 where b: "b = (r, s1)" by (cases b)
    have le: "length (unread s1) \<le> length (unread s)"
      using assms(1) s Inr b by (auto simp: ends_def)
    show ?thesis
    proof (cases r)
      case None
      with Inr b le show ?thesis by (auto simp: and_parse_def)
    next
      case (Some x)
      with assms(2) [of x] le s have "f x s1 \<noteq> Inl Not_terminating"
        "\<forall>r s'. f x s1 = Inr (r, s') \<longrightarrow> length (unread s') \<le> length (unread s1)"
        by (auto simp: ends_def)
      with Inr b Some le show ?thesis by (fastforce simp: and_parse_def)
    qed
  qed
  then show ?thesis by (auto simp: ends_def)
qed

lemma ends_simple [ends_intros]:
  "ends k (parsed x)" "ends k return_false" "ends k (notify e)" "ends k current" "ends k advance" "ends k ParseByte"
  by (auto simp: ends_def parsed_def return_false_def notify_def current_def advance_def ParseByte_def
      split: list.splits)

lemma ends_if [ends_intros]: "ends k p \<Longrightarrow> ends k q \<Longrightarrow> ends k (if b then p else q)"
  by simp

lemma ends_times [ends_intros]: "ends k p \<Longrightarrow> ends k (repeat_parse n p)"
  by (induction n) (auto intro: ends_intros)

lemma ends_ParseNumber [ends_intros]: "ends k ParseNumber"
  unfolding ParseNumber_def by (intro ends_intros)

lemma CorSigUncompressData_fails: "CorSigUncompressData bs = Inl e \<Longrightarrow> e = Out_of_bounds"
  by (induction bs rule: CorSigUncompressData.induct) (auto split: if_splits list.splits)

lemma ends_token [ends_intros]: "ends k ParseTypeDefOrRefEncoded"
proof (rule endsI)
  fix s :: sig_parser
  show "ParseTypeDefOrRefEncoded s \<noteq> Inl Not_terminating"
    using CorSigUncompressData_fails [of "unread s"]
    by (cases "CorSigUncompressData (unread s)")
      (auto simp: ParseTypeDefOrRefEncoded_def CorSigUncompressToken_def)
next
  fix s :: sig_parser and r s'
  assume "ParseTypeDefOrRefEncoded s = Inr (r, s')"
  then show "length (unread s') \<le> length (unread s)"
    using CorSigUncompressData_shorter
    by (fastforce simp: ParseTypeDefOrRefEncoded_def CorSigUncompressToken_def res_simps)
qed

lemma ends_ParseCustomMod [ends_intros]: "ends k ParseCustomMod"
  unfolding ParseCustomMod_def by (intro ends_intros)

text \<open>Both loops over modifiers are of one shape: a step that reads, until the input is no modifier.\<close>

lemma ends_loop:
  fixes loop :: "unit parsing"
  assumes eq: "\<And>s. loop s = (if stop s then Inr (Some (), s) else and_parse step (\<lambda>_. loop) s)"
    and shorter: "\<And>s r s'. \<not> stop s \<Longrightarrow> step s = Inr (r, s') \<Longrightarrow> length (unread s') < length (unread s)"
    and step: "\<And>s. step s \<noteq> Inl Not_terminating"
  shows "ends k loop"
proof -
  have "loop s \<noteq> Inl Not_terminating
      \<and> (\<forall>r s'. loop s = Inr (r, s') \<longrightarrow> length (unread s') \<le> length (unread s))" for s
  proof (induction "length (unread s)" arbitrary: s rule: less_induct)
    case less
    show ?case
    proof (cases "stop s")
      case True
      then show ?thesis by (auto simp: eq [of s])
    next
      case False
      show ?thesis
      proof (cases "step s")
        case (Inl x)
        with False step [of s] show ?thesis by (auto simp: eq [of s] and_parse_def)
      next
        case (Inr b)
        obtain r s1 where b: "b = (r, s1)" by (cases b)
        have lt: "length (unread s1) < length (unread s)"
          using shorter [OF False] Inr b by auto
        with less [OF lt] False Inr b show ?thesis
          by (cases r) (fastforce simp: eq [of s] and_parse_def)+
      qed
    qed
  qed
  then show ?thesis by (auto simp: ends_def)
qed

definition at_mod :: "sig_parser \<Rightarrow> bool" where
  "at_mod s \<longleftrightarrow> unread s \<noteq> [] \<and> (hd (unread s) = 0x20 \<or> hd (unread s) = 0x1f)"

definition at_constraint :: "sig_parser \<Rightarrow> bool" where
  "at_constraint s \<longleftrightarrow> unread s \<noteq> [] \<and> hd (unread s) = 0x45"

definition mod_or_constraint :: "unit parsing" where
  "mod_or_constraint s =
     (if at_constraint s then and_parse (notify (NotifyConstraint 0x45)) (\<lambda>_. advance) s else ParseCustomMod s)"

lemma ParseOptionalCustomMods_loop:
  "ParseOptionalCustomMods s =
     (if \<not> at_mod s then Inr (Some (), s) else and_parse ParseCustomMod (\<lambda>_. ParseOptionalCustomMods) s)"
  by (auto simp: ParseOptionalCustomMods.simps [of s] at_mod_def and_parse_def and_then_def
      split: sum.splits prod.splits option.splits)

lemma ParseOptionalCustomModsOrConstraint_loop:
  "ParseOptionalCustomModsOrConstraint s =
     (if \<not> (at_mod s \<or> at_constraint s) then Inr (Some (), s)
      else and_parse mod_or_constraint (\<lambda>_. ParseOptionalCustomModsOrConstraint) s)"
  by (auto simp: ParseOptionalCustomModsOrConstraint.simps [of s] at_mod_def at_constraint_def mod_or_constraint_def
      notify_def advance_def and_parse_def and_then_def split: sum.splits prod.splits option.splits)

lemma ParseCustomMod_fuel: "ParseCustomMod s \<noteq> Inl Not_terminating"
  using ends_ParseCustomMod [of "Suc (length (unread s))"] by (auto simp: ends_def)

lemma ends_ParseOptionalCustomMods [ends_intros]: "ends k ParseOptionalCustomMods"
  by (rule ends_loop [of _ "\<lambda>s. \<not> at_mod s", OF ParseOptionalCustomMods_loop])
    (auto simp: at_mod_def ParseCustomMod_fuel dest: ParseCustomMod_shorter)

lemma ends_ParseOptionalCustomModsOrConstraint [ends_intros]: "ends k ParseOptionalCustomModsOrConstraint"
proof (rule ends_loop [of _ "\<lambda>s. \<not> (at_mod s \<or> at_constraint s)", OF ParseOptionalCustomModsOrConstraint_loop])
  fix s :: sig_parser and r s'
  assume "\<not> \<not> (at_mod s \<or> at_constraint s)" and "mod_or_constraint s = Inr (r, s')"
  then show "length (unread s') < length (unread s)"
    by (auto simp: mod_or_constraint_def at_mod_def at_constraint_def and_parse_def notify_def advance_def
        dest: ParseCustomMod_shorter split: if_splits)
next
  fix s :: sig_parser
  show "mod_or_constraint s \<noteq> Inl Not_terminating"
    by (simp add: mod_or_constraint_def ParseCustomMod_fuel and_parse_def notify_def advance_def)
qed

lemma ends_ParseParam [ends_intros]: "ends k pt \<Longrightarrow> ends k (ParseParam pt)"
  unfolding ParseParam_def by (intro ends_intros)

lemma ends_ParseRetType [ends_intros]: "ends k pt \<Longrightarrow> ends k (ParseRetType pt)"
  unfolding ParseRetType_def by (intro ends_intros)

lemma ends_parse_params [ends_intros]: "ends k pt \<Longrightarrow> ends k (parse_params n b pt)"
  by (induction n arbitrary: b) (auto intro!: ends_intros)

lemma ends_ParseMethod [ends_intros]: "ends k pt \<Longrightarrow> ends k (ParseMethod pt e)"
  unfolding ParseMethod_def by (intro ends_intros)

lemma ends_ParseArrayShape [ends_intros]: "ends k ParseArrayShape"
  unfolding ParseArrayShape_def by (intro ends_intros)

lemma ends_parse_elem [ends_intros]: "ends k pt \<Longrightarrow> ends k (parse_elem pt e)"
  unfolding parse_elem_def by (intro ends_intros)

lemma ends_after_byte:
  assumes "\<And>b. ends k (f b)"
  shows "ends (Suc k) (and_parse ParseByte f)"
proof (rule endsI)
  fix s :: sig_parser
  assume "length (unread s) < Suc k"
  with assms show "and_parse ParseByte f s \<noteq> Inl Not_terminating"
    by (cases "unread s") (auto simp: and_parse_def ParseByte_def ends_def)
next
  fix s :: sig_parser and r s'
  assume s: "length (unread s) < Suc k" and run: "and_parse ParseByte f s = Inr (r, s')"
  show "length (unread s') \<le> length (unread s)"
  proof (cases "unread s")
    case Nil
    with run show ?thesis by (auto simp: and_parse_def ParseByte_def)
  next
    case (Cons b bs)
    with run have "f b (s\<lparr>unread := bs\<rparr>) = Inr (r, s')"
      by (simp add: and_parse_def ParseByte_def)
    then have "length (unread s') \<le> length bs"
      using endsD(2) [OF assms, of "s\<lparr>unread := bs\<rparr>"] s Cons by simp
    with Cons show ?thesis by simp
  qed
qed

lemma ends_ParseType [ends_intros]: "ends k (ParseType k)"
proof (induction k)
  case 0
  show ?case by (simp add: ends_def)
next
  case (Suc k)
  have eq: "ParseType (Suc k) = and_parse (notify NotifyBeginType) (\<lambda>_.
      and_parse ParseByte (\<lambda>elem_type.
      and_parse (parse_elem (ParseType k) elem_type) (\<lambda>_. notify NotifyEndType)))"
    by (rule ext) simp
  show ?case
    unfolding eq by (intro ends_and_parse [OF ends_simple(3)] ends_after_byte) (intro ends_intros Suc.IH)
qed

text \<open>
  Claim C8: The parser ends on every blob, whatever counts and nestings the blob claims: it accepts, rejects, or
  reads a token outside the blob, but the recursion and the loops are bounded by the length of the
  blob. What it leaves unread is not longer than the blob.
\<close>

theorem parser_ends:
  "Parse blob \<noteq> Inl Not_terminating
   \<and> (\<forall>r s'. Parse blob = Inr (r, s') \<longrightarrow> length (unread s') \<le> length blob)"
proof -
  have "ends (Suc (length blob)) (and_parse ParseByte (\<lambda>elem_type.
      let kind = elem_type AND 0xf; pt = ParseType (length blob) in
      if kind \<in> {0, 1, 2, 3, 4, 5} then ParseMethod pt elem_type
      else if kind = 6 then ParseField pt elem_type
      else if kind = 7 then ParseLocals pt elem_type
      else if kind = 8 then ParseProperty pt elem_type
      else return_false))"
    unfolding ParseField_def ParseLocals_def ParseLocal_def ParseProperty_def Let_def
    by (intro ends_after_byte ends_intros)
  from endsD [OF this, of "\<lparr>unread = blob, notified = []\<rparr>"] show ?thesis
    by (simp add: Parse_def Let_def)
qed

end
