(* ===== verification/Sig_Grammar.thy ===== *)
theory Sig_Grammar
  imports Sig_Parser
begin

unbundle bit_operations_syntax

section \<open>The grammar of signatures\<close>

text \<open>
  The grammar at the top of \<^verbatim>\<open>sigparse.h\<close> as syntax trees, with the bytes a tree is written as and the
  callbacks it stands for. The parser reads every tree of the grammar back: it accepts the
  bytes of the tree, consumes them all and makes exactly the callbacks of the tree, in order.
\<close>

subsection \<open>Syntax trees\<close>

datatype token_kind = TypeDef | TypeRef | TypeSpec | BaseType

datatype sig_token = Token token_kind nat

datatype sig_mod = Mod bool sig_token    \<comment> \<open>required or optional\<close>

datatype sig_type =
  Simple byte
| PtrVoid "sig_mod list"
| Ptr "sig_mod list" sig_type
| Class sig_token
| ValueType sig_token
| FnPtr sig_method
| Array sig_type nat "nat list" "nat list"
| SzArray "sig_mod list" sig_type
| GenericInst bool sig_token "sig_type list"    \<comment> \<open>of a class or of a value type\<close>
| Var nat
| MVar nat
and sig_target = TypedByref | Direct bool sig_type    \<comment> \<open>by reference or not\<close>
and sig_param = Param "sig_mod list" sig_target
and sig_ret = RetVoid | Ret sig_target
and sig_method = Method byte "nat option" "sig_mod list" sig_ret "sig_param list" "sig_param list"

subsection \<open>Encoding\<close>

definition enc_number :: "nat \<Rightarrow> byte list" where
  "enc_number n =
     (if n < 0x80 then [word_of_nat n]
      else if n < 0x4000 then [word_of_nat (0x80 + n div 256), word_of_nat n]
      else [word_of_nat (0xC0 + n div 0x1000000), word_of_nat (n div 0x10000), word_of_nat (n div 256), word_of_nat n])"

fun kind_code :: "token_kind \<Rightarrow> nat" where
  "kind_code TypeDef = 0" | "kind_code TypeRef = 1" | "kind_code TypeSpec = 2" | "kind_code BaseType = 3"

fun token_value :: "sig_token \<Rightarrow> u32" where
  "token_value (Token k rid) = word_of_nat rid OR CorSigDecodeTokenType (kind_code k)"

fun enc_token :: "sig_token \<Rightarrow> byte list" where
  "enc_token (Token k rid) = enc_number (4 * rid + kind_code k)"

fun mod_byte :: "sig_mod \<Rightarrow> byte" where
  "mod_byte (Mod required _) = (if required then 0x1f else 0x20)"

fun enc_mod :: "sig_mod \<Rightarrow> byte list" where
  "enc_mod (Mod required token) = mod_byte (Mod required token) # enc_token token"

abbreviation enc_mods :: "sig_mod list \<Rightarrow> byte list" where
  "enc_mods ms \<equiv> concat (map enc_mod ms)"

definition enc_shape :: "nat \<Rightarrow> nat list \<Rightarrow> nat list \<Rightarrow> byte list" where
  "enc_shape rank sizes bounds =
     enc_number rank @ enc_number (length sizes) @ concat (map enc_number sizes)
     @ enc_number (length bounds) @ concat (map enc_number bounds)"

fun enc_type :: "sig_type \<Rightarrow> byte list"
and enc_target :: "sig_target \<Rightarrow> byte list"
and enc_param :: "sig_param \<Rightarrow> byte list"
and enc_ret :: "sig_ret \<Rightarrow> byte list"
and enc_method :: "sig_method \<Rightarrow> byte list" where
  "enc_type (Simple e) = [e]"
| "enc_type (PtrVoid ms) = 0x0f # enc_mods ms @ [0x01]"
| "enc_type (Ptr ms t) = 0x0f # enc_mods ms @ enc_type t"
| "enc_type (Class token) = 0x12 # enc_token token"
| "enc_type (ValueType token) = 0x11 # enc_token token"
| "enc_type (FnPtr m) = 0x1b # enc_method m"
| "enc_type (Array t rank sizes bounds) = 0x14 # enc_type t @ enc_shape rank sizes bounds"
| "enc_type (SzArray ms t) = 0x1d # enc_mods ms @ enc_type t"
| "enc_type (GenericInst cls token ts) =
     0x15 # (if cls then 0x12 else 0x11) # enc_token token @ enc_number (length ts) @ concat (map enc_type ts)"
| "enc_type (Var n) = 0x13 # enc_number n"
| "enc_type (MVar n) = 0x1e # enc_number n"
| "enc_target TypedByref = [0x16]"
| "enc_target (Direct byref t) = (if byref then [0x10] else []) @ enc_type t"
| "enc_param (Param ms p) = enc_mods ms @ enc_target p"
| "enc_ret RetVoid = [0x01]"
| "enc_ret (Ret p) = enc_target p"
| "enc_method (Method conv generics ms ret ps qs) =
     conv # (case generics of None \<Rightarrow> [] | Some n \<Rightarrow> enc_number n) @ enc_number (length ps + length qs)
     @ enc_mods ms @ enc_ret ret @ concat (map enc_param ps)
     @ (if qs = [] then [] else 0x41 # concat (map enc_param qs))"

subsection \<open>Callbacks\<close>

fun ev_mod :: "sig_mod \<Rightarrow> sig_event" where
  "ev_mod (Mod required token) = NotifyCustomMod (mod_byte (Mod required token)) (token_value token)"

abbreviation ev_mods :: "sig_mod list \<Rightarrow> sig_event list" where
  "ev_mods ms \<equiv> map ev_mod ms"

definition ev_shape :: "nat \<Rightarrow> nat list \<Rightarrow> nat list \<Rightarrow> sig_event list" where
  "ev_shape rank sizes bounds =
     [NotifyBeginArrayShape, NotifyRank (word_of_nat rank), NotifyNumSizes (word_of_nat (length sizes))]
     @ map (\<lambda>n. NotifySize (word_of_nat n)) sizes
     @ [NotifyNumLoBounds (word_of_nat (length bounds))] @ map (\<lambda>n. NotifyLoBound (word_of_nat n)) bounds
     @ [NotifyEndArrayShape]"

fun ev_type :: "sig_type \<Rightarrow> sig_event list"
and ev_inner :: "sig_type \<Rightarrow> sig_event list"
and ev_target :: "sig_target \<Rightarrow> sig_event list"
and ev_param :: "sig_param \<Rightarrow> sig_event list"
and ev_ret :: "sig_ret \<Rightarrow> sig_event list"
and ev_method :: "sig_method \<Rightarrow> sig_event list" where
  "ev_type t = NotifyBeginType # ev_inner t @ [NotifyEndType]"
| "ev_inner (Simple e) = [NotifyTypeSimple e]"
| "ev_inner (PtrVoid ms) = NotifyTypePointer # ev_mods ms @ [NotifyVoid]"
| "ev_inner (Ptr ms t) = NotifyTypePointer # ev_mods ms @ ev_type t"
| "ev_inner (Class token) = [NotifyTypeClass, NotifyTypeDefOrRef (token_value token)]"
| "ev_inner (ValueType token) = [NotifyTypeValueType, NotifyTypeDefOrRef (token_value token)]"
| "ev_inner (FnPtr m) = NotifyTypeFunctionPointer # ev_method m"
| "ev_inner (Array t rank sizes bounds) = NotifyTypeArray # ev_type t @ ev_shape rank sizes bounds"
| "ev_inner (SzArray ms t) = NotifyTypeSzArray # ev_mods ms @ ev_type t"
| "ev_inner (GenericInst cls token ts) =
     NotifyTypeGenericInst (if cls then 0x12 else 0x11) (token_value token) (word_of_nat (length ts))
     # concat (map ev_type ts)"
| "ev_inner (Var n) = [NotifyTypeGenericTypeVariable (word_of_nat n)]"
| "ev_inner (MVar n) = [NotifyTypeGenericMemberVariable (word_of_nat n)]"
| "ev_target TypedByref = [NotifyTypedByref]"
| "ev_target (Direct byref t) = (if byref then [NotifyByref] else []) @ ev_type t"
| "ev_param (Param ms p) = NotifyBeginParam # ev_mods ms @ ev_target p @ [NotifyEndParam]"
| "ev_ret RetVoid = [NotifyVoid]"
| "ev_ret (Ret p) = ev_target p"
| "ev_method (Method conv generics ms ret ps qs) =
     NotifyBeginMethod conv
     # (case generics of None \<Rightarrow> [] | Some n \<Rightarrow> [NotifyGenericParamCount (word_of_nat n)])
     @ [NotifyParamCount (word_of_nat (length ps + length qs))]
     @ NotifyBeginRetType # ev_mods ms @ ev_ret ret @ [NotifyEndRetType]
     @ concat (map ev_param ps)
     @ (if qs = [] then [] else NotifySentinal # concat (map ev_param qs))
     @ [NotifyEndMethod]"

subsection \<open>Well-formed trees\<close>

text \<open>Numbers have 29 bits, rows of tables 27; the generic bit of a method says whether it has generic parameters.\<close>

abbreviation wf_number :: "nat \<Rightarrow> bool" where "wf_number n \<equiv> n < 2 ^ 29"

fun wf_token :: "sig_token \<Rightarrow> bool" where
  "wf_token (Token _ rid) = (rid < 2 ^ 27)"

fun wf_mod :: "sig_mod \<Rightarrow> bool" where
  "wf_mod (Mod _ token) = wf_token token"

fun wf_type :: "sig_type \<Rightarrow> bool"
and wf_target :: "sig_target \<Rightarrow> bool"
and wf_param :: "sig_param \<Rightarrow> bool"
and wf_ret :: "sig_ret \<Rightarrow> bool"
and wf_method :: "sig_method \<Rightarrow> bool" where
  "wf_type (Simple e) = (e \<in> set simple_types)"
| "wf_type (PtrVoid ms) = list_all wf_mod ms"
| "wf_type (Ptr ms t) = (list_all wf_mod ms \<and> wf_type t)"
| "wf_type (Class token) = wf_token token"
| "wf_type (ValueType token) = wf_token token"
| "wf_type (FnPtr m) = wf_method m"
| "wf_type (Array t rank sizes bounds) =
     (wf_type t \<and> wf_number rank \<and> wf_number (length sizes) \<and> list_all wf_number sizes
      \<and> wf_number (length bounds) \<and> list_all wf_number bounds)"
| "wf_type (SzArray ms t) = (list_all wf_mod ms \<and> wf_type t)"
| "wf_type (GenericInst _ token ts) = (wf_token token \<and> wf_number (length ts) \<and> list_all wf_type ts)"
| "wf_type (Var n) = wf_number n"
| "wf_type (MVar n) = wf_number n"
| "wf_target TypedByref = True"
| "wf_target (Direct _ t) = wf_type t"
| "wf_param (Param ms p) = (list_all wf_mod ms \<and> wf_target p)"
| "wf_ret RetVoid = True"
| "wf_ret (Ret p) = wf_target p"
| "wf_method (Method conv generics ms ret ps qs) =
     ((conv AND 0x10 \<noteq> 0) = (generics \<noteq> None)
      \<and> (case generics of None \<Rightarrow> True | Some n \<Rightarrow> wf_number n) \<and> wf_number (length ps + length qs)
      \<and> list_all wf_mod ms \<and> wf_ret ret \<and> list_all wf_param ps \<and> list_all wf_param qs)"

subsection \<open>Reading numbers and tokens\<close>

lemma or_shifted_nat:
  assumes "b < 2 ^ k"
  shows "push_bit k a OR b = 2 ^ k * a + (b :: nat)"
proof -
  have b: "b = take_bit k b"
    using assms by (simp add: take_bit_nat_eq_self)
  have "push_bit k a AND b = 0"
    by (subst b, rule bit_eqI) (auto simp: bit_simps)
  then have "push_bit k a + b = push_bit k a OR b"
    by (rule disjunctive_add_eq_or)
  then show ?thesis
    by (simp add: push_bit_eq_mult mult.commute)
qed

lemma ucast_low_bits:
  fixes b :: byte
  shows "(ucast b :: u32) AND 0x3f = word_of_nat (unat b mod 2 ^ 6)" "(ucast b :: u32) AND 0x1f = word_of_nat (unat b mod 2 ^ 5)"
proof -
  have "(ucast b :: u32) AND 0x3f = take_bit 6 (word_of_nat (unat b))" "(ucast b :: u32) AND 0x1f = take_bit 5 (word_of_nat (unat b))"
    by (simp_all add: take_bit_eq_mask mask_eq_exp_minus_1)
  then show "(ucast b :: u32) AND 0x3f = word_of_nat (unat b mod 2 ^ 6)" "(ucast b :: u32) AND 0x1f = word_of_nat (unat b mod 2 ^ 5)"
    unfolding of_nat_take_bit [symmetric] by (simp_all add: take_bit_eq_mod)
qed

lemma medium_value:
  fixes b1 b2 :: byte
  shows "(push_bit 8 (ucast b1 AND 0x3f) OR ucast b2 :: u32) = word_of_nat (256 * (unat b1 mod 64) + unat b2)"
proof -
  have "(push_bit 8 (ucast b1 AND 0x3f) OR ucast b2 :: u32) = word_of_nat (push_bit 8 (unat b1 mod 64) OR unat b2)"
    by (simp add: ucast_low_bits of_nat_or_eq of_nat_push_bit)
  then show ?thesis
    by (simp add: or_shifted_nat unat_byte_less)
qed

lemma long_value:
  fixes b1 b2 b3 b4 :: byte
  shows "(push_bit 24 (ucast b1 AND 0x1f) OR push_bit 16 (ucast b2) OR push_bit 8 (ucast b3) OR ucast b4 :: u32)
    = word_of_nat (0x1000000 * (unat b1 mod 32) + 0x10000 * unat b2 + 256 * unat b3 + unat b4)"
proof -
  have b: "unat b2 < 256" "unat b3 < 256" "unat b4 < 256"
    by (simp_all add: unat_byte_less)
  have p: "(2 :: nat) ^ 8 = 256" "(2 :: nat) ^ 16 = 65536" "(2 :: nat) ^ 24 = 16777216"
    by simp_all
  have "push_bit 8 (unat b3) OR unat b4 = 2 ^ 8 * unat b3 + unat b4"
    by (rule or_shifted_nat) (unfold p, use b in linarith)
  moreover have "push_bit 16 (unat b2) OR (2 ^ 8 * unat b3 + unat b4) = 2 ^ 16 * unat b2 + (2 ^ 8 * unat b3 + unat b4)"
    by (rule or_shifted_nat) (unfold p, use b in linarith)
  moreover have "push_bit 24 (unat b1 mod 32) OR (2 ^ 16 * unat b2 + (2 ^ 8 * unat b3 + unat b4))
      = 2 ^ 24 * (unat b1 mod 32) + (2 ^ 16 * unat b2 + (2 ^ 8 * unat b3 + unat b4))"
    by (rule or_shifted_nat) (unfold p, use b in linarith)
  moreover have "(push_bit 24 (ucast b1 AND 0x1f) OR push_bit 16 (ucast b2) OR push_bit 8 (ucast b3) OR ucast b4 :: u32)
      = word_of_nat (push_bit 24 (unat b1 mod 32) OR (push_bit 16 (unat b2) OR (push_bit 8 (unat b3) OR unat b4)))"
    by (simp add: ucast_low_bits of_nat_or_eq of_nat_push_bit or.assoc)
  ultimately show ?thesis
    by (simp only:) (simp add: add.assoc)
qed

definition high_bits_ok :: "byte \<Rightarrow> bool" where
  "high_bits_ok b \<longleftrightarrow>
     (b AND 0x80 = 0 \<longleftrightarrow> unat b < 0x80) \<and> (unat b < 0x80 \<or> (b AND 0x40 = 0 \<longleftrightarrow> unat b < 0xC0))
     \<and> (unat b < 0xC0 \<or> (b AND 0x20 = 0 \<longleftrightarrow> unat b < 0xE0))
     \<and> (b AND 0xC0 = 0x80 \<longleftrightarrow> 0x80 \<le> unat b \<and> unat b < 0xC0)"

lemma high_bits_table: "list_all (\<lambda>n. high_bits_ok (word_of_nat n)) [0 ..< 256]"
  by code_simp

lemma high_bits: "high_bits_ok b"
proof -
  have "unat b \<in> set [0 ..< 256]"
    by (simp add: unat_byte_less)
  then have "high_bits_ok (word_of_nat (unat b))"
    using high_bits_table unfolding list_all_iff by blast
  then show ?thesis by simp
qed

lemma unat_byte_of: "unat (word_of_nat n :: byte) = n mod 256"
  by (simp add: unat_of_nat)

lemma four_digits: "0x1000000 * (n div 0x1000000) + 0x10000 * (n div 0x10000 mod 256) + 256 * (n div 256 mod 256) + n mod 256 = (n :: nat)"
proof -
  have "n div 0x10000 = 256 * (n div 0x1000000) + n div 0x10000 mod 256"
    using mult_div_mod_eq [of 256 "n div 0x10000"] by (simp add: div_mult2_eq [symmetric])
  moreover have "n div 256 = 256 * (n div 0x10000) + n div 256 mod 256"
    using mult_div_mod_eq [of 256 "n div 256"] by (simp add: div_mult2_eq [symmetric])
  moreover have "n = 256 * (n div 256) + n mod 256"
    by simp
  ultimately show ?thesis by linarith
qed

lemma enc_number_cases:
  assumes "wf_number n"
  obtains b where "enc_number n = [b]" and "unat b < 0x80" and "ucast b = (word_of_nat n :: u32)"
  | b1 b2 where "enc_number n = [b1, b2]" and "0x80 \<le> unat b1" and "unat b1 < 0xC0"
    and "(push_bit 8 (ucast b1 AND 0x3f) OR ucast b2 :: u32) = word_of_nat n"
  | b1 b2 b3 b4 where "enc_number n = [b1, b2, b3, b4]" and "0xC0 \<le> unat b1" and "unat b1 < 0xE0"
    and "(push_bit 24 (ucast b1 AND 0x1f) OR push_bit 16 (ucast b2) OR push_bit 8 (ucast b3) OR ucast b4 :: u32)
      = word_of_nat n"
proof -
  consider "n < 0x80" | "0x80 \<le> n" "n < 0x4000" | "0x4000 \<le> n" by linarith
  then show ?thesis
  proof cases
    case 1
    then have "ucast (word_of_nat n :: byte) = (word_of_nat n :: u32)"
      by (simp add: unsigned_of_nat take_bit_nat_eq_self)
    with 1 show ?thesis by (intro that(1) [of "word_of_nat n"]) (simp_all add: enc_number_def unat_byte_of)
  next
    case 2
    have "n div 256 < 64"
      using 2 by simp
    moreover have "q < 64 \<Longrightarrow> (0x80 + q) mod 256 mod 64 = q" for q :: nat
      using mod_mult_self4 [of 64 2 q] by simp
    ultimately have "(0x80 + n div 256) mod 256 mod 64 = n div 256"
      by blast
    then have "256 * ((0x80 + n div 256) mod 256 mod 64) + n mod 256 = n"
      by (simp only: mult_div_mod_eq)
    then show ?thesis
      using 2 by (intro that(2) [of "word_of_nat (0x80 + n div 256)" "word_of_nat n"])
        (simp_all only: medium_value unat_byte_of, simp_all add: enc_number_def)
  next
    case 3
    have "n div 0x1000000 < 32"
      using assms by simp
    moreover have "q < 32 \<Longrightarrow> (0xC0 + q) mod 256 mod 32 = q" for q :: nat
      using mod_mult_self4 [of 32 6 q] by simp
    ultimately have "(0xC0 + n div 0x1000000) mod 256 mod 32 = n div 0x1000000"
      by blast
    then have "0x1000000 * ((0xC0 + n div 0x1000000) mod 256 mod 32) + 0x10000 * (n div 0x10000 mod 256)
        + 256 * (n div 256 mod 256) + n mod 256 = n"
      by (simp only: four_digits)
    then show ?thesis
      using 3 assms
      by (intro that(3) [of "word_of_nat (0xC0 + n div 0x1000000)" "word_of_nat (n div 0x10000)" "word_of_nat (n div 256)"
            "word_of_nat n"])
        (simp_all only: long_value unat_byte_of, simp_all add: enc_number_def)
  qed
qed

lemma ParseNumber_enc:
  assumes "wf_number n"
  shows "ParseNumber \<lparr>unread = enc_number n @ bs, notified = l\<rparr> = Inr (Some (word_of_nat n), \<lparr>unread = bs, notified = l\<rparr>)"
  using assms
proof (cases rule: enc_number_cases)
  case (1 b)
  then have "b \<noteq> 0xff" by auto
  with 1 high_bits [of b] show ?thesis
    by (simp add: ParseNumber_def and_parse_def ParseByte_def parsed_def high_bits_ok_def)
next
  case (2 b1 b2)
  then have "b1 \<noteq> 0xff" by auto
  with 2 high_bits [of b1] show ?thesis
    by (simp add: ParseNumber_def and_parse_def ParseByte_def parsed_def high_bits_ok_def)
next
  case (3 b1 b2 b3 b4)
  then have "b1 \<noteq> 0xff" by auto
  with 3 high_bits [of b1] show ?thesis
    by (simp add: ParseNumber_def and_parse_def ParseByte_def parsed_def high_bits_ok_def)
qed

lemma CorSigUncompressData_enc:
  assumes "wf_number n"
  shows "CorSigUncompressData (enc_number n @ bs) = Inr (word_of_nat n, bs)"
  using assms
proof (cases rule: enc_number_cases)
  case (1 b)
  with high_bits [of b] show ?thesis by (simp add: high_bits_ok_def)
next
  case (2 b1 b2)
  with high_bits [of b1] show ?thesis by (simp add: high_bits_ok_def)
next
  case (3 b1 b2 b3 b4)
  with high_bits [of b1] show ?thesis by (simp add: high_bits_ok_def)
qed

lemma unat_number: "wf_number n \<Longrightarrow> unat (word_of_nat n :: u32) = n"
  by (simp add: unat_of_nat)

lemma token_enc:
  assumes "wf_token token"
  shows "ParseTypeDefOrRefEncoded \<lparr>unread = enc_token token @ bs, notified = l\<rparr>
    = Inr (Some (token_value token), \<lparr>unread = bs, notified = l\<rparr>)"
proof -
  obtain k rid where t: "token = Token k rid" by (cases token)
  have k: "kind_code k < 4" by (cases k) simp_all
  have n: "4 * rid + kind_code k < 2 ^ 29" using assms t k by simp
  have u: "unat (word_of_nat (4 * rid + kind_code k) :: u32) = 4 * rid + kind_code k"
    using n by (rule unat_number)
  have "rid < 2 ^ 29" using n by simp
  then have "unat (drop_bit 2 (word_of_nat (4 * rid + kind_code k) :: u32)) = unat (word_of_nat rid :: u32)"
    using k by (simp only: unat_drop_bit_eq u unat_number) (simp add: drop_bit_eq_div)
  then have "drop_bit 2 (word_of_nat (4 * rid + kind_code k) :: u32) = word_of_nat rid"
    by (simp only: word_unat_eq_iff)
  moreover have "unat ((word_of_nat (4 * rid + kind_code k) :: u32) AND 3) = kind_code k"
  proof -
    have "unat ((word_of_nat (4 * rid + kind_code k) :: u32) AND 3) = (4 * rid + kind_code k) AND mask 2"
      by (simp only: unsigned_and_eq u) (simp add: mask_eq_exp_minus_1)
    then show ?thesis
      using k by (simp add: take_bit_eq_mask [symmetric] take_bit_eq_mod)
  qed
  ultimately show ?thesis
    using CorSigUncompressData_enc [OF n, of bs]
    by (simp add: t ParseTypeDefOrRefEncoded_def CorSigUncompressToken_def)
qed

subsection \<open>Reading a prefix\<close>

text \<open>
  On inputs shorter than \<open>k\<close>, a parser reads the bytes \<open>xs\<close>, whatever follows them, with a
  result and callbacks. The parsers that look ahead have rules of their own.
\<close>

named_theorems reads_intros \<open>what the parsers read\<close>

definition reads :: "nat \<Rightarrow> 'a parsing \<Rightarrow> byte list \<Rightarrow> 'a \<Rightarrow> sig_event list \<Rightarrow> bool" where
  "reads k p xs x es \<longleftrightarrow>
     (\<forall>bs l. length (xs @ bs) < k \<longrightarrow>
        p \<lparr>unread = xs @ bs, notified = l\<rparr> = Inr (Some x, \<lparr>unread = bs, notified = l @ es\<rparr>))"

lemma reads_and_parse:
  assumes "reads k m xs x es" and "reads k (f x) ys y fs"
  shows "reads k (and_parse m f) (xs @ ys) y (es @ fs)"
  using assms by (simp add: reads_def and_parse_def)

lemma reads_notify:
  assumes "reads k (f ()) ys y fs"
  shows "reads k (and_parse (notify e) f) ys y (e # fs)"
  using assms by (simp add: reads_def and_parse_def notify_def)

lemma reads_end: "reads k (notify e) [] () [e]" "reads k (parsed x) [] x []"
  by (simp_all add: reads_def notify_def parsed_def)

lemma reads_parsed:
  assumes "reads k (f x) ys y fs"
  shows "reads k (and_parse (parsed x) f) ys y fs"
  using assms by (simp add: reads_def and_parse_def parsed_def)

lemma reads_byte:
  assumes "reads k (f b) ys y fs"
  shows "reads k (and_parse ParseByte f) (b # ys) y fs"
  using assms by (simp add: reads_def and_parse_def ParseByte_def)

lemma reads_byte_Suc:
  assumes "reads k (f b) ys y fs"
  shows "reads (Suc k) (and_parse ParseByte f) (b # ys) y fs"
  using assms by (simp add: reads_def and_parse_def ParseByte_def)

lemma reads_current:
  assumes "reads k (f b) (b # ys) y fs"
  shows "reads k (and_parse current f) (b # ys) y fs"
  using assms by (simp add: reads_def and_parse_def current_def)

lemma reads_advance:
  assumes "reads k (f ()) ys y fs"
  shows "reads k (and_parse advance f) (b # ys) y fs"
  using assms by (simp add: reads_def and_parse_def advance_def)

lemma reads_number:
  assumes "wf_number n" and "reads k (f (word_of_nat n)) ys y fs"
  shows "reads k (and_parse ParseNumber f) (enc_number n @ ys) y fs"
  using assms by (simp add: reads_def and_parse_def ParseNumber_enc)

lemma reads_token:
  assumes "wf_token token" and "reads k (f (token_value token)) ys y fs"
  shows "reads k (and_parse ParseTypeDefOrRefEncoded f) (enc_token token @ ys) y fs"
  using assms by (simp add: reads_def and_parse_def token_enc)

text \<open>The bytes no modifier starts with: the loop over modifiers stops at them.\<close>

definition no_mod :: "byte list \<Rightarrow> bool" where
  "no_mod xs \<longleftrightarrow> xs \<noteq> [] \<and> hd xs \<noteq> 0x20 \<and> hd xs \<noteq> 0x1f"

lemma no_mod_append: "no_mod xs \<Longrightarrow> no_mod (xs @ ys)"
  by (simp add: no_mod_def)

lemma ParseCustomMod_enc:
  assumes "wf_mod m"
  shows "ParseCustomMod \<lparr>unread = enc_mod m @ bs, notified = l\<rparr> = Inr (Some (), \<lparr>unread = bs, notified = l @ [ev_mod m]\<rparr>)"
  using assms by (cases m) (simp add: ParseCustomMod_def and_parse_def ParseByte_def token_enc notify_def)

lemma mods_enc:
  assumes "list_all wf_mod ms" and "no_mod bs"
  shows "ParseOptionalCustomMods \<lparr>unread = enc_mods ms @ bs, notified = l\<rparr>
    = Inr (Some (), \<lparr>unread = bs, notified = l @ ev_mods ms\<rparr>)"
  using assms
proof (induction ms arbitrary: l)
  case Nil
  then show ?case by (simp add: ParseOptionalCustomMods_loop at_mod_def no_mod_def)
next
  case (Cons m ms)
  have "at_mod \<lparr>unread = enc_mods (m # ms) @ bs, notified = l\<rparr>"
    by (cases m) (simp add: at_mod_def)
  with Cons show ?case
    by (simp add: ParseOptionalCustomMods_loop [of "\<lparr>unread = _, notified = _\<rparr>"] and_parse_def ParseCustomMod_enc)
qed

lemma reads_mods:
  assumes "list_all wf_mod ms" and "no_mod ys" and "reads k (f ()) ys y fs"
  shows "reads k (and_parse ParseOptionalCustomMods f) (enc_mods ms @ ys) y (ev_mods ms @ fs)"
proof -
  have "no_mod (ys @ bs)" for bs
    using assms(2) by (simp add: no_mod_def)
  with assms show ?thesis
    by (simp add: reads_def and_parse_def mods_enc)
qed

lemma reads_times:
  assumes "\<And>x. x \<in> set xs \<Longrightarrow> reads k p (enc x) () (ev x)"
  shows "reads k (repeat_parse (length xs) p) (concat (map enc xs)) () (concat (map ev xs))"
  using assms by (induction xs) (simp_all add: reads_end reads_and_parse)

lemma reads_numbers:
  assumes "list_all wf_number ns"
  shows "reads k (repeat_parse (length ns) (and_parse ParseNumber (\<lambda>n. notify (e n)))) (concat (map enc_number ns)) ()
    (map (\<lambda>n. e (word_of_nat n)) ns)"
proof -
  have "reads k (and_parse ParseNumber (\<lambda>n. notify (e n))) (enc_number n @ []) () [e (word_of_nat n)]"
    if "n \<in> set ns" for n
    using that assms by (intro reads_number reads_end) (auto simp: list_all_iff)
  from reads_times [where ev = "\<lambda>n. [e (word_of_nat n)]", OF this [unfolded append_Nil2]] show ?thesis
    by (simp add: concat_map_singleton)
qed

subsection \<open>Parameters and methods\<close>

definition type_start :: "byte \<Rightarrow> bool" where
  "type_start b \<longleftrightarrow> b \<in> set simple_types \<or> b \<in> {0x0f, 0x12, 0x11, 0x1b, 0x14, 0x1d, 0x15, 0x13, 0x1e}"

lemma type_start_not: "type_start b \<Longrightarrow> b \<notin> {0x20, 0x1f, 0x16, 0x10, 0x01, 0x41, 0x45}"
  by (auto simp: type_start_def simple_types_def)

lemma enc_type_start: "wf_type t \<Longrightarrow> \<exists>b bs. enc_type t = b # bs \<and> type_start b"
  by (cases t) (auto simp: type_start_def)

lemma enc_target_start:
  "wf_target p \<Longrightarrow> \<exists>b bs. enc_target p = b # bs \<and> b \<notin> {0x20, 0x1f, 0x01, 0x41, 0x45} \<and> (b = 0x16 \<longleftrightarrow> p = TypedByref)"
  using enc_type_start type_start_not by (cases p) (fastforce split: if_splits)+

lemma byref_reads:
  assumes "wf_type t" and "reads k pt (enc_type t) () (ev_type t)" and "enc_target (Direct r t) = c # cs"
  shows "reads k (and_parse (if c = 0x10 then and_parse (notify NotifyByref) (\<lambda>_. advance) else parsed ())
      (\<lambda>_. and_parse pt (\<lambda>_. notify e))) (c # cs) () (ev_target (Direct r t) @ [e])"
proof -
  obtain b bs where b: "enc_type t = b # bs" "type_start b"
    using enc_type_start assms(1) by blast
  have pt: "reads k (and_parse pt (\<lambda>_. notify e)) (enc_type t) () (ev_type t @ [e])"
    using reads_and_parse [OF assms(2) reads_end(1)] by simp
  have adv: "reads k (and_parse (notify NotifyByref) (\<lambda>_. advance)) [0x10] () [NotifyByref]"
    by (simp add: reads_def and_parse_def notify_def advance_def)
  show ?thesis
  proof (cases r)
    case True
    with assms(3) have "c = 0x10" "cs = enc_type t" by simp_all
    with reads_and_parse [where f = "\<lambda>_. and_parse pt (\<lambda>_. notify e)", OF adv pt] True show ?thesis by simp
  next
    case False
    with assms(3) b have "c # cs = enc_type t" "c \<noteq> 0x10" using type_start_not by auto
    with reads_parsed [where f = "\<lambda>_. and_parse pt (\<lambda>_. notify e)", OF pt] False show ?thesis by simp
  qed
qed

lemma typed_byref_reads:
  "reads k (and_parse (notify NotifyTypedByref) (\<lambda>_. and_parse advance (\<lambda>_. notify e))) [0x16] () [NotifyTypedByref, e]"
  by (intro reads_notify reads_advance reads_end)

definition target_read :: "nat \<Rightarrow> unit parsing \<Rightarrow> sig_target \<Rightarrow> bool" where
  "target_read k pt p \<longleftrightarrow> (\<forall>r t. p = Direct r t \<longrightarrow> reads k pt (enc_type t) () (ev_type t))"

lemma target_no_mod: "wf_target p \<Longrightarrow> no_mod (enc_target p)"
  using enc_target_start [of p] by (auto simp: no_mod_def)

lemma target_reads:
  assumes "wf_target p" and "target_read k pt p"
    and F16: "F 0x16 = and_parse (notify NotifyTypedByref) (\<lambda>_. and_parse advance (\<lambda>_. notify e))"
    and F: "\<And>c. c \<noteq> 0x16 \<Longrightarrow> c \<noteq> 0x01 \<Longrightarrow> F c =
      and_parse (if c = 0x10 then and_parse (notify NotifyByref) (\<lambda>_. advance) else parsed ()) (\<lambda>_.
      and_parse pt (\<lambda>_. notify e))"
  shows "reads k (and_parse current F) (enc_target p) () (ev_target p @ [e])"
proof -
  obtain c cs where c: "enc_target p = c # cs" "c \<notin> {0x20, 0x1f, 0x01, 0x41, 0x45}" "c = 0x16 \<longleftrightarrow> p = TypedByref"
    using enc_target_start assms(1) by blast
  have "reads k (F c) (c # cs) () (ev_target p @ [e])"
  proof (cases p)
    case TypedByref
    with c typed_byref_reads [of k e] F16 show ?thesis by simp
  next
    case (Direct r t)
    with assms(1,2) have "wf_type t" "reads k pt (enc_type t) () (ev_type t)" by (auto simp: target_read_def)
    from byref_reads [OF this] c Direct F show ?thesis by simp
  qed
  then show ?thesis
    unfolding c(1) by (rule reads_current)
qed

lemma param_reads:
  assumes "wf_param (Param ms p)" and "target_read k pt p"
  shows "reads k (ParseParam pt) (enc_param (Param ms p)) () (ev_param (Param ms p))"
  unfolding ParseParam_def enc_param.simps ev_param.simps
  using assms by (intro reads_notify reads_mods target_reads target_no_mod) auto

lemma ret_reads:
  assumes "list_all wf_mod ms" and "wf_ret r" and "\<And>p. r = Ret p \<Longrightarrow> target_read k pt p"
  shows "reads k (ParseRetType pt) (enc_mods ms @ enc_ret r) ()
    (NotifyBeginRetType # ev_mods ms @ ev_ret r @ [NotifyEndRetType])"
proof (cases r)
  case RetVoid
  have "reads k (and_parse (notify NotifyVoid) (\<lambda>_. and_parse advance (\<lambda>_. notify NotifyEndRetType))) [0x01] ()
      [NotifyVoid, NotifyEndRetType]"
    by (intro reads_notify reads_advance reads_end)
  then show ?thesis
    using assms(1) RetVoid unfolding ParseRetType_def
    by (auto intro!: reads_notify reads_mods reads_current simp: no_mod_def)
next
  case (Ret p)
  with assms show ?thesis
    unfolding ParseRetType_def enc_ret.simps ev_ret.simps Ret
    by (intro reads_notify reads_mods target_reads target_no_mod) auto
qed

definition param_read :: "nat \<Rightarrow> unit parsing \<Rightarrow> sig_param \<Rightarrow> bool" where
  "param_read k pt q \<longleftrightarrow> reads k (ParseParam pt) (enc_param q) () (ev_param q)"

lemma enc_param_start: "wf_param q \<Longrightarrow> \<exists>b bs. enc_param q = b # bs \<and> b \<noteq> 0x41"
proof (cases q)
  case (Param ms p)
  assume "wf_param q"
  with Param enc_target_start [of p] show ?thesis
    by (cases ms; cases "hd ms") auto
qed

lemma next_param_reads:
  assumes "wf_param q" and "param_read k pt q" and "reads k (parse_params n b pt) ys () fs"
  shows "reads k (parse_params (Suc n) b pt) (enc_param q @ ys) () (ev_param q @ fs)"
proof -
  obtain c cs where c: "enc_param q = c # cs" "c \<noteq> 0x41"
    using enc_param_start assms(1) by blast
  have "reads k (and_parse (ParseParam pt) (\<lambda>_. parse_params n b pt)) (enc_param q @ ys) () (ev_param q @ fs)"
    using assms(2,3) unfolding param_read_def by (rule reads_and_parse)
  then show ?thesis
    unfolding parse_params.simps c(1) append_Cons using c(2) by (intro reads_current) simp
qed

lemma params_reads:
  assumes "list_all wf_param ps" and "list_all (param_read k pt) ps" and "reads k (parse_params n b pt) ys () fs"
  shows "reads k (parse_params (length ps + n) b pt) (concat (map enc_param ps) @ ys) () (concat (map ev_param ps) @ fs)"
  using assms(1,2)
proof (induction ps)
  case Nil
  with assms(3) show ?case by simp
next
  case (Cons q ps)
  with next_param_reads [of q k pt "length ps + n" b "concat (map enc_param ps) @ ys"
      "concat (map ev_param ps) @ fs"] show ?case by simp
qed

lemma varargs_reads:
  assumes "list_all wf_param qs" and "list_all (param_read k pt) qs"
  shows "reads k (parse_params (length qs) False pt) (if qs = [] then [] else 0x41 # concat (map enc_param qs)) ()
    (if qs = [] then [] else NotifySentinal # concat (map ev_param qs))"
proof (cases qs)
  case Nil
  then show ?thesis by (simp add: reads_end)
next
  case (Cons q qs')
  have "reads k (parse_params (length qs') True pt) (concat (map enc_param qs')) () (concat (map ev_param qs'))"
    using params_reads [of qs' k pt 0 True "[]" "[]"] assms Cons by (simp add: reads_end)
  moreover have "reads k (ParseParam pt) (enc_param q) () (ev_param q)"
    using assms(2) Cons by (simp add: param_read_def)
  ultimately show ?thesis
    using Cons by (auto intro!: reads_current reads_notify reads_advance reads_and_parse)
qed

definition method_read :: "nat \<Rightarrow> unit parsing \<Rightarrow> sig_method \<Rightarrow> bool" where
  "method_read k pt m \<longleftrightarrow> reads k (ParseMethod pt (hd (enc_method m))) (tl (enc_method m)) () (ev_method m)"

lemma method_reads:
  assumes "wf_method (Method conv generics ms r ps qs)" and "\<And>p. r = Ret p \<Longrightarrow> target_read k pt p"
    and "list_all (param_read k pt) ps" and "list_all (param_read k pt) qs"
  shows "method_read k pt (Method conv generics ms r ps qs)"
proof -
  let ?n = "length ps + length qs"
  let ?args = "concat (map enc_param ps) @ (if qs = [] then [] else 0x41 # concat (map enc_param qs))"
  let ?evs = "concat (map ev_param ps) @ (if qs = [] then [] else NotifySentinal # concat (map ev_param qs))"
  have n: "wf_number ?n" using assms(1) by simp
  have "reads k (parse_params (unat (word_of_nat ?n :: u32)) False pt) ?args () ?evs"
    unfolding unat_number [OF n] using assms by (intro params_reads varargs_reads) simp_all
  then have ps: "reads k (and_parse (parse_params (unat (word_of_nat ?n :: u32)) False pt) (\<lambda>_. notify NotifyEndMethod))
      ?args () (?evs @ [NotifyEndMethod])"
    using reads_and_parse [where f = "\<lambda>_. notify NotifyEndMethod", OF _ reads_end(1)] by fastforce
  have ret: "reads k (ParseRetType pt) (enc_mods ms @ enc_ret r) ()
      (NotifyBeginRetType # ev_mods ms @ ev_ret r @ [NotifyEndRetType])"
    using assms(1,2) by (intro ret_reads) simp_all
  let ?rest = "\<lambda>_ :: unit. and_parse ParseNumber (\<lambda>param_count.
     and_parse (notify (NotifyParamCount param_count)) (\<lambda>_.
     and_parse (ParseRetType pt) (\<lambda>_.
     and_parse (parse_params (unat param_count) False pt) (\<lambda>_.
     notify NotifyEndMethod))))"
  have rest: "reads k (?rest ()) (enc_number ?n @ (enc_mods ms @ enc_ret r) @ ?args) ()
      (NotifyParamCount (word_of_nat ?n) # (NotifyBeginRetType # ev_mods ms @ ev_ret r @ [NotifyEndRetType])
       @ ?evs @ [NotifyEndMethod])"
    by (intro reads_number reads_notify n reads_and_parse [OF ret ps])
  show ?thesis
  proof (cases generics)
    case None
    with assms(1) reads_parsed [where f = ?rest, OF rest] show ?thesis
      by (auto simp: method_read_def ParseMethod_def intro!: reads_notify)
  next
    case (Some g)
    have "reads k (and_parse ParseNumber (\<lambda>n. notify (NotifyGenericParamCount n))) (enc_number g @ []) ()
        [NotifyGenericParamCount (word_of_nat g)]"
      using assms(1) Some by (intro reads_number reads_end) simp
    with Some assms(1) reads_and_parse [where f = ?rest, OF _ rest] show ?thesis
      by (fastforce simp: method_read_def ParseMethod_def intro!: reads_notify)
  qed
qed

subsection \<open>Types\<close>

lemma shape_reads:
  assumes "wf_number rank" and "wf_number (length sizes)" and "list_all wf_number sizes"
    and "wf_number (length bounds)" and "list_all wf_number bounds"
  shows "reads k ParseArrayShape (enc_shape rank sizes bounds) () (ev_shape rank sizes bounds)"
proof -
  have ns: "reads k (repeat_parse (unat (word_of_nat (length sizes) :: u32)) (and_parse ParseNumber (\<lambda>n. notify (NotifySize n))))
      (concat (map enc_number sizes)) () (map (\<lambda>n. NotifySize (word_of_nat n)) sizes)"
    unfolding unat_number [OF assms(2)] by (rule reads_numbers [OF assms(3)])
  have bs: "reads k (repeat_parse (unat (word_of_nat (length bounds) :: u32)) (and_parse ParseNumber (\<lambda>n. notify (NotifyLoBound n))))
      (concat (map enc_number bounds)) () (map (\<lambda>n. NotifyLoBound (word_of_nat n)) bounds)"
    unfolding unat_number [OF assms(4)] by (rule reads_numbers [OF assms(5)])
  have "reads k ParseArrayShape
    (enc_number rank @ enc_number (length sizes) @ concat (map enc_number sizes)
     @ enc_number (length bounds) @ concat (map enc_number bounds) @ []) ()
    (NotifyBeginArrayShape # NotifyRank (word_of_nat rank) # NotifyNumSizes (word_of_nat (length sizes))
     # map (\<lambda>n. NotifySize (word_of_nat n)) sizes
     @ NotifyNumLoBounds (word_of_nat (length bounds)) # map (\<lambda>n. NotifyLoBound (word_of_nat n)) bounds
     @ [NotifyEndArrayShape])"
    unfolding ParseArrayShape_def
    by (intro reads_notify reads_number assms reads_and_parse [OF ns] reads_and_parse [OF bs] reads_end)
  then show ?thesis by (simp add: enc_shape_def ev_shape_def)
qed

lemma no_mod_type: "wf_type t \<Longrightarrow> no_mod (enc_type t)"
  using enc_type_start type_start_not by (fastforce simp: no_mod_def)

text \<open>The element type and what the switch reads after it.\<close>

definition elem_read :: "nat \<Rightarrow> unit parsing \<Rightarrow> sig_type \<Rightarrow> bool" where
  "elem_read k pt t \<longleftrightarrow>
     (\<exists>b bs. enc_type t = b # bs \<and> reads k (parse_elem pt b) bs () (ev_inner t))"

lemma elem_simple: "wf_type (Simple e) \<Longrightarrow> elem_read k pt (Simple e)"
  by (simp add: elem_read_def parse_elem_def reads_end)

lemma elem_tokens:
  "wf_type (Class token) \<Longrightarrow> elem_read k pt (Class token)"
  "wf_type (ValueType token) \<Longrightarrow> elem_read k pt (ValueType token)"
  using reads_token [of token k "\<lambda>token. notify (NotifyTypeDefOrRef token)" "[]", OF _ reads_end(1)]
  by (simp_all add: elem_read_def parse_elem_def simple_types_def reads_notify)

lemma elem_vars: "wf_type (Var n) \<Longrightarrow> elem_read k pt (Var n)" "wf_type (MVar n) \<Longrightarrow> elem_read k pt (MVar n)"
  using reads_number [of n k "\<lambda>n. notify (NotifyTypeGenericTypeVariable n)" "[]", OF _ reads_end(1)]
    reads_number [of n k "\<lambda>n. notify (NotifyTypeGenericMemberVariable n)" "[]", OF _ reads_end(1)]
  by (simp_all add: elem_read_def parse_elem_def simple_types_def)

lemma elem_pointers:
  shows "wf_type (PtrVoid ms) \<Longrightarrow> elem_read k pt (PtrVoid ms)"
    and "wf_type (Ptr ms t) \<Longrightarrow> reads k pt (enc_type t) () (ev_type t) \<Longrightarrow> elem_read k pt (Ptr ms t)"
    and "wf_type (SzArray ms t) \<Longrightarrow> reads k pt (enc_type t) () (ev_type t) \<Longrightarrow> elem_read k pt (SzArray ms t)"
proof -
  let ?F = "\<lambda>c :: byte. if c = 0x01 then and_parse advance (\<lambda>_. notify NotifyVoid) else pt"
  have "reads k (and_parse current ?F) [0x01] () [NotifyVoid]"
    by (intro reads_current) (simp add: reads_advance reads_end)
  then show "wf_type (PtrVoid ms) \<Longrightarrow> elem_read k pt (PtrVoid ms)"
    by (auto simp: elem_read_def parse_elem_def simple_types_def no_mod_def intro!: reads_notify reads_mods)
  assume pt: "reads k pt (enc_type t) () (ev_type t)"
  show "elem_read k pt (Ptr ms t)" if wf: "wf_type (Ptr ms t)"
  proof -
    obtain b bs where b: "enc_type t = b # bs" "type_start b"
      using enc_type_start [of t] wf by auto
    have "reads k (and_parse current ?F) (b # bs) () (ev_type t)"
      using pt b type_start_not [OF b(2)] by (intro reads_current) simp
    then show ?thesis
      using wf no_mod_type [of t] b(1) unfolding elem_read_def parse_elem_def enc_type.simps ev_inner.simps
      by (auto simp: simple_types_def intro!: reads_notify reads_mods)
  qed
  show "elem_read k pt (SzArray ms t)" if "wf_type (SzArray ms t)"
    using that pt no_mod_type [of t] unfolding elem_read_def parse_elem_def enc_type.simps ev_inner.simps
    by (auto simp: simple_types_def intro!: reads_notify reads_mods)
qed

lemma elem_array:
  assumes "wf_type (Array t rank sizes bounds)" and "reads k pt (enc_type t) () (ev_type t)"
  shows "elem_read k pt (Array t rank sizes bounds)"
proof -
  have "reads k (and_parse pt (\<lambda>_. ParseArrayShape)) (enc_type t @ enc_shape rank sizes bounds) ()
      (ev_type t @ ev_shape rank sizes bounds)"
    using assms by (intro reads_and_parse shape_reads) simp_all
  then show ?thesis
    by (auto simp: elem_read_def parse_elem_def simple_types_def intro!: reads_notify)
qed

lemma elem_generic:
  assumes "wf_type (GenericInst cls token ts)" and "\<And>t. t \<in> set ts \<Longrightarrow> reads k pt (enc_type t) () (ev_type t)"
  shows "elem_read k pt (GenericInst cls token ts)"
proof -
  have wf: "wf_token token" and n: "wf_number (length ts)"
    using assms(1) by simp_all
  have "reads k (repeat_parse (unat (word_of_nat (length ts) :: u32)) pt) (concat (map enc_type ts)) () (concat (map ev_type ts))"
    unfolding unat_number [OF n] using assms(2) by (rule reads_times)
  then show ?thesis
    using wf n by (auto simp: elem_read_def parse_elem_def simple_types_def
        intro!: reads_byte reads_token reads_number reads_notify)
qed

lemma elem_fnptr:
  assumes "method_read k pt m"
  shows "elem_read k pt (FnPtr m)"
proof -
  have "enc_method m = hd (enc_method m) # tl (enc_method m)"
    by (cases m) simp
  with reads_byte [where f = "ParseMethod pt", OF assms [unfolded method_read_def]]
  have "reads k (and_parse ParseByte (ParseMethod pt)) (enc_method m) () (ev_method m)" by simp
  then show ?thesis
    by (auto simp: elem_read_def parse_elem_def simple_types_def intro!: reads_notify)
qed

lemma type_reads:
  assumes "\<And>n. k = Suc n \<Longrightarrow> elem_read n (ParseType n) t"
  shows "reads k (ParseType k) (enc_type t) () (ev_type t)"
proof (cases k)
  case 0
  then show ?thesis by (simp add: reads_def)
next
  case (Suc n)
  obtain b bs where b: "enc_type t = b # bs" and r: "reads n (parse_elem (ParseType n) b) bs () (ev_inner t)"
    using assms [OF Suc] by (auto simp: elem_read_def)
  have eq: "ParseType (Suc n) = and_parse (notify NotifyBeginType) (\<lambda>_.
      and_parse ParseByte (\<lambda>elem_type.
      and_parse (parse_elem (ParseType n) elem_type) (\<lambda>_. notify NotifyEndType)))"
    by (rule ext) simp
  have "reads (Suc n) (ParseType (Suc n)) (b # bs @ []) () (NotifyBeginType # ev_inner t @ [NotifyEndType])"
    unfolding eq by (intro reads_notify reads_byte_Suc reads_and_parse [OF r] reads_end)
  with Suc b show ?thesis by simp
qed

text \<open>The parser of types reads every type of the grammar, and the other parsers their parts.\<close>

lemma grammar_reads:
  "wf_type t \<Longrightarrow> reads k (ParseType k) (enc_type t) () (ev_type t)"
  "wf_target p \<Longrightarrow> target_read k (ParseType k) p"
  "wf_param q \<Longrightarrow> param_read k (ParseType k) q"
  "wf_ret r \<Longrightarrow> r = Ret p' \<Longrightarrow> target_read k (ParseType k) p'"
  "wf_method m \<Longrightarrow> method_read k (ParseType k) m"
proof (induction t and p and q and r and m arbitrary: k and k and k and k p' and k)
  case (Method conv generics ms r ps qs)
  then show ?case by (intro method_reads) (auto simp: list_all_iff)
next
  case (Param ms p)
  then show ?case by (simp add: param_read_def param_reads [simplified])
next
  case (GenericInst cls token ts)
  then have "elem_read n (ParseType n) (GenericInst cls token ts)" for n
    by (intro elem_generic) (auto simp: list_all_iff simp del: ev_type.simps)
  then show ?case by (rule type_reads)
next
  case (Simple e)
  then show ?case by (intro type_reads elem_simple)
next
  case (PtrVoid ms)
  then show ?case by (intro type_reads elem_pointers)
next
  case (Ptr ms t)
  then have "elem_read n (ParseType n) (Ptr ms t)" for n
    by (intro elem_pointers) (simp_all del: ev_type.simps)
  then show ?case by (rule type_reads)
next
  case (Class token)
  then show ?case by (intro type_reads elem_tokens)
next
  case (ValueType token)
  then show ?case by (intro type_reads elem_tokens)
next
  case (FnPtr m)
  then have "elem_read n (ParseType n) (FnPtr m)" for n
    by (intro elem_fnptr) (simp_all del: ev_type.simps)
  then show ?case by (rule type_reads)
next
  case (Array t rank sizes bounds)
  then have "elem_read n (ParseType n) (Array t rank sizes bounds)" for n
    by (intro elem_array) (simp_all del: ev_type.simps)
  then show ?case by (rule type_reads)
next
  case (SzArray ms t)
  then have "elem_read n (ParseType n) (SzArray ms t)" for n
    by (intro elem_pointers) (simp_all del: ev_type.simps)
  then show ?case by (rule type_reads)
next
  case (Var n)
  then show ?case by (intro type_reads elem_vars)
next
  case (MVar n)
  then show ?case by (intro type_reads elem_vars)
qed (simp_all add: target_read_def del: ev_type.simps)

subsection \<open>Whole signatures\<close>

datatype local_mod = LMod sig_mod | Pinned

datatype sig_local = LocalTypedByref | Local "local_mod list" bool sig_type

datatype signature =
  SigMethod sig_method
| SigField byte "sig_mod list" sig_type
| SigProperty byte "sig_mod list" sig_type "sig_param list"
| SigLocals byte "sig_local list"

fun enc_local_mod :: "local_mod \<Rightarrow> byte list" where
  "enc_local_mod (LMod m) = enc_mod m"
| "enc_local_mod Pinned = [0x45]"

fun ev_local_mod :: "local_mod \<Rightarrow> sig_event" where
  "ev_local_mod (LMod m) = ev_mod m"
| "ev_local_mod Pinned = NotifyConstraint 0x45"

fun wf_local_mod :: "local_mod \<Rightarrow> bool" where
  "wf_local_mod (LMod m) = wf_mod m"
| "wf_local_mod Pinned = True"

fun enc_local :: "sig_local \<Rightarrow> byte list" where
  "enc_local LocalTypedByref = [0x16]"
| "enc_local (Local ms byref t) = concat (map enc_local_mod ms) @ enc_target (Direct byref t)"

fun ev_local :: "sig_local \<Rightarrow> sig_event list" where
  "ev_local LocalTypedByref = [NotifyBeginLocal, NotifyTypedByref, NotifyEndLocal]"
| "ev_local (Local ms byref t) = NotifyBeginLocal # map ev_local_mod ms @ ev_target (Direct byref t) @ [NotifyEndLocal]"

fun wf_local :: "sig_local \<Rightarrow> bool" where
  "wf_local LocalTypedByref = True"
| "wf_local (Local ms byref t) = (list_all wf_local_mod ms \<and> wf_type t)"

fun enc_signature :: "signature \<Rightarrow> byte list" where
  "enc_signature (SigMethod m) = enc_method m"
| "enc_signature (SigField e ms t) = e # enc_mods ms @ enc_type t"
| "enc_signature (SigProperty e ms t ps) =
     e # enc_number (length ps) @ enc_mods ms @ enc_type t @ concat (map enc_param ps)"
| "enc_signature (SigLocals e ls) = e # enc_number (length ls) @ concat (map enc_local ls)"

fun ev_signature :: "signature \<Rightarrow> sig_event list" where
  "ev_signature (SigMethod m) = ev_method m"
| "ev_signature (SigField e ms t) = NotifyBeginField e # ev_mods ms @ ev_type t @ [NotifyEndField]"
| "ev_signature (SigProperty e ms t ps) =
     NotifyBeginProperty e # NotifyParamCount (word_of_nat (length ps)) # ev_mods ms @ ev_type t
     @ concat (map ev_param ps) @ [NotifyEndProperty]"
| "ev_signature (SigLocals e ls) =
     NotifyBeginLocals e # NotifyLocalsCount (word_of_nat (length ls)) # concat (map ev_local ls) @ [NotifyEndLocals]"

fun wf_signature :: "signature \<Rightarrow> bool" where
  "wf_signature (SigMethod (Method conv g ms r ps qs)) =
     (conv AND 0xf \<in> {0, 1, 2, 3, 4, 5} \<and> wf_method (Method conv g ms r ps qs))"
| "wf_signature (SigField e ms t) = (e AND 0xf = 6 \<and> list_all wf_mod ms \<and> wf_type t)"
| "wf_signature (SigProperty e ms t ps) =
     (e AND 0xf = 8 \<and> wf_number (length ps) \<and> list_all wf_mod ms \<and> wf_type t \<and> list_all wf_param ps)"
| "wf_signature (SigLocals e ls) = (e AND 0xf = 7 \<and> wf_number (length ls) \<and> list_all wf_local ls)"

lemma field_reads:
  assumes "list_all wf_mod ms" and "wf_type t"
  shows "reads k (ParseField (ParseType k) e) (enc_mods ms @ enc_type t) () (ev_signature (SigField e ms t))"
proof -
  have "reads k (ParseField (ParseType k) e) (enc_mods ms @ enc_type t @ []) ()
      (NotifyBeginField e # ev_mods ms @ ev_type t @ [NotifyEndField])"
    unfolding ParseField_def using assms
    by (intro reads_notify reads_mods reads_and_parse [OF grammar_reads(1)] reads_end) (simp_all add: no_mod_type)
  then show ?thesis by simp
qed

lemma property_reads:
  assumes "wf_number (length ps)" and "list_all wf_mod ms" and "wf_type t" and "list_all wf_param ps"
  shows "reads k (ParseProperty (ParseType k) e) (enc_number (length ps) @ enc_mods ms @ enc_type t @ concat (map enc_param ps)) ()
    (ev_signature (SigProperty e ms t ps))"
proof -
  have "reads k (repeat_parse (unat (word_of_nat (length ps) :: u32)) (ParseParam (ParseType k))) (concat (map enc_param ps)) ()
      (concat (map ev_param ps))"
    unfolding unat_number [OF assms(1)]
    using assms(4) grammar_reads(3) by (intro reads_times) (auto simp: list_all_iff param_read_def)
  from reads_and_parse [where f = "\<lambda>_. notify NotifyEndProperty", OF this reads_end(1)]
  have "reads k (ParseProperty (ParseType k) e) (enc_number (length ps) @ enc_mods ms @ enc_type t @ concat (map enc_param ps) @ []) ()
      (NotifyBeginProperty e # NotifyParamCount (word_of_nat (length ps)) # ev_mods ms @ ev_type t
       @ concat (map ev_param ps) @ [NotifyEndProperty])"
    unfolding ParseProperty_def using assms
    by (intro reads_notify reads_number reads_mods reads_and_parse [OF grammar_reads(1)]) (simp_all add: no_mod_type no_mod_append)
  then show ?thesis by simp
qed

text \<open>Modifiers and constraints of a local variable, up to a byte that is neither.\<close>

lemma local_mods_enc:
  assumes "list_all wf_local_mod ms" and "no_mod bs" and "hd bs \<noteq> 0x45"
  shows "ParseOptionalCustomModsOrConstraint \<lparr>unread = concat (map enc_local_mod ms) @ bs, notified = l\<rparr>
    = Inr (Some (), \<lparr>unread = bs, notified = l @ map ev_local_mod ms\<rparr>)"
  using assms(1)
proof (induction ms arbitrary: l)
  case Nil
  then show ?case
    using assms(2,3) by (simp add: ParseOptionalCustomModsOrConstraint_loop at_mod_def at_constraint_def no_mod_def)
next
  case (Cons m ms)
  let ?bs = "concat (map enc_local_mod ms) @ bs"
  have "mod_or_constraint \<lparr>unread = enc_local_mod m @ ?bs, notified = l\<rparr>
      = Inr (Some (), \<lparr>unread = ?bs, notified = l @ [ev_local_mod m]\<rparr>)"
  proof (cases m)
    case (LMod x)
    moreover have "\<not> at_constraint \<lparr>unread = enc_mod x @ ?bs, notified = l\<rparr>"
      by (cases x) (simp add: at_constraint_def)
    ultimately show ?thesis
      using Cons.prems by (simp add: mod_or_constraint_def ParseCustomMod_enc)
  qed (simp add: mod_or_constraint_def at_constraint_def and_parse_def notify_def advance_def)
  moreover have "at_mod \<lparr>unread = enc_local_mod m @ ?bs, notified = l\<rparr>
      \<or> at_constraint \<lparr>unread = enc_local_mod m @ ?bs, notified = l\<rparr>"
  proof (cases m)
    case (LMod x)
    then show ?thesis by (cases x) (simp add: at_mod_def)
  qed (simp add: at_constraint_def)
  ultimately show ?case
    using Cons by (simp add: ParseOptionalCustomModsOrConstraint_loop [of "\<lparr>unread = _ @ _, notified = _\<rparr>"] and_parse_def)
qed

lemma reads_local_mods:
  assumes "list_all wf_local_mod ms" and "no_mod ys" and "hd ys \<noteq> 0x45" and "reads k (f ()) ys y fs"
  shows "reads k (and_parse ParseOptionalCustomModsOrConstraint f) (concat (map enc_local_mod ms) @ ys) y
    (map ev_local_mod ms @ fs)"
proof -
  have "no_mod (ys @ bs)" "hd (ys @ bs) \<noteq> 0x45" for bs
    using assms(2,3) by (auto simp: no_mod_def)
  with assms show ?thesis
    by (simp add: reads_def and_parse_def local_mods_enc)
qed

lemma local_reads:
  assumes "wf_local v"
  shows "reads k (ParseLocal (ParseType k)) (enc_local v) () (ev_local v)"
proof (cases v)
  case LocalTypedByref
  with typed_byref_reads [of k NotifyEndLocal] show ?thesis
    by (auto simp: ParseLocal_def intro!: reads_notify reads_current)
next
  case (Local ms byref t)
  with assms have ms: "list_all wf_local_mod ms" and t: "wf_type t" by simp_all
  obtain c cs where c: "enc_target (Direct byref t) = c # cs" "c \<notin> {0x20, 0x1f, 0x01, 0x41, 0x45}" "c \<noteq> 0x16"
    using enc_target_start [of "Direct byref t"] t by auto
  have "reads k (and_parse current (\<lambda>c.
       and_parse (if c = 0x10 then and_parse (notify NotifyByref) (\<lambda>_. advance) else parsed ()) (\<lambda>_.
       and_parse (ParseType k) (\<lambda>_. notify NotifyEndLocal)))) (c # cs) () (ev_target (Direct byref t) @ [NotifyEndLocal])"
    using byref_reads [OF t grammar_reads(1) [OF t] c(1)] by (rule reads_current)
  then have mods: "reads k (and_parse ParseOptionalCustomModsOrConstraint (\<lambda>_. and_parse current (\<lambda>c.
       and_parse (if c = 0x10 then and_parse (notify NotifyByref) (\<lambda>_. advance) else parsed ()) (\<lambda>_.
       and_parse (ParseType k) (\<lambda>_. notify NotifyEndLocal))))) (enc_local v) () (tl (ev_local v))"
    using ms c Local by (auto intro!: reads_local_mods simp: no_mod_def)
  obtain d ds where d: "enc_local v = d # ds" "d \<noteq> 0x16"
  proof (cases ms)
    case (Cons m ms')
    show ?thesis
    proof (cases m)
      case (LMod x)
      with Cons Local that show ?thesis by (cases x) (auto split: if_splits)
    qed (use Cons Local that in auto)
  qed (use Local c that in auto)
  show ?thesis
    using mods d Local unfolding ParseLocal_def by (auto intro!: reads_notify reads_current)
qed

lemma locals_reads:
  assumes "wf_number (length ls)" and "list_all wf_local ls"
  shows "reads k (ParseLocals (ParseType k) e) (enc_number (length ls) @ concat (map enc_local ls)) ()
    (ev_signature (SigLocals e ls))"
proof -
  have "reads k (repeat_parse (unat (word_of_nat (length ls) :: u32)) (ParseLocal (ParseType k))) (concat (map enc_local ls)) ()
      (concat (map ev_local ls))"
    unfolding unat_number [OF assms(1)]
    using assms(2) local_reads by (intro reads_times) (auto simp: list_all_iff)
  from reads_and_parse [where f = "\<lambda>_. notify NotifyEndLocals", OF this reads_end(1)]
  show ?thesis
    unfolding ParseLocals_def using assms(1) by (auto intro!: reads_notify reads_number)
qed

text \<open>
  Claim C7: Every signature of the grammar is accepted: for a syntax tree of a method, a field, a property or
  local variables (counts below \<^verbatim>\<open>2^29\<close>, rows of tables below \<^verbatim>\<open>2^27\<close>), parsing the bytes it is
  encoded as succeeds, consumes all of them, and makes exactly the callbacks of the tree in the order of
  the grammar, so the client sees the tree again.
\<close>

theorem signature_roundtrip:
  assumes "wf_signature g"
  shows "Parse (enc_signature g) = Inr (Some (), \<lparr>unread = [], notified = ev_signature g\<rparr>)"
proof -
  obtain e es where e: "enc_signature g = e # es"
    by (cases g rule: wf_signature.cases) auto
  let ?k = "length (e # es)"
  let ?F = "\<lambda>elem_type. let kind = elem_type AND 0xf; pt = ParseType ?k in
      if kind \<in> {0, 1, 2, 3, 4, 5} then ParseMethod pt elem_type
      else if kind = 6 then ParseField pt elem_type
      else if kind = 7 then ParseLocals pt elem_type
      else if kind = 8 then ParseProperty pt elem_type
      else return_false"
  have "reads ?k (?F e) es () (ev_signature g)"
  proof (cases g rule: wf_signature.cases)
    case (1 conv gs ms r ps qs)
    with assms e grammar_reads(5) [of "Method conv gs ms r ps qs" ?k] show ?thesis
      by (simp add: method_read_def)
  next
    case (2 e' ms t)
    with assms e field_reads [of ms t ?k e'] show ?thesis by simp
  next
    case (3 e' ms t ps)
    with assms e property_reads [of ps ms t ?k e'] show ?thesis by simp
  next
    case (4 e' ls)
    with assms e locals_reads [of ls ?k e'] show ?thesis by simp
  qed
  then have "reads (Suc ?k) (and_parse ParseByte ?F) (e # es) () (ev_signature g)"
    by (rule reads_byte_Suc)
  then have "and_parse ParseByte ?F \<lparr>unread = (e # es) @ [], notified = []\<rparr>
      = Inr (Some (), \<lparr>unread = [], notified = [] @ ev_signature g\<rparr>)"
    unfolding reads_def by simp
  then show ?thesis
    by (simp add: Parse_def e Let_def)
qed

text \<open>A method with a sentinel: an instance method that takes a pointer and an array and returns a generic class.\<close>

definition sample_signature :: signature where
  "sample_signature = SigMethod (Method 0x25 None [] (Ret (Direct False (GenericInst True (Token TypeRef 7) [Simple 0x08])))
     [Param [Mod True (Token TypeDef 2000)] (Direct True (PtrVoid []))] [Param [] (Direct False (Array (Simple 0x0e) 2 [5] []))])"

theorem signature_roundtrip_witness:
  "Parse (enc_signature sample_signature) = Inr (Some (), \<lparr>unread = [], notified = ev_signature sample_signature\<rparr>)"
  by (rule signature_roundtrip) (simp add: sample_signature_def simple_types_def)

subsection \<open>Outside the grammar\<close>

lemma field_after_mods:
  assumes "e AND 0xf = 6" and "list_all wf_mod ms" and "no_mod ys"
  shows "Parse (e # enc_mods ms @ ys) = and_parse (ParseType (Suc (length (enc_mods ms @ ys)))) (\<lambda>_. notify NotifyEndField)
    \<lparr>unread = ys, notified = NotifyBeginField e # ev_mods ms\<rparr>"
  using assms
  by (simp add: Parse_def Let_def and_parse_def ParseByte_def ParseField_def notify_def mods_enc del: ParseType.simps)

text \<open>
  Claim C37: A type that starts with a byte that is no element type of the grammar is accepted in silence: the field
  signature with this byte as its type parses, and the client is told of a type without contents.
\<close>

theorem unknown_element_accepted:
  assumes "e AND 0xf = 6" and "list_all wf_mod ms" and "\<not> type_start b" and "b \<noteq> 0x20" and "b \<noteq> 0x1f"
  shows "Parse (e # enc_mods ms @ [b]) = Inr (Some (),
    \<lparr>unread = [], notified = NotifyBeginField e # ev_mods ms @ [NotifyBeginType, NotifyEndType, NotifyEndField]\<rparr>)"
proof -
  have "parse_elem pt b = parsed ()" for pt
    using assms(3) by (simp add: parse_elem_def type_start_def)
  moreover have "no_mod [b]"
    using assms(4,5) by (simp add: no_mod_def)
  ultimately show ?thesis
    using field_after_mods [OF assms(1,2)] by (simp add: and_parse_def notify_def ParseByte_def parsed_def)
qed

theorem unknown_element_accepted_witness:
  "Parse [6, 0xff] = Inr (Some (),
    \<lparr>unread = [], notified = [NotifyBeginField 6, NotifyBeginType, NotifyEndType, NotifyEndField]\<rparr>)"
  using unknown_element_accepted [where e = 6 and ms = "[]" and b = "0xff"] by (simp add: type_start_def simple_types_def)

text \<open>
  Claim C36: A token is read without regard to the end of the blob: a field signature that ends after the element
  type of a class or a value type makes the parser read behind the blob.
\<close>

theorem token_read_past_end:
  assumes "e AND 0xf = 6" and "list_all wf_mod ms" and "b = 0x12 \<or> b = 0x11"
  shows "Parse (e # enc_mods ms @ [b]) = Inl Out_of_bounds"
proof -
  have "no_mod [b]"
    using assms(3) by (auto simp: no_mod_def)
  with assms field_after_mods [OF assms(1,2), of "[b]"] show ?thesis
    by (auto simp: and_parse_def notify_def ParseByte_def parse_elem_def simple_types_def
        ParseTypeDefOrRefEncoded_def CorSigUncompressToken_def)
qed

theorem token_read_past_end_witness: "Parse [6, 0x12] = Inl Out_of_bounds"
  using token_read_past_end [where e = 6 and ms = "[]" and b = "0x12"] by simp

theorem parser_ends_witness:
  "\<exists>s'. Parse [6, 0xff] = Inr (Some (), s') \<and> length (unread s') \<le> 2"
proof -
  obtain s' where run: "Parse [6, 0xff] = Inr (Some (), s')"
    by (simp add: Parse_def Let_def and_parse_def ParseByte_def ParseField_def notify_def parsed_def
        ParseOptionalCustomMods_loop at_mod_def parse_elem_def simple_types_def)
  with parser_ends [of "[6, 0xff]"] have "length (unread s') \<le> length [6, 0xff :: byte]" by blast
  with run show ?thesis by simp
qed

subsection \<open>Bounds of numbers\<close>

lemma medium_bound: "unat (push_bit 8 (ucast b1 AND 0x3f) OR ucast (b2 :: byte) :: u32) < 2 ^ 29" for b1 :: byte
proof -
  have "unat b1 mod 64 < 64" "unat b2 < 256"
    by (simp_all add: unat_byte_less)
  then have "256 * (unat b1 mod 64) + unat b2 < 2 ^ 29"
    by (simp, linarith)
  then show ?thesis by (simp only: medium_value unat_number)
qed

lemma long_bound:
  fixes b1 b2 b3 b4 :: byte
  shows "unat (push_bit 24 (ucast b1 AND 0x1f) OR push_bit 16 (ucast b2) OR push_bit 8 (ucast b3) OR ucast b4 :: u32) < 2 ^ 29"
proof -
  have b: "unat b1 mod 32 < 32" "unat b2 < 256" "unat b3 < 256" "unat b4 < 256"
    by (simp_all add: unat_byte_less)
  have p: "(2 :: nat) ^ 29 = 536870912" by simp
  have "0x1000000 * (unat b1 mod 32) + 0x10000 * unat b2 + 256 * unat b3 + unat b4 < 2 ^ 29"
    unfolding p using b by linarith
  then show ?thesis by (simp only: long_value unat_number)
qed

text \<open>
  Claim C9: Every number the parser delivers has at most 29 bits and is read from at most four bytes, whatever
  the input; so the counts of parameters, local variables, generic arguments and dimensions are bounded.
\<close>

theorem number_bounds:
  assumes "ParseNumber s = Inr (Some n, s')"
  shows "unat n < 2 ^ 29 \<and> (\<exists>bs. unread s = bs @ unread s' \<and> 1 \<le> length bs \<and> length bs \<le> 4)
    \<and> notified s' = notified s"
proof -
  have small: "unat (ucast (b :: byte) :: u32) < 2 ^ 29" for b
  proof -
    have "unat b < 2 ^ 29"
      by (rule less_trans [OF unat_byte_less]) simp
    then have "unat (word_of_nat (unat b) :: u32) < 2 ^ 29"
      by (simp only: unat_number)
    then show ?thesis by simp
  qed
  show ?thesis
    using assms small medium_bound long_bound
    by (auto simp: ParseNumber_def and_parse_def ParseByte_def parsed_def return_false_def
        split: list.splits if_splits)
qed

theorem number_bounds_witness:
  "ParseNumber \<lparr>unread = [0xC0, 0, 0x40, 1, 9], notified = []\<rparr> = Inr (Some 0x4001, \<lparr>unread = [9], notified = []\<rparr>)
   \<and> unat (0x4001 :: u32) < 2 ^ 29"
proof -
  have "ParseNumber \<lparr>unread = [0xC0, 0, 0x40, 1, 9], notified = []\<rparr> = Inr (Some 0x4001, \<lparr>unread = [9], notified = []\<rparr>)"
    by (simp add: ParseNumber_def and_parse_def ParseByte_def parsed_def)
  with number_bounds [OF this] show ?thesis by simp
qed

end
