(* ===== verification/Heap_Collections.thy ===== *)
theory Heap_Collections
  imports Heap_Model
begin

section \<open>The shadow heap over collections\<close>

text \<open>
  A whole collection as a sequence of calls of the shadow heap: the ranges that are moved, the ranges that
  stay, and the end. While the calls are made, moved objects may lie over objects that are dead but still in the
  vector, so the invariant of the heap does not hold between them; it holds again at the end.

  \<open>collection_ok\<close> describes the reports of a sliding compaction: the reported ranges are disjoint and cut no
  object, a destination overlaps no range that is reported later and no other destination. It may overlap
  any object that does not survive. \<^verbatim>\<open>corprof.idl\<close> says how a range maps old to new places, but not in which order
  ranges are reported; the order is an assumption here.
\<close>

subsection \<open>Ranges\<close>

type_synonym moved_range = "addr \<times> addr \<times> u32"    \<comment> \<open>old start, new start, length\<close>
type_synonym kept_range = "addr \<times> u32"

fun source :: "moved_range \<Rightarrow> interval" where
  "source (oldStart, newStart, len) = mk_interval oldStart (ucast len)"

fun shift_of :: "moved_range \<Rightarrow> shift" where
  "shift_of (oldStart, newStart, len) = \<lparr>oldBase = oldStart, newBase = newStart\<rparr>"

fun kept :: "kept_range \<Rightarrow> interval" where
  "kept (start, len) = mk_interval start (ucast len)"

definition target :: "moved_range \<Rightarrow> interval" where
  "target m = destination (source m) (shift_of m)"

definition whole_in :: "interval \<Rightarrow> object \<Rightarrow> bool" where
  "whole_in iv ob \<longleftrightarrow> interval_includes iv ob \<or> interval_disjoint iv ob"

definition collection_ok :: "heap \<Rightarrow> moved_range list \<Rightarrow> kept_range list \<Rightarrow> bool" where
  "collection_ok h ms ks \<longleftrightarrow>
     (\<forall>p ob. store (tree h) p = Some ob \<longrightarrow>
        \<not> marked ob \<and> (\<forall>m \<in> set ms. whole_in (source m) ob) \<and> (\<forall>k \<in> set ks. whole_in (kept k) ob))
     \<and> (\<forall>m \<in> set ms. shift_fits (shift_of m) (right (source m)))
     \<and> sorted_wrt interval_disjoint (map source ms @ map kept ks)
     \<and> sorted_wrt (\<lambda>m m'. interval_disjoint (target m) (target m') \<and> interval_disjoint (target m) (source m')) ms
     \<and> (\<forall>m \<in> set ms. \<forall>k \<in> set ks. interval_disjoint (target m) (kept k))"

subsection \<open>Where an object goes\<close>

fun relocate :: "moved_range list \<Rightarrow> object \<Rightarrow> object" where
  "relocate [] ob = ob"
| "relocate (m # ms) ob =
     (if interval_includes (source m) ob then (moved (shift_of m) ob)\<lparr>marked := True\<rparr> else relocate ms ob)"

definition retain :: "kept_range list \<Rightarrow> object \<Rightarrow> object" where
  "retain ks ob = (if \<exists>k \<in> set ks. interval_includes (kept k) ob then ob\<lparr>marked := True\<rparr> else ob)"

lemma relocate_none: "(\<And>m. m \<in> set ms \<Longrightarrow> \<not> interval_includes (source m) ob) \<Longrightarrow> relocate ms ob = ob"
  by (induction ms) auto

lemma relocate_append:
  "relocate (ms @ ms') ob =
    (if \<exists>m \<in> set ms. interval_includes (source m) ob then relocate ms ob else relocate ms' ob)"
  by (induction ms) auto

lemma relocate_cases:
  obtains m where "m \<in> set ms" "interval_includes (source m) ob"
      "relocate ms ob = (moved (shift_of m) ob)\<lparr>marked := True\<rparr>"
  | "\<forall>m \<in> set ms. \<not> interval_includes (source m) ob" "relocate ms ob = ob"
proof -
  have "(\<exists>m \<in> set ms. interval_includes (source m) ob \<and> relocate ms ob = (moved (shift_of m) ob)\<lparr>marked := True\<rparr>)
      \<or> (\<forall>m \<in> set ms. \<not> interval_includes (source m) ob) \<and> relocate ms ob = ob"
    by (induction ms) auto
  then show ?thesis using that by blast
qed

lemma source_simps [simp]: "oldBase (shift_of m) = left (source m)"
  by (cases m) simp

lemma moved_in_target:
  assumes "shift_fits (shift_of m) (right (source m))" "interval_includes (source m) ob" "left ob \<le> right ob"
  shows "left (target m) \<le> left (moved (shift_of m) ob)" "left (moved (shift_of m) ob) \<le> right (moved (shift_of m) ob)"
    "right (moved (shift_of m) ob) \<le> right (target m)"
proof -
  note included_moved_in_destination [OF assms(1) source_simps assms(2,3)]
  then show "left (target m) \<le> left (moved (shift_of m) ob)"
    "left (moved (shift_of m) ob) \<le> right (moved (shift_of m) ob)"
    "right (moved (shift_of m) ob) \<le> right (target m)"
    by (simp_all add: target_def destination_def)
qed

lemma disjoint_inside:
  assumes "interval_disjoint a b" "left a \<le> left c" "right c \<le> right a"
  shows "interval_disjoint c b"
  using assms by (auto simp: interval_disjoint_def)

lemma disjoint_not_includes:
  "interval_disjoint a b \<Longrightarrow> left b \<le> right b \<Longrightarrow> \<not> interval_includes a b"
  by (auto simp: interval_defs)

text \<open>The next moved range treats every object as the specification says.\<close>

lemma move_next_object:
  assumes ob: "left ob \<le> right ob" "\<not> marked ob" "whole_in (source m) ob"
    and fits: "\<forall>m' \<in> set (ms @ [m]). shift_fits (shift_of m') (right (source m'))"
    and away: "\<forall>m' \<in> set ms. interval_disjoint (target m') (source m)"
  shows "move_and_mark_object (source m) (shift_of m) (relocate ms ob) = Inr (relocate (ms @ [m]) ob)"
proof (cases rule: relocate_cases [of ms ob])
  case (1 m')
  let ?ob = "moved (shift_of m') ob"
  have "interval_disjoint (source m) ?ob" and "left ?ob \<le> right ?ob"
    using moved_in_target [of m' ob] fits 1 ob(1) away disjoint_inside [of "target m'" "source m" ?ob]
    by (auto simp: interval_disjoint_sym [of "source m"])
  then show ?thesis
    using 1 disjoint_not_includes [of "source m" "?ob\<lparr>marked := True\<rparr>"]
      disjoint_not_intersects [of "?ob\<lparr>marked := True\<rparr>" "source m"]
    by (auto simp: move_and_mark_object_def relocate_append interval_disjoint_def)
next
  case 2
  have "oldBase (shift_of m) \<le> left ob" if "interval_includes (source m) ob"
    using that by (simp add: interval_includes_def)
  with 2 ob show ?thesis
    using disjoint_not_intersects [of ob "source m"]
    by (auto simp: move_and_mark_object_def relocate_append interval_move_eq interval_mark_def whole_in_def)
qed

lemma kept_disjoint_includes:
  assumes "interval_includes a ob" "interval_disjoint a b" "left ob \<le> right ob"
  shows "interval_disjoint b ob"
  using assms by (auto simp: interval_defs)

text \<open>Likewise for the next range that stays.\<close>

lemma mark_next_object:
  assumes ob: "left ob \<le> right ob" "\<not> marked ob" "whole_in (kept k) ob"
    and fits: "\<forall>m \<in> set ms. shift_fits (shift_of m) (right (source m))"
    and away: "\<forall>m \<in> set ms. \<forall>k' \<in> set (ks @ [k]). interval_disjoint (target m) (kept k')"
    and before: "\<forall>m \<in> set ms. \<forall>k' \<in> set (ks @ [k]). interval_disjoint (source m) (kept k')"
    and kepts: "\<forall>k' \<in> set ks. interval_disjoint (kept k') (kept k)"
  shows "mark_object (kept k) (retain ks (relocate ms ob)) = Inr (retain (ks @ [k]) (relocate ms ob))"
proof (cases rule: relocate_cases [of ms ob])
  case (1 m)
  let ?ob = "(moved (shift_of m) ob)\<lparr>marked := True\<rparr>"
  have le: "left ?ob \<le> right ?ob" and inside: "left (target m) \<le> left ?ob" "right ?ob \<le> right (target m)"
    using moved_in_target [of m ob] fits 1 ob(1) by auto
  have dis: "interval_disjoint (kept k') ?ob" if "k' \<in> set (ks @ [k])" for k'
    using disjoint_inside [of "target m" "kept k'" ?ob] away 1(1) that inside
    by (auto simp: interval_disjoint_sym [of "kept k'"])
  then have "\<not> interval_includes (kept k') ?ob" if "k' \<in> set (ks @ [k])" for k'
    using that disjoint_not_includes [OF _ le] by blast
  then have "retain ks ?ob = ?ob" "retain (ks @ [k]) ?ob = ?ob" "\<not> interval_includes (kept k) ?ob"
    by (auto simp: retain_def)
  moreover have "\<not> interval_intersects (kept k) ?ob"
    using dis [of k] disjoint_not_intersects [OF le] by simp
  ultimately show ?thesis
    using 1(3) by (simp add: mark_object_def)
next
  case 2
  show ?thesis
  proof (cases "\<exists>k' \<in> set ks. interval_includes (kept k') ob")
    case True
    then have dis: "interval_disjoint (kept k) (ob\<lparr>marked := True\<rparr>)"
      using kepts ob(1) kept_disjoint_includes [of _ ob "kept k"] by (auto simp: interval_disjoint_def)
    then have "\<not> interval_includes (kept k) (ob\<lparr>marked := True\<rparr>)" "\<not> interval_intersects (kept k) (ob\<lparr>marked := True\<rparr>)"
      using ob(1) disjoint_not_includes [OF dis] disjoint_not_intersects [OF _ dis] by auto
    with True 2(2) show ?thesis
      by (auto simp: mark_object_def retain_def)
  next
    case False
    then show ?thesis
      using 2(2) ob disjoint_not_intersects [of ob "kept k"]
      by (auto simp: mark_object_def retain_def interval_mark_def whole_in_def)
  qed
qed

subsection \<open>The calls of a collection\<close>

abbreviation with_objects :: "(object \<Rightarrow> object) \<Rightarrow> heap \<Rightarrow> heap" where
  "with_objects g h \<equiv> h\<lparr>tree := (tree h)\<lparr>store := map_option g \<circ> store (tree h)\<rparr>\<rparr>"

lemma sorted_wrt_middle:
  assumes "sorted_wrt P (xs @ x # ys)" "y \<in> set xs"
  shows "P y x"
  using assms by (simp add: sorted_wrt_append)

lemma fold_objects:
  fixes f :: "object \<Rightarrow> object res"
  assumes "distinct ps" and dom: "set ps = dom st" and f: "\<And>p ob. st p = Some ob \<Longrightarrow> f (g ob) = Inr (g' ob)"
  shows "fold_res (update_object f) ps (map_option g \<circ> st) = Inr (map_option g' \<circ> st)"
proof -
  let ?t = "\<lparr>objects = ps, store = map_option g \<circ> st\<rparr> :: object tree"
  have "fold_res (update_object f) (objects ?t) (store ?t) = Inr (map_option (projr \<circ> f) \<circ> store ?t)"
    using assms by (intro fold_store_eq) (auto simp: dom_def)
  moreover have "map_option (projr \<circ> f) (map_option g (st p)) = map_option g' (st p)" for p
    using f [of p] by (cases "st p") simp_all
  ultimately show ?thesis
    by (simp add: comp_def)
qed

lemma callback_ranges:
  "(\<lambda>(oldStart, newStart, len). heap_moveAndMark oldStart newStart (ucast len)) m h
   = and_then (tree_moveAndMark (source m) (shift_of m) (tree h)) (\<lambda>t. Inr (h\<lparr>tree := t\<rparr>))"
  "(\<lambda>(start, len). markSurvivedObjects start (ucast len)) k h
   = and_then (tree_mark (kept k) (tree h)) (\<lambda>t. Inr (h\<lparr>tree := t\<rparr>))"
  by (cases m, simp add: heap_moveAndMark_def) (cases k, simp add: markSurvivedObjects_def)

lemma moves_eq:
  assumes inv: "heap_inv h" and ok: "collection_ok h (ms @ ms') ks"
  shows "fold_res (\<lambda>(oldStart, newStart, len). heap_moveAndMark oldStart newStart (ucast len)) ms'
      (with_objects (relocate ms) h) = Inr (with_objects (relocate (ms @ ms')) h)"
  using ok
proof (induction ms' arbitrary: ms)
  case (Cons m ms')
  let ?h = "with_objects (relocate ms) h"
  have "move_and_mark_object (source m) (shift_of m) (relocate ms ob) = Inr (relocate (ms @ [m]) ob)"
    if ob: "store (tree h) p = Some ob" for p ob
  proof (rule move_next_object)
    show "\<forall>m' \<in> set ms. interval_disjoint (target m') (source m)"
      using Cons.prems sorted_wrt_middle [of _ ms m ms'] unfolding collection_ok_def by blast
  qed (use Cons.prems ob tree_invD(3) [OF heap_invD(1) [OF inv] ob] in \<open>auto simp: collection_ok_def\<close>)
  then have step: "tree_moveAndMark (source m) (shift_of m) (tree ?h) = Inr (tree (with_objects (relocate (ms @ [m])) h))"
    using tree_invD(1,2) [OF heap_invD(1) [OF inv]] by (simp add: tree_moveAndMark_def fold_objects)
  have "(\<lambda>(oldStart, newStart, len). heap_moveAndMark oldStart newStart (ucast len)) m ?h
      = Inr (with_objects (relocate (ms @ [m])) h)"
    unfolding callback_ranges step by simp
  with Cons.IH [of "ms @ [m]"] Cons.prems show ?case
    by (simp only: fold_res.simps and_then_Inr append_assoc append_Cons append_Nil)
qed simp

lemma marks_eq:
  assumes inv: "heap_inv h" and ok: "collection_ok h ms (ks @ ks')"
  shows "fold_res (\<lambda>(start, len). markSurvivedObjects start (ucast len)) ks'
      (with_objects (retain ks \<circ> relocate ms) h) = Inr (with_objects (retain (ks @ ks') \<circ> relocate ms) h)"
  using ok
proof (induction ks' arbitrary: ks)
  case (Cons k ks')
  let ?h = "with_objects (retain ks \<circ> relocate ms) h"
  have "mark_object (kept k) ((retain ks \<circ> relocate ms) ob) = Inr ((retain (ks @ [k]) \<circ> relocate ms) ob)"
    if ob: "store (tree h) p = Some ob" for p ob
    unfolding comp_apply
  proof (rule mark_next_object)
    show "\<forall>m \<in> set ms. \<forall>k' \<in> set (ks @ [k]). interval_disjoint (source m) (kept k')"
      "\<forall>k' \<in> set ks. interval_disjoint (kept k') (kept k)"
      using Cons.prems by (auto simp: collection_ok_def sorted_wrt_append)
  qed (use Cons.prems ob tree_invD(3) [OF heap_invD(1) [OF inv] ob] in \<open>auto simp: collection_ok_def\<close>)
  then have step: "tree_mark (kept k) (tree ?h) = Inr (tree (with_objects (retain (ks @ [k]) \<circ> relocate ms) h))"
    using tree_invD(1,2) [OF heap_invD(1) [OF inv]] fold_objects [of "objects (tree h)" "store (tree h)"
        "mark_object (kept k)" "retain ks \<circ> relocate ms" "retain (ks @ [k]) \<circ> relocate ms"]
    by (simp add: tree_mark_def)
  have "(\<lambda>(start, len). markSurvivedObjects start (ucast len)) k ?h
      = Inr (with_objects (retain (ks @ [k]) \<circ> relocate ms) h)"
    unfolding callback_ranges step by simp
  with Cons.IH [of "ks @ [k]"] Cons.prems show ?case
    by (simp only: fold_res.simps and_then_Inr append_assoc append_Cons append_Nil)
qed simp

subsection \<open>The outcome of a collection\<close>

fun outcome :: "moved_range list \<Rightarrow> kept_range list \<Rightarrow> object \<Rightarrow> object option" where
  "outcome [] ks ob = (if \<exists>k \<in> set ks. interval_includes (kept k) ob then Some ob else None)"
| "outcome (m # ms) ks ob =
     (if interval_includes (source m) ob then Some (moved (shift_of m) ob) else outcome ms ks ob)"

lemma outcome_eq:
  assumes "left ob \<le> right ob" "\<not> marked ob"
    and "\<forall>m \<in> set ms. shift_fits (shift_of m) (right (source m))"
    and "\<forall>m \<in> set ms. \<forall>k \<in> set ks. interval_disjoint (target m) (kept k)"
  shows "outcome ms ks ob
    = (let ob' = retain ks (relocate ms ob) in if marked ob' then Some (ob'\<lparr>marked := False\<rparr>) else None)"
  using assms
proof (induction ms)
  case Nil
  then show ?case by (auto simp: retain_def)
next
  case (Cons m ms)
  show ?case
  proof (cases "interval_includes (source m) ob")
    case True
    then show ?thesis
      using Cons.prems(2) by (simp add: retain_def)
  qed (use Cons in simp)
qed

lemma outcome_cases:
  assumes "outcome ms ks ob = Some ob'"
  obtains m where "m \<in> set ms" "interval_includes (source m) ob" "ob' = moved (shift_of m) ob"
  | k where "k \<in> set ks" "interval_includes (kept k) ob" "ob' = ob"
proof -
  have "(\<exists>m \<in> set ms. interval_includes (source m) ob \<and> ob' = moved (shift_of m) ob)
      \<or> (\<exists>k \<in> set ks. interval_includes (kept k) ob \<and> ob' = ob)"
    using assms by (induction ms) (auto split: if_splits)
  then show ?thesis using that by blast
qed

lemma outcome_wf:
  assumes "outcome ms ks ob = Some ob'" "left ob \<le> right ob" "\<forall>m \<in> set ms. shift_fits (shift_of m) (right (source m))"
  shows "left ob' \<le> right ob'" "object_wf ob' = object_wf ob" "concreteness ob' = concreteness ob"
    "right ob' - left ob' = right ob - left ob" "marked ob' = marked ob"
proof -
  have "left ob' \<le> right ob' \<and> object_wf ob' = object_wf ob \<and> concreteness ob' = concreteness ob
      \<and> right ob' - left ob' = right ob - left ob \<and> marked ob' = marked ob"
    using assms(1)
  proof (cases rule: outcome_cases)
    case (1 m)
    have "left ob' \<le> right ob'"
      using moved_in_target(2) [of m ob] assms(2,3) 1 by simp
    moreover have "object_wf ob' = object_wf ob"
      using 1(3) by (simp add: object_wf_moved)
    ultimately show ?thesis
      using 1(3) by (simp add: moved_def shifted_def)
  qed (use assms(2) in simp)
  then show "left ob' \<le> right ob'" "object_wf ob' = object_wf ob" "concreteness ob' = concreteness ob"
    "right ob' - left ob' = right ob - left ob" "marked ob' = marked ob"
    by blast+
qed

text \<open>Two objects that were apart are apart afterwards.\<close>

lemma outcomes_disjoint:
  assumes ok: "collection_ok h ms ks" and ab: "interval_disjoint a b" "left a \<le> right a" "left b \<le> right b"
    and a': "outcome ms ks a = Some a'" and b': "outcome ms ks b = Some b'"
  shows "interval_disjoint a' b'"
proof -
  have fits: "\<forall>m \<in> set ms. shift_fits (shift_of m) (right (source m))"
    and away: "\<forall>m \<in> set ms. \<forall>k \<in> set ks. interval_disjoint (target m) (kept k)"
    and srt: "sorted_wrt (\<lambda>m m'. interval_disjoint (target m) (target m') \<and> interval_disjoint (target m) (source m')) ms"
    using ok by (auto simp: collection_ok_def)
  have targets: "interval_disjoint (target m) (target m')" if "m \<in> set ms" "m' \<in> set ms" "m \<noteq> m'" for m m'
    using that srt by (auto simp: sorted_wrt_iff_nth_less in_set_conv_nth)
      (metis interval_disjoint_sym nat_neq_iff)
  have in_target: "left (target m) \<le> left (moved (shift_of m) x) \<and> right (moved (shift_of m) x) \<le> right (target m)"
    if "m \<in> set ms" "interval_includes (source m) x" "left x \<le> right x" for m x
    using moved_in_target [of m x] that fits by blast
  have mixed: "interval_disjoint (moved (shift_of m) x) y"
    if "m \<in> set ms" "interval_includes (source m) x" "left x \<le> right x" "k \<in> set ks" "interval_includes (kept k) y" for m x y k
    using in_target [OF that(1-3)] away that
    by (auto simp: interval_disjoint_def interval_includes_def) (meson le_less_trans less_le_trans)+
  from a' show ?thesis
  proof (cases rule: outcome_cases)
    case m: (1 m)
    from b' show ?thesis
    proof (cases rule: outcome_cases)
      case m': (1 m')
      show ?thesis
      proof (cases "m = m'")
        case True
        from moved_disjoint [OF _ source_simps ab(1) m(2) ab(2) _ ab(3)] fits m(1) m'(2) True m(3) m'(3)
        show ?thesis by simp
      next
        case False
        from targets [OF m(1) m'(1) False] in_target [OF m(1,2) ab(2)] in_target [OF m'(1,2) ab(3)] show ?thesis
          unfolding m(3) m'(3) by (auto simp: interval_disjoint_def)
      qed
    next
      case k: (2 k)
      show ?thesis
        unfolding m(3) k(3) by (rule mixed [OF m(1,2) ab(2) k(1,2)])
    qed
  next
    case k: (2 k)
    from b' show ?thesis
    proof (cases rule: outcome_cases)
      case m: (1 m)
      have "interval_disjoint (moved (shift_of m) b) a"
        by (rule mixed [OF m(1,2) ab(3) k(1,2)])
      then show ?thesis
        unfolding m(3) k(3) using interval_disjoint_sym by blast
    next
      case (2 k')
      with k ab(1) show ?thesis by simp
    qed
  qed
qed

subsection \<open>The heap after a collection\<close>

lemma moves_all:
  assumes "heap_inv h" "collection_ok h ms ks"
  shows "fold_res (\<lambda>(oldStart, newStart, len). heap_moveAndMark oldStart newStart (ucast len)) ms h
    = Inr (with_objects (relocate ms) h)"
proof -
  have "relocate [] = id"
    by (simp add: fun_eq_iff)
  then have "with_objects (relocate []) h = h"
    by (simp add: option.map_id0)
  then show ?thesis
    using moves_eq [OF assms(1), of "[]" ms ks] assms(2) by simp
qed

lemma marks_all:
  assumes "heap_inv h" "collection_ok h ms ks"
  shows "fold_res (\<lambda>(start, len). markSurvivedObjects start (ucast len)) ks (with_objects (relocate ms) h)
    = Inr (with_objects (retain ks \<circ> relocate ms) h)"
proof -
  have "retain [] \<circ> relocate ms = relocate ms"
    by (simp add: fun_eq_iff retain_def)
  then show ?thesis
    using marks_eq [OF assms(1), of ms "[]" ks] assms(2) by simp
qed

definition collected_store :: "moved_range list \<Rightarrow> kept_range list \<Rightarrow> heap \<Rightarrow> objid \<rightharpoonup> object" where
  "collected_store ms ks h p = Option.bind (store (tree h) p) (outcome ms ks)"

lemma clear_all:
  assumes inv: "heap_inv h" and ok: "collection_ok h ms ks"
  shows "\<exists>h'. clearAfterGC (with_objects (retain ks \<circ> relocate ms) h) = Inr h'
    \<and> store (tree h') = collected_store ms ks h
    \<and> objects (tree h') = filter (\<lambda>p. collected_store ms ks h p \<noteq> None) (objects (tree h))
    \<and> deletedAddresses h' = deletedAddresses h @ filter (\<lambda>p. collected_store ms ks h p = None) (objects (tree h))
    \<and> newAddresses h' = newAddresses h"
proof -
  let ?h = "with_objects (retain ks \<circ> relocate ms) h" and ?t = "tree h"
  let ?keep = "\<lambda>p. marked (the (store (tree ?h) p))"
  note t = heap_invD(1) [OF inv]
  have st: "collected_store ms ks h p
      = (if ?keep p then map_option (\<lambda>ob. ob\<lparr>marked := False\<rparr>) (store (tree ?h) p) else None)" for p
  proof (cases "store (tree h) p")
    case (Some ob)
    then show ?thesis
      using ok tree_invD(3) [OF t Some] outcome_eq [of ob ms ks]
      by (simp add: collected_store_def collection_ok_def Let_def)
  qed (simp add: collected_store_def)
  have keep: "?keep p = (collected_store ms ks h p \<noteq> None)" if "p \<in> set (objects ?t)" for p
    using tree_inv_live [OF t that] by (auto simp: st)
  have filters: "filter ?keep (objects ?t) = filter (\<lambda>p. collected_store ms ks h p \<noteq> None) (objects ?t)"
    "filter (\<lambda>p. \<not> ?keep p) (objects ?t) = filter (\<lambda>p. collected_store ms ks h p = None) (objects ?t)"
    using keep by (auto intro!: filter_cong)
  have "tree_clearUnmarked (tree ?h) = Inr (filter (\<lambda>p. \<not> ?keep p) (objects ?t),
      (tree ?h)\<lparr>objects := filter ?keep (objects ?t), store := collected_store ms ks h\<rparr>)"
    using clear_store_eq [of "tree ?h"] tree_invD(1,2) [OF t] by (simp add: fun_eq_iff st dom_def)
  then show ?thesis
    unfolding filters by (simp add: clearAfterGC_def)
qed

lemma collected_inv:
  assumes inv: "heap_inv h" and ok: "collection_ok h ms ks"
    and "store (tree h') = collected_store ms ks h"
    and "objects (tree h') = filter (\<lambda>p. collected_store ms ks h p \<noteq> None) (objects (tree h))"
  shows "heap_inv h'"
proof -
  note t = heap_invD(1) [OF inv]
  have fits: "\<forall>m \<in> set ms. shift_fits (shift_of m) (right (source m))"
    using ok by (simp add: collection_ok_def)
  have from_old: "\<exists>ob. store (tree h) p = Some ob \<and> outcome ms ks ob = Some ob'"
    if "collected_store ms ks h p = Some ob'" for p ob'
    using that by (auto simp: collected_store_def Option.bind_eq_Some_conv)
  have "tree_inv (tree h')"
    unfolding tree_inv_def assms(3,4)
  proof (intro conjI allI impI)
    show "distinct (filter (\<lambda>p. collected_store ms ks h p \<noteq> None) (objects (tree h)))"
      using tree_invD(1) [OF t] by simp
    show "set (filter (\<lambda>p. collected_store ms ks h p \<noteq> None) (objects (tree h))) = dom (collected_store ms ks h)"
      using tree_invD(2) [OF t] by (auto dest: from_old)
    show "left ob' \<le> right ob'" if "collected_store ms ks h p = Some ob'" for p ob'
      using from_old [OF that] outcome_wf(1) [OF _ tree_invD(3) [OF t] fits] by blast
    show "interval_disjoint a' b'"
      if "p \<noteq> q" "collected_store ms ks h p = Some a'" "collected_store ms ks h q = Some b'" for p q a' b'
      using from_old [OF that(2)] from_old [OF that(3)]
        outcomes_disjoint [OF ok tree_invD(4) [OF t that(1)] tree_invD(3) [OF t] tree_invD(3) [OF t]] by blast
  qed
  moreover have "collected_store ms ks h 0 = None"
    using heap_invD(2) [OF inv] by (simp add: collected_store_def)
  moreover have "object_wf ob'" if "collected_store ms ks h p = Some ob'" for p ob'
    using from_old [OF that] outcome_wf(2) [OF _ tree_invD(3) [OF t] fits] heap_invD(3) [OF inv] by blast
  ultimately show ?thesis
    by (simp add: heap_inv_def assms(3))
qed

subsection \<open>Histories of the heap\<close>

text \<open>The calls a collection makes, and the states of the heap that calls of the runtime lead to.\<close>

definition collection_events :: "moved_range list \<Rightarrow> kept_range list \<Rightarrow> heap_event list" where
  "collection_events ms ks =
     map (\<lambda>(oldStart, newStart, len). Move_and_mark oldStart newStart (ucast len)) ms
     @ map (\<lambda>(start, len). Survived start (ucast len)) ks @ [Clear_after_GC]"

inductive heap_reachable :: "heap \<Rightarrow> bool" where
  start: "heap_reachable heap_empty"
| step: "heap_reachable h \<Longrightarrow> event_ok h e \<Longrightarrow> heap_exec e h = Inr h' \<Longrightarrow> heap_reachable h'"
| collection: "heap_reachable h \<Longrightarrow> collection_ok h ms ks \<Longrightarrow>
    fold_res heap_exec (collection_events ms ks) h = Inr h' \<Longrightarrow> heap_reachable h'"

lemma fold_res_map: "fold_res f (map g xs) s = fold_res (\<lambda>x. f (g x)) xs s"
  by (induction xs arbitrary: s) (simp_all add: and_then_def split: sum.splits)

lemma collection_exec:
  "fold_res heap_exec (collection_events ms ks) h =
    and_then (fold_res (\<lambda>(oldStart, newStart, len). heap_moveAndMark oldStart newStart (ucast len)) ms h) (\<lambda>h.
    and_then (fold_res (\<lambda>(start, len). markSurvivedObjects start (ucast len)) ks h) clearAfterGC)"
proof -
  have moves: "(\<lambda>x. heap_exec (case x of (oldStart, newStart, len) \<Rightarrow> Move_and_mark oldStart newStart (ucast len)))
      = (\<lambda>(oldStart, newStart, len). heap_moveAndMark oldStart newStart (ucast (len :: u32)))"
    and marks: "(\<lambda>x. heap_exec (case x of (start, len) \<Rightarrow> Survived start (ucast len)))
      = (\<lambda>(start, len). markSurvivedObjects start (ucast (len :: u32)))"
    by (simp_all add: fun_eq_iff)
  have clear: "fold_res heap_exec [Clear_after_GC] = clearAfterGC"
    by (simp add: fun_eq_iff and_then_def split: sum.splits)
  have rest: "fold_res heap_exec (map (\<lambda>(start, len). Survived start (ucast len)) ks @ [Clear_after_GC])
      = (\<lambda>h. and_then (fold_res (\<lambda>(start, len). markSurvivedObjects start (ucast len)) ks h) clearAfterGC)"
    by (simp only: fun_eq_iff fold_res_append fold_res_map marks clear simp_thms)
  show ?thesis
    by (simp only: collection_events_def fold_res_append [of heap_exec "map _ ms"] fold_res_map moves rest)
qed

lemma collection_effect:
  assumes "heap_inv h" and "collection_ok h ms ks"
  shows "\<exists>h'. fold_res heap_exec (collection_events ms ks) h = Inr h' \<and> heap_inv h'
    \<and> store (tree h') = collected_store ms ks h"
proof -
  obtain h' where h': "clearAfterGC (with_objects (retain ks \<circ> relocate ms) h) = Inr h'"
    "store (tree h') = collected_store ms ks h"
    "objects (tree h') = filter (\<lambda>p. collected_store ms ks h p \<noteq> None) (objects (tree h))"
    using clear_all [OF assms] by blast
  with collected_inv [OF assms h'(2,3)] show ?thesis
    unfolding collection_exec moves_all [OF assms] and_then_Inr marks_all [OF assms] by blast
qed

text \<open>Between collections no object is marked.\<close>

definition unmarked :: "heap \<Rightarrow> bool" where
  "unmarked h \<longleftrightarrow> (\<forall>p ob. store (tree h) p = Some ob \<longrightarrow> \<not> marked ob)"

lemma collected_unmarked:
  assumes inv: "heap_inv h" and ok: "collection_ok h ms ks" and p: "collected_store ms ks h p = Some ob'"
  shows "\<not> marked ob'"
proof -
  from p obtain ob where ob: "store (tree h) p = Some ob" "outcome ms ks ob = Some ob'"
    by (auto simp: collected_store_def Option.bind_eq_Some_conv)
  have "marked ob' = marked ob"
    using ok by (intro outcome_wf(5) [OF ob(2) tree_invD(3) [OF heap_invD(1) [OF inv] ob(1)]])
      (simp add: collection_ok_def)
  with ob(1) ok show ?thesis
    unfolding collection_ok_def by blast
qed

lemma heap_exec_unmarked:
  assumes "heap_inv h" and ok: "event_ok h e" and ex: "heap_exec e h = Inr h'" and un: "unmarked h"
  shows "unmarked h'"
proof (cases e)
  case (Allocate p a sz type typeLength)
  obtain ob h1 where "allocateObject p a sz type typeLength h = Inr (p, h1)" "mk_object a sz = Inr ob"
      "store (tree h1) = (store (tree h))(p \<mapsto> ob)"
    using ok unfolding Allocate by (rule allocate_inv [OF assms(1)])
  moreover have "\<not> marked ob"
    using \<open>mk_object a sz = Inr ob\<close> ok unfolding Allocate by (auto elim: mk_object_wf [of sz a])
  ultimately show ?thesis
    using ex un unfolding Allocate by (auto simp: unmarked_def)
next
  case (Write a sz v)
  obtain p where "access_ok h p a sz"
    using ok unfolding Write by auto
  then obtain ob cs where "store (tree h) p = Some ob"
    "h' = h\<lparr>tree := (tree h)\<lparr>store := (store (tree h))(p \<mapsto> ob\<lparr>concreteness := cs\<rparr>)\<rparr>\<rparr>"
    using heap_write_inv [OF assms(1), of p a sz v] ex unfolding Write by (metis heap_exec.simps(2) Inr_inject)
  then show ?thesis
    using un by (auto simp: unmarked_def)
next
  case Flush_objects
  then show ?thesis
    using ex un by (auto simp: unmarked_def flushObjects_def)
qed (use ok in simp_all)

lemma heap_reachable_inv: "heap_reachable h \<Longrightarrow> heap_inv h"
proof (induction rule: heap_reachable.induct)
  case start
  show ?case by (rule heap_inv_empty)
next
  case (step h e h')
  then show ?case using heap_exec_inv by fastforce
next
  case (collection h ms ks h')
  then show ?case using collection_effect by fastforce
qed

lemma heap_reachable_unmarked: "heap_reachable h \<Longrightarrow> unmarked h"
proof (induction rule: heap_reachable.induct)
  case start
  show ?case by (simp add: unmarked_def heap_empty_def)
next
  case (step h e h')
  then show ?case using heap_exec_unmarked heap_reachable_inv by blast
next
  case (collection h ms ks h')
  note inv = heap_reachable_inv [OF collection.hyps(1)]
  from collection_effect [OF inv collection.hyps(2)] collection.hyps(3)
  have "store (tree h') = collected_store ms ks h" by auto
  then show ?case
    using collected_unmarked [OF inv collection.hyps(2)] by (simp add: unmarked_def)
qed

text \<open>
  Claim C11: in every state that is reached by allocations of fresh identifiers at free addresses, writes inside objects,
  reports of new objects and whole sliding collections (\<open>collection_ok\<close>), the vector holds each live shadow object exactly
  once, no two objects share an address, every object has one bit for each of its bytes and none is
  marked; the next such allocation, write or report raises no failure, and neither does any call of the next such
  collection, even where it moves objects over dead ones.
\<close>

theorem heap_reachable_safe:
  assumes "heap_reachable h"
  shows "heap_inv h \<and> unmarked h
    \<and> (\<forall>e. event_ok h e \<longrightarrow> (\<exists>h'. heap_exec e h = Inr h' \<and> heap_reachable h'))
    \<and> (\<forall>ms ks. collection_ok h ms ks \<longrightarrow>
         (\<exists>h'. fold_res heap_exec (collection_events ms ks) h = Inr h' \<and> heap_reachable h'))"
proof -
  note inv = heap_reachable_inv [OF assms]
  have "\<exists>h'. heap_exec e h = Inr h' \<and> heap_reachable h'" if "event_ok h e" for e
    using heap_exec_inv [OF inv that] heap_reachable.step [OF assms that] by blast
  moreover have "\<exists>h'. fold_res heap_exec (collection_events ms ks) h = Inr h' \<and> heap_reachable h'"
    if "collection_ok h ms ks" for ms ks
    using collection_effect [OF inv that] heap_reachable.collection [OF assms that] by blast
  ultimately show ?thesis
    using inv heap_reachable_unmarked [OF assms] by blast
qed

text \<open>An allocated object is moved down by 2048 bytes.\<close>

definition young_heap :: heap where
  "young_heap = projr (heap_exec sample_event heap_empty)"

lemma young_heap_eq: "heap_exec sample_event heap_empty = Inr young_heap"
  "store (tree young_heap) = [0x5000 \<mapsto> projr (mk_object 0x1000 16)]"
proof -
  obtain ob h' where "allocateObject 0x5000 0x1000 16 [] 0 heap_empty = Inr (0x5000, h')"
      "mk_object 0x1000 16 = Inr ob" "store (tree h') = (store (tree heap_empty))(0x5000 \<mapsto> ob)"
    using sample_event_ok unfolding sample_event_def by (rule allocate_inv [OF heap_inv_empty])
  then show "heap_exec sample_event heap_empty = Inr young_heap"
    and "store (tree young_heap) = [0x5000 \<mapsto> projr (mk_object 0x1000 16)]"
    by (simp_all add: young_heap_def sample_event_def heap_empty_def)
qed

lemma young_heap_reachable: "heap_reachable young_heap"
  using heap_reachable.step [OF heap_reachable.start sample_event_ok] young_heap_eq(1) by blast

lemma young_heap_collection: "collection_ok young_heap [(0x1000, 0x800, 0x100)] []"
proof -
  obtain ob where "mk_object 0x1000 16 = Inr ob" "left ob = 0x1000" "right ob = 0x100F" "\<not> marked ob"
    by (rule mk_object_wf [of "16" "0x1000"]) auto
  then show ?thesis
    by (simp add: collection_ok_def young_heap_eq(2) whole_in_def interval_includes_def shift_fits_def)
qed

theorem heap_reachable_safe_witness:
  "heap_reachable young_heap \<and> heap_inv young_heap \<and> (\<exists>h'. heap_exec sample_event heap_empty = Inr h' \<and> heap_reachable h')
   \<and> (\<exists>h'. fold_res heap_exec (collection_events [(0x1000, 0x800, 0x100)] []) young_heap = Inr h' \<and> heap_reachable h')"
  using heap_reachable_safe [OF heap_reachable.start] heap_reachable_safe [OF young_heap_reachable]
    young_heap_reachable sample_event_ok young_heap_collection by blast

end
