(* ===== verification/IL_Opcodes.thy ===== *)
theory IL_Opcodes
  imports VPrelude
begin

section \<open>The instruction table of the IL rewriter\<close>

text \<open>
  The opcodes of the intermediate language as \<^verbatim>\<open>VSharp.CoverageInstrumenter/profiler/ILRewriter.cpp\<close>
  has them: one row per \<^verbatim>\<open>OPDEF\<close> with the name, the number of pushed slots and the kind of the
  operand, in the order of the enumeration \<^verbatim>\<open>OPCODE\<close>, so that the position of a row is the
  opcode. The last three rows are the pseudo-opcodes of \<^verbatim>\<open>opcode.def\<close>; \<^verbatim>\<open>CEE_COUNT\<close> and
  \<^verbatim>\<open>CEE_SWITCH_ARG\<close> follow them. The tables \<^verbatim>\<open>s_OpCodeFlags\<close> and
  \<^verbatim>\<open>k_rgnStackPushes\<close> are read off the rows.
\<close>

datatype operand_kind =
    InlineNone | ShortInlineVar | InlineVar | ShortInlineI | InlineI | InlineI8
  | ShortInlineR | InlineR | ShortInlineBrTarget | InlineBrTarget | InlineMethod | InlineField
  | InlineType | InlineString | InlineSig | InlineRVA | InlineTok | InlineSwitch

text \<open>The operand size in the low bits, \<^verbatim>\<open>OPCODEFLAGS_BranchTarget\<close> and \<^verbatim>\<open>OPCODEFLAGS_Switch\<close>.\<close>

fun operand_flags :: "operand_kind \<Rightarrow> nat" where
  "operand_flags InlineNone = 0"
| "operand_flags ShortInlineVar = 1"
| "operand_flags InlineVar = 2"
| "operand_flags ShortInlineI = 1"
| "operand_flags InlineI = 4"
| "operand_flags InlineI8 = 8"
| "operand_flags ShortInlineR = 4"
| "operand_flags InlineR = 8"
| "operand_flags ShortInlineBrTarget = 17"
| "operand_flags InlineBrTarget = 20"
| "operand_flags InlineMethod = 4"
| "operand_flags InlineField = 4"
| "operand_flags InlineType = 4"
| "operand_flags InlineString = 4"
| "operand_flags InlineSig = 4"
| "operand_flags InlineRVA = 4"
| "operand_flags InlineTok = 4"
| "operand_flags InlineSwitch = 32"

definition opdefs_first :: "(string \<times> nat \<times> operand_kind) list" where
  "opdefs_first = [
     (''nop'', 0, InlineNone), (''break'', 0, InlineNone), (''ldarg.0'', 1, InlineNone),
     (''ldarg.1'', 1, InlineNone), (''ldarg.2'', 1, InlineNone), (''ldarg.3'', 1, InlineNone),
     (''ldloc.0'', 1, InlineNone), (''ldloc.1'', 1, InlineNone), (''ldloc.2'', 1, InlineNone),
     (''ldloc.3'', 1, InlineNone), (''stloc.0'', 0, InlineNone), (''stloc.1'', 0, InlineNone),
     (''stloc.2'', 0, InlineNone), (''stloc.3'', 0, InlineNone),
     (''ldarg.s'', 1, ShortInlineVar), (''ldarga.s'', 1, ShortInlineVar),
     (''starg.s'', 0, ShortInlineVar), (''ldloc.s'', 1, ShortInlineVar),
     (''ldloca.s'', 1, ShortInlineVar), (''stloc.s'', 0, ShortInlineVar),
     (''ldnull'', 1, InlineNone), (''ldc.i4.m1'', 1, InlineNone), (''ldc.i4.0'', 1, InlineNone),
     (''ldc.i4.1'', 1, InlineNone), (''ldc.i4.2'', 1, InlineNone), (''ldc.i4.3'', 1, InlineNone),
     (''ldc.i4.4'', 1, InlineNone), (''ldc.i4.5'', 1, InlineNone), (''ldc.i4.6'', 1, InlineNone),
     (''ldc.i4.7'', 1, InlineNone), (''ldc.i4.8'', 1, InlineNone),
     (''ldc.i4.s'', 1, ShortInlineI), (''ldc.i4'', 1, InlineI), (''ldc.i8'', 1, InlineI8),
     (''ldc.r4'', 1, ShortInlineR), (''ldc.r8'', 1, InlineR), (''unused'', 0, InlineNone),
     (''dup'', 2, InlineNone), (''pop'', 0, InlineNone), (''jmp'', 0, InlineMethod),
     (''call'', 1, InlineMethod), (''calli'', 1, InlineSig), (''ret'', 0, InlineNone),
     (''br.s'', 0, ShortInlineBrTarget), (''brfalse.s'', 0, ShortInlineBrTarget),
     (''brtrue.s'', 0, ShortInlineBrTarget), (''beq.s'', 0, ShortInlineBrTarget),
     (''bge.s'', 0, ShortInlineBrTarget), (''bgt.s'', 0, ShortInlineBrTarget),
     (''ble.s'', 0, ShortInlineBrTarget), (''blt.s'', 0, ShortInlineBrTarget),
     (''bne.un.s'', 0, ShortInlineBrTarget), (''bge.un.s'', 0, ShortInlineBrTarget),
     (''bgt.un.s'', 0, ShortInlineBrTarget), (''ble.un.s'', 0, ShortInlineBrTarget),
     (''blt.un.s'', 0, ShortInlineBrTarget), (''br'', 0, InlineBrTarget),
     (''brfalse'', 0, InlineBrTarget), (''brtrue'', 0, InlineBrTarget),
     (''beq'', 0, InlineBrTarget), (''bge'', 0, InlineBrTarget), (''bgt'', 0, InlineBrTarget),
     (''ble'', 0, InlineBrTarget), (''blt'', 0, InlineBrTarget), (''bne.un'', 0, InlineBrTarget),
     (''bge.un'', 0, InlineBrTarget), (''bgt.un'', 0, InlineBrTarget),
     (''ble.un'', 0, InlineBrTarget), (''blt.un'', 0, InlineBrTarget),
     (''switch'', 0, InlineSwitch), (''ldind.i1'', 1, InlineNone), (''ldind.u1'', 1, InlineNone),
     (''ldind.i2'', 1, InlineNone), (''ldind.u2'', 1, InlineNone), (''ldind.i4'', 1, InlineNone),
     (''ldind.u4'', 1, InlineNone), (''ldind.i8'', 1, InlineNone), (''ldind.i'', 1, InlineNone),
     (''ldind.r4'', 1, InlineNone), (''ldind.r8'', 1, InlineNone),
     (''ldind.ref'', 1, InlineNone), (''stind.ref'', 0, InlineNone),
     (''stind.i1'', 0, InlineNone), (''stind.i2'', 0, InlineNone), (''stind.i4'', 0, InlineNone),
     (''stind.i8'', 0, InlineNone), (''stind.r4'', 0, InlineNone), (''stind.r8'', 0, InlineNone),
     (''add'', 1, InlineNone), (''sub'', 1, InlineNone), (''mul'', 1, InlineNone),
     (''div'', 1, InlineNone), (''div.un'', 1, InlineNone), (''rem'', 1, InlineNone),
     (''rem.un'', 1, InlineNone), (''and'', 1, InlineNone), (''or'', 1, InlineNone),
     (''xor'', 1, InlineNone), (''shl'', 1, InlineNone), (''shr'', 1, InlineNone),
     (''shr.un'', 1, InlineNone), (''neg'', 1, InlineNone), (''not'', 1, InlineNone),
     (''conv.i1'', 1, InlineNone), (''conv.i2'', 1, InlineNone), (''conv.i4'', 1, InlineNone),
     (''conv.i8'', 1, InlineNone), (''conv.r4'', 1, InlineNone), (''conv.r8'', 1, InlineNone),
     (''conv.u4'', 1, InlineNone), (''conv.u8'', 1, InlineNone), (''callvirt'', 1, InlineMethod),
     (''cpobj'', 0, InlineType), (''ldobj'', 1, InlineType), (''ldstr'', 1, InlineString),
     (''newobj'', 1, InlineMethod), (''castclass'', 1, InlineType), (''isinst'', 1, InlineType),
     (''conv.r.un'', 1, InlineNone), (''unused'', 0, InlineNone), (''unused'', 0, InlineNone),
     (''unbox'', 1, InlineType), (''throw'', 0, InlineNone), (''ldfld'', 1, InlineField),
     (''ldflda'', 1, InlineField), (''stfld'', 0, InlineField), (''ldsfld'', 1, InlineField),
     (''ldsflda'', 1, InlineField), (''stsfld'', 0, InlineField), (''stobj'', 0, InlineType),
     (''conv.ovf.i1.un'', 1, InlineNone), (''conv.ovf.i2.un'', 1, InlineNone),
     (''conv.ovf.i4.un'', 1, InlineNone), (''conv.ovf.i8.un'', 1, InlineNone),
     (''conv.ovf.u1.un'', 1, InlineNone), (''conv.ovf.u2.un'', 1, InlineNone),
     (''conv.ovf.u4.un'', 1, InlineNone), (''conv.ovf.u8.un'', 1, InlineNone),
     (''conv.ovf.i.un'', 1, InlineNone), (''conv.ovf.u.un'', 1, InlineNone),
     (''box'', 1, InlineType), (''newarr'', 1, InlineType), (''ldlen'', 1, InlineNone),
     (''ldelema'', 1, InlineType), (''ldelem.i1'', 1, InlineNone),
     (''ldelem.u1'', 1, InlineNone)]"

definition opdefs_second :: "(string \<times> nat \<times> operand_kind) list" where
  "opdefs_second = [
     (''ldelem.i2'', 1, InlineNone), (''ldelem.u2'', 1, InlineNone),
     (''ldelem.i4'', 1, InlineNone), (''ldelem.u4'', 1, InlineNone),
     (''ldelem.i8'', 1, InlineNone), (''ldelem.i'', 1, InlineNone),
     (''ldelem.r4'', 1, InlineNone), (''ldelem.r8'', 1, InlineNone),
     (''ldelem.ref'', 1, InlineNone), (''stelem.i'', 0, InlineNone),
     (''stelem.i1'', 0, InlineNone), (''stelem.i2'', 0, InlineNone),
     (''stelem.i4'', 0, InlineNone), (''stelem.i8'', 0, InlineNone),
     (''stelem.r4'', 0, InlineNone), (''stelem.r8'', 0, InlineNone),
     (''stelem.ref'', 0, InlineNone), (''ldelem'', 1, InlineType), (''stelem'', 0, InlineType),
     (''unbox.any'', 1, InlineType), (''unused'', 0, InlineNone), (''unused'', 0, InlineNone),
     (''unused'', 0, InlineNone), (''unused'', 0, InlineNone), (''unused'', 0, InlineNone),
     (''unused'', 0, InlineNone), (''unused'', 0, InlineNone), (''unused'', 0, InlineNone),
     (''unused'', 0, InlineNone), (''unused'', 0, InlineNone), (''unused'', 0, InlineNone),
     (''unused'', 0, InlineNone), (''unused'', 0, InlineNone), (''conv.ovf.i1'', 1, InlineNone),
     (''conv.ovf.u1'', 1, InlineNone), (''conv.ovf.i2'', 1, InlineNone),
     (''conv.ovf.u2'', 1, InlineNone), (''conv.ovf.i4'', 1, InlineNone),
     (''conv.ovf.u4'', 1, InlineNone), (''conv.ovf.i8'', 1, InlineNone),
     (''conv.ovf.u8'', 1, InlineNone), (''unused'', 0, InlineNone), (''unused'', 0, InlineNone),
     (''unused'', 0, InlineNone), (''unused'', 0, InlineNone), (''unused'', 0, InlineNone),
     (''unused'', 0, InlineNone), (''unused'', 0, InlineNone), (''refanyval'', 1, InlineType),
     (''ckfinite'', 1, InlineNone), (''unused'', 0, InlineNone), (''unused'', 0, InlineNone),
     (''mkrefany'', 1, InlineType), (''unused'', 0, InlineNone), (''unused'', 0, InlineNone),
     (''unused'', 0, InlineNone), (''unused'', 0, InlineNone), (''unused'', 0, InlineNone),
     (''unused'', 0, InlineNone), (''unused'', 0, InlineNone), (''unused'', 0, InlineNone),
     (''unused'', 0, InlineNone), (''ldtoken'', 1, InlineTok), (''conv.u2'', 1, InlineNone),
     (''conv.u1'', 1, InlineNone), (''conv.i'', 1, InlineNone), (''conv.ovf.i'', 1, InlineNone),
     (''conv.ovf.u'', 1, InlineNone), (''add.ovf'', 1, InlineNone),
     (''add.ovf.un'', 1, InlineNone), (''mul.ovf'', 1, InlineNone),
     (''mul.ovf.un'', 1, InlineNone), (''sub.ovf'', 1, InlineNone),
     (''sub.ovf.un'', 1, InlineNone), (''endfinally'', 0, InlineNone),
     (''leave'', 0, InlineBrTarget), (''leave.s'', 0, ShortInlineBrTarget),
     (''stind.i'', 0, InlineNone), (''conv.u'', 1, InlineNone), (''unused'', 0, InlineNone),
     (''unused'', 0, InlineNone), (''unused'', 0, InlineNone), (''unused'', 0, InlineNone),
     (''unused'', 0, InlineNone), (''unused'', 0, InlineNone), (''unused'', 0, InlineNone),
     (''unused'', 0, InlineNone), (''unused'', 0, InlineNone), (''unused'', 0, InlineNone),
     (''unused'', 0, InlineNone), (''unused'', 0, InlineNone), (''unused'', 0, InlineNone),
     (''unused'', 0, InlineNone), (''unused'', 0, InlineNone), (''unused'', 0, InlineNone),
     (''unused'', 0, InlineNone), (''unused'', 0, InlineNone), (''unused'', 0, InlineNone),
     (''unused'', 0, InlineNone), (''unused'', 0, InlineNone), (''unused'', 0, InlineNone),
     (''unused'', 0, InlineNone), (''prefix7'', 0, InlineNone), (''prefix6'', 0, InlineNone),
     (''prefix5'', 0, InlineNone), (''prefix4'', 0, InlineNone), (''prefix3'', 0, InlineNone),
     (''prefix2'', 0, InlineNone), (''prefix1'', 0, InlineNone), (''prefixref'', 0, InlineNone),
     (''arglist'', 1, InlineNone), (''ceq'', 1, InlineNone), (''cgt'', 1, InlineNone),
     (''cgt.un'', 1, InlineNone), (''clt'', 1, InlineNone), (''clt.un'', 1, InlineNone),
     (''ldftn'', 1, InlineMethod), (''ldvirtftn'', 1, InlineMethod), (''unused'', 0, InlineNone),
     (''ldarg'', 1, InlineVar), (''ldarga'', 1, InlineVar), (''starg'', 0, InlineVar),
     (''ldloc'', 1, InlineVar), (''ldloca'', 1, InlineVar), (''stloc'', 0, InlineVar),
     (''localloc'', 1, InlineNone), (''unused'', 0, InlineNone), (''endfilter'', 0, InlineNone),
     (''unaligned.'', 0, ShortInlineI), (''volatile.'', 0, InlineNone),
     (''tail.'', 0, InlineNone), (''initobj'', 0, InlineType), (''constrained.'', 0, InlineType),
     (''cpblk'', 0, InlineNone), (''initblk'', 0, InlineNone), (''unused'', 0, InlineNone),
     (''rethrow'', 0, InlineNone), (''unused'', 0, InlineNone), (''sizeof'', 1, InlineType),
     (''refanytype'', 1, InlineNone), (''readonly.'', 0, InlineNone),
     (''unused'', 0, InlineNone), (''unused'', 0, InlineNone), (''unused'', 0, InlineNone),
     (''unused'', 0, InlineNone)]"

definition opdefs :: "(string \<times> nat \<times> operand_kind) list" where
  "opdefs = opdefs_first @ opdefs_second @
     [(''illegal'', 0, InlineNone), (''endmac'', 0, InlineNone), (''codelabel'', 0, InlineNone)]"

abbreviation (input) CEE_COUNT :: nat where "CEE_COUNT \<equiv> 294"
abbreviation (input) CEE_SWITCH_ARG :: nat where "CEE_SWITCH_ARG \<equiv> 295"
abbreviation (input) CEE_NOP :: nat where "CEE_NOP \<equiv> 0"
abbreviation (input) CEE_LDC_I4_0 :: nat where "CEE_LDC_I4_0 \<equiv> 22"
abbreviation (input) CEE_LDC_I4 :: nat where "CEE_LDC_I4 \<equiv> 32"
abbreviation (input) CEE_LDC_I8 :: nat where "CEE_LDC_I8 \<equiv> 33"
abbreviation (input) CEE_CALL :: nat where "CEE_CALL \<equiv> 40"
abbreviation (input) CEE_CALLI :: nat where "CEE_CALLI \<equiv> 41"
abbreviation (input) CEE_RET :: nat where "CEE_RET \<equiv> 42"
abbreviation (input) CEE_BR_S :: nat where "CEE_BR_S \<equiv> 43"
abbreviation (input) CEE_BLT_UN_S :: nat where "CEE_BLT_UN_S \<equiv> 55"
abbreviation (input) CEE_BR :: nat where "CEE_BR \<equiv> 56"
abbreviation (input) CEE_BLT_UN :: nat where "CEE_BLT_UN \<equiv> 68"
abbreviation (input) CEE_SWITCH :: nat where "CEE_SWITCH \<equiv> 69"
abbreviation (input) CEE_CALLVIRT :: nat where "CEE_CALLVIRT \<equiv> 111"
abbreviation (input) CEE_NEWOBJ :: nat where "CEE_NEWOBJ \<equiv> 115"
abbreviation (input) CEE_THROW :: nat where "CEE_THROW \<equiv> 122"
abbreviation (input) CEE_STSFLD :: nat where "CEE_STSFLD \<equiv> 128"
abbreviation (input) CEE_ENDFINALLY :: nat where "CEE_ENDFINALLY \<equiv> 220"
abbreviation (input) CEE_LEAVE :: nat where "CEE_LEAVE \<equiv> 221"
abbreviation (input) CEE_LEAVE_S :: nat where "CEE_LEAVE_S \<equiv> 222"
abbreviation (input) CEE_PREFIX7 :: nat where "CEE_PREFIX7 \<equiv> 248"
abbreviation (input) CEE_PREFIX2 :: nat where "CEE_PREFIX2 \<equiv> 253"
abbreviation (input) CEE_PREFIX1 :: nat where "CEE_PREFIX1 \<equiv> 254"
abbreviation (input) CEE_ENDFILTER :: nat where "CEE_ENDFILTER \<equiv> 273"
abbreviation (input) CEE_UNALIGNED :: nat where "CEE_UNALIGNED \<equiv> 274"
abbreviation (input) CEE_VOLATILE :: nat where "CEE_VOLATILE \<equiv> 275"
abbreviation (input) CEE_TAILCALL :: nat where "CEE_TAILCALL \<equiv> 276"
abbreviation (input) CEE_CONSTRAINED :: nat where "CEE_CONSTRAINED \<equiv> 278"
abbreviation (input) CEE_RETHROW :: nat where "CEE_RETHROW \<equiv> 282"
abbreviation (input) CEE_READONLY :: nat where "CEE_READONLY \<equiv> 286"

definition opcodetostr :: "nat \<Rightarrow> string" where
  "opcodetostr opcode =
     (if opcode < 291 then fst (opdefs ! opcode) else ''unknwn'')"

text \<open>An opcode beyond the table reads past its end.\<close>

definition s_OpCodeFlags :: "nat \<Rightarrow> nat res" where
  "s_OpCodeFlags opcode =
     (if opcode < 294 then Inr (operand_flags (snd (snd (opdefs ! opcode))))
      else if opcode = CEE_COUNT then Inr 0
      else if opcode = CEE_SWITCH_ARG then Inr 20
      else Inl Out_of_bounds)"

definition k_rgnStackPushes :: "nat \<Rightarrow> nat res" where
  "k_rgnStackPushes opcode =
     (if opcode < 294 then Inr (fst (snd (opdefs ! opcode)))
      else if opcode = CEE_COUNT \<or> opcode = CEE_SWITCH_ARG then Inr 0
      else Inl Out_of_bounds)"

text \<open>The parts of a flags byte.\<close>

abbreviation (input) flags_size :: "nat \<Rightarrow> nat" where "flags_size flags \<equiv> flags mod 16"
abbreviation (input) is_branch_flags :: "nat \<Rightarrow> bool" where "is_branch_flags flags \<equiv> flags div 16 mod 2 = 1"

lemma length_opdefs: "length opdefs = 294"
  by code_simp

lemma opcode_count: "CEE_COUNT = length opdefs"
  by (simp add: length_opdefs)

end
