(* ===== verification/IL_List.thy ===== *)
theory IL_List
  imports IL_Opcodes
begin

section \<open>The instruction list of the IL rewriter\<close>

text \<open>
  The doubly linked list of \<^verbatim>\<open>ILRewriter\<close> (\<^verbatim>\<open>ILRewriter.h\<close>, \<^verbatim>\<open>ILRewriter.cpp\<close>) with its
  pointers. Instructions live in a store; a pointer is a number: 0 is null, 1 the sentinel
  \<^verbatim>\<open>m_IL\<close> inside the rewriter, and \<open>k + 1\<close> the \<open>k\<close>-th entry of the store. The union
  of an instruction is either raw bytes (\<open>Arg\<close>, zero-extended) or a pointer (\<open>Target\<close>).
  The store only grows, as nothing is deleted before the destructor of the rewriter.

  \<open>linked rw xs\<close> says that the pointers form the ring of the sentinel and the instructions \<open>xs\<close>, in
  this order. The locale \<open>sequence\<close> is what the rewriting code relies on: inserting before and
  after an instruction inserts in the sequence and changes the contents of no instruction. The
  interpretation \<open>il\<close> discharges it for the pointer operations.
\<close>

named_theorems il_simps \<open>reading instructions after updates\<close>

type_synonym ref = nat

abbreviation (input) null :: ref where "null \<equiv> 0"
abbreviation (input) m_IL :: ref where "m_IL \<equiv> Suc 0"

datatype il_arg = Arg u64 | Target ref

record il_instr =
  m_pNext :: ref
  m_pPrev :: ref
  m_opcode :: nat
  m_offset :: u32
  m_arg :: il_arg

datatype eh_arg = ClassToken u32 | Filter ref

record eh_clause =
  eh_Flags :: u32
  m_pTryBegin :: ref
  m_pTryEnd :: ref
  m_pHandlerBegin :: ref
  m_pHandlerEnd :: ref
  eh_arg :: eh_arg

record il_rewriter =
  instrs :: "il_instr list"
  m_nInstrs :: u32
  m_maxStack :: u32
  m_flags :: u32
  m_fGenerateTinyHeader :: bool
  m_tkLocalVarSig :: u32
  m_CodeSize :: u32
  m_pOffsetToInstr :: "ref list"
  m_pEH :: "eh_clause list"

subsection \<open>Access through pointers\<close>

definition instr_at :: "ref \<Rightarrow> il_rewriter \<Rightarrow> il_instr res" where
  "instr_at p rw =
     (if p = null then Inl Null_pointer
      else if p \<le> length (instrs rw) then Inr (instrs rw ! (p - 1))
      else Inl Dangling_pointer)"

definition update_instr :: "ref \<Rightarrow> (il_instr \<Rightarrow> il_instr) \<Rightarrow> il_rewriter \<Rightarrow> il_rewriter res" where
  "update_instr p f rw =
     and_then (instr_at p rw) (\<lambda>i. Inr (rw\<lparr>instrs := (instrs rw)[p - 1 := f i]\<rparr>))"

definition target_of :: "il_instr \<Rightarrow> ref res" where
  "target_of i = (case m_arg i of Target p \<Rightarrow> Inr p | Arg w \<Rightarrow> Inl Uninitialised)"

definition arg_of :: "il_instr \<Rightarrow> u64 res" where
  "arg_of i = (case m_arg i of Arg w \<Rightarrow> Inr w | Target p \<Rightarrow> Inl Uninitialised)"

definition new_rewriter :: il_rewriter where
  "new_rewriter =
     \<lparr>instrs = [\<lparr>m_pNext = m_IL, m_pPrev = m_IL, m_opcode = 0, m_offset = 0, m_arg = Arg 0\<rparr>],
      m_nInstrs = 0, m_maxStack = 0, m_flags = 0, m_fGenerateTinyHeader = False,
      m_tkLocalVarSig = 0, m_CodeSize = 0, m_pOffsetToInstr = [], m_pEH = []\<rparr>"

definition NewILInstr :: "il_rewriter \<Rightarrow> ref \<times> il_rewriter" where
  "NewILInstr rw =
     (length (instrs rw) + 1,
      rw\<lparr>m_nInstrs := m_nInstrs rw + 1,
         instrs := instrs rw @ [\<lparr>m_pNext = null, m_pPrev = null, m_opcode = 0, m_offset = 0,
                                  m_arg = Arg 0\<rparr>]\<rparr>)"

definition AdjustState :: "ref \<Rightarrow> il_rewriter \<Rightarrow> il_rewriter res" where
  "AdjustState pNewInstr rw =
     and_then (instr_at pNewInstr rw) (\<lambda>i.
     and_then (k_rgnStackPushes (m_opcode i)) (\<lambda>n.
     Inr (rw\<lparr>m_maxStack := m_maxStack rw + word_of_nat n\<rparr>)))"

definition InsertBefore :: "ref \<Rightarrow> ref \<Rightarrow> il_rewriter \<Rightarrow> il_rewriter res" where
  "InsertBefore pWhere pWhat rw =
     and_then (update_instr pWhat (m_pNext_update (\<lambda>_. pWhere)) rw) (\<lambda>rw.
     and_then (instr_at pWhere rw) (\<lambda>whr.
     and_then (update_instr pWhat (m_pPrev_update (\<lambda>_. m_pPrev whr)) rw) (\<lambda>rw.
     and_then (instr_at pWhat rw) (\<lambda>what.
     and_then (update_instr (m_pNext what) (m_pPrev_update (\<lambda>_. pWhat)) rw) (\<lambda>rw.
     and_then (instr_at pWhat rw) (\<lambda>what.
     and_then (update_instr (m_pPrev what) (m_pNext_update (\<lambda>_. pWhat)) rw) (\<lambda>rw.
     AdjustState pWhat rw)))))))"

definition InsertAfter :: "ref \<Rightarrow> ref \<Rightarrow> il_rewriter \<Rightarrow> il_rewriter res" where
  "InsertAfter pWhere pWhat rw =
     and_then (instr_at pWhere rw) (\<lambda>whr.
     and_then (update_instr pWhat (m_pNext_update (\<lambda>_. m_pNext whr)) rw) (\<lambda>rw.
     and_then (update_instr pWhat (m_pPrev_update (\<lambda>_. pWhere)) rw) (\<lambda>rw.
     and_then (instr_at pWhat rw) (\<lambda>what.
     and_then (update_instr (m_pNext what) (m_pPrev_update (\<lambda>_. pWhat)) rw) (\<lambda>rw.
     and_then (instr_at pWhat rw) (\<lambda>what.
     and_then (update_instr (m_pPrev what) (m_pNext_update (\<lambda>_. pWhat)) rw) (\<lambda>rw.
     AdjustState pWhat rw)))))))"

text \<open>
  The loop \<^verbatim>\<open>for (p = first; p != &m_IL; p = p->m_pNext)\<close> of bodies that leave the links alone:
  the instructions it visits. The fuel is the number of instructions in the store.
\<close>

fun walk :: "nat \<Rightarrow> ref \<Rightarrow> il_rewriter \<Rightarrow> ref list res" where
  "walk 0 p rw = (if p = m_IL then Inr [] else Inl Not_terminating)"
| "walk (Suc n) p rw =
     (if p = m_IL then Inr []
      else and_then (instr_at p rw) (\<lambda>i.
           and_then (walk n (m_pNext i) rw) (\<lambda>ps. Inr (p # ps))))"

definition il_list :: "il_rewriter \<Rightarrow> ref list res" where
  "il_list rw = and_then (instr_at m_IL rw) (\<lambda>i. walk (length (instrs rw)) (m_pNext i) rw)"

subsection \<open>The ring of instructions\<close>

definition ins :: "il_rewriter \<Rightarrow> ref \<Rightarrow> il_instr" where
  "ins rw p = instrs rw ! (p - 1)"

definition valid_ref :: "il_rewriter \<Rightarrow> ref \<Rightarrow> bool" where
  "valid_ref rw p \<longleftrightarrow> 0 < p \<and> p \<le> length (instrs rw)"

lemma instr_at_valid [simp]: "valid_ref rw p \<Longrightarrow> instr_at p rw = Inr (ins rw p)"
  by (simp add: valid_ref_def instr_at_def ins_def)

fun adj :: "'a list \<Rightarrow> ('a \<times> 'a) list" where
  "adj (x # y # zs) = (x, y) # adj (y # zs)"
| "adj xs = []"

definition linked :: "il_rewriter \<Rightarrow> ref list \<Rightarrow> bool" where
  "linked rw xs \<longleftrightarrow>
     distinct xs \<and> (\<forall>p \<in> set xs. 1 < p \<and> p \<le> length (instrs rw)) \<and> instrs rw \<noteq> []
     \<and> (\<forall>(a, b) \<in> set (adj (m_IL # xs @ [m_IL])).
          m_pNext (ins rw a) = b \<and> m_pPrev (ins rw b) = a)"

lemma adj_append: "adj (xs @ y # ys) = adj (xs @ [y]) @ adj (y # ys)"
proof (induction xs)
  case (Cons x xs)
  then show ?case by (cases xs) simp_all
qed simp

lemma adj_snoc2: "adj (xs @ [x, y]) = adj (xs @ [x]) @ [(x, y)]"
  using adj_append [of xs x "[y]"] by simp

lemma map_fst_adj: "map fst (adj (xs @ [y])) = xs"
proof (induction xs)
  case (Cons x xs)
  then show ?case by (cases xs) simp_all
qed simp

lemma map_snd_adj: "map snd (adj (x # ys)) = ys"
  by (induction ys arbitrary: x) simp_all

lemma linked_valid:
  assumes "linked rw xs"
  shows "p \<in> set (m_IL # xs) \<Longrightarrow> valid_ref rw p"
  using assms by (auto simp: linked_def valid_ref_def Suc_le_eq)

text \<open>Writing one instruction.\<close>

definition set_ins :: "ref \<Rightarrow> il_instr \<Rightarrow> il_rewriter \<Rightarrow> il_rewriter" where
  "set_ins p i rw = rw\<lparr>instrs := (instrs rw)[p - 1 := i]\<rparr>"

lemma length_set_ins [simp]: "length (instrs (set_ins p i rw)) = length (instrs rw)"
  by (simp add: set_ins_def)

lemma valid_ref_set_ins [simp]: "valid_ref (set_ins p i rw) q = valid_ref rw q"
  by (simp add: valid_ref_def)

lemma ins_set_ins [simp]:
  "valid_ref rw p \<Longrightarrow> valid_ref rw q \<Longrightarrow> ins (set_ins p i rw) q = (if q = p then i else ins rw q)"
  by (auto simp: set_ins_def ins_def valid_ref_def nth_list_update)

lemma set_ins_frame [simp]: "(set_ins p i rw)\<lparr>instrs := xs\<rparr> = rw\<lparr>instrs := xs\<rparr>"
  by (simp add: set_ins_def)

lemma update_instr_valid [simp]:
  "valid_ref rw p \<Longrightarrow> update_instr p f rw = Inr (set_ins p (f (ins rw p)) rw)"
  by (simp add: update_instr_def set_ins_def)

lemma rewriter_eqI:
  assumes "length (instrs rw) = length (instrs rw')"
    and "\<And>p. valid_ref rw p \<Longrightarrow> ins rw p = ins rw' p" and "rw\<lparr>instrs := []\<rparr> = rw'\<lparr>instrs := []\<rparr>"
  shows "rw = (rw' :: il_rewriter)"
proof -
  have "instrs rw = instrs rw'"
  proof (rule nth_equalityI)
    fix i assume "i < length (instrs rw)"
    with assms(2) [of "i + 1"] show "instrs rw ! i = instrs rw' ! i"
      by (simp add: ins_def valid_ref_def)
  qed (rule assms(1))
  with assms(3) show ?thesis by (cases rw; cases rw') simp
qed

text \<open>The pointers after an insertion of \<open>w\<close> between \<open>a\<close> and \<open>b\<close>.\<close>

definition relink :: "ref \<Rightarrow> ref \<Rightarrow> ref \<Rightarrow> ref \<Rightarrow> il_instr \<Rightarrow> il_instr" where
  "relink a w b p i =
     i\<lparr>m_pNext := (if p = w then b else if p = a then w else m_pNext i),
       m_pPrev := (if p = w then a else if p = b then w else m_pPrev i)\<rparr>"

definition splice :: "ref \<Rightarrow> ref \<Rightarrow> ref \<Rightarrow> il_rewriter \<Rightarrow> il_rewriter" where
  "splice a w b rw =
     rw\<lparr>instrs := map (\<lambda>k. relink a w b (Suc k) (instrs rw ! k)) [0 ..< length (instrs rw)]\<rparr>"

lemma length_splice [simp]: "length (instrs (splice a w b rw)) = length (instrs rw)"
  by (simp add: splice_def)

lemma valid_ref_splice [simp]: "valid_ref (splice a w b rw) p = valid_ref rw p"
  by (simp add: valid_ref_def)

lemma ins_splice [simp]: "valid_ref rw p \<Longrightarrow> ins (splice a w b rw) p = relink a w b p (ins rw p)"
  by (cases p) (simp_all add: splice_def ins_def valid_ref_def)

lemma splice_frame [simp]: "(splice a w b rw)\<lparr>instrs := xs\<rparr> = rw\<lparr>instrs := xs\<rparr>"
  by (simp add: splice_def)

lemma relink_payload [simp]:
  "m_opcode (relink a w b p i) = m_opcode i" "m_offset (relink a w b p i) = m_offset i"
  "m_arg (relink a w b p i) = m_arg i"
  by (simp_all add: relink_def)

lemma splice_eq_writes:
  assumes "valid_ref rw w" and "valid_ref rw b" and "valid_ref rw a" and "w \<noteq> b" and "w \<noteq> a"
  shows "set_ins a ((if a = b then (ins rw b)\<lparr>m_pPrev := w\<rparr> else ins rw a)\<lparr>m_pNext := w\<rparr>)
      (set_ins b ((ins rw b)\<lparr>m_pPrev := w\<rparr>)
        (set_ins w ((ins rw w)\<lparr>m_pNext := b, m_pPrev := a\<rparr>)
          (set_ins w ((ins rw w)\<lparr>m_pNext := b\<rparr>) rw))) = splice a w b rw"
proof (rule rewriter_eqI, goal_cases)
  case (2 p)
  then have "valid_ref rw p" by simp
  with assms show ?case
    by (cases "p = w"; cases "p = b"; cases "p = a") (simp_all add: relink_def)
qed simp_all

lemma InsertBefore_splice:
  assumes "valid_ref rw w" and "valid_ref rw b" and "valid_ref rw a"
    and "m_pPrev (ins rw b) = a" and "w \<noteq> b" and "w \<noteq> a"
  shows "InsertBefore b w rw = AdjustState w (splice a w b rw)"
  using assms by (simp add: InsertBefore_def splice_eq_writes [symmetric] del: set_ins_frame)

lemma InsertAfter_splice:
  assumes "valid_ref rw w" and "valid_ref rw b" and "valid_ref rw a"
    and "m_pNext (ins rw a) = b" and "w \<noteq> b" and "w \<noteq> a"
  shows "InsertAfter a w rw = AdjustState w (splice a w b rw)"
  using assms by (simp add: InsertAfter_def splice_eq_writes [symmetric] del: set_ins_frame)

text \<open>Insertion at a position of the sequence.\<close>

lemma fst_in_adj: "(c, d) \<in> set (adj (xs @ [y])) \<Longrightarrow> c \<in> set xs"
  using arg_cong [OF map_fst_adj [of xs y], of set] by force

lemma snd_in_adj: "(c, d) \<in> set (adj (x # ys)) \<Longrightarrow> d \<in> set ys"
  using arg_cong [OF map_snd_adj [of x ys], of set] by force

lemma adj_gap: "adj (xs @ a # b # ys) = adj (xs @ [a]) @ (a, b) # adj (b # ys)"
  using adj_append [of xs a "b # ys"] by simp

lemma ring_split:
  "\<exists>P Q. m_IL # xs = P @ [last (m_IL # xs)] \<and> ys @ [m_IL] = hd (ys @ [m_IL]) # Q"
proof -
  have Q: "ys @ [m_IL] = hd (ys @ [m_IL]) # tl (ys @ [m_IL])"
    by simp
  show ?thesis
  proof (intro exI conjI)
    show "m_IL # xs = butlast (m_IL # xs) @ [last (m_IL # xs)]"
      by (rule append_butlast_last_id [symmetric]) simp
  qed (rule Q)
qed

lemma linked_adj:
  assumes "linked rw xs" and "(c, d) \<in> set (adj (m_IL # xs @ [m_IL]))"
  shows "m_pNext (ins rw c) = d" and "m_pPrev (ins rw d) = c"
proof -
  have "\<forall>(a, b) \<in> set (adj (m_IL # xs @ [m_IL])). m_pNext (ins rw a) = b \<and> m_pPrev (ins rw b) = a"
    using assms(1) unfolding linked_def by (elim conjE)
  from bspec [OF this assms(2)] show "m_pNext (ins rw c) = d" and "m_pPrev (ins rw d) = c"
    by simp_all
qed

lemma linked_cong:
  assumes "linked rw xs" and "length (instrs rw) \<le> length (instrs rw')"
    and links: "\<And>p. p \<in> set (m_IL # xs) \<Longrightarrow> m_pNext (ins rw' p) = m_pNext (ins rw p)
      \<and> m_pPrev (ins rw' p) = m_pPrev (ins rw p)"
  shows "linked rw' xs"
proof -
  have "m_pNext (ins rw' c) = d \<and> m_pPrev (ins rw' d) = c"
    if cd: "(c, d) \<in> set (adj (m_IL # xs @ [m_IL]))" for c d
  proof -
    have "c \<in> set (m_IL # xs)"
      using fst_in_adj [of c d "m_IL # xs" m_IL] cd by simp
    moreover have "d \<in> set (m_IL # xs)"
      using snd_in_adj [OF cd] by auto
    ultimately show ?thesis
      using links linked_adj [OF assms(1) cd] by simp
  qed
  moreover have "instrs rw' \<noteq> []"
    using assms(1,2) by (auto simp: linked_def)
  ultimately show ?thesis
    using assms(1,2) by (auto simp: linked_def case_prod_unfold simp del: adj.simps)
qed

lemma linked_neighbours:
  assumes "linked rw (xs @ ys)"
  shows "m_pNext (ins rw (last (m_IL # xs))) = hd (ys @ [m_IL])"
    and "m_pPrev (ins rw (hd (ys @ [m_IL]))) = last (m_IL # xs)"
proof -
  obtain P Q where PQ: "m_IL # xs = P @ [last (m_IL # xs)]" "ys @ [m_IL] = hd (ys @ [m_IL]) # Q"
    using ring_split by blast
  have "m_IL # (xs @ ys) @ [m_IL] = (m_IL # xs) @ (ys @ [m_IL])"
    by simp
  also have "\<dots> = P @ last (m_IL # xs) # hd (ys @ [m_IL]) # Q"
    by (subst PQ(1), subst PQ(2)) simp
  finally have "(last (m_IL # xs), hd (ys @ [m_IL])) \<in> set (adj (m_IL # (xs @ ys) @ [m_IL]))"
    by (simp only: adj_gap) simp
  from linked_adj [OF assms this] show "m_pNext (ins rw (last (m_IL # xs))) = hd (ys @ [m_IL])"
    and "m_pPrev (ins rw (hd (ys @ [m_IL]))) = last (m_IL # xs)" .
qed

lemma linked_splice:
  assumes "linked rw (xs @ ys)" and "1 < w" and "w \<le> length (instrs rw)" and "w \<notin> set (xs @ ys)"
  shows "linked (splice (last (m_IL # xs)) w (hd (ys @ [m_IL])) rw) (xs @ w # ys)"
proof -
  let ?a = "last (m_IL # xs)" and ?b = "hd (ys @ [m_IL])"
  let ?rw = "splice ?a w ?b rw"
  obtain P Q where P: "m_IL # xs = P @ [?a]" and Q: "ys @ [m_IL] = ?b # Q"
    using ring_split by blast
  have "m_IL # (xs @ ys) @ [m_IL] = (m_IL # xs) @ (ys @ [m_IL])"
    by simp
  also have "\<dots> = P @ ?a # ?b # Q"
    by (subst P, subst Q) simp
  finally have old: "adj (m_IL # (xs @ ys) @ [m_IL]) = adj (P @ [?a]) @ (?a, ?b) # adj (?b # Q)"
    by (simp only: adj_gap)
  have "m_IL # (xs @ w # ys) @ [m_IL] = (m_IL # xs) @ w # (ys @ [m_IL])"
    by simp
  also have "\<dots> = P @ ?a # w # ?b # Q"
    by (subst P, subst Q) simp
  finally have new: "adj (m_IL # (xs @ w # ys) @ [m_IL])
      = adj (P @ [?a]) @ [(?a, w), (w, ?b)] @ adj (?b # Q)"
    by (simp add: adj_gap)
  have dist: "distinct (m_IL # xs @ ys)"
    using assms(1) by (auto simp: linked_def)
  have bnd: "p \<in> set (m_IL # xs @ ys) \<Longrightarrow> valid_ref rw p" for p
    using linked_valid [OF assms(1)] .
  have w: "valid_ref rw w" "w \<notin> set (m_IL # xs @ ys)"
    using assms by (auto simp: valid_ref_def)
  have setP: "set (m_IL # xs) = insert ?a (set P)" and distP: "?a \<notin> set P"
    using arg_cong [OF P, of set] arg_cong [OF P, of distinct] dist by auto
  have setQ: "set (m_IL # ys) = insert ?b (set Q)" and distQ: "?b \<notin> set Q"
    using arg_cong [OF Q, of set] arg_cong [OF Q, of distinct] dist by auto
  have ain: "?a \<in> set (m_IL # xs)" and bin: "?b \<in> set (m_IL # ys)"
    unfolding setP setQ by blast+
  have left: "c \<in> set P \<and> d \<in> set xs" if "(c, d) \<in> set (adj (P @ [?a]))" for c d
    using fst_in_adj [of c d P ?a] snd_in_adj [of c d m_IL xs] that P by auto
  have right: "c \<in> set ys \<and> d \<in> set Q" if "(c, d) \<in> set (adj (?b # Q))" for c d
    using fst_in_adj [of c d ys m_IL] snd_in_adj [of c d ?b Q] that Q by auto
  have "m_pNext (ins ?rw c) = d \<and> m_pPrev (ins ?rw d) = c"
    if "(c, d) \<in> set (adj (m_IL # (xs @ w # ys) @ [m_IL]))" for c d
  proof -
    from that consider "(c, d) \<in> set (adj (P @ [?a]))" | "(c, d) \<in> set (adj (?b # Q))"
      | "c = ?a" "d = w" | "c = w" "d = ?b"
      unfolding new by auto
    then show ?thesis
    proof cases
      case 1
      with left have cd: "c \<in> set P" "d \<in> set xs" by auto
      have "c \<in> set (m_IL # xs)" "c \<noteq> ?a" using cd setP distP by blast+
      moreover have "d \<noteq> ?b" using cd dist bin by auto
      moreover have "(c, d) \<in> set (adj (m_IL # (xs @ ys) @ [m_IL]))"
        unfolding old using 1 by simp
      note linked_adj [OF assms(1) this]
      ultimately show ?thesis
        using cd w bnd [of c] bnd [of d] by (auto simp: relink_def)
    next
      case 2
      with right have cd: "c \<in> set ys" "d \<in> set Q" by auto
      have "d \<in> set (m_IL # ys)" "d \<noteq> ?b" using cd setQ distQ by blast+
      moreover have "c \<noteq> ?a" using cd dist ain by auto
      moreover have "(c, d) \<in> set (adj (m_IL # (xs @ ys) @ [m_IL]))"
        unfolding old using 2 by simp
      note linked_adj [OF assms(1) this]
      ultimately show ?thesis
        using cd w bnd [of c] bnd [of d] by (auto simp: relink_def)
    next
      case 3
      have "?a \<in> set (m_IL # xs @ ys)" using ain by auto
      with 3 w bnd [of ?a] show ?thesis by (auto simp: relink_def)
    next
      case 4
      have "?b \<in> set (m_IL # xs @ ys)" using bin by auto
      with 4 w bnd [of ?b] show ?thesis by (auto simp: relink_def)
    qed
  qed
  moreover have "instrs ?rw \<noteq> []"
    using assms(1) by (simp add: linked_def splice_def)
  ultimately show ?thesis
    using assms unfolding linked_def by (auto simp del: adj.simps)
qed

subsection \<open>The sequence of instructions\<close>

text \<open>What an instruction holds besides its links.\<close>

type_synonym payload = "nat \<times> u32 \<times> il_arg"

definition payload :: "il_rewriter \<Rightarrow> ref \<Rightarrow> payload" where
  "payload rw p = (m_opcode (ins rw p), m_offset (ins rw p), m_arg (ins rw p))"

definition opcode_valid :: "nat \<Rightarrow> bool" where
  "opcode_valid opcode \<longleftrightarrow> opcode \<le> CEE_SWITCH_ARG"

lemma pushes_valid: "opcode_valid opcode \<Longrightarrow> \<exists>n. k_rgnStackPushes opcode = Inr n"
  by (simp add: opcode_valid_def k_rgnStackPushes_def)

definition pushes_of :: "nat \<Rightarrow> nat" where
  "pushes_of opcode = (case k_rgnStackPushes opcode of Inr n \<Rightarrow> n | Inl _ \<Rightarrow> 0)"

lemma AdjustState_valid:
  assumes "valid_ref rw p" and "opcode_valid (m_opcode (ins rw p))"
  shows "AdjustState p rw = Inr (rw\<lparr>m_maxStack := m_maxStack rw + word_of_nat (pushes_of (m_opcode (ins rw p)))\<rparr>)"
  using assms pushes_valid [OF assms(2)] by (auto simp: AdjustState_def pushes_of_def)

text \<open>
  Two states that agree on everything an insertion leaves alone: contents of the
  instructions, exception clauses and header.
\<close>

definition same_contents :: "il_rewriter \<Rightarrow> il_rewriter \<Rightarrow> bool" where
  "same_contents rw rw' \<longleftrightarrow>
     length (instrs rw') = length (instrs rw)
     \<and> (\<forall>p. valid_ref rw p \<longrightarrow> payload rw' p = payload rw p)
     \<and> rw'\<lparr>instrs := [], m_maxStack := 0\<rparr> = rw\<lparr>instrs := [], m_maxStack := 0\<rparr>"

lemma ins_maxStack [simp]:
  "ins (rw\<lparr>m_maxStack := n\<rparr>) p = ins rw p" "ins (rw\<lparr>m_nInstrs := k\<rparr>) p = ins rw p"
  "ins (rw\<lparr>m_pEH := eh\<rparr>) p = ins rw p"
  by (simp_all add: ins_def)

lemma linked_maxStack [simp]:
  "linked (rw\<lparr>m_maxStack := n\<rparr>) xs = linked rw xs" "linked (rw\<lparr>m_nInstrs := k\<rparr>) xs = linked rw xs"
  "linked (rw\<lparr>m_pEH := eh\<rparr>) xs = linked rw xs"
  by (simp_all add: linked_def)

lemma valid_ref_maxStack [simp]:
  "valid_ref (rw\<lparr>m_maxStack := n\<rparr>) p = valid_ref rw p" "valid_ref (rw\<lparr>m_nInstrs := k\<rparr>) p = valid_ref rw p"
  "valid_ref (rw\<lparr>m_pEH := eh\<rparr>) p = valid_ref rw p"
  by (simp_all add: valid_ref_def)

lemma same_contents_splice:
  "same_contents rw ((splice a w b rw)\<lparr>m_maxStack := n\<rparr>)"
  by (auto simp: same_contents_def payload_def splice_def ins_def valid_ref_def relink_def)

locale sequence =
  fixes repr :: "'s \<Rightarrow> ref list \<Rightarrow> bool"
    and insert_before :: "ref \<Rightarrow> ref \<Rightarrow> 's \<Rightarrow> 's res"
    and insert_after :: "ref \<Rightarrow> ref \<Rightarrow> 's \<Rightarrow> 's res"
    and insertable :: "'s \<Rightarrow> ref \<Rightarrow> bool"
    and same :: "'s \<Rightarrow> 's \<Rightarrow> bool"
  assumes repr_distinct: "repr s xs \<Longrightarrow> distinct xs \<and> m_IL \<notin> set xs"
    and before: "repr s (xs @ ys) \<Longrightarrow> insertable s w \<Longrightarrow> w \<notin> set (xs @ ys) \<Longrightarrow>
      \<exists>s'. insert_before (hd (ys @ [m_IL])) w s = Inr s' \<and> repr s' (xs @ w # ys) \<and> same s s'"
    and after: "repr s (xs @ ys) \<Longrightarrow> insertable s w \<Longrightarrow> w \<notin> set (xs @ ys) \<Longrightarrow>
      \<exists>s'. insert_after (last (m_IL # xs)) w s = Inr s' \<and> repr s' (xs @ w # ys) \<and> same s s'"
begin

text \<open>Inserting before the sentinel appends, inserting before the first element prepends.\<close>

lemma append_instr:
  assumes "repr s xs" and "insertable s w" and "w \<notin> set xs"
  shows "\<exists>s'. insert_before m_IL w s = Inr s' \<and> repr s' (xs @ [w]) \<and> same s s'"
  using before [of s xs "[]" w] assms by simp

lemma before_member:
  assumes "repr s (xs @ p # ys)" and "insertable s w" and "w \<notin> set (xs @ p # ys)"
  shows "\<exists>s'. insert_before p w s = Inr s' \<and> repr s' (xs @ w # p # ys) \<and> same s s'"
  using before [of s xs "p # ys" w] assms by simp

lemma after_member:
  assumes "repr s (xs @ p # ys)" and "insertable s w" and "w \<notin> set (xs @ p # ys)"
  shows "\<exists>s'. insert_after p w s = Inr s' \<and> repr s' (xs @ p # w # ys) \<and> same s s'"
  using after [of s "xs @ [p]" ys w] assms by simp

end

definition insertable :: "il_rewriter \<Rightarrow> ref \<Rightarrow> bool" where
  "insertable rw w \<longleftrightarrow> 1 < w \<and> w \<le> length (instrs rw) \<and> opcode_valid (m_opcode (ins rw w))"

lemma insertion_context:
  assumes "linked rw (xs @ ys)" and "insertable rw w" and "w \<notin> set (xs @ ys)"
  shows "valid_ref rw w" and "valid_ref rw (hd (ys @ [m_IL]))" and "valid_ref rw (last (m_IL # xs))"
    and "w \<noteq> hd (ys @ [m_IL])" and "w \<noteq> last (m_IL # xs)"
proof -
  have "hd (ys @ [m_IL]) \<in> set (m_IL # xs @ ys)"
    by (cases ys) auto
  moreover have "last (m_IL # xs) \<in> set (m_IL # xs @ ys)"
    by auto
  moreover have "w \<notin> set (m_IL # xs @ ys)" and "valid_ref rw w"
    using assms by (auto simp: insertable_def valid_ref_def)
  ultimately show "valid_ref rw w" and "valid_ref rw (hd (ys @ [m_IL]))"
    and "valid_ref rw (last (m_IL # xs))"
    and "w \<noteq> hd (ys @ [m_IL])" and "w \<noteq> last (m_IL # xs)"
    using linked_valid [OF assms(1)] by metis+
qed

lemma insertion_result:
  assumes "linked rw (xs @ ys)" and "insertable rw w" and "w \<notin> set (xs @ ys)"
  shows "\<exists>rw'. AdjustState w (splice (last (m_IL # xs)) w (hd (ys @ [m_IL])) rw) = Inr rw'
    \<and> linked rw' (xs @ w # ys) \<and> same_contents rw rw'"
proof -
  let ?rw = "splice (last (m_IL # xs)) w (hd (ys @ [m_IL])) rw"
  have w: "valid_ref rw w"
    using insertion_context(1) [OF assms] .
  have "AdjustState w ?rw = Inr (?rw\<lparr>m_maxStack := m_maxStack ?rw
      + word_of_nat (pushes_of (m_opcode (ins ?rw w)))\<rparr>)"
    using assms(2) w by (intro AdjustState_valid) (simp_all add: insertable_def)
  moreover have "linked ?rw (xs @ w # ys)"
    using assms by (intro linked_splice) (simp_all add: insertable_def)
  ultimately show ?thesis
    using same_contents_splice by auto
qed

interpretation il: sequence linked InsertBefore InsertAfter insertable same_contents
proof (unfold_locales, goal_cases)
  case (1 rw xs)
  then show ?case by (auto simp: linked_def)
next
  case (2 rw xs ys w)
  have "InsertBefore (hd (ys @ [m_IL])) w rw
      = AdjustState w (splice (last (m_IL # xs)) w (hd (ys @ [m_IL])) rw)"
    using insertion_context [OF 2] linked_neighbours(2) [OF 2(1)] by (intro InsertBefore_splice) simp_all
  with insertion_result [OF 2] show ?case by simp
next
  case (3 rw xs ys w)
  have "InsertAfter (last (m_IL # xs)) w rw
      = AdjustState w (splice (last (m_IL # xs)) w (hd (ys @ [m_IL])) rw)"
    using insertion_context [OF 3] linked_neighbours(1) [OF 3(1)] by (intro InsertAfter_splice) simp_all
  with insertion_result [OF 3] show ?case by simp
qed

text \<open>The loop over the list visits exactly the sequence; the fuel is always enough.\<close>

lemma walk_linked:
  assumes "linked rw (us @ vs)" and "length vs \<le> n"
  shows "walk n (hd (vs @ [m_IL])) rw = Inr vs"
  using assms
proof (induction vs arbitrary: us n)
  case Nil
  then show ?case by (cases n) simp_all
next
  case (Cons v vs)
  obtain k where n: "n = Suc k"
    using Cons.prems(2) by (cases n) auto
  have v: "v \<noteq> m_IL" "valid_ref rw v"
    using Cons.prems(1) linked_valid [OF Cons.prems(1), of v] by (auto simp: linked_def)
  have "linked rw ((us @ [v]) @ vs)"
    using Cons.prems(1) by simp
  from Cons.IH [OF this, of k] linked_neighbours(1) [OF this] Cons.prems(2) n
  have "walk k (m_pNext (ins rw v)) rw = Inr vs"
    by simp
  with v n show ?case by simp
qed

lemma linked_length:
  assumes "linked rw xs"
  shows "length xs < length (instrs rw)"
proof -
  have "set xs \<subseteq> {2..length (instrs rw)}" and d: "distinct xs" and "instrs rw \<noteq> []"
    using assms by (auto simp: linked_def)
  then have "card (set xs) \<le> card {2..length (instrs rw)}"
    by (intro card_mono) simp_all
  with d \<open>instrs rw \<noteq> []\<close> show ?thesis
    by (cases "instrs rw") (simp_all add: distinct_card)
qed

lemma il_list_linked: "linked rw xs \<Longrightarrow> il_list rw = Inr xs"
  using walk_linked [of rw "[]" xs "length (instrs rw)"] linked_neighbours(1) [of rw "[]" xs]
    linked_length [of rw xs] linked_valid [of rw xs m_IL]
  by (simp add: il_list_def)

lemma new_rewriter_linked: "linked new_rewriter []"
  by (simp add: linked_def new_rewriter_def ins_def)

end
