(* ===== verification/IL_Codec.thy ===== *)
theory IL_Codec
  imports IL_List
begin

section \<open>Import and export of method bodies\<close>

text \<open>
  \<^verbatim>\<open>ILRewriter::Import\<close> and \<^verbatim>\<open>ILRewriter::Export\<close>: the decoder from the bytes of a
  method body to the linked list of instructions with resolved branch targets, and the encoder
  back, which lengthens short branches until all displacements fit.

  The record \<open>il_method\<close> is what \<^verbatim>\<open>COR_ILMETHOD_DECODER\<close> of the runtime's headers makes of a method
  body. Memory that \<^verbatim>\<open>new BYTE[n]\<close> and the allocator of the runtime return has arbitrary contents,
  given by the argument \<open>fresh\<close>. In the modelled build a failed decoding stops at
  \<^verbatim>\<open>assert(false)\<close>, in front of the return of \<^verbatim>\<open>COR_E_INVALIDPROGRAM\<close>.
\<close>

record eh_info =
  ei_Flags :: u32
  ei_TryOffset :: u32
  ei_TryLength :: u32
  ei_HandlerOffset :: u32
  ei_HandlerLength :: u32
  ei_ClassTokenOrFilterOffset :: u32

record il_method =
  im_LocalVarSigTok :: u32
  im_MaxStack :: u32
  im_Flags :: u32
  im_Code :: "byte list"
  im_EH :: "eh_info list"

subsection \<open>Import\<close>

definition GetInstrFromOffset :: "u32 \<Rightarrow> il_rewriter \<Rightarrow> ref res" where
  "GetInstrFromOffset offset rw =
     (let pInstr = (if offset \<le> m_CodeSize rw then m_pOffsetToInstr rw ! unat offset else null) in
      and_then (check (pInstr \<noteq> null) Assert_failed) (\<lambda>_. Inr pInstr))"

text \<open>The integer of \<open>n\<close> bytes at an offset, sign-extended.\<close>

definition int_at :: "nat \<Rightarrow> nat \<Rightarrow> byte list \<Rightarrow> int" where
  "int_at n offset pIL =
     (let k = le_nat (take n (drop offset pIL)) in
      if k < 2 ^ (8 * n - 1) then int k else int k - 2 ^ (8 * n))"

definition new_instr_with :: "nat \<Rightarrow> il_arg \<Rightarrow> il_rewriter \<Rightarrow> (ref \<times> il_rewriter) res" where
  "new_instr_with opcode arg rw =
     (let (p, rw) = NewILInstr rw in
      and_then (update_instr p (\<lambda>i. i\<lparr>m_opcode := opcode, m_arg := arg\<rparr>) rw) (\<lambda>rw. Inr (p, rw)))"

fun import_switch_args ::
  "nat \<Rightarrow> u32 \<Rightarrow> byte list \<Rightarrow> nat \<Rightarrow> il_rewriter \<Rightarrow> (nat \<times> il_rewriter) res" where
  "import_switch_args 0 base pIL offset rw = Inr (offset, rw)"
| "import_switch_args (Suc n) base pIL offset rw =
     and_then (check (offset + 4 \<le> unat (m_CodeSize rw)) Assert_failed) (\<lambda>_.
     and_then (new_instr_with CEE_SWITCH_ARG
                 (Arg (ucast (base + word_of_int (int_at 4 offset pIL)))) rw) (\<lambda>(p, rw).
     and_then (InsertBefore m_IL p rw) (\<lambda>rw.
     import_switch_args n base pIL (offset + 4) rw)))"

definition import_opcode :: "byte list \<Rightarrow> nat \<Rightarrow> il_rewriter \<Rightarrow> (nat \<times> nat) res" where
  "import_opcode pIL offset rw =
     and_then
       (let b = unat (pIL ! offset) in
        if b = CEE_PREFIX1
        then and_then (check (offset + 1 < unat (m_CodeSize rw)) Assert_failed) (\<lambda>_.
             Inr (256 + unat (pIL ! (offset + 1)), offset + 2))
        else Inr (b, offset + 1)) (\<lambda>(opcode, offset).
     and_then (check (\<not> (CEE_PREFIX7 \<le> opcode \<and> opcode \<le> CEE_PREFIX2)) Assert_failed) (\<lambda>_.
     and_then (check (opcode < CEE_COUNT) Assert_failed) (\<lambda>_.
     Inr (opcode, offset))))"

text \<open>The argument of an instruction without switch targets; branches keep the absolute offset.\<close>

definition import_arg :: "nat \<Rightarrow> nat \<Rightarrow> byte list \<Rightarrow> u64" where
  "import_arg flags offset pIL =
     (if flags = 1 then ucast (word_of_int (int_at 1 offset pIL) :: byte)
      else if flags = 2 then ucast (word_of_int (int_at 2 offset pIL) :: u16)
      else if flags = 4 then ucast (word_of_int (int_at 4 offset pIL) :: u32)
      else if flags = 8 then word_of_int (int_at 8 offset pIL)
      else if flags = 17 then ucast (word_of_int (int (offset + 1) + int_at 1 offset pIL) :: u32)
      else if flags = 20 then ucast (word_of_int (int (offset + 4) + int_at 4 offset pIL) :: u32)
      else 0)"

definition import_switch ::
  "byte list \<Rightarrow> ref \<Rightarrow> nat \<Rightarrow> il_rewriter \<Rightarrow> (nat \<times> il_rewriter) res" where
  "import_switch pIL pInstr offset rw =
     and_then (check (offset + 4 \<le> unat (m_CodeSize rw)) Assert_failed) (\<lambda>_.
     let nTargets = (word_of_int (int_at 4 offset pIL) :: u32) in
     and_then (update_instr pInstr (\<lambda>i. i\<lparr>m_arg := Arg (ucast nTargets)\<rparr>) rw) (\<lambda>rw.
     let base = word_of_nat (offset + 4 + unat nTargets * 4) in
     import_switch_args (unat nTargets) base pIL (offset + 4) rw))"

definition import_operand ::
  "byte list \<Rightarrow> ref \<Rightarrow> nat \<Rightarrow> nat \<Rightarrow> bool \<Rightarrow> il_rewriter \<Rightarrow> (nat \<times> bool \<times> il_rewriter) res" where
  "import_operand pIL pInstr flags offset fBranch rw =
     (if flags = 32
      then and_then (import_switch pIL pInstr offset rw) (\<lambda>(offset, rw).
           Inr (offset + flags_size flags, True, rw))
      else if flags \<in> {0, 1, 2, 4, 8, 17, 20}
      then and_then (update_instr pInstr (\<lambda>i. i\<lparr>m_arg := Arg (import_arg flags offset pIL)\<rparr>) rw)
             (\<lambda>rw. Inr (offset + flags_size flags, fBranch \<or> flags = 17 \<or> flags = 20, rw))
      else Inl Assert_failed)"

definition import_step ::
  "byte list \<Rightarrow> nat \<Rightarrow> bool \<Rightarrow> il_rewriter \<Rightarrow> (nat \<times> bool \<times> il_rewriter) res" where
  "import_step pIL startOffset fBranch rw =
     and_then (import_opcode pIL startOffset rw) (\<lambda>(opcode, offset).
     and_then (s_OpCodeFlags opcode) (\<lambda>flags.
     and_then (check (\<not> (offset + flags_size flags) mod 2 ^ 32 > unat (m_CodeSize rw)) Assert_failed) (\<lambda>_.
     and_then (new_instr_with opcode (Arg 0) rw) (\<lambda>(pInstr, rw).
     and_then (InsertBefore m_IL pInstr rw) (\<lambda>rw.
     import_operand pIL pInstr flags offset fBranch
       (rw\<lparr>m_pOffsetToInstr := (m_pOffsetToInstr rw)[startOffset := pInstr]\<rparr>))))))"

text \<open>Each round of the loop moves forward, so the loop ends.\<close>

lemma import_switch_args_offset:
  "import_switch_args n base pIL offset rw = Inr (offset', rw') \<Longrightarrow> offset' = offset + 4 * n"
  by (induction n arbitrary: offset rw) (fastforce simp: res_simps)+

lemma import_opcode_offset:
  "import_opcode pIL offset rw = Inr (opcode, offset') \<Longrightarrow> offset < offset'"
  by (auto simp: import_opcode_def res_simps Let_def split: if_splits)

lemma import_operand_offset:
  "import_operand pIL p flags offset fBranch rw = Inr (offset', b, rw') \<Longrightarrow> offset \<le> offset'"
  by (auto simp: import_operand_def import_switch_def res_simps Let_def split: if_splits
      dest!: import_switch_args_offset)

lemma import_step_progress:
  assumes "import_step pIL offset fBranch rw = Inr (offset', b, rw')"
  shows "offset < offset'"
proof -
  from assms obtain opcode o' where op: "import_opcode pIL offset rw = Inr (opcode, o')"
    and rest: "\<exists>p flags rw''. import_operand pIL p flags o' fBranch rw'' = Inr (offset', b, rw')"
    unfolding import_step_def and_then_eq_Inr_iff by fastforce
  have "o' \<le> offset'"
    using rest import_operand_offset by blast
  with import_opcode_offset [OF op] show ?thesis by simp
qed

function import_loop ::
  "nat \<Rightarrow> byte list \<Rightarrow> nat \<Rightarrow> bool \<Rightarrow> il_rewriter \<Rightarrow> (nat \<times> bool \<times> il_rewriter) res" where
  "import_loop codeSize pIL offset fBranch rw =
     (if offset < codeSize
      then and_then (import_step pIL offset fBranch rw) (\<lambda>(offset, fBranch, rw).
           import_loop codeSize pIL offset fBranch rw)
      else Inr (offset, fBranch, rw))"
  by pat_completeness auto
termination
  by (relation "measure (\<lambda>(codeSize, pIL, offset, fBranch, rw). codeSize - offset)")
    (auto dest: import_step_progress)

declare import_loop.simps [simp del]

definition resolve_target :: "ref \<Rightarrow> il_rewriter \<Rightarrow> il_rewriter res" where
  "resolve_target p rw =
     and_then (instr_at p rw) (\<lambda>i.
     and_then (s_OpCodeFlags (m_opcode i)) (\<lambda>flags.
     if is_branch_flags flags
     then and_then (arg_of i) (\<lambda>w.
          and_then (GetInstrFromOffset (ucast w) rw) (\<lambda>t.
          update_instr p (\<lambda>i. i\<lparr>m_arg := Target t\<rparr>) rw))
     else Inr rw))"

definition ImportIL :: "byte list \<Rightarrow> il_rewriter \<Rightarrow> il_rewriter res" where
  "ImportIL pIL rw =
     (let n = unat (m_CodeSize rw);
          rw = rw\<lparr>m_pOffsetToInstr := replicate n null @ [m_IL]\<rparr> in
      and_then (update_instr m_IL (\<lambda>i. i\<lparr>m_opcode := 2 ^ 32 - 1\<rparr>) rw) (\<lambda>rw.
      and_then (import_loop n pIL 0 False rw) (\<lambda>(offset, fBranch, rw).
      and_then (check (offset = n) Assert_failed) (\<lambda>_.
      if fBranch then and_then (il_list rw) (\<lambda>ps. fold_res resolve_target ps rw)
      else Inr rw))))"

definition import_clause :: "eh_info \<Rightarrow> il_rewriter \<Rightarrow> eh_clause res" where
  "import_clause ehInfo rw =
     and_then (GetInstrFromOffset (ei_TryOffset ehInfo) rw) (\<lambda>tryBegin.
     and_then (GetInstrFromOffset (ei_TryOffset ehInfo + ei_TryLength ehInfo) rw) (\<lambda>tryEnd.
     and_then (GetInstrFromOffset (ei_HandlerOffset ehInfo) rw) (\<lambda>handlerBegin.
     and_then (GetInstrFromOffset (ei_HandlerOffset ehInfo + ei_HandlerLength ehInfo) rw) (\<lambda>e.
     and_then (instr_at e rw) (\<lambda>i.
     and_then (if ei_Flags ehInfo AND 1 = 0
               then Inr (ClassToken (ei_ClassTokenOrFilterOffset ehInfo))
               else and_then (GetInstrFromOffset (ei_ClassTokenOrFilterOffset ehInfo) rw)
                      (\<lambda>f. Inr (Filter f))) (\<lambda>a.
     Inr \<lparr>eh_Flags = ei_Flags ehInfo, m_pTryBegin = tryBegin, m_pTryEnd = tryEnd,
          m_pHandlerBegin = handlerBegin, m_pHandlerEnd = m_pPrev i, eh_arg = a\<rparr>))))))"

definition ImportEH :: "eh_info list \<Rightarrow> il_rewriter \<Rightarrow> il_rewriter res" where
  "ImportEH ehs rw =
     and_then (check (m_pEH rw = []) Assert_failed) (\<lambda>_.
     and_then (map_res (\<lambda>e. import_clause e rw) ehs) (\<lambda>cs. Inr (rw\<lparr>m_pEH := cs\<rparr>)))"

definition Import :: "il_method \<Rightarrow> il_rewriter \<Rightarrow> il_rewriter res" where
  "Import m rw =
     (let rw = rw\<lparr>m_tkLocalVarSig := im_LocalVarSigTok m, m_maxStack := im_MaxStack m,
                 m_flags := im_Flags m AND 16, m_CodeSize := word_of_nat (length (im_Code m))\<rparr> in
      and_then (ImportIL (im_Code m) rw) (ImportEH (im_EH m)))"

subsection \<open>Export\<close>

definition put_bytes :: "nat \<Rightarrow> byte list \<Rightarrow> byte list \<Rightarrow> byte list res" where
  "put_bytes offset bs buf =
     and_then (check (offset + length bs \<le> length buf) Out_of_bounds) (\<lambda>_.
     Inr (take offset buf @ bs @ drop (offset + length bs) buf))"

text \<open>The operand bytes the first pass writes; those of branches follow in the second pass.\<close>

definition first_pass_arg :: "nat \<Rightarrow> il_instr \<Rightarrow> byte list res" where
  "first_pass_arg flags i =
     (if flags = 1 then and_then (arg_of i) (\<lambda>w. Inr (word_bytes (ucast w :: byte)))
      else if flags = 2 then and_then (arg_of i) (\<lambda>w. Inr (word_bytes (ucast w :: u16)))
      else if flags = 4 then and_then (arg_of i) (\<lambda>w. Inr (word_bytes (ucast w :: u32)))
      else if flags = 8 then and_then (arg_of i) (\<lambda>w. Inr (word_bytes w))
      else if flags = 32 then and_then (arg_of i) (\<lambda>w. Inr (word_bytes (ucast w :: u32)))
      else if flags \<in> {0, 17, 20} then Inr []
      else Inl Assert_failed)"

definition opcode_bytes :: "nat \<Rightarrow> byte list" where
  "opcode_bytes opcode =
     (if opcode < CEE_COUNT
      then (if 256 \<le> opcode then [word_of_nat CEE_PREFIX1] else []) @ [word_of_nat (opcode mod 256)]
      else [])"

text \<open>State of the first pass: rewriter, buffer, offset and \<^verbatim>\<open>fBranch\<close>.\<close>

type_synonym emit_state = "il_rewriter \<times> byte list \<times> nat \<times> bool"

definition emit_instr :: "nat \<Rightarrow> ref \<Rightarrow> emit_state \<Rightarrow> emit_state res" where
  "emit_instr maxSize p s =
     (let (rw, buf, offset, fBranch) = s in
      and_then (check (offset < maxSize) Assert_failed) (\<lambda>_.
      and_then (update_instr p (\<lambda>i. i\<lparr>m_offset := word_of_nat offset\<rparr>) rw) (\<lambda>rw.
      and_then (instr_at p rw) (\<lambda>i.
      and_then (put_bytes offset (opcode_bytes (m_opcode i)) buf) (\<lambda>buf.
      let offset = offset + length (opcode_bytes (m_opcode i)) in
      and_then (s_OpCodeFlags (m_opcode i)) (\<lambda>flags.
      and_then (first_pass_arg flags i) (\<lambda>bs.
      and_then (put_bytes offset bs buf) (\<lambda>buf.
      Inr (rw, buf, offset + (if flags = 32 then 4 else 0) + flags_size flags,
           fBranch \<or> flags = 17 \<or> flags = 20)))))))))"

text \<open>State of the second pass: rewriter, buffer, \<^verbatim>\<open>switchBase\<close> and \<^verbatim>\<open>fTryAgain\<close>.\<close>

type_synonym fix_state = "il_rewriter \<times> byte list \<times> u32 \<times> bool"

definition lengthened :: "nat \<Rightarrow> nat res" where
  "lengthened opcode =
     (if opcode = CEE_LEAVE_S then Inr CEE_LEAVE
      else and_then (check (CEE_BR_S \<le> opcode \<and> opcode \<le> CEE_BLT_UN_S) Assert_failed) (\<lambda>_.
           Inr (opcode - CEE_BR_S + CEE_BR)))"

definition target_offset :: "il_instr \<Rightarrow> il_rewriter \<Rightarrow> u32 res" where
  "target_offset i rw =
     and_then (target_of i) (\<lambda>t. and_then (instr_at t rw) (\<lambda>it. Inr (m_offset it)))"

definition fix_branch :: "ref \<Rightarrow> fix_state \<Rightarrow> fix_state res" where
  "fix_branch p s =
     (let (rw, buf, switchBase, fTryAgain) = s in
      and_then (instr_at p rw) (\<lambda>i.
      if m_opcode i = CEE_SWITCH
      then and_then (arg_of i) (\<lambda>w.
           Inr (rw, buf, m_offset i + 1 + 4 * ((ucast w :: u32) + 1), fTryAgain))
      else if m_opcode i = CEE_SWITCH_ARG
      then and_then (target_offset i rw) (\<lambda>t.
           and_then (put_bytes (unat (m_offset i)) (word_bytes (t - switchBase)) buf) (\<lambda>buf.
           Inr (rw, buf, switchBase, fTryAgain)))
      else and_then (s_OpCodeFlags (m_opcode i)) (\<lambda>flags.
           if is_branch_flags flags
           then and_then (target_offset i rw) (\<lambda>t.
                and_then (instr_at (m_pNext i) rw) (\<lambda>n.
                let delta = t - m_offset n in
                if flags = 17
                then (if sint (ucast delta :: byte) \<noteq> sint delta
                      then and_then (lengthened (m_opcode i)) (\<lambda>opcode.
                           and_then (update_instr p (\<lambda>i. i\<lparr>m_opcode := opcode\<rparr>) rw) (\<lambda>rw.
                           Inr (rw, buf, switchBase, True)))
                      else and_then (put_bytes (unat (m_offset n - 1)) (word_bytes (ucast delta :: byte)) buf)
                             (\<lambda>buf. Inr (rw, buf, switchBase, fTryAgain)))
                else if flags = 20
                then and_then (put_bytes (unat (m_offset n - 4)) (word_bytes delta) buf) (\<lambda>buf.
                     Inr (rw, buf, switchBase, fTryAgain))
                else Inl Assert_failed))
           else Inr (rw, buf, switchBase, fTryAgain))))"

text \<open>Both passes over the list: the new state and whether the sizes have to be computed again.\<close>

definition export_pass ::
  "nat \<Rightarrow> byte list \<Rightarrow> il_rewriter \<Rightarrow> (bool \<times> nat \<times> byte list \<times> il_rewriter) res" where
  "export_pass maxSize buf rw =
     and_then (il_list rw) (\<lambda>ps.
     and_then (fold_res (emit_instr maxSize) ps (rw, buf, 0, False)) (\<lambda>(rw, buf, offset, fBranch).
     and_then (update_instr m_IL (\<lambda>i. i\<lparr>m_offset := word_of_nat offset\<rparr>) rw) (\<lambda>rw.
     if fBranch
     then and_then (fold_res fix_branch ps (rw, buf, 0, False)) (\<lambda>(rw, buf, switchBase, fTryAgain).
          Inr (fTryAgain, offset, buf, rw))
     else Inr (False, offset, buf, rw))))"

text \<open>
  The jump back to \<^verbatim>\<open>again\<close> happens only after a short branch was replaced by a long one, so the
  number of short branches bounds the rounds.
\<close>

definition short_branch :: "nat \<Rightarrow> bool" where
  "short_branch opcode \<longleftrightarrow> s_OpCodeFlags opcode = Inr 17"

definition short_branches :: "il_rewriter \<Rightarrow> nat" where
  "short_branches rw = length (filter (\<lambda>i. short_branch (m_opcode i)) (instrs rw))"

lemma lengthened_long:
  assumes "lengthened opcode = Inr opcode'"
  shows "s_OpCodeFlags opcode' = Inr 20"
proof -
  have "\<forall>op \<in> set (221 # [56 ..< 69]). s_OpCodeFlags op = Inr 20"
    by code_simp
  moreover have "opcode' = 221 \<or> 56 \<le> opcode' \<and> opcode' < 69"
    using assms by (auto simp: lengthened_def res_simps split: if_splits)
  then have "opcode' \<in> set (221 # [56 ..< 69])"
    by (simp only: list.set insert_iff set_upt atLeastLessThan_iff)
  ultimately show ?thesis by blast
qed

lemma filter_update_same:
  "k < length xs \<Longrightarrow> P y = P (xs ! k) \<Longrightarrow> length (filter P (xs[k := y])) = length (filter P xs)"
  by (induction xs arbitrary: k) (auto split: nat.splits)

lemma filter_update_less:
  "k < length xs \<Longrightarrow> P (xs ! k) \<Longrightarrow> \<not> P y \<Longrightarrow> length (filter P (xs[k := y])) < length (filter P xs)"
  by (induction xs arbitrary: k) (auto split: nat.splits)

lemma short_branches_update:
  assumes "update_instr p f rw = Inr rw'" and "\<And>i. m_opcode (f i) = m_opcode i"
  shows "short_branches rw' = short_branches rw"
  using assms
  by (auto simp: update_instr_def instr_at_def short_branches_def res_simps split: if_splits
      intro!: filter_update_same)

lemma emit_instr_short_branches:
  "emit_instr maxSize p s = Inr s' \<Longrightarrow> short_branches (fst s') = short_branches (fst s)"
  by (cases s) (auto simp: emit_instr_def Let_def res_simps dest!: short_branches_update)

lemma fix_branch_short_branches:
  assumes "fix_branch p (rw, buf, sb, again) = Inr (rw', buf', sb', again')"
  shows "(again' = again \<and> rw' = rw) \<or> (again' \<and> short_branches rw' < short_branches rw)"
proof -
  have "short_branches rw' < short_branches rw"
    if "instr_at p rw = Inr i" and "s_OpCodeFlags (m_opcode i) = Inr 17"
      and "lengthened (m_opcode i) = Inr op" and "update_instr p (\<lambda>i. i\<lparr>m_opcode := op\<rparr>) rw = Inr rw'" for i op
    using that lengthened_long [OF that(3)]
    by (auto simp: update_instr_def instr_at_def short_branches_def short_branch_def res_simps
        split: if_splits intro!: filter_update_less)
  with assms show ?thesis
    by (auto simp: fix_branch_def Let_def res_simps split: if_splits)
qed

lemma fix_branches_short_branches:
  assumes "fold_res fix_branch ps (rw, buf, sb, again) = Inr (rw', buf', sb', again')"
  shows "short_branches rw' \<le> short_branches rw
    \<and> (again' \<longrightarrow> again \<or> short_branches rw' < short_branches rw)"
  using assms
proof (induction ps arbitrary: rw buf sb again)
  case (Cons p ps)
  then obtain rw1 buf1 sb1 again1 where
    step: "fix_branch p (rw, buf, sb, again) = Inr (rw1, buf1, sb1, again1)"
    and rest: "fold_res fix_branch ps (rw1, buf1, sb1, again1) = Inr (rw', buf', sb', again')"
    by auto
  from fix_branch_short_branches [OF step] Cons.IH [OF rest] show ?case by auto
qed simp

lemma export_pass_again:
  assumes "export_pass maxSize buf rw = Inr (True, offset, buf', rw')"
  shows "short_branches rw' < short_branches rw"
proof -
  from assms obtain ps rw1 buf1 off1 rw2 sb where
    emit: "fold_res (emit_instr maxSize) ps (rw, buf, 0, False) = Inr (rw1, buf1, off1, True)"
    and upd: "update_instr m_IL (\<lambda>i. i\<lparr>m_offset := word_of_nat off1\<rparr>) rw1 = Inr rw2"
    and fixb: "fold_res fix_branch ps (rw2, buf1, 0, False) = Inr (rw', buf', sb, True)"
    by (auto simp: export_pass_def res_simps split: if_splits)
  have "short_branches (fst (rw1, buf1, off1, True)) = short_branches rw"
    using emit by (rule fold_res_invariant) (auto simp: emit_instr_short_branches)
  moreover have "short_branches rw2 = short_branches rw1"
    using upd by (rule short_branches_update) simp
  ultimately show ?thesis
    using fix_branches_short_branches [OF fixb] by simp
qed

function export_loop :: "nat \<Rightarrow> byte list \<Rightarrow> il_rewriter \<Rightarrow> (nat \<times> byte list \<times> il_rewriter) res" where
  "export_loop maxSize buf rw =
     and_then (export_pass maxSize buf rw) (\<lambda>(fTryAgain, offset, buf, rw).
     if fTryAgain then export_loop maxSize buf rw else Inr (offset, buf, rw))"
  by pat_completeness auto
termination
  by (relation "measure (\<lambda>(maxSize, buf, rw). short_branches rw)") (auto dest: export_pass_again)

declare export_loop.simps [simp del]

subsection \<open>The method body\<close>

text \<open>
  What the runtime contributes: the memory it allocates for a body, or a null pointer, and the
  result code of its acceptance of the body. Result codes below are those of the headers.
\<close>

type_synonym hresult = u32

abbreviation (input) S_OK :: hresult where "S_OK \<equiv> 0"
abbreviation (input) E_FAIL :: hresult where "E_FAIL \<equiv> 0x80004005"
abbreviation (input) E_OUTOFMEMORY :: hresult where "E_OUTOFMEMORY \<equiv> 0x8007000E"

definition FAILED :: "hresult \<Rightarrow> bool" where
  "FAILED hr \<longleftrightarrow> sint hr < 0"

record il_host =
  host_alloc :: "nat \<Rightarrow> (nat \<Rightarrow> byte) option"
  host_setBody :: "byte list \<Rightarrow> hresult"

definition fat_header :: "il_rewriter \<Rightarrow> nat \<Rightarrow> byte list" where
  "fat_header rw offset =
     (let fl = (m_flags rw OR (if m_pEH rw \<noteq> [] then 8 else 0) OR 3) AND 0xFFF in
      word_bytes (fl OR push_bit 12 3 OR push_bit 16 (m_maxStack rw) :: u32)
      @ word_bytes (word_of_nat offset :: u32)
      @ word_bytes (m_tkLocalVarSig rw))"

definition export_clause :: "il_rewriter \<Rightarrow> eh_clause \<Rightarrow> byte list res" where
  "export_clause rw c =
     and_then (instr_at (m_pTryBegin c) rw) (\<lambda>tb.
     and_then (instr_at (m_pTryEnd c) rw) (\<lambda>te.
     and_then (instr_at (m_pHandlerBegin c) rw) (\<lambda>hb.
     and_then (instr_at (m_pHandlerEnd c) rw) (\<lambda>he.
     and_then (instr_at (m_pNext he) rw) (\<lambda>hn.
     and_then (if eh_Flags c AND 1 = 0
               then (case eh_arg c of ClassToken t \<Rightarrow> Inr t | Filter f \<Rightarrow> Inl Uninitialised)
               else (case eh_arg c of
                       Filter f \<Rightarrow> and_then (instr_at f rw) (\<lambda>i. Inr (m_offset i))
                     | ClassToken t \<Rightarrow> Inl Uninitialised)) (\<lambda>x.
     Inr (word_bytes (eh_Flags c) @ word_bytes (m_offset tb)
          @ word_bytes (m_offset te - m_offset tb) @ word_bytes (m_offset hb)
          @ word_bytes (m_offset hn - m_offset hb) @ word_bytes x)))))))"

definition eh_section :: "il_rewriter \<Rightarrow> byte list res" where
  "eh_section rw =
     (if m_pEH rw = [] then Inr []
      else and_then (map_res (export_clause rw) (m_pEH rw)) (\<lambda>cs.
           Inr (word_bytes (0x41 OR push_bit 8 (word_of_nat (4 + 24 * length (m_pEH rw))) :: u32)
                @ concat cs)))"

definition fat_body ::
  "(nat \<Rightarrow> byte) \<Rightarrow> byte list \<Rightarrow> nat \<Rightarrow> il_rewriter \<Rightarrow> byte list res" where
  "fat_body mem code offset rw =
     (let alignedCodeSize = 4 * ((offset + 3) div 4) in
      and_then (eh_section rw) (\<lambda>eh.
      Inr (fat_header rw offset @ code @ map mem [12 + offset ..< 12 + alignedCodeSize] @ eh)))"

definition total_size :: "il_rewriter \<Rightarrow> nat \<Rightarrow> nat" where
  "total_size rw offset =
     12 + 4 * ((offset + 3) div 4) + (if m_pEH rw \<noteq> [] then 4 + 24 * length (m_pEH rw) else 0)"

definition tiny_body :: "byte list \<Rightarrow> byte list" where
  "tiny_body code = (2 OR push_bit 2 (word_of_nat (length code))) # code"

text \<open>Export: the result code, the body given to the runtime, if any, and the rewriter after it.\<close>

definition Export ::
  "il_host \<Rightarrow> (nat \<Rightarrow> byte) \<Rightarrow> il_rewriter \<Rightarrow> (hresult \<times> byte list option) res" where
  "Export host fresh rw =
     (let maxSize = unat (m_nInstrs rw * 10) in
      and_then (export_loop maxSize (map fresh [0 ..< maxSize]) rw) (\<lambda>(offset, buf, rw).
      let code = take offset buf in
      if m_fGenerateTinyHeader rw
      then (if 64 \<le> offset then Inr (E_FAIL, None)
            else case host_alloc host (1 + offset) of
                   None \<Rightarrow> Inr (E_OUTOFMEMORY, None)
                 | Some mem \<Rightarrow>
                     let hr = host_setBody host (tiny_body code)
                     in Inr (if FAILED hr then hr else S_OK, Some (tiny_body code)))
      else (case host_alloc host (total_size rw offset) of
              None \<Rightarrow> Inr (E_OUTOFMEMORY, None)
            | Some mem \<Rightarrow>
                and_then (fat_body mem code offset rw) (\<lambda>body.
                let hr = host_setBody host body
                in Inr (if FAILED hr then hr else S_OK, Some body)))))"

end
