(* ===== verification/IL_Layout.thy ===== *)
theory IL_Layout
  imports IL_Codec
begin

section \<open>What export writes\<close>

text \<open>
  The layout of exported code. For a well-formed list of instructions \<^verbatim>\<open>Export\<close> never leaves its
  buffer, ends after finitely many rounds, and the bytes it writes are the concatenation of the
  encodings of the instructions, in which every branch carries the distance from the next
  instruction to its target, in a width it fits.
\<close>

named_theorems layout_simps \<open>sizes and flags of opcodes\<close>

subsection \<open>Facts about the table\<close>

definition flags_of :: "nat \<Rightarrow> nat" where
  "flags_of opcode = (case s_OpCodeFlags opcode of Inr f \<Rightarrow> f | Inl _ \<Rightarrow> 0)"

definition size_of :: "nat \<Rightarrow> nat" where
  "size_of opcode =
     length (opcode_bytes opcode) + (if flags_of opcode = 32 then 4 else 0) + flags_size (flags_of opcode)"

text \<open>The flags of the rows, computed once, and the table without a row for each opcode.\<close>

definition flags_table :: "nat list" where
  "flags_table = [
     0, 0, 0, 0, 0, 0, 0, 0, 0, 0, 0, 0, 0, 0, 1, 1, 1, 1, 1, 1, 0, 0, 0, 0, 0, 0, 0, 0, 0, 0,
     0, 1, 4, 8, 4, 8, 0, 0, 0, 4, 4, 4, 0, 17, 17, 17, 17, 17, 17, 17, 17, 17, 17, 17, 17, 17,
     20, 20, 20, 20, 20, 20, 20, 20, 20, 20, 20, 20, 20, 32, 0, 0, 0, 0, 0, 0, 0, 0, 0, 0, 0,
     0, 0, 0, 0, 0, 0, 0, 0, 0, 0, 0, 0, 0, 0, 0, 0, 0, 0, 0, 0, 0, 0, 0, 0, 0, 0, 0, 0, 0, 0,
     4, 4, 4, 4, 4, 4, 4, 0, 0, 0, 4, 0, 4, 4, 4, 4, 4, 4, 4, 0, 0, 0, 0, 0, 0, 0, 0, 0, 0, 4,
     4, 0, 4, 0, 0, 0, 0, 0, 0, 0, 0, 0, 0, 0, 0, 0, 0, 0, 0, 0, 0, 0, 4, 4, 4, 0, 0, 0, 0, 0,
     0, 0, 0, 0, 0, 0, 0, 0, 0, 0, 0, 0, 0, 0, 0, 0, 0, 0, 0, 0, 0, 0, 0, 4, 0, 0, 0, 4, 0, 0,
     0, 0, 0, 0, 0, 0, 0, 4, 0, 0, 0, 0, 0, 0, 0, 0, 0, 0, 0, 0, 20, 17, 0, 0, 0, 0, 0, 0, 0,
     0, 0, 0, 0, 0, 0, 0, 0, 0, 0, 0, 0, 0, 0, 0, 0, 0, 0, 0, 0, 0, 0, 0, 0, 0, 0, 0, 0, 0, 0,
     0, 0, 4, 4, 0, 2, 2, 2, 2, 2, 2, 0, 0, 0, 1, 0, 0, 4, 4, 0, 0, 0, 0, 0, 4, 0, 0, 0, 0, 0,
     0, 0, 0, 0]"

lemma flags_table_rows: "map (\<lambda>d. operand_flags (snd (snd d))) opdefs = flags_table"
  by code_simp

lemma flags_of_table: "opcode < 294 \<Longrightarrow> flags_of opcode = flags_table ! opcode"
  by (simp add: flags_of_def s_OpCodeFlags_def flags_table_rows [symmetric] length_opdefs)

text \<open>One evaluation of the table gives every fact about it that depends on positions.\<close>

definition row_ok :: "nat \<times> nat \<Rightarrow> bool" where
  "row_ok r \<longleftrightarrow>
     (let (op, f) = r in
      f \<in> {0, 1, 2, 4, 8, 17, 20, 32} \<and> (f = 8 \<longrightarrow> op < 256)
      \<and> (f = 17 \<longrightarrow> op = 222 \<or> 43 \<le> op \<and> op \<le> 55)
      \<and> (op = 222 \<or> 43 \<le> op \<and> op \<le> 55 \<longrightarrow> f = 17)
      \<and> (f = 32 \<longrightarrow> op = 69) \<and> (op = 69 \<longrightarrow> f = 32)
      \<and> (f = 20 \<longrightarrow> op = 221 \<or> 56 \<le> op \<and> op \<le> 68)
      \<and> (op = 221 \<or> 56 \<le> op \<and> op \<le> 68 \<longrightarrow> f = 20))"

lemma rows_ok: "list_all row_ok (enumerate 0 flags_table)"
  by code_simp

lemma row_ok_at:
  assumes "opcode < 294"
  shows "row_ok (opcode, flags_of opcode)"
proof -
  have "length flags_table = 294"
    by (simp add: flags_table_rows [symmetric] length_opdefs)
  with assms have "(opcode, flags_table ! opcode) \<in> set (enumerate 0 flags_table)"
    by (auto simp: in_set_enumerate_eq)
  with rows_ok assms show ?thesis
    by (auto simp: list_all_iff flags_of_table)
qed

lemma flags_beyond: "flags_of 294 = 0" "flags_of 295 = 20"
  by (simp_all add: flags_of_def s_OpCodeFlags_def)

lemma opcode_valid_cases:
  assumes "opcode_valid opcode"
  obtains "opcode < 294" | "opcode = 294" | "opcode = 295"
  using assms by (fastforce simp: opcode_valid_def)

lemma flags_cases:
  assumes "opcode_valid opcode"
  shows "flags_of opcode \<in> {0, 1, 2, 4, 8, 17, 20, 32}"
  using assms
proof (cases rule: opcode_valid_cases)
  case 1
  from row_ok_at [OF this] show ?thesis by (simp add: row_ok_def)
qed (simp_all add: flags_beyond)

lemma s_OpCodeFlags_valid: "opcode_valid opcode \<Longrightarrow> s_OpCodeFlags opcode = Inr (flags_of opcode)"
  by (auto simp: flags_of_def s_OpCodeFlags_def opcode_valid_def)

lemma size_of_less:
  assumes "opcode_valid opcode"
  shows "size_of opcode < 10"
  using assms
proof (cases rule: opcode_valid_cases)
  case 1
  from row_ok_at [OF this] have "flags_of opcode = 8 \<longrightarrow> opcode < 256"
    unfolding row_ok_def by simp
  moreover have "length (opcode_bytes opcode) \<le> 2"
    and "opcode < 256 \<Longrightarrow> length (opcode_bytes opcode) \<le> 1"
    by (simp_all add: opcode_bytes_def)
  moreover have "flags_of opcode \<in> {0, 1, 2, 4, 8, 17, 20, 32}"
    using assms by (rule flags_cases)
  ultimately show ?thesis
    unfolding size_of_def by (elim insertE) simp_all
qed (simp_all add: flags_beyond size_of_def opcode_bytes_def)

lemma short_opcodes:
  assumes "opcode_valid opcode" and "flags_of opcode = 17"
  shows "\<exists>op. lengthened opcode = Inr op \<and> opcode_valid op \<and> op < 294 \<and> flags_of op = 20"
proof -
  have "opcode < 294"
    using assms by (auto elim!: opcode_valid_cases simp: flags_beyond)
  from row_ok_at [OF this] assms(2) have c: "opcode = 222 \<or> 43 \<le> opcode \<and> opcode \<le> 55"
    by (simp add: row_ok_def)
  then obtain op where op: "lengthened opcode = Inr op" and "op = 221 \<or> 56 \<le> op \<and> op \<le> 68"
    by (auto simp: lengthened_def)
  then have "op < 294" and "flags_of op = 20"
    using row_ok_at [of op] by (auto simp: row_ok_def)
  with op show ?thesis by (simp add: opcode_valid_def)
qed

lemma switch_flags: "flags_of CEE_SWITCH = 32" "flags_of CEE_SWITCH_ARG = 20"
  using row_ok_at [of 69] by (simp_all add: row_ok_def flags_beyond)

lemma flags_switch_only:
  assumes "opcode_valid opcode" and "flags_of opcode = 32"
  shows "opcode = CEE_SWITCH"
  using assms
proof (cases rule: opcode_valid_cases)
  case 1
  from row_ok_at [OF this] assms(2) show ?thesis by (simp add: row_ok_def)
qed (use assms in \<open>simp_all add: flags_beyond\<close>)

subsection \<open>Well-formed code\<close>

abbreviation (input) opc :: "il_rewriter \<Rightarrow> ref \<Rightarrow> nat" where
  "opc rw p \<equiv> m_opcode (ins rw p)"

abbreviation (input) branching :: "nat \<Rightarrow> bool" where
  "branching flags \<equiv> flags = 17 \<or> flags = 20"

definition instr_ok :: "il_rewriter \<Rightarrow> ref set \<Rightarrow> ref \<Rightarrow> bool" where
  "instr_ok rw T p \<longleftrightarrow>
     valid_ref rw p \<and> opcode_valid (opc rw p)
     \<and> (if branching (flags_of (opc rw p)) then (\<exists>t \<in> T. m_arg (ins rw p) = Target t)
        else flags_of (opc rw p) = 0 \<or> (\<exists>w. m_arg (ins rw p) = Arg w))"

definition code_ok :: "il_rewriter \<Rightarrow> ref list \<Rightarrow> bool" where
  "code_ok rw xs \<longleftrightarrow> linked rw xs \<and> (\<forall>p \<in> set xs. instr_ok rw (set (m_IL # xs)) p)"

text \<open>Operand bytes of an instruction that is no branch.\<close>

definition plain_bytes :: "nat \<Rightarrow> il_arg \<Rightarrow> byte list" where
  "plain_bytes flags arg =
     (case arg of Target t \<Rightarrow> []
      | Arg w \<Rightarrow> if flags = 1 then word_bytes (ucast w :: byte)
                 else if flags = 2 then word_bytes (ucast w :: u16)
                 else if flags = 4 then word_bytes (ucast w :: u32)
                 else if flags = 8 then word_bytes w
                 else if flags = 32 then word_bytes (ucast w :: u32) else [])"

lemma first_pass_arg_ok:
  assumes "instr_ok rw T p"
  shows "first_pass_arg (flags_of (opc rw p)) (ins rw p)
    = Inr (plain_bytes (flags_of (opc rw p)) (m_arg (ins rw p)))"
  using assms flags_cases [of "opc rw p"]
  by (auto simp: instr_ok_def first_pass_arg_def plain_bytes_def arg_of_def split: il_arg.splits)

lemma length_plain_bytes:
  assumes "instr_ok rw T p" and "\<not> branching (flags_of (opc rw p))"
  shows "length (plain_bytes (flags_of (opc rw p)) (m_arg (ins rw p)))
    = (if flags_of (opc rw p) = 32 then 4 else 0) + flags_size (flags_of (opc rw p))"
  using assms flags_cases [of "opc rw p"]
  by (auto simp: instr_ok_def plain_bytes_def split: il_arg.splits)

lemma plain_bytes_branching:
  assumes "instr_ok rw T p" and "branching (flags_of (opc rw p))"
  shows "plain_bytes (flags_of (opc rw p)) (m_arg (ins rw p)) = []"
  using assms by (auto simp: instr_ok_def plain_bytes_def)

text \<open>Writing into the middle of a buffer.\<close>

lemma put_bytes_mid:
  assumes "offset = length l + length a" and "length bs = length b"
  shows "put_bytes offset bs (l @ a @ b @ r) = Inr (l @ a @ bs @ r)"
  using assms by (simp add: put_bytes_def)

lemma put_bytes_Inr:
  assumes "offset + length bs \<le> length buf"
  shows "put_bytes offset bs buf = Inr (take offset buf @ bs @ drop (offset + length bs) buf)"
  using assms by (simp add: put_bytes_def)

subsection \<open>What the export keeps\<close>

text \<open>
  The state after the export differs from the one before in offsets and in branches that were
  replaced by their long form: every link, operand and target is kept.
\<close>

definition laid_out :: "il_rewriter \<Rightarrow> il_rewriter \<Rightarrow> bool" where
  "laid_out rw rw' \<longleftrightarrow>
     length (instrs rw') = length (instrs rw) \<and> rw'\<lparr>instrs := []\<rparr> = rw\<lparr>instrs := []\<rparr>
     \<and> (\<forall>q. valid_ref rw q \<longrightarrow>
          m_arg (ins rw' q) = m_arg (ins rw q) \<and> m_pNext (ins rw' q) = m_pNext (ins rw q)
          \<and> m_pPrev (ins rw' q) = m_pPrev (ins rw q)
          \<and> (opc rw' q = opc rw q
              \<or> flags_of (opc rw q) = 17 \<and> lengthened (opc rw q) = Inr (opc rw' q)))"

lemma lengthened_flags: "lengthened op = Inr op' \<Longrightarrow> flags_of op' = 20"
  using lengthened_long by (simp add: flags_of_def)

lemma laid_out_trans:
  assumes "laid_out rw rw'" and "laid_out rw' rw''"
  shows "laid_out rw rw''"
proof -
  have v: "valid_ref rw' q = valid_ref rw q" for q
    using assms(1) by (simp add: laid_out_def valid_ref_def)
  have "opc rw'' q = opc rw q \<or> flags_of (opc rw q) = 17 \<and> lengthened (opc rw q) = Inr (opc rw'' q)"
    if q: "valid_ref rw q" for q
  proof -
    from assms(1) q have "opc rw' q = opc rw q
        \<or> flags_of (opc rw q) = 17 \<and> lengthened (opc rw q) = Inr (opc rw' q)"
      unfolding laid_out_def by blast
    moreover from assms(2) q v have "opc rw'' q = opc rw' q
        \<or> flags_of (opc rw' q) = 17 \<and> lengthened (opc rw' q) = Inr (opc rw'' q)"
      unfolding laid_out_def by blast
    ultimately show ?thesis
      using lengthened_flags by auto
  qed
  with assms v show ?thesis by (simp add: laid_out_def)
qed

lemma laid_out_refl: "laid_out rw rw"
  by (simp add: laid_out_def)

lemma laid_out_valid: "laid_out rw rw' \<Longrightarrow> valid_ref rw' q = valid_ref rw q"
  by (simp add: laid_out_def valid_ref_def)

lemma laid_out_instr_ok:
  assumes "laid_out rw rw'" and "instr_ok rw T p"
  shows "instr_ok rw' T p"
proof -
  have v: "valid_ref rw p" and op: "opcode_valid (opc rw p)"
    using assms(2) by (simp_all add: instr_ok_def)
  from assms(1) v have arg: "m_arg (ins rw' p) = m_arg (ins rw p)"
    and "opc rw' p = opc rw p \<or> flags_of (opc rw p) = 17 \<and> lengthened (opc rw p) = Inr (opc rw' p)"
    unfolding laid_out_def by blast+
  then show ?thesis
    using short_opcodes [OF op] laid_out_valid [OF assms(1)] assms(2) by (auto simp: instr_ok_def)
qed

lemma laid_out_linked:
  assumes "laid_out rw rw'" and "linked rw xs"
  shows "linked rw' xs"
  using assms(2)
proof (rule linked_cong)
  show "length (instrs rw) \<le> length (instrs rw')"
    using assms(1) by (simp add: laid_out_def)
  show "m_pNext (ins rw' p) = m_pNext (ins rw p) \<and> m_pPrev (ins rw' p) = m_pPrev (ins rw p)"
    if "p \<in> set (m_IL # xs)" for p
    using linked_valid [OF assms(2) that] assms(1) by (simp add: laid_out_def)
qed

lemma laid_out_code_ok: "laid_out rw rw' \<Longrightarrow> code_ok rw xs \<Longrightarrow> code_ok rw' xs"
  using laid_out_linked laid_out_instr_ok by (simp add: code_ok_def)

subsection \<open>The first pass\<close>

text \<open>States that differ in the offsets of instructions only.\<close>

definition relabelled :: "ref set \<Rightarrow> il_rewriter \<Rightarrow> il_rewriter \<Rightarrow> bool" where
  "relabelled A rw rw' \<longleftrightarrow>
     length (instrs rw') = length (instrs rw) \<and> rw'\<lparr>instrs := []\<rparr> = rw\<lparr>instrs := []\<rparr>
     \<and> (\<forall>q. valid_ref rw q \<longrightarrow> (ins rw' q)\<lparr>m_offset := 0\<rparr> = (ins rw q)\<lparr>m_offset := 0\<rparr>)
     \<and> (\<forall>q. valid_ref rw q \<and> q \<notin> A \<longrightarrow> ins rw' q = ins rw q)"

lemma relabelled_refl: "relabelled A rw rw"
  by (simp add: relabelled_def)

lemma relabelled_trans:
  assumes "relabelled A rw rw'" and "relabelled B rw' rw''"
  shows "relabelled (A \<union> B) rw rw''"
proof -
  have "valid_ref rw' q = valid_ref rw q" for q
    using assms(1) by (simp add: relabelled_def valid_ref_def)
  with assms show ?thesis
    unfolding relabelled_def by simp
qed

lemma relabelled_set_offset:
  assumes "valid_ref rw p"
  shows "relabelled {p} rw (set_ins p ((ins rw p)\<lparr>m_offset := n\<rparr>) rw)"
  using assms by (simp add: relabelled_def)

lemma relabelled_fields:
  assumes "relabelled A rw rw'" and "valid_ref rw q"
  shows "m_opcode (ins rw' q) = m_opcode (ins rw q)" and "m_arg (ins rw' q) = m_arg (ins rw q)"
    and "m_pNext (ins rw' q) = m_pNext (ins rw q)" and "m_pPrev (ins rw' q) = m_pPrev (ins rw q)"
proof -
  have "(ins rw' q)\<lparr>m_offset := 0\<rparr> = (ins rw q)\<lparr>m_offset := 0\<rparr>"
    using assms by (simp add: relabelled_def)
  then show "m_opcode (ins rw' q) = m_opcode (ins rw q)" and "m_arg (ins rw' q) = m_arg (ins rw q)"
    and "m_pNext (ins rw' q) = m_pNext (ins rw q)" and "m_pPrev (ins rw' q) = m_pPrev (ins rw q)"
    by (cases "ins rw' q"; cases "ins rw q"; simp)+
qed

lemma relabelled_valid: "relabelled A rw rw' \<Longrightarrow> valid_ref rw' q = valid_ref rw q"
  by (simp add: relabelled_def valid_ref_def)

lemma relabelled_instr_ok:
  assumes "relabelled A rw rw'"
  shows "instr_ok rw' T p = instr_ok rw T p"
proof (cases "valid_ref rw p")
  case True
  then show ?thesis
    using relabelled_fields [OF assms True] relabelled_valid [OF assms] by (simp add: instr_ok_def)
qed (simp add: instr_ok_def relabelled_valid [OF assms])

lemma relabelled_laid_out:
  assumes "relabelled A rw rw'"
  shows "laid_out rw rw'"
proof -
  have "length (instrs rw') = length (instrs rw)" "rw'\<lparr>instrs := []\<rparr> = rw\<lparr>instrs := []\<rparr>"
    using assms by (simp_all add: relabelled_def)
  with relabelled_fields [OF assms] show ?thesis by (simp add: laid_out_def)
qed

lemmas relabelled_linked = laid_out_linked [OF relabelled_laid_out]

text \<open>The bytes of an instruction after the first pass: the operand of a branch is still open.\<close>

definition first_seg :: "il_rewriter \<Rightarrow> ref \<Rightarrow> byte list \<Rightarrow> bool" where
  "first_seg rw p seg \<longleftrightarrow>
     length seg = size_of (opc rw p)
     \<and> (\<exists>open_bytes. seg = opcode_bytes (opc rw p)
          @ plain_bytes (flags_of (opc rw p)) (m_arg (ins rw p)) @ open_bytes)"

lemma size_of_plain:
  assumes "instr_ok rw T p"
  shows "length (opcode_bytes (opc rw p)) + length (plain_bytes (flags_of (opc rw p)) (m_arg (ins rw p)))
    + (if branching (flags_of (opc rw p)) then flags_size (flags_of (opc rw p)) else 0) = size_of (opc rw p)"
  using length_plain_bytes [OF assms] plain_bytes_branching [OF assms]
  by (auto simp: size_of_def)

lemma first_pass_arg_offset [simp]: "first_pass_arg f (i\<lparr>m_offset := n\<rparr>) = first_pass_arg f i"
  by (simp add: first_pass_arg_def arg_of_def)

lemma emit_instr_ok:
  assumes ok: "instr_ok rw T p" and len: "length buf = maxSize" and room: "off + 10 \<le> maxSize"
  shows "\<exists>seg. emit_instr maxSize p (rw, buf, off, fb) =
      Inr (set_ins p ((ins rw p)\<lparr>m_offset := word_of_nat off\<rparr>) rw,
           take off buf @ seg @ drop (off + size_of (opc rw p)) buf,
           off + size_of (opc rw p), fb \<or> branching (flags_of (opc rw p)))
    \<and> first_seg rw p seg"
proof -
  let ?f = "flags_of (opc rw p)"
  let ?o = "opcode_bytes (opc rw p)" and ?b = "plain_bytes ?f (m_arg (ins rw p))"
  let ?s = "size_of (opc rw p)"
  have v: "valid_ref rw p" and op: "opcode_valid (opc rw p)"
    using ok by (simp_all add: instr_ok_def)
  have s10: "?s < 10"
    using op by (rule size_of_less)
  have le: "length ?o + length ?b \<le> ?s"
    using size_of_plain [OF ok] by (simp split: if_splits)
  define j where "j = take (?s - length ?o - length ?b) (drop (off + length ?o + length ?b) buf)"
  have lj: "length j = ?s - length ?o - length ?b"
    using len room s10 by (simp add: j_def)
  have ins': "ins (set_ins p ((ins rw p)\<lparr>m_offset := word_of_nat off\<rparr>) rw) p
      = (ins rw p)\<lparr>m_offset := word_of_nat off\<rparr>"
    using v by simp
  have fp: "first_pass_arg ?f ((ins rw p)\<lparr>m_offset := word_of_nat off\<rparr>) = Inr ?b"
    using first_pass_arg_ok [OF ok] by simp
  have p1: "put_bytes off ?o buf = Inr (take off buf @ ?o @ drop (off + length ?o) buf)"
    using len room s10 le by (intro put_bytes_Inr) simp
  let ?buf1 = "take off buf @ ?o @ drop (off + length ?o) buf"
  have p2: "put_bytes (off + length ?o) ?b ?buf1
      = Inr (take (off + length ?o) ?buf1 @ ?b @ drop (off + length ?o + length ?b) ?buf1)"
    using len room s10 le by (intro put_bytes_Inr) simp
  have take1: "take (off + length ?o) ?buf1 = take off buf @ ?o"
    using len room by simp
  have drop1: "drop (off + length ?o + length ?b) ?buf1 = drop (off + length ?o + length ?b) buf"
    using len room by (simp add: add.commute add.left_commute)
  have "drop (off + length ?o + length ?b) buf = j @ drop (off + ?s) buf"
  proof -
    have "j @ drop (?s - length ?o - length ?b) (drop (off + length ?o + length ?b) buf)
        = drop (off + length ?o + length ?b) buf"
      unfolding j_def by (rule append_take_drop_id)
    moreover have "?s - length ?o - length ?b + (off + length ?o + length ?b) = off + ?s"
      using le by simp
    ultimately show ?thesis by (simp add: add.commute)
  qed
  with p2 take1 drop1 have p2': "put_bytes (off + length ?o) ?b ?buf1
      = Inr (take off buf @ (?o @ ?b @ j) @ drop (off + ?s) buf)"
    by simp
  have size_eq: "off + length ?o + (if ?f = 32 then 4 else 0) + flags_size ?f = off + ?s"
    by (simp add: size_of_def)
  have "emit_instr maxSize p (rw, buf, off, fb) =
      Inr (set_ins p ((ins rw p)\<lparr>m_offset := word_of_nat off\<rparr>) rw,
           take off buf @ (?o @ ?b @ j) @ drop (off + ?s) buf, off + ?s, fb \<or> branching ?f)"
    using room v size_eq
    by (simp add: emit_instr_def Let_def check_def p1 p2' first_pass_arg_ok [OF ok]
        s_OpCodeFlags_valid [OF op])
  moreover have "first_seg rw p (?o @ ?b @ j)"
    using le lj by (auto simp: first_seg_def)
  ultimately show ?thesis by blast
qed

text \<open>The offsets along the list, and the segments of the buffer.\<close>

fun offsets_ok :: "il_rewriter \<Rightarrow> nat \<Rightarrow> ref list \<Rightarrow> bool" where
  "offsets_ok rw off [] \<longleftrightarrow> True"
| "offsets_ok rw off (p # ps) \<longleftrightarrow>
     m_offset (ins rw p) = word_of_nat off \<and> offsets_ok rw (off + size_of (opc rw p)) ps"

definition code_size :: "il_rewriter \<Rightarrow> ref list \<Rightarrow> nat" where
  "code_size rw ps = sum_list (map (\<lambda>p. size_of (opc rw p)) ps)"

lemma code_size_simps [simp]:
  "code_size rw [] = 0" "code_size rw (p # ps) = size_of (opc rw p) + code_size rw ps"
  "code_size rw (ps @ qs) = code_size rw ps + code_size rw qs"
  by (simp_all add: code_size_def)

lemma code_size_less:
  "\<forall>p \<in> set ps. opcode_valid (opc rw p) \<Longrightarrow> code_size rw ps \<le> 9 * length ps"
proof (induction ps)
  case (Cons p ps)
  then show ?case using size_of_less [of "opc rw p"] by simp
qed simp

lemma offsets_ok_append:
  "offsets_ok rw off (ps @ qs) \<longleftrightarrow> offsets_ok rw off ps \<and> offsets_ok rw (off + code_size rw ps) qs"
  by (induction ps arbitrary: off) (simp_all add: add.assoc)

lemma offsets_ok_relabelled:
  assumes "relabelled A rw rw'" and "\<forall>p \<in> set ps. valid_ref rw p \<and> p \<notin> A" and "offsets_ok rw off ps"
  shows "offsets_ok rw' off ps"
  using assms(2,3)
proof (induction ps arbitrary: off)
  case (Cons p ps)
  then have "ins rw' p = ins rw p"
    using assms(1) by (simp add: relabelled_def)
  with Cons show ?case by simp
qed simp

lemma code_size_relabelled:
  assumes "relabelled A rw rw'" and "\<forall>p \<in> set ps. valid_ref rw p"
  shows "code_size rw' ps = code_size rw ps"
  using assms(2) relabelled_fields(1) [OF assms(1)] by (induction ps) simp_all

lemma first_seg_relabelled:
  assumes "relabelled A rw rw'" and "valid_ref rw p"
  shows "first_seg rw' p seg = first_seg rw p seg"
  using relabelled_fields [OF assms] by (simp add: first_seg_def)

lemma emit_all_ok:
  assumes "\<forall>p \<in> set ps. instr_ok rw T p" and "distinct ps" and "length buf = maxSize"
    and "off + 10 * length ps \<le> maxSize"
  shows "\<exists>rw' segs. fold_res (emit_instr maxSize) ps (rw, buf, off, fb) =
      Inr (rw', take off buf @ concat segs @ drop (off + code_size rw ps) buf, off + code_size rw ps,
           fb \<or> (\<exists>p \<in> set ps. branching (flags_of (opc rw p))))
    \<and> relabelled (set ps) rw rw' \<and> offsets_ok rw' off ps \<and> list_all2 (first_seg rw) ps segs"
  using assms
proof (induction ps arbitrary: rw buf off fb)
  case Nil
  then show ?case
    using relabelled_refl by (intro exI [of _ rw] exI [of _ "[]"]) simp
next
  case (Cons p ps)
  have okp: "instr_ok rw T p" and room: "off + 10 \<le> maxSize" and p: "p \<notin> set ps" and v: "valid_ref rw p"
    using Cons.prems by (auto simp: instr_ok_def)
  let ?s = "size_of (opc rw p)"
  let ?rw = "set_ins p ((ins rw p)\<lparr>m_offset := word_of_nat off\<rparr>) rw"
  obtain seg where emit: "emit_instr maxSize p (rw, buf, off, fb) = Inr (?rw,
      take off buf @ seg @ drop (off + ?s) buf, off + ?s, fb \<or> branching (flags_of (opc rw p)))"
    and seg: "first_seg rw p seg"
    using emit_instr_ok [OF okp Cons.prems(3) room] by blast
  let ?buf = "take off buf @ seg @ drop (off + ?s) buf"
  have ls: "length seg = ?s" and s10: "?s < 10"
    using seg size_of_less okp by (auto simp: first_seg_def instr_ok_def)
  have rel: "relabelled {p} rw ?rw"
    using v by (rule relabelled_set_offset)
  have vs: "\<forall>q \<in> set ps. valid_ref rw q"
    using Cons.prems(1) by (auto simp: instr_ok_def)
  have "\<exists>rw' segs. fold_res (emit_instr maxSize) ps (?rw, ?buf, off + ?s, fb \<or> branching (flags_of (opc rw p))) =
      Inr (rw', take (off + ?s) ?buf @ concat segs @ drop (off + ?s + code_size ?rw ps) ?buf,
           off + ?s + code_size ?rw ps,
           (fb \<or> branching (flags_of (opc rw p))) \<or> (\<exists>p \<in> set ps. branching (flags_of (opc ?rw p))))
    \<and> relabelled (set ps) ?rw rw' \<and> offsets_ok rw' (off + ?s) ps \<and> list_all2 (first_seg ?rw) ps segs"
    using Cons.prems s10 ls room relabelled_instr_ok [OF rel]
    by (intro Cons.IH) simp_all
  then obtain rw' segs where rest: "fold_res (emit_instr maxSize) ps
        (?rw, ?buf, off + ?s, fb \<or> branching (flags_of (opc rw p))) =
      Inr (rw', take (off + ?s) ?buf @ concat segs @ drop (off + ?s + code_size ?rw ps) ?buf,
           off + ?s + code_size ?rw ps,
           (fb \<or> branching (flags_of (opc rw p))) \<or> (\<exists>p \<in> set ps. branching (flags_of (opc ?rw p))))"
    and rel': "relabelled (set ps) ?rw rw'" and offs: "offsets_ok rw' (off + ?s) ps"
    and segs: "list_all2 (first_seg ?rw) ps segs"
    by blast
  have cs: "code_size ?rw ps = code_size rw ps"
    using rel vs by (rule code_size_relabelled)
  have br: "(\<exists>p \<in> set ps. branching (flags_of (opc ?rw p))) \<longleftrightarrow> (\<exists>p \<in> set ps. branching (flags_of (opc rw p)))"
    using vs relabelled_fields(1) [OF rel] by simp
  have take1: "take (off + ?s) ?buf = take off buf @ seg"
    using ls Cons.prems(3) room by simp
  have drop1: "drop (off + ?s + n) ?buf = drop (off + ?s + n) buf" for n
    using ls Cons.prems(3) room by (simp add: ac_simps)
  have "relabelled (set (p # ps)) rw rw'"
    using relabelled_trans [OF rel rel'] by simp
  moreover have "offsets_ok rw' off (p # ps)"
  proof -
    have "ins rw' p = ins ?rw p"
      using rel' p v by (simp add: relabelled_def)
    with offs v show ?thesis by simp
  qed
  moreover have "list_all2 (first_seg rw) (p # ps) (seg # segs)"
  proof -
    have "list_all2 (first_seg rw) ps segs"
      using segs by (rule list.rel_mono_strong) (use vs first_seg_relabelled [OF rel] in blast)
    with seg show ?thesis by simp
  qed
  moreover have "fold_res (emit_instr maxSize) (p # ps) (rw, buf, off, fb) =
      Inr (rw', take off buf @ concat (seg # segs) @ drop (off + code_size rw (p # ps)) buf,
           off + code_size rw (p # ps), fb \<or> (\<exists>q \<in> set (p # ps). branching (flags_of (opc rw q))))"
    using emit rest by (simp only: fold_res.simps and_then_Inr take1 drop1 cs br)
      (simp add: add.assoc)
  ultimately show ?case by blast
qed

subsection \<open>The second pass\<close>

definition target_off :: "il_rewriter \<Rightarrow> ref \<Rightarrow> u32" where
  "target_off rw p = (case m_arg (ins rw p) of Target t \<Rightarrow> m_offset (ins rw t) | Arg w \<Rightarrow> 0)"

definition distance :: "il_rewriter \<Rightarrow> ref \<Rightarrow> u32" where
  "distance rw p = target_off rw p - m_offset (ins rw (m_pNext (ins rw p)))"

definition fits :: "il_rewriter \<Rightarrow> ref \<Rightarrow> bool" where
  "fits rw p \<longleftrightarrow> (flags_of (opc rw p) = 17 \<longrightarrow> sint (ucast (distance rw p) :: byte) = sint (distance rw p))"

definition operand_bytes :: "il_rewriter \<Rightarrow> u32 \<Rightarrow> ref \<Rightarrow> byte list" where
  "operand_bytes rw sb p =
     (if opc rw p = CEE_SWITCH_ARG then word_bytes (target_off rw p - sb)
      else if flags_of (opc rw p) = 17 then word_bytes (ucast (distance rw p) :: byte)
      else if flags_of (opc rw p) = 20 then word_bytes (distance rw p)
      else plain_bytes (flags_of (opc rw p)) (m_arg (ins rw p)))"

definition encode_instr :: "il_rewriter \<Rightarrow> u32 \<Rightarrow> ref \<Rightarrow> byte list" where
  "encode_instr rw sb p = opcode_bytes (opc rw p) @ operand_bytes rw sb p"

definition next_base :: "il_rewriter \<Rightarrow> ref \<Rightarrow> u32 \<Rightarrow> u32" where
  "next_base rw p sb =
     (if opc rw p = CEE_SWITCH
      then (case m_arg (ins rw p) of Arg w \<Rightarrow> m_offset (ins rw p) + 1 + 4 * ((ucast w :: u32) + 1)
            | Target t \<Rightarrow> sb)
      else sb)"

fun encode_list :: "il_rewriter \<Rightarrow> u32 \<Rightarrow> ref list \<Rightarrow> byte list list" where
  "encode_list rw sb [] = []"
| "encode_list rw sb (p # ps) = encode_instr rw sb p # encode_list rw (next_base rw p sb) ps"

text \<open>The operand of a branch has the place the first pass left open.\<close>

lemma length_operand_branching:
  assumes "opcode_valid (opc rw p)" and "branching (flags_of (opc rw p))"
  shows "length (opcode_bytes (opc rw p)) + length (operand_bytes rw sb p) = size_of (opc rw p)"
  using assms switch_flags(2) by (auto simp: operand_bytes_def size_of_def)

lemma unat_sub_u32:
  assumes "n < 2 ^ 32" and "k \<le> n"
  shows "unat (word_of_nat n - word_of_nat k :: u32) = n - k"
proof -
  have "word_of_nat n - word_of_nat k = (word_of_nat (n - k) :: u32)"
    using assms(2) by (simp add: of_nat_diff)
  with assms(1) show ?thesis by (simp add: unat_u32_of_nat)
qed

definition make_long :: "il_rewriter \<Rightarrow> ref \<Rightarrow> il_rewriter" where
  "make_long rw p =
     set_ins p ((ins rw p)\<lparr>m_opcode := (case lengthened (opc rw p) of Inr op \<Rightarrow> op | Inl _ \<Rightarrow> 0)\<rparr>) rw"

lemma target_offset_ok:
  assumes "linked rw xs" and "instr_ok rw (set (m_IL # xs)) p" and "branching (flags_of (opc rw p))"
  shows "target_offset (ins rw p) rw = Inr (target_off rw p)"
proof -
  obtain t where "t \<in> set (m_IL # xs)" and "m_arg (ins rw p) = Target t"
    using assms(2,3) by (auto simp: instr_ok_def)
  then show ?thesis
    using linked_valid [OF assms(1), of t] by (simp add: target_offset_def target_of_def target_off_def)
qed

lemma fix_branch_ok:
  assumes lk: "linked rw (us @ p # ps)" and ok: "instr_ok rw (set (m_IL # us @ p # ps)) p"
    and offs: "offsets_ok rw (length pre) (p # ps @ [m_IL])" and seg: "length seg = size_of (opc rw p)"
    and small: "length pre + size_of (opc rw p) < 2 ^ 32"
  shows "fix_branch p (rw, pre @ seg @ post, sb, again) =
    (if \<not> branching (flags_of (opc rw p)) then Inr (rw, pre @ seg @ post, next_base rw p sb, again)
     else if fits rw p
     then Inr (rw, pre @ take (length (opcode_bytes (opc rw p))) seg @ operand_bytes rw sb p @ post, sb, again)
     else Inr (make_long rw p, pre @ seg @ post, sb, True))"
proof -
  let ?f = "flags_of (opc rw p)" and ?ob = "opcode_bytes (opc rw p)"
  have v: "valid_ref rw p" and op: "opcode_valid (opc rw p)"
    using ok by (simp_all add: instr_ok_def)
  note fl = s_OpCodeFlags_valid [OF op]
  show ?thesis
  proof (cases "branching ?f")
    case False
    have w: "opc rw p = CEE_SWITCH \<Longrightarrow> \<exists>w. m_arg (ins rw p) = Arg w"
      using ok switch_flags(1) by (auto simp: instr_ok_def)
    have "\<not> is_branch_flags ?f" and "opc rw p \<noteq> CEE_SWITCH_ARG"
      using False flags_cases [OF op] switch_flags(2) by auto
    with False v w fl show ?thesis
      by (auto simp: fix_branch_def next_base_def arg_of_def)
  next
    case True
    note toff = target_offset_ok [OF lk ok True]
    have ns: "opc rw p \<noteq> CEE_SWITCH"
      using True switch_flags(1) by auto
    have len: "length ?ob + length (operand_bytes rw sb p) = size_of (opc rw p)"
      using op True by (rule length_operand_branching)
    let ?a = "take (length ?ob) seg" and ?b = "drop (length ?ob) seg"
    have la: "length ?a = length ?ob" and lb: "length ?b = length (operand_bytes rw sb p)"
      using len seg by auto
    have put: "put_bytes (length pre + length ?ob) (operand_bytes rw sb p) (pre @ seg @ post)
        = Inr (pre @ ?a @ operand_bytes rw sb p @ post)"
    proof -
      have e: "?a @ ?b @ post = seg @ post"
        by (metis append_assoc append_take_drop_id)
      have "put_bytes (length pre + length ?ob) (operand_bytes rw sb p) (pre @ ?a @ ?b @ post)
          = Inr (pre @ ?a @ operand_bytes rw sb p @ post)"
        using la lb by (intro put_bytes_mid) simp_all
      then show ?thesis unfolding e .
    qed
    show ?thesis
    proof (cases "opc rw p = CEE_SWITCH_ARG")
      case sa: True
      have "unat (m_offset (ins rw p)) = length pre"
        using offs small by (simp add: unat_u32_of_nat)
      moreover have "?ob = []" "fits rw p"
        using sa switch_flags(2) by (simp_all add: opcode_bytes_def fits_def)
      ultimately show ?thesis
        using True sa v toff put by (simp add: fix_branch_def operand_bytes_def)
    next
      case nsa: False
      let ?n = "m_pNext (ins rw p)"
      have nx: "?n = hd (ps @ [m_IL])"
        using linked_neighbours(1) [of rw "us @ [p]" ps] lk by simp
      have "?n \<in> set (m_IL # us @ p # ps)"
        unfolding nx by (cases ps) auto
      then have vn: "valid_ref rw ?n"
        using linked_valid [OF lk] by blast
      have on: "m_offset (ins rw ?n) = word_of_nat (length pre + size_of (opc rw p))"
        using offs unfolding nx by (cases ps) simp_all
      have dist: "target_off rw p - m_offset (ins rw ?n) = distance rw p"
        by (simp add: distance_def)
      have pos: "unat (m_offset (ins rw ?n) - word_of_nat k) = length pre + length ?ob"
        if "length (operand_bytes rw sb p) = k" for k
        unfolding on using unat_sub_u32 [OF small, of k] that len by simp
      have br: "is_branch_flags ?f"
        using True by auto
      from True show ?thesis
      proof
        assume f17: "?f = 17"
        have "unat (m_offset (ins rw ?n) - 1) = length pre + length ?ob"
          using pos [of 1] f17 nsa by (simp add: operand_bytes_def)
        with f17 nsa ns v vn fl toff dist put short_opcodes [OF op f17] show ?thesis
          by (auto simp: fix_branch_def fits_def operand_bytes_def make_long_def Let_def)
      next
        assume f20: "?f = 20"
        have "unat (m_offset (ins rw ?n) - 4) = length pre + length ?ob"
          using pos [of 4] f20 nsa by (simp add: operand_bytes_def)
        with f20 nsa ns v vn fl toff dist put show ?thesis
          by (auto simp: fix_branch_def fits_def operand_bytes_def Let_def)
      qed
    qed
  qed
qed

lemma first_seg_plain:
  assumes "instr_ok rw T p" and "first_seg rw p seg" and "\<not> branching (flags_of (opc rw p))"
  shows "seg = encode_instr rw sb p"
proof -
  obtain ob where seg: "seg = opcode_bytes (opc rw p)
      @ plain_bytes (flags_of (opc rw p)) (m_arg (ins rw p)) @ ob" and len: "length seg = size_of (opc rw p)"
    using assms(2) by (auto simp: first_seg_def)
  have "length (opcode_bytes (opc rw p)) + length (plain_bytes (flags_of (opc rw p)) (m_arg (ins rw p)))
      = size_of (opc rw p)"
    using size_of_plain [OF assms(1)] unfolding if_not_P [OF assms(3)] by simp
  then have "length ob = 0"
    using len unfolding seg length_append by linarith
  then have "ob = []" by simp
  moreover have "opc rw p \<noteq> CEE_SWITCH_ARG"
    using assms(3) switch_flags(2) by auto
  ultimately show ?thesis
    using seg assms(3) by (simp add: encode_instr_def operand_bytes_def)
qed

lemma fix_all_fit:
  assumes "linked rw (us @ ps)" and "\<forall>p \<in> set ps. instr_ok rw (set (m_IL # us @ ps)) p"
    and "offsets_ok rw (length pre) (ps @ [m_IL])" and "list_all2 (first_seg rw) ps segs"
    and "length pre + code_size rw ps < 2 ^ 32" and "\<forall>p \<in> set ps. fits rw p"
  shows "\<exists>sb'. fold_res fix_branch ps (rw, pre @ concat segs @ post, sb, again)
    = Inr (rw, pre @ concat (encode_list rw sb ps) @ post, sb', again)"
  using assms
proof (induction ps arbitrary: us pre segs sb)
  case Nil
  then show ?case by simp
next
  case (Cons p ps)
  from Cons.prems(4) obtain seg segs' where segs: "segs = seg # segs'" and seg: "first_seg rw p seg"
    and rest: "list_all2 (first_seg rw) ps segs'"
    by (auto simp: list_all2_Cons1)
  have ok: "instr_ok rw (set (m_IL # us @ p # ps)) p" and fit: "fits rw p"
    using Cons.prems by simp_all
  have len: "length seg = size_of (opc rw p)"
    using seg by (simp add: first_seg_def)
  let ?sb = "next_base rw p sb"
  have "fix_branch p (rw, pre @ seg @ concat segs' @ post, sb, again)
      = Inr (rw, pre @ encode_instr rw sb p @ concat segs' @ post, ?sb, again)"
  proof (cases "branching (flags_of (opc rw p))")
    case True
    have "take (length (opcode_bytes (opc rw p))) seg = opcode_bytes (opc rw p)"
      using seg by (auto simp: first_seg_def)
    moreover have "?sb = sb"
      using True switch_flags(1) by (auto simp: next_base_def)
    ultimately show ?thesis
      using fix_branch_ok [of rw us p ps pre seg "concat segs' @ post" sb again] Cons.prems ok len fit True
      by (simp add: encode_instr_def)
  next
    case False
    have "seg = encode_instr rw sb p"
      using ok seg False by (rule first_seg_plain)
    then show ?thesis
      using fix_branch_ok [of rw us p ps pre seg "concat segs' @ post" sb again] Cons.prems ok len False
      by simp
  qed
  moreover have "length (encode_instr rw sb p) = size_of (opc rw p)"
    using ok seg first_seg_plain [OF ok seg] len length_operand_branching [of rw p sb]
    by (cases "branching (flags_of (opc rw p))") (auto simp: encode_instr_def instr_ok_def)
  then have "\<exists>sb'. fold_res fix_branch ps (rw, (pre @ encode_instr rw sb p) @ concat segs' @ post, ?sb, again)
      = Inr (rw, (pre @ encode_instr rw sb p) @ concat (encode_list rw ?sb ps) @ post, sb', again)"
    using Cons.prems rest by (intro Cons.IH [of "us @ [p]"]) (simp_all add: add.assoc)
  ultimately show ?case
    by (auto simp: segs)
qed

text \<open>States that differ in lengthened branches only.\<close>

definition longer :: "ref set \<Rightarrow> il_rewriter \<Rightarrow> il_rewriter \<Rightarrow> bool" where
  "longer A rw rw' \<longleftrightarrow>
     length (instrs rw') = length (instrs rw) \<and> rw'\<lparr>instrs := []\<rparr> = rw\<lparr>instrs := []\<rparr>
     \<and> (\<forall>q. valid_ref rw q \<longrightarrow>
          ins rw' q = ins rw q
          \<or> (q \<in> A \<and> flags_of (opc rw q) = 17
             \<and> (\<exists>op. lengthened (opc rw q) = Inr op \<and> ins rw' q = (ins rw q)\<lparr>m_opcode := op\<rparr>)))"

lemma longer_make_long:
  assumes "valid_ref rw p" and "opcode_valid (opc rw p)" and "flags_of (opc rw p) = 17"
  shows "longer {p} rw (make_long rw p)"
proof -
  obtain op where "lengthened (opc rw p) = Inr op"
    using short_opcodes [OF assms(2,3)] by blast
  with assms show ?thesis
    by (simp add: longer_def make_long_def)
qed

lemma longer_refl: "longer A rw rw"
  by (simp add: longer_def)

lemma longer_trans:
  assumes "longer A rw rw'" and "longer B rw' rw''" and "A \<inter> B = {}"
  shows "longer (A \<union> B) rw rw''"
proof -
  let ?step = "\<lambda>A r r' q. q \<in> A \<and> flags_of (opc r q) = 17
    \<and> (\<exists>op. lengthened (opc r q) = Inr op \<and> ins r' q = (ins r q)\<lparr>m_opcode := op\<rparr>)"
  have frame: "length (instrs rw'') = length (instrs rw)" "rw''\<lparr>instrs := []\<rparr> = rw\<lparr>instrs := []\<rparr>"
    using assms(1,2) by (simp_all add: longer_def)
  have "ins rw'' q = ins rw q \<or> ?step (A \<union> B) rw rw'' q" if q: "valid_ref rw q" for q
  proof -
    have q': "valid_ref rw' q"
      using assms(1) q by (simp add: longer_def valid_ref_def)
    from assms(1) q have "ins rw' q = ins rw q \<or> ?step A rw rw' q"
      unfolding longer_def by blast
    then show ?thesis
    proof
      assume same: "ins rw' q = ins rw q"
      from assms(2) q' have "ins rw'' q = ins rw' q \<or> ?step B rw' rw'' q"
        unfolding longer_def by blast
      then show ?thesis unfolding same by blast
    next
      assume step: "?step A rw rw' q"
      then have "q \<notin> B" using assms(3) by blast
      with assms(2) q' have "ins rw'' q = ins rw' q"
        unfolding longer_def by blast
      with step show ?thesis by simp
    qed
  qed
  with frame show ?thesis
    unfolding longer_def by blast
qed

lemma longer_fields:
  assumes "longer A rw rw'" and "valid_ref rw q"
  shows "m_arg (ins rw' q) = m_arg (ins rw q)" and "m_pNext (ins rw' q) = m_pNext (ins rw q)"
    and "m_pPrev (ins rw' q) = m_pPrev (ins rw q)" and "m_offset (ins rw' q) = m_offset (ins rw q)"
proof -
  from assms consider "ins rw' q = ins rw q" | op where "ins rw' q = (ins rw q)\<lparr>m_opcode := op\<rparr>"
    unfolding longer_def by blast
  then show "m_arg (ins rw' q) = m_arg (ins rw q)" and "m_pNext (ins rw' q) = m_pNext (ins rw q)"
    and "m_pPrev (ins rw' q) = m_pPrev (ins rw q)" and "m_offset (ins rw' q) = m_offset (ins rw q)"
    by (cases; simp)+
qed

lemma longer_valid: "longer A rw rw' \<Longrightarrow> valid_ref rw' q = valid_ref rw q"
  by (simp add: longer_def valid_ref_def)

lemma longer_elsewhere: "longer A rw rw' \<Longrightarrow> valid_ref rw q \<Longrightarrow> q \<notin> A \<Longrightarrow> ins rw' q = ins rw q"
  by (auto simp: longer_def)

lemma longer_laid_out:
  assumes "longer A rw rw'"
  shows "laid_out rw rw'"
proof -
  have "opc rw' q = opc rw q \<or> flags_of (opc rw q) = 17 \<and> lengthened (opc rw q) = Inr (opc rw' q)"
    if "valid_ref rw q" for q
    using assms that unfolding longer_def by fastforce
  with longer_fields [OF assms] assms show ?thesis
    by (simp add: laid_out_def longer_def)
qed

lemmas longer_linked = laid_out_linked [OF longer_laid_out]
lemmas longer_instr_ok = laid_out_instr_ok [OF longer_laid_out]

lemma longer_make_long_tail:
  assumes "longer A rw rw'" and "\<forall>p \<in> set ps. valid_ref rw p \<and> p \<notin> A" and "valid_ref rw m"
    and "offsets_ok rw off (ps @ [m])"
  shows "offsets_ok rw' off (ps @ [m])"
  using assms(2,4)
proof (induction ps arbitrary: off)
  case Nil
  then show ?case using longer_fields(4) [OF assms(1,3)] by simp
next
  case (Cons p ps)
  then have "ins rw' p = ins rw p"
    using longer_elsewhere [OF assms(1)] by simp
  with Cons show ?case by simp
qed

lemma longer_fits:
  assumes long: "longer A rw rw'" and lk: "linked rw xs" and p: "p \<in> set xs" "p \<notin> A"
    and ok: "instr_ok rw (set (m_IL # xs)) p"
  shows "fits rw' p = fits rw p"
proof -
  have v: "valid_ref rw p"
    using ok by (simp add: instr_ok_def)
  have same: "ins rw' p = ins rw p"
    using long v p(2) by (rule longer_elsewhere)
  from p(1) obtain us ps where xs: "xs = us @ p # ps"
    by (meson split_list)
  have "m_pNext (ins rw p) = hd (ps @ [m_IL])"
    using linked_neighbours(1) [of rw "us @ [p]" ps] lk xs by simp
  then have "m_pNext (ins rw p) \<in> set (m_IL # xs)"
    unfolding xs by (cases ps) auto
  then have n: "m_offset (ins rw' (m_pNext (ins rw p))) = m_offset (ins rw (m_pNext (ins rw p)))"
    using linked_valid [OF lk] longer_fields(4) [OF long] by blast
  show ?thesis
  proof (cases "m_arg (ins rw p)")
    case (Arg w)
    then have "\<not> branching (flags_of (opc rw p))"
      using ok by (auto simp: instr_ok_def)
    then show ?thesis by (simp add: fits_def same)
  next
    case (Target t)
    show ?thesis
    proof (cases "branching (flags_of (opc rw p))")
      case True
      then have "t \<in> set (m_IL # xs)"
        using ok Target by (auto simp: instr_ok_def)
      then have "m_offset (ins rw' t) = m_offset (ins rw t)"
        using linked_valid [OF lk] longer_fields(4) [OF long] by blast
      then show ?thesis
        by (simp add: fits_def distance_def target_off_def same n Target)
    qed (simp add: fits_def same)
  qed
qed

lemma fix_branch_step:
  assumes lk: "linked rw (us @ p # ps)" and ok: "instr_ok rw (set (m_IL # us @ p # ps)) p"
    and offs: "offsets_ok rw (length pre) (p # ps @ [m_IL])" and len: "length seg = size_of (opc rw p)"
    and small: "length pre + size_of (opc rw p) < 2 ^ 32"
  shows "\<exists>rw1 seg1 sb1. fix_branch p (rw, pre @ seg @ post, sb, again)
      = Inr (rw1, pre @ seg1 @ post, sb1, again \<or> \<not> fits rw p)
    \<and> length seg1 = size_of (opc rw p) \<and> longer {p} rw rw1"
proof -
  note eq = fix_branch_ok [OF lk ok offs len small, of post sb again]
  consider "\<not> branching (flags_of (opc rw p))" | "branching (flags_of (opc rw p))" "fits rw p"
    | "branching (flags_of (opc rw p))" "\<not> fits rw p"
    by blast
  then show ?thesis
  proof cases
    case 1
    then have "fits rw p" by (simp add: fits_def)
    with 1 eq len longer_refl show ?thesis by auto
  next
    case 2
    let ?seg = "take (length (opcode_bytes (opc rw p))) seg @ operand_bytes rw sb p"
    have "length ?seg = size_of (opc rw p)"
      using length_operand_branching [OF _ 2(1), of sb] ok len by (auto simp: instr_ok_def)
    moreover have "fix_branch p (rw, pre @ seg @ post, sb, again)
        = Inr (rw, pre @ ?seg @ post, sb, again \<or> \<not> fits rw p)"
      using 2 eq by simp
    ultimately show ?thesis
      using longer_refl by blast
  next
    case 3
    have "longer {p} rw (make_long rw p)"
      using ok 3(2) by (intro longer_make_long) (simp_all add: instr_ok_def fits_def)
    moreover have "fix_branch p (rw, pre @ seg @ post, sb, again)
        = Inr (make_long rw p, pre @ seg @ post, sb, again \<or> \<not> fits rw p)"
      using 3 eq by simp
    ultimately show ?thesis
      using len by blast
  qed
qed

lemma fix_all:
  assumes "linked rw (us @ ps)" and "\<forall>p \<in> set ps. instr_ok rw (set (m_IL # us @ ps)) p"
    and "offsets_ok rw (length pre) (ps @ [m_IL])"
    and "list_all2 (\<lambda>p seg. length seg = size_of (opc rw p)) ps segs"
    and "length pre + code_size rw ps < 2 ^ 32"
  shows "\<exists>rw' buf' sb'. fold_res fix_branch ps (rw, pre @ concat segs @ post, sb, again)
      = Inr (rw', buf', sb', again \<or> (\<exists>p \<in> set ps. \<not> fits rw p))
    \<and> length buf' = length (pre @ concat segs @ post) \<and> longer (set ps) rw rw'"
  using assms
proof (induction ps arbitrary: us pre segs sb rw again)
  case Nil
  then show ?case using longer_refl by simp
next
  case (Cons p ps)
  note lk = Cons.prems(1) and small = Cons.prems(5)
  from Cons.prems(4) obtain seg segs' where segs: "segs = seg # segs'"
    and len: "length seg = size_of (opc rw p)"
    and rest: "list_all2 (\<lambda>p seg. length seg = size_of (opc rw p)) ps segs'"
    by (auto simp: list_all2_Cons1)
  have ok: "instr_ok rw (set (m_IL # us @ p # ps)) p"
    using Cons.prems by simp
  have offs: "offsets_ok rw (length pre) (p # ps @ [m_IL])"
    using Cons.prems by simp
  have vs: "\<forall>q \<in> set ps. valid_ref rw q \<and> q \<notin> {p}" and pps: "p \<notin> set ps" and vm: "valid_ref rw m_IL"
    using lk linked_valid [OF lk] by (auto simp: linked_def)
  obtain rw1 seg1 sb1 where step: "fix_branch p (rw, pre @ seg @ concat segs' @ post, sb, again)
      = Inr (rw1, pre @ seg1 @ concat segs' @ post, sb1, again \<or> \<not> fits rw p)"
    and len1: "length seg1 = size_of (opc rw p)" and long1: "longer {p} rw rw1"
    using fix_branch_step [OF lk ok offs len, of "concat segs' @ post" sb again] small by auto
  have same: "opc rw1 q = opc rw q" if "q \<in> set ps" for q
    using longer_elsewhere [OF long1, of q] vs that by simp
  have "\<exists>rw' buf' sb'. fold_res fix_branch ps (rw1, (pre @ seg1) @ concat segs' @ post, sb1, again \<or> \<not> fits rw p)
      = Inr (rw', buf', sb', (again \<or> \<not> fits rw p) \<or> (\<exists>p \<in> set ps. \<not> fits rw1 p))
    \<and> length buf' = length ((pre @ seg1) @ concat segs' @ post) \<and> longer (set ps) rw1 rw'"
  proof (rule Cons.IH [of _ "us @ [p]"])
    show "linked rw1 ((us @ [p]) @ ps)"
      using longer_linked [OF long1 lk] by simp
    show "\<forall>q \<in> set ps. instr_ok rw1 (set (m_IL # (us @ [p]) @ ps)) q"
      using Cons.prems(2) longer_instr_ok [OF long1] by simp
    show "offsets_ok rw1 (length (pre @ seg1)) (ps @ [m_IL])"
      using longer_make_long_tail [OF long1 vs vm] offs len1 by simp
    show "list_all2 (\<lambda>p seg. length seg = size_of (opc rw1 p)) ps segs'"
      using rest by (rule list.rel_mono_strong) (simp add: same)
    have "code_size rw1 ps = code_size rw ps"
      unfolding code_size_def using same by (metis (mono_tags, lifting) map_eq_conv)
    then show "length (pre @ seg1) + code_size rw1 ps < 2 ^ 32"
      using small len1 by simp
  qed
  then obtain rw' buf' sb' where tail: "fold_res fix_branch ps
        (rw1, pre @ seg1 @ concat segs' @ post, sb1, again \<or> \<not> fits rw p)
      = Inr (rw', buf', sb', (again \<or> \<not> fits rw p) \<or> (\<exists>p \<in> set ps. \<not> fits rw1 p))"
    and len': "length buf' = length (pre @ seg1 @ concat segs' @ post)" and long': "longer (set ps) rw1 rw'"
    by auto
  have fit: "fits rw1 q = fits rw q" if "q \<in> set ps" for q
    using long1 lk
  proof (rule longer_fits)
    show "q \<in> set (us @ p # ps)" using that by simp
    show "q \<notin> {p}" using vs that by blast
    show "instr_ok rw (set (m_IL # us @ p # ps)) q" using Cons.prems(2) that by simp
  qed
  have "fold_res fix_branch (p # ps) (rw, pre @ concat segs @ post, sb, again)
      = Inr (rw', buf', sb', again \<or> (\<exists>q \<in> set (p # ps). \<not> fits rw q))"
    using step tail fit by (simp add: segs)
  moreover have "length buf' = length (pre @ concat segs @ post)"
    using len' len len1 by (simp add: segs)
  moreover have "longer (set (p # ps)) rw rw'"
    using longer_trans [OF long1 long'] pps by simp
  ultimately show ?case by blast
qed

subsection \<open>Both passes until every branch fits\<close>


definition encoded :: "il_rewriter \<Rightarrow> ref list \<Rightarrow> nat \<Rightarrow> byte list \<Rightarrow> bool" where
  "encoded rw xs off buf \<longleftrightarrow>
     offsets_ok rw 0 (xs @ [m_IL]) \<and> (\<forall>p \<in> set xs. fits rw p) \<and> off = code_size rw xs
     \<and> take off buf = concat (encode_list rw 0 xs)"

lemma segs_plain:
  assumes "\<forall>p \<in> set ps. instr_ok rw T p \<and> \<not> branching (flags_of (opc rw p))"
    and "list_all2 (first_seg rw) ps segs"
  shows "segs = encode_list rw sb ps"
  using assms
proof (induction ps arbitrary: segs sb)
  case (Cons p ps)
  from Cons.prems(2) obtain seg segs' where "segs = seg # segs'" and "first_seg rw p seg"
    and "list_all2 (first_seg rw) ps segs'"
    by (auto simp: list_all2_Cons1)
  moreover have "instr_ok rw T p" "\<not> branching (flags_of (opc rw p))"
    using Cons.prems(1) by simp_all
  ultimately show ?case
    using Cons.IH [of segs' "next_base rw p sb"] Cons.prems(1) first_seg_plain [of rw T p seg sb] by simp
qed simp

lemma length_concat_segs:
  "list_all2 (\<lambda>p seg. length seg = size_of (opc rw p)) ps segs \<Longrightarrow> length (concat segs) = code_size rw ps"
  by (induction ps segs rule: list_all2_induct) simp_all

lemma second_pass_ok:
  assumes lk: "linked rw xs" and oks: "\<forall>p \<in> set xs. instr_ok rw (set (m_IL # xs)) p"
    and offs: "offsets_ok rw 0 (xs @ [m_IL])" and segs: "list_all2 (first_seg rw) xs segs"
    and small: "code_size rw xs < 2 ^ 32"
  shows "\<exists>again buf' rw'. (if \<exists>p \<in> set xs. branching (flags_of (opc rw p))
       then and_then (fold_res fix_branch xs (rw, concat segs @ post, 0, False))
              (\<lambda>(rw, buf, sb, again). Inr (again, n, buf, rw))
       else Inr (False, n, concat segs @ post, rw)) = Inr (again, n, buf', rw')
    \<and> length buf' = length (concat segs @ post) \<and> laid_out rw rw'
    \<and> (again \<or> encoded rw' xs (code_size rw xs) buf')"
proof -
  have lens: "list_all2 (\<lambda>p seg. length seg = size_of (opc rw p)) xs segs"
    using segs by (rule list.rel_mono_strong) (simp add: first_seg_def)
  have lc: "length (concat segs) = code_size rw xs"
    using lens by (rule length_concat_segs)
  let ?br = "\<exists>p \<in> set xs. branching (flags_of (opc rw p))"
  show ?thesis
  proof (cases "\<forall>p \<in> set xs. fits rw p")
    case fit: True
    have enc: "encoded rw xs (code_size rw xs) (concat segs' @ post)"
      if "concat segs' = concat (encode_list rw 0 xs)" "length (concat segs') = code_size rw xs" for segs'
      using that offs fit by (simp add: encoded_def)
    show ?thesis
    proof (cases ?br)
      case br: True
      obtain sb' where run: "fold_res fix_branch xs (rw, concat segs @ post, 0, False)
          = Inr (rw, concat (encode_list rw 0 xs) @ post, sb', False)"
        using fix_all_fit [of rw "[]" xs "[]" segs post 0 False] lk oks offs segs small fit by auto
      have "length (concat (encode_list rw 0 xs) @ post) = length (concat segs @ post)"
        using fix_all [of rw "[]" xs "[]" segs post 0 False] lk oks offs lens small run by auto
      then show ?thesis
        using br run enc [of "encode_list rw 0 xs"] laid_out_refl lc by (intro exI [of _ False]) simp
    next
      case False
      then have "segs = encode_list rw 0 xs"
        using oks segs by (intro segs_plain) auto
      with False enc [OF arg_cong [OF this] lc] laid_out_refl show ?thesis by auto
    qed
  next
    case False
    then have br: ?br
      by (auto simp: fits_def)
    obtain rw' buf' sb' where "fold_res fix_branch xs (rw, concat segs @ post, 0, False)
          = Inr (rw', buf', sb', True)"
      and "length buf' = length (concat segs @ post)" and "longer (set xs) rw rw'"
      using fix_all [of rw "[]" xs "[]" segs post 0 False] lk oks offs lens small False by auto
    with br longer_laid_out show ?thesis by auto
  qed
qed

lemma export_pass_ok:
  assumes ok: "code_ok rw xs" and len: "length buf = maxSize" and room: "10 * length xs \<le> maxSize"
    and small: "maxSize < 2 ^ 32"
  shows "\<exists>again buf' rw'. export_pass maxSize buf rw = Inr (again, code_size rw xs, buf', rw')
    \<and> length buf' = maxSize \<and> laid_out rw rw' \<and> (again \<or> encoded rw' xs (code_size rw xs) buf')"
proof -
  let ?n = "code_size rw xs"
  have lk: "linked rw xs" and oks: "\<forall>p \<in> set xs. instr_ok rw (set (m_IL # xs)) p"
    using ok by (simp_all add: code_ok_def)
  have dist: "distinct xs" and fresh: "m_IL \<notin> set xs"
    using lk by (auto simp: linked_def)
  have n9: "?n \<le> 9 * length xs"
    using oks by (intro code_size_less) (simp add: instr_ok_def)
  obtain rw1 segs where emit: "fold_res (emit_instr maxSize) xs (rw, buf, 0, False) =
      Inr (rw1, concat segs @ drop ?n buf, ?n, \<exists>p \<in> set xs. branching (flags_of (opc rw p)))"
    and rel1: "relabelled (set xs) rw rw1" and offs1: "offsets_ok rw1 0 xs"
    and segs1: "list_all2 (first_seg rw) xs segs"
    using emit_all_ok [OF oks dist len, of 0 False] room by auto
  define rw2 where "rw2 = set_ins m_IL ((ins rw1 m_IL)\<lparr>m_offset := word_of_nat ?n\<rparr>) rw1"
  have v1: "valid_ref rw1 m_IL"
    using linked_valid [OF relabelled_linked [OF rel1 lk]] by simp
  have rel12: "relabelled {m_IL} rw1 rw2"
    unfolding rw2_def using v1 by (rule relabelled_set_offset)
  note rel = relabelled_trans [OF rel1 rel12]
  have lk2: "linked rw2 xs" and oks2: "\<forall>p \<in> set xs. instr_ok rw2 (set (m_IL # xs)) p"
    using relabelled_linked [OF rel lk] relabelled_instr_ok [OF rel] oks by simp_all
  have vs: "\<forall>p \<in> set xs. valid_ref rw p" "\<forall>p \<in> set xs. valid_ref rw1 p \<and> p \<notin> {m_IL}"
    using oks fresh relabelled_valid [OF rel1] by (auto simp: instr_ok_def)
  have sz: "code_size rw2 xs = ?n"
    using rel vs(1) by (rule code_size_relabelled)
  have "offsets_ok rw2 0 xs"
    using rel12 vs(2) offs1 by (rule offsets_ok_relabelled)
  then have offs2: "offsets_ok rw2 0 (xs @ [m_IL])"
    using v1 sz by (simp add: offsets_ok_append rw2_def)
  have segs2: "list_all2 (first_seg rw2) xs segs"
    using segs1 by (rule list.rel_mono_strong) (use vs(1) first_seg_relabelled [OF rel] in blast)
  have lens: "list_all2 (\<lambda>p seg. length seg = size_of (opc rw2 p)) xs segs"
    using segs2 by (rule list.rel_mono_strong) (simp add: first_seg_def)
  have lc: "length (concat segs) = ?n"
    using length_concat_segs [OF lens] sz by simp
  have br: "(\<exists>p \<in> set xs. branching (flags_of (opc rw p))) = (\<exists>p \<in> set xs. branching (flags_of (opc rw2 p)))"
    using vs(1) relabelled_fields(1) [OF rel] by simp
  have lay: "laid_out rw rw2"
    using rel by (rule relabelled_laid_out)
  have lb: "length (concat segs @ drop ?n buf) = maxSize"
    using lc len n9 room by simp
  have run: "export_pass maxSize buf rw =
      (if \<exists>p \<in> set xs. branching (flags_of (opc rw2 p))
       then and_then (fold_res fix_branch xs (rw2, concat segs @ drop ?n buf, 0, False))
              (\<lambda>(rw, buf, sb, again). Inr (again, ?n, buf, rw))
       else Inr (False, ?n, concat segs @ drop ?n buf, rw2))"
    unfolding export_pass_def il_list_linked [OF lk] emit and_then_Inr br
    using v1 by (simp add: rw2_def)
  have "code_size rw2 xs < 2 ^ 32"
    using sz n9 room small by simp
  from second_pass_ok [OF lk2 oks2 offs2 segs2 this, of "drop ?n buf" ?n]
  obtain again buf' rw' where "export_pass maxSize buf rw = Inr (again, ?n, buf', rw')"
    and "length buf' = maxSize" and "laid_out rw2 rw'" and "again \<or> encoded rw' xs ?n buf'"
    unfolding run sz lb by auto
  with laid_out_trans [OF lay] show ?thesis by blast
qed

lemma export_loop_ok:
  assumes "code_ok rw xs" and "length buf = maxSize" and "10 * length xs \<le> maxSize" and "maxSize < 2 ^ 32"
  shows "\<exists>off buf' rw'. export_loop maxSize buf rw = Inr (off, buf', rw')
    \<and> length buf' = maxSize \<and> laid_out rw rw' \<and> encoded rw' xs off buf'"
  using assms
proof (induction "short_branches rw" arbitrary: rw buf rule: less_induct)
  case less
  obtain again buf1 rw1 where pass: "export_pass maxSize buf rw = Inr (again, code_size rw xs, buf1, rw1)"
    and len: "length buf1 = maxSize" and lay: "laid_out rw rw1"
    and enc: "again \<or> encoded rw1 xs (code_size rw xs) buf1"
    using export_pass_ok [OF less.prems] by blast
  show ?case
  proof (cases again)
    case True
    have "short_branches rw1 < short_branches rw"
      using export_pass_again [of maxSize buf rw "code_size rw xs" buf1 rw1] pass True by simp
    then obtain off buf' rw' where "export_loop maxSize buf1 rw1 = Inr (off, buf', rw')"
      and "length buf' = maxSize" and "laid_out rw1 rw'" and "encoded rw' xs off buf'"
      using less.hyps [of rw1 buf1] laid_out_code_ok [OF lay] less.prems len by blast
    with True pass laid_out_trans [OF lay] show ?thesis
      by (subst export_loop.simps) auto
  next
    case False
    with pass len lay enc show ?thesis
      by (subst export_loop.simps) auto
  qed
qed

text \<open>
  Claim C5: the loop of the export that lengthens short branches ends for every well-formed
  instruction list, without a failed assertion and without a write outside the buffer of ten bytes per
  instruction. Afterwards every operand, link and branch target is the one before, only short branches
  were replaced by their long forms, every displacement of a short branch fits into a byte, and
  the produced bytes are the encodings of the instructions at the offsets recorded in them.
\<close>

theorem export_encodes:
  assumes "code_ok rw xs" and "length buf = maxSize" and "10 * length xs \<le> maxSize" and "maxSize < 2 ^ 32"
  shows "\<exists>off buf' rw'. export_loop maxSize buf rw = Inr (off, buf', rw')
    \<and> off \<le> maxSize \<and> laid_out rw rw' \<and> code_ok rw' xs
    \<and> offsets_ok rw' 0 (xs @ [m_IL]) \<and> (\<forall>p \<in> set xs. fits rw' p)
    \<and> take off buf' = concat (encode_list rw' 0 xs) \<and> off = code_size rw' xs"
proof -
  obtain off buf' rw' where run: "export_loop maxSize buf rw = Inr (off, buf', rw')"
    and lay: "laid_out rw rw'" and enc: "encoded rw' xs off buf'"
    using export_loop_ok [OF assms] by blast
  have ok: "code_ok rw' xs"
    using lay assms(1) by (rule laid_out_code_ok)
  then have "code_size rw' xs \<le> 9 * length xs"
    by (intro code_size_less) (simp add: code_ok_def instr_ok_def)
  with enc assms(3) have "off \<le> maxSize"
    by (simp add: encoded_def)
  with run lay enc ok show ?thesis
    by (auto simp: encoded_def)
qed

text \<open>A list of three instructions: a short branch over a \<^verbatim>\<open>nop\<close> to the final \<^verbatim>\<open>ret\<close>.\<close>

definition sample_il :: il_rewriter where
  "sample_il = new_rewriter\<lparr>instrs :=
     [\<lparr>m_pNext = 2, m_pPrev = 4, m_opcode = 2 ^ 32 - 1, m_offset = 0, m_arg = Arg 0\<rparr>,
      \<lparr>m_pNext = 3, m_pPrev = 1, m_opcode = CEE_BR_S, m_offset = 0, m_arg = Target 4\<rparr>,
      \<lparr>m_pNext = 4, m_pPrev = 2, m_opcode = CEE_NOP, m_offset = 0, m_arg = Arg 0\<rparr>,
      \<lparr>m_pNext = 1, m_pPrev = 3, m_opcode = CEE_RET, m_offset = 0, m_arg = Arg 0\<rparr>],
     m_nInstrs := 3\<rparr>"

lemma sample_il_ok: "code_ok sample_il [2, 3, 4]"
proof -
  have "flags_of 43 = 17" "flags_of 0 = 0" "flags_of 42 = 0"
    by (simp_all add: flags_of_table flags_table_def)
  then show ?thesis
    by (simp add: code_ok_def linked_def instr_ok_def sample_il_def ins_def valid_ref_def opcode_valid_def)
qed

theorem export_encodes_witness:
  "\<exists>off buf' rw'. export_loop 30 (replicate 30 0) sample_il = Inr (off, buf', rw')
    \<and> offsets_ok rw' 0 [2, 3, 4, 1] \<and> fits rw' 2
    \<and> take off buf' = concat (encode_list rw' 0 [2, 3, 4])"
proof -
  from export_encodes [OF sample_il_ok, of "replicate 30 0" 30]
  obtain off buf' rw' where "export_loop 30 (replicate 30 0) sample_il = Inr (off, buf', rw')"
    and "offsets_ok rw' 0 ([2, 3, 4] @ [m_IL])" and "\<forall>p \<in> set [2, 3, 4]. fits rw' p"
    and "take off buf' = concat (encode_list rw' 0 [2, 3, 4])"
    by auto
  then show ?thesis by (intro exI conjI) simp_all
qed

end
