(* ===== verification/Thread_Storage.thy ===== *)
theory Thread_Storage
  imports VPrelude
begin

section \<open>Per-thread storage of the coverage tool\<close>

text \<open>
  Models \<^verbatim>\<open>VSharp.CoverageInstrumenter/profiler/threadStorage.h\<close>: a \<^verbatim>\<open>std::map\<close> from
  thread identifiers to values, every method of which works on the entry of the calling thread.
  The calling thread is an argument of the operations, because \<^verbatim>\<open>ThreadInfo::getCurrentThread\<close>
  hashes the identity of the thread the call happens on. Each method holds
  \<^verbatim>\<open>innerStorageLock\<close> from its first to its last access, so a method is one step of the model.
  The build modelled is the one with \<^verbatim>\<open>_PROFILER_DEBUG\<close>: \<^verbatim>\<open>profiler_assert\<close> ends in
  \<open>Assert_failed\<close>.

  The locale \<open>thread_cells\<close> states what the clients rely on: a thread sees only its own entry. Its
  lemmas give the commutation of the accesses of different threads; the interpretation \<open>cells\<close>
  discharges the laws for the storage.
\<close>

named_theorems storage_simps \<open>lookups after the operations of a thread storage\<close>

type_synonym tid = u64    \<comment> \<open>\<^verbatim>\<open>ThreadID\<close> is \<^verbatim>\<open>UINT_PTR\<close>\<close>
type_synonym 'a thread_storage = "(tid \<times> 'a) list"

subsection \<open>The operations\<close>

definition ts_new :: "'a thread_storage" where
  "ts_new = []"

definition ts_exist :: "tid \<Rightarrow> 'a thread_storage \<Rightarrow> bool" where
  "ts_exist thread innerStorage \<longleftrightarrow> map_of innerStorage thread \<noteq> None"

definition ts_storeOrUpdate :: "tid \<Rightarrow> 'a \<Rightarrow> 'a thread_storage \<Rightarrow> 'a thread_storage" where
  "ts_storeOrUpdate thread data innerStorage = omap_put thread data innerStorage"

definition ts_store :: "tid \<Rightarrow> 'a \<Rightarrow> 'a thread_storage \<Rightarrow> 'a thread_storage res" where
  "ts_store thread data innerStorage =
     and_then (check (\<not> ts_exist thread innerStorage) Assert_failed) (\<lambda>_.
     Inr (omap_put thread data innerStorage))"

definition ts_load :: "tid \<Rightarrow> 'a thread_storage \<Rightarrow> 'a res" where
  "ts_load thread innerStorage = from_option Assert_failed (map_of innerStorage thread)"

definition ts_update ::
  "tid \<Rightarrow> ('a \<Rightarrow> 'a) \<Rightarrow> 'a thread_storage \<Rightarrow> ('a \<times> 'a thread_storage) res" where
  "ts_update thread f innerStorage =
     and_then (from_option Assert_failed (map_of innerStorage thread)) (\<lambda>old.
     let result = f old in Inr (result, omap_put thread result innerStorage))"

definition ts_size :: "'a thread_storage \<Rightarrow> nat" where
  "ts_size innerStorage = length innerStorage"

definition omap_erase :: "'k \<Rightarrow> ('k \<times> 'v) list \<Rightarrow> ('k \<times> 'v) list" where
  "omap_erase k m = filter (\<lambda>e. fst e \<noteq> k) m"

definition ts_remove :: "tid \<Rightarrow> 'a thread_storage \<Rightarrow> 'a thread_storage res" where
  "ts_remove thread innerStorage =
     and_then (check (ts_exist thread innerStorage) Assert_failed) (\<lambda>_.
     Inr (omap_erase thread innerStorage))"

definition ts_clear :: "'a thread_storage \<Rightarrow> 'a thread_storage" where
  "ts_clear innerStorage = []"

definition ts_items :: "'a thread_storage \<Rightarrow> (tid \<times> 'a) list" where
  "ts_items innerStorage = innerStorage"

subsection \<open>The map behind the storage\<close>

lemma omap_erase_lookup [simp]: "map_of (omap_erase k m) = (map_of m)(k := None)"
  by (induction m) (auto simp: omap_erase_def fun_eq_iff)

lemma omap_erase_wf: "omap_wf m \<Longrightarrow> omap_wf (omap_erase k m)"
proof (induction m)
  case (Cons e m)
  have "fst ` set (omap_erase k m) \<subseteq> fst ` set m"
    by (auto simp: omap_erase_def)
  with Cons show ?case
    by (auto simp: omap_wf_def omap_erase_def)
qed (simp add: omap_erase_def)

text \<open>A well-formed map is determined by its lookups.\<close>

lemma omap_wf_Cons:
  "omap_wf ((k, v) # m) \<longleftrightarrow> (\<forall>k' \<in> fst ` set m. k < k') \<and> omap_wf m"
  by (auto simp: omap_wf_def)

lemma omap_wf_lookup_first: "omap_wf ((k, v) # m) \<Longrightarrow> map_of m k = None"
  by (auto simp: omap_wf_Cons map_of_eq_None_iff)

lemma omap_ext: "omap_wf m \<Longrightarrow> omap_wf m' \<Longrightarrow> map_of m = map_of m' \<Longrightarrow> m = m'"
proof (induction m arbitrary: m')
  case Nil
  then show ?case by (cases m') (auto simp: fun_eq_iff split: if_splits)
next
  case (Cons e m)
  obtain k v where e: "e = (k, v)" by force
  from Cons.prems(3) e have "map_of m' k = Some v"
    by (metis map_of_Cons_code(2))
  then obtain k' v' n where m': "m' = (k', v') # n"
    by (cases m') auto
  have "\<not> k' < k"
  proof
    assume less: "k' < k"
    have "map_of (e # m) k' = Some v'"
      unfolding Cons.prems(3) m' by simp
    with less e have "k' \<in> fst ` set m"
      by (auto simp flip: dom_map_of_conv_image_fst split: if_splits)
    with Cons.prems(1) e less show False
      by (auto simp: omap_wf_Cons)
  qed
  moreover have "\<not> k < k'"
  proof
    assume less: "k < k'"
    with \<open>map_of m' k = Some v\<close> m' have "k \<in> fst ` set n"
      by (auto simp flip: dom_map_of_conv_image_fst split: if_splits)
    with Cons.prems(2) m' less show False
      by (auto simp: omap_wf_Cons)
  qed
  ultimately have k: "k' = k" by simp
  with \<open>map_of m' k = Some v\<close> m' have v: "v' = v" by simp
  have "map_of m = map_of n"
  proof
    fix x
    show "map_of m x = map_of n x"
      using Cons.prems e m' k v omap_wf_lookup_first [of k v m] omap_wf_lookup_first [of k v n]
      by (cases "x = k") (auto simp: fun_eq_iff split: if_splits)
  qed
  with Cons e m' k v show ?case
    by (simp add: omap_wf_Cons)
qed

lemma distinct_keys_of_wf: "omap_wf m \<Longrightarrow> distinct (map fst m)"
  unfolding omap_wf_def by (simp add: strict_sorted_iff)

subsection \<open>What the clients rely on\<close>

locale thread_cells =
  fixes lookup :: "'s \<Rightarrow> tid \<Rightarrow> 'v option"
    and put :: "tid \<Rightarrow> 'v \<Rightarrow> 's \<Rightarrow> 's"
    and erase :: "tid \<Rightarrow> 's \<Rightarrow> 's"
    and wf :: "'s \<Rightarrow> bool"
  assumes lookup_put: "wf s \<Longrightarrow> lookup (put t v s) = (lookup s)(t \<mapsto> v)"
    and lookup_erase: "wf s \<Longrightarrow> lookup (erase t s) = (lookup s)(t := None)"
    and wf_put: "wf s \<Longrightarrow> wf (put t v s)"
    and wf_erase: "wf s \<Longrightarrow> wf (erase t s)"
    and extensional: "wf s \<Longrightarrow> wf s' \<Longrightarrow> lookup s = lookup s' \<Longrightarrow> s = s'"
begin

text \<open>The accesses of different threads commute, so their order does not matter.\<close>

lemma put_put_commute:
  assumes "wf s" and "t \<noteq> t'"
  shows "put t v (put t' v' s) = put t' v' (put t v s)"
  using assms by (intro extensional) (simp_all add: wf_put lookup_put fun_upd_twist)

lemma put_erase_commute:
  assumes "wf s" and "t \<noteq> t'"
  shows "put t v (erase t' s) = erase t' (put t v s)"
  using assms
  by (intro extensional) (simp_all add: wf_put wf_erase lookup_put lookup_erase fun_upd_twist)

lemma erase_erase_commute:
  assumes "wf s" and "t \<noteq> t'"
  shows "erase t (erase t' s) = erase t' (erase t s)"
  using assms by (intro extensional) (simp_all add: wf_erase lookup_erase fun_upd_twist)

lemma erase_put:
  assumes "wf s" and "lookup s t = None"
  shows "erase t (put t v s) = s"
  using assms
  by (intro extensional) (auto simp: wf_put wf_erase lookup_put lookup_erase fun_eq_iff)

lemma put_put_same:
  assumes "wf s"
  shows "put t v (put t v' s) = put t v s"
  using assms by (intro extensional) (simp_all add: wf_put lookup_put)

end

interpretation cells: thread_cells map_of omap_put omap_erase omap_wf
  by unfold_locales
    (simp_all add: omap_put_lookup omap_put_wf omap_erase_wf omap_ext)

lemmas [storage_simps] = cells.lookup_put cells.lookup_erase cells.wf_put cells.wf_erase

lemma ts_new_wf [simp]: "omap_wf ts_new"
  by (simp add: ts_new_def omap_wf_def)

lemma ts_clear_simps [simp]: "omap_wf (ts_clear s)" "map_of (ts_clear s) = Map.empty"
  by (simp_all add: ts_clear_def omap_wf_def)

subsection \<open>The operations in terms of the map\<close>

lemma ts_store_eq_Inr_iff:
  "ts_store t d s = Inr s' \<longleftrightarrow> map_of s t = None \<and> s' = omap_put t d s"
  by (auto simp: ts_store_def ts_exist_def check_def)

lemma ts_load_eq_Inr_iff [simp]: "ts_load t s = Inr d \<longleftrightarrow> map_of s t = Some d"
  by (simp add: ts_load_def)

lemma ts_update_eq_Inr_iff:
  "ts_update t f s = Inr (r, s') \<longleftrightarrow>
     (\<exists>d. map_of s t = Some d \<and> r = f d \<and> s' = omap_put t (f d) s)"
  by (auto simp: ts_update_def Let_def res_simps)

lemma ts_remove_eq_Inr_iff:
  "ts_remove t s = Inr s' \<longleftrightarrow> map_of s t \<noteq> None \<and> s' = omap_erase t s"
  by (auto simp: ts_remove_def ts_exist_def check_def)

lemma ts_ops_at:
  "map_of s t = None \<Longrightarrow> ts_store t d s = Inr (omap_put t d s)"
  "map_of s t = Some e \<Longrightarrow> ts_store t d s = Inl Assert_failed"
  "map_of s t = Some d \<Longrightarrow> ts_load t s = Inr d"
  "map_of s t = None \<Longrightarrow> ts_load t s = Inl Assert_failed"
  "map_of s t = Some d \<Longrightarrow> ts_update t f s = Inr (f d, omap_put t (f d) s)"
  "map_of s t = None \<Longrightarrow> ts_update t f s = Inl Assert_failed"
  "map_of s t = Some d \<Longrightarrow> ts_remove t s = Inr (omap_erase t s)"
  "map_of s t = None \<Longrightarrow> ts_remove t s = Inl Assert_failed"
  by (simp_all add: ts_store_def ts_load_def ts_update_def ts_remove_def ts_exist_def Let_def)

end
