(* ===== verification/IL_Rewriter.thy ===== *)
theory IL_Rewriter
  imports IL_Layout Thread_Storage
begin

section \<open>Inserting the coverage probes\<close>

text \<open>
  The second half of \<^verbatim>\<open>ILRewriter.cpp\<close>: the calls of probes that \<^verbatim>\<open>RewriteIL\<close> weaves into
  the instruction list, and the probe table of \<^verbatim>\<open>probes.cpp\<close> it takes addresses and signatures from.

  The loop over the instructions is \<open>scan_loop\<close>, a walk along the pointers with the number
  of instructions as fuel; \<open>scan_step\<close> is its body. The insertions it collects are carried out by
  \<open>insert_priority\<close> and \<open>insert_target\<close>. The build has 64-bit pointers, so \<^verbatim>\<open>CEE_LDC_I\<close> is
  \<^verbatim>\<open>CEE_LDC_I8\<close>. Every helper of the code that returns a result code returns \<^verbatim>\<open>S_OK\<close>; the
  code is left out of their results here.
\<close>

subsection \<open>The table of probes\<close>

record probe_call =
  pc_addr :: u64
  threadMapping :: "u32 thread_storage"

definition newProbeCall :: "u64 \<Rightarrow> probe_call" where
  "newProbeCall methodAddr = \<lparr>pc_addr = methodAddr, threadMapping = []\<rparr>"

definition getSig :: "tid \<Rightarrow> probe_call \<Rightarrow> u32" where
  "getSig t p = (case map_of (threadMapping p) t of None \<Rightarrow> 0 | Some sig \<Rightarrow> sig)"

definition setSig :: "tid \<Rightarrow> u32 \<Rightarrow> probe_call \<Rightarrow> probe_call" where
  "setSig t sig p = p\<lparr>threadMapping := omap_put t sig (threadMapping p)\<rparr>"

datatype probe_fun =
  F_Track_Coverage | F_Track_Stsfld | F_Branch | F_Track_Enter | F_Track_EnterMain | F_Track_Leave
| F_Track_LeaveMain | F_Finalize_Call | F_Track_Call | F_Track_Tailcall | F_Track_Throw

record coverage_probes =
  cp_Coverage :: probe_call
  cp_Stsfld :: probe_call
  cp_Branch :: probe_call
  cp_Enter :: probe_call
  cp_EnterMain :: probe_call
  cp_Leave :: probe_call
  cp_LeaveMain :: probe_call
  cp_Finalize_Call :: probe_call
  cp_Call :: probe_call
  cp_Tailcall :: probe_call
  cp_Throw :: probe_call

text \<open>The addresses of the probe functions are chosen by the linker: an argument.\<close>

definition InitializeProbes :: "(probe_fun \<Rightarrow> u64) \<Rightarrow> coverage_probes" where
  "InitializeProbes address =
     \<lparr>cp_Coverage = newProbeCall (address F_Track_Coverage),
      cp_Stsfld = newProbeCall (address F_Track_Stsfld),
      cp_Branch = newProbeCall (address F_Branch),
      cp_Enter = newProbeCall (address F_Track_Enter),
      cp_EnterMain = newProbeCall (address F_Track_EnterMain),
      cp_Leave = newProbeCall (address F_Track_Leave),
      cp_LeaveMain = newProbeCall (address F_Track_LeaveMain),
      cp_Finalize_Call = newProbeCall (address F_Finalize_Call),
      cp_Call = newProbeCall (address F_Track_Call),
      cp_Tailcall = newProbeCall (address F_Track_Tailcall),
      cp_Throw = newProbeCall (address F_Track_Throw)\<rparr>"

subsection \<open>Inserting calls\<close>

definition insert_new_before :: "ref \<Rightarrow> nat \<Rightarrow> il_arg \<Rightarrow> il_rewriter \<Rightarrow> (ref \<times> il_rewriter) res" where
  "insert_new_before pWhere opcode arg rw =
     and_then (new_instr_with opcode arg rw) (\<lambda>(p, rw).
     and_then (InsertBefore pWhere p rw) (\<lambda>rw. Inr (p, rw)))"

definition insert_new_after :: "ref \<Rightarrow> nat \<Rightarrow> il_arg \<Rightarrow> il_rewriter \<Rightarrow> (ref \<times> il_rewriter) res" where
  "insert_new_after pWhere opcode arg rw =
     and_then (new_instr_with opcode arg rw) (\<lambda>(p, rw).
     and_then (InsertAfter pWhere p rw) (\<lambda>rw. Inr (p, rw)))"

definition AddProbe :: "u64 \<Rightarrow> u32 \<Rightarrow> ref \<Rightarrow> il_rewriter \<Rightarrow> il_rewriter res" where
  "AddProbe methodAddress methodSignature pWhere rw =
     and_then (insert_new_before pWhere CEE_LDC_I8 (Arg methodAddress) rw) (\<lambda>(_, rw).
     and_then (insert_new_before pWhere CEE_CALLI (Arg (ucast methodSignature)) rw) (\<lambda>(_, rw).
     Inr rw))"

definition AddProbeAfter :: "u64 \<Rightarrow> u32 \<Rightarrow> ref \<Rightarrow> il_rewriter \<Rightarrow> il_rewriter res" where
  "AddProbeAfter methodAddress methodSignature pWhere rw =
     and_then (insert_new_after pWhere CEE_CALLI (Arg (ucast methodSignature)) rw) (\<lambda>(_, rw).
     and_then (insert_new_after pWhere CEE_LDC_I8 (Arg methodAddress) rw) (\<lambda>(_, rw).
     Inr rw))"

definition AddLDCInstrBefore :: "ref \<Rightarrow> u32 \<Rightarrow> il_rewriter \<Rightarrow> (ref \<times> il_rewriter) res" where
  "AddLDCInstrBefore pInstr arg rw = insert_new_before pInstr CEE_LDC_I4 (Arg (ucast arg)) rw"

definition AddEnterProbe :: "u64 \<Rightarrow> u32 \<Rightarrow> u32 \<Rightarrow> il_rewriter \<Rightarrow> il_rewriter res" where
  "AddEnterProbe methodAddress methodSignature methodId rw =
     and_then (instr_at m_IL rw) (\<lambda>i.
     let pFirstOriginalInstr = m_pNext i in
     and_then (instr_at pFirstOriginalInstr rw) (\<lambda>i.
     and_then (insert_new_before pFirstOriginalInstr CEE_LDC_I4 (Arg (ucast (m_offset i))) rw) (\<lambda>(_, rw).
     and_then (insert_new_before pFirstOriginalInstr CEE_LDC_I4 (Arg (ucast methodId)) rw) (\<lambda>(_, rw).
     and_then (insert_new_before pFirstOriginalInstr CEE_LDC_I4_0 (Arg 0) rw) (\<lambda>(_, rw).
     AddProbe methodAddress methodSignature pFirstOriginalInstr rw)))))"

definition count_offset :: "ref \<Rightarrow> il_rewriter \<times> nat \<Rightarrow> (il_rewriter \<times> nat) res" where
  "count_offset p s =
     (let (rw, offset) = s in
      and_then (update_instr p (\<lambda>i. i\<lparr>m_offset := word_of_nat offset\<rparr>) rw) (\<lambda>rw.
      and_then (instr_at p rw) (\<lambda>i.
      let offset = (if m_opcode i < CEE_COUNT
                    then (if 256 \<le> m_opcode i then offset + 2 else offset + 1) else offset) in
      and_then (s_OpCodeFlags (m_opcode i)) (\<lambda>flags.
      Inr (rw, offset + (if flags = 32 then 4 else 0) + flags_size flags)))))"

definition countOffsets :: "il_rewriter \<Rightarrow> il_rewriter res" where
  "countOffsets rw =
     and_then (il_list rw) (\<lambda>ps.
     and_then (fold_res count_offset ps (rw, 0)) (\<lambda>(rw, _). Inr rw))"

definition IsTailcallRet :: "ref \<Rightarrow> il_rewriter \<Rightarrow> bool res" where
  "IsTailcallRet pInstr rw =
     and_then (instr_at pInstr rw) (\<lambda>i.
     if m_opcode i = CEE_RET
     then and_then (instr_at (m_pPrev i) rw) (\<lambda>i.
          and_then (instr_at (m_pPrev i) rw) (\<lambda>i. Inr (m_opcode i = CEE_TAILCALL)))
     else Inr False)"

definition IsPrefix :: "nat \<Rightarrow> bool" where
  "IsPrefix opcode \<longleftrightarrow>
     opcode = CEE_TAILCALL \<or> opcode = CEE_UNALIGNED \<or> opcode = CEE_VOLATILE
     \<or> opcode = CEE_READONLY \<or> opcode = CEE_CONSTRAINED"

definition CorrectHandlers :: "ref \<Rightarrow> ref \<Rightarrow> il_rewriter \<Rightarrow> il_rewriter" where
  "CorrectHandlers pInstr pNewInstr rw =
     rw\<lparr>m_pEH := map (\<lambda>c. if m_pHandlerEnd c = pInstr then c\<lparr>m_pHandlerEnd := pNewInstr\<rparr> else c)
                    (m_pEH rw)\<rparr>"

text \<open>The call of a probe with an offset and a method id, in front of an instruction.\<close>

definition add_probe_call ::
  "tid \<Rightarrow> probe_call \<Rightarrow> u32 \<Rightarrow> u32 \<Rightarrow> ref \<Rightarrow> il_rewriter \<Rightarrow> il_rewriter res" where
  "add_probe_call t probe offset methodId pWhere rw =
     and_then (AddLDCInstrBefore pWhere offset rw) (\<lambda>(_, rw).
     and_then (AddLDCInstrBefore pWhere methodId rw) (\<lambda>(_, rw).
     AddProbe (pc_addr probe) (getSig t probe) pWhere rw))"

definition AddCoverageProbeAfter ::
  "tid \<Rightarrow> probe_call \<Rightarrow> u32 \<Rightarrow> ref \<Rightarrow> il_rewriter \<Rightarrow> (ref \<times> il_rewriter) res" where
  "AddCoverageProbeAfter t probe methodId pInstr rw =
     and_then (insert_new_after pInstr CEE_NOP (Arg 0) rw) (\<lambda>(pNewInstr, rw).
     and_then (instr_at pInstr rw) (\<lambda>i.
     and_then (add_probe_call t probe (m_offset i) methodId pNewInstr rw) (\<lambda>rw.
     Inr (pNewInstr, CorrectHandlers pInstr pNewInstr rw))))"

definition AddCoverageProbeBefore ::
  "tid \<Rightarrow> probe_call \<Rightarrow> u32 \<Rightarrow> ref \<Rightarrow> il_rewriter \<Rightarrow> (ref \<times> il_rewriter) res" where
  "AddCoverageProbeBefore t probe methodId pInstr rw =
     and_then (instr_at pInstr rw) (\<lambda>i.
     and_then (insert_new_after pInstr (m_opcode i) (m_arg i) rw) (\<lambda>(pNewInstr, rw).
     and_then (update_instr pInstr (\<lambda>i. i\<lparr>m_opcode := CEE_NOP\<rparr>) rw) (\<lambda>rw.
     and_then (add_probe_call t probe (m_offset i) methodId pNewInstr rw) (\<lambda>rw.
     Inr (pNewInstr, CorrectHandlers pInstr pNewInstr rw)))))"

record probe_insertion =
  pi_target :: ref
  pi_parent :: ref
  pi_probe :: probe_call
  pi_isBeforeInstr :: bool

definition MakeProbeInsertion ::
  "tid \<Rightarrow> u32 \<Rightarrow> probe_insertion \<Rightarrow> il_rewriter \<Rightarrow> il_rewriter res" where
  "MakeProbeInsertion t methodId toInsert rw =
     and_then (if pi_isBeforeInstr toInsert
               then AddCoverageProbeBefore t (pi_probe toInsert) methodId (pi_target toInsert) rw
               else AddCoverageProbeAfter t (pi_probe toInsert) methodId (pi_target toInsert) rw)
       (\<lambda>(_, rw). Inr rw)"

definition OpcodeIsBranch :: "nat \<Rightarrow> bool" where
  "OpcodeIsBranch opcode \<longleftrightarrow>
     (CEE_BR_S \<le> opcode \<and> opcode \<le> CEE_SWITCH) \<or> opcode = CEE_LEAVE \<or> opcode = CEE_LEAVE_S"

text \<open>The loop of \<^verbatim>\<open>AddExitProbe\<close>; nothing calls this function.\<close>

fun exit_loop ::
  "nat \<Rightarrow> tid \<Rightarrow> coverage_probes \<Rightarrow> u32 \<Rightarrow> ref \<Rightarrow> bool \<Rightarrow> il_rewriter \<Rightarrow> il_rewriter res" where
  "exit_loop 0 t covProb methodId pInstr isTailCall rw =
     (if pInstr = m_IL then Inr rw else Inl Not_terminating)"
| "exit_loop (Suc n) t covProb methodId pInstr isTailCall rw =
     (if pInstr = m_IL then Inr rw
      else and_then (instr_at pInstr rw) (\<lambda>i.
           and_then
             (if m_opcode i = CEE_TAILCALL
              then and_then (AddCoverageProbeBefore t (cp_Tailcall covProb) methodId pInstr rw)
                     (\<lambda>(p, rw). Inr (p, True, rw))
              else if m_opcode i = CEE_RET
              then (if isTailCall then Inr (pInstr, False, rw)
                    else and_then (AddCoverageProbeBefore t (cp_Leave covProb) methodId pInstr rw)
                           (\<lambda>(p, rw). Inr (p, isTailCall, rw)))
              else Inr (pInstr, isTailCall, rw)) (\<lambda>(p, isTailCall, rw).
           and_then (instr_at p rw) (\<lambda>i.
           exit_loop n t covProb methodId (m_pNext i) isTailCall rw))))"

definition AddExitProbe :: "tid \<Rightarrow> coverage_probes \<Rightarrow> u32 \<Rightarrow> il_rewriter \<Rightarrow> il_rewriter res" where
  "AddExitProbe t covProb methodId rw =
     and_then (instr_at m_IL rw) (\<lambda>i.
     exit_loop (length (instrs rw)) t covProb methodId (m_pNext i) False rw)"

subsection \<open>Where probes go\<close>

record scan_state =
  sc_rw :: il_rewriter
  sc_isTailCall :: bool
  addPriorityProbe :: "probe_insertion list"
  addTargetProbe :: "probe_insertion list"

abbreviation (input) PIBeforeInstr :: bool where "PIBeforeInstr \<equiv> True"
abbreviation (input) PIAfterInstr :: bool where "PIAfterInstr \<equiv> False"

definition push_priority :: "ref \<Rightarrow> probe_call \<Rightarrow> bool \<Rightarrow> scan_state \<Rightarrow> scan_state" where
  "push_priority target probe isBefore s =
     s\<lparr>addPriorityProbe := addPriorityProbe s @
        [\<lparr>pi_target = target, pi_parent = null, pi_probe = probe, pi_isBeforeInstr = isBefore\<rparr>]\<rparr>"

definition push_target :: "ref \<Rightarrow> ref \<Rightarrow> probe_call \<Rightarrow> scan_state \<Rightarrow> scan_state" where
  "push_target target parent probe s =
     s\<lparr>addTargetProbe := addTargetProbe s @
        [\<lparr>pi_target = target, pi_parent = parent, pi_probe = probe, pi_isBeforeInstr = PIAfterInstr\<rparr>]\<rparr>"

text \<open>The target point of a branch: the instruction in front of its target.\<close>

definition before_target :: "il_instr \<Rightarrow> il_rewriter \<Rightarrow> ref res" where
  "before_target i rw = and_then (target_of i) (\<lambda>t. and_then (instr_at t rw) (\<lambda>it. Inr (m_pPrev it)))"

fun push_switch_targets ::
  "nat \<Rightarrow> coverage_probes \<Rightarrow> ref \<Rightarrow> ref \<Rightarrow> scan_state \<Rightarrow> scan_state res" where
  "push_switch_targets 0 covProb curSwitchArg pInstr s = Inr s"
| "push_switch_targets (Suc n) covProb curSwitchArg pInstr s =
     and_then (instr_at curSwitchArg (sc_rw s)) (\<lambda>i.
     and_then (check (m_opcode i = CEE_SWITCH_ARG) Assert_failed) (\<lambda>_.
     and_then (before_target i (sc_rw s)) (\<lambda>b.
     push_switch_targets n covProb (m_pNext i) pInstr (push_target b pInstr (cp_Coverage covProb) s))))"

definition scan_branch :: "coverage_probes \<Rightarrow> ref \<Rightarrow> il_instr \<Rightarrow> scan_state \<Rightarrow> scan_state res" where
  "scan_branch covProb pInstr i s =
     (let s = push_priority pInstr (cp_Branch covProb) PIBeforeInstr s in
      if m_opcode i = CEE_SWITCH
      then and_then (arg_of i) (\<lambda>w.
           push_switch_targets (nat (sint (ucast w :: u32))) covProb (m_pNext i) pInstr s)
      else and_then (before_target i (sc_rw s)) (\<lambda>b.
           Inr (push_target b pInstr (cp_Coverage covProb) s)))"

definition scan_tailcall :: "coverage_probes \<Rightarrow> ref \<Rightarrow> scan_state \<Rightarrow> (ref \<times> scan_state) res" where
  "scan_tailcall covProb pInstr s =
     and_then (new_instr_with CEE_TAILCALL (Arg 0) (sc_rw s)) (\<lambda>(newTailcall, rw).
     and_then (update_instr pInstr (\<lambda>i. i\<lparr>m_opcode := CEE_NOP\<rparr>) rw) (\<lambda>rw.
     and_then (InsertAfter pInstr newTailcall rw) (\<lambda>rw.
     and_then (instr_at newTailcall rw) (\<lambda>i.
     and_then (instr_at (m_pNext i) rw) (\<lambda>next1.
     and_then (update_instr newTailcall (\<lambda>i. i\<lparr>m_offset := m_offset next1\<rparr>) rw) (\<lambda>rw.
     and_then (instr_at (m_pNext next1) rw) (\<lambda>next2.
     and_then (update_instr pInstr (\<lambda>i. i\<lparr>m_offset := m_offset next2\<rparr>) rw) (\<lambda>rw.
     Inr (newTailcall,
          push_priority pInstr (cp_Coverage covProb) PIBeforeInstr
            (push_priority newTailcall (cp_Tailcall covProb) PIBeforeInstr
              (s\<lparr>sc_rw := rw, sc_isTailCall := True\<rparr>)))))))))))"

definition scan_step ::
  "coverage_probes \<Rightarrow> probe_call \<Rightarrow> ref \<Rightarrow> scan_state \<Rightarrow> (ref \<times> scan_state) res" where
  "scan_step covProb leaveMethod pInstr s =
     and_then (instr_at pInstr (sc_rw s)) (\<lambda>i.
     let opcode = m_opcode i in
     if OpcodeIsBranch opcode
     then and_then (scan_branch covProb pInstr i s) (\<lambda>s. Inr (pInstr, s))
     else if opcode = CEE_STSFLD
     then and_then (instr_at (m_pPrev i) (sc_rw s)) (\<lambda>prev.
          let instr = (if IsPrefix (m_opcode prev) then m_pPrev i else pInstr) in
          Inr (pInstr, push_priority instr (cp_Stsfld covProb) PIBeforeInstr s))
     else if opcode = CEE_TAILCALL then scan_tailcall covProb pInstr s
     else if opcode \<in> {CEE_CALL, CEE_CALLI, CEE_CALLVIRT, CEE_NEWOBJ}
     then Inr (pInstr, if sc_isTailCall s then s
                       else push_priority pInstr (cp_Call covProb) PIAfterInstr s)
     else if opcode = CEE_RET
     then Inr (pInstr, if sc_isTailCall s then s\<lparr>sc_isTailCall := False\<rparr>
                       else push_priority pInstr leaveMethod PIBeforeInstr s)
     else if opcode \<in> {CEE_ENDFINALLY, CEE_ENDFILTER}
     then Inr (pInstr, push_priority pInstr (cp_Coverage covProb) PIBeforeInstr s)
     else if opcode \<in> {CEE_THROW, CEE_RETHROW}
     then Inr (pInstr, push_priority pInstr (cp_Throw covProb) PIBeforeInstr s)
     else Inr (pInstr, s))"

fun scan_loop ::
  "nat \<Rightarrow> coverage_probes \<Rightarrow> probe_call \<Rightarrow> ref \<Rightarrow> scan_state \<Rightarrow> scan_state res" where
  "scan_loop 0 covProb leaveMethod pInstr s =
     (if pInstr = m_IL then Inr s else Inl Not_terminating)"
| "scan_loop (Suc n) covProb leaveMethod pInstr s =
     (if pInstr = m_IL then Inr s
      else and_then (scan_step covProb leaveMethod pInstr s) (\<lambda>(p, s).
           and_then (instr_at p (sc_rw s)) (\<lambda>i.
           scan_loop n covProb leaveMethod (m_pNext i) s)))"

definition push_handlers :: "coverage_probes \<Rightarrow> scan_state \<Rightarrow> scan_state" where
  "push_handlers covProb s =
     fold (\<lambda>c. push_priority (m_pHandlerBegin c) (cp_Throw covProb) PIBeforeInstr) (m_pEH (sc_rw s)) s"

definition scan :: "coverage_probes \<Rightarrow> probe_call \<Rightarrow> il_rewriter \<Rightarrow> scan_state res" where
  "scan covProb leaveMethod rw =
     and_then (instr_at m_IL rw) (\<lambda>i.
     and_then (scan_loop (length (instrs rw)) covProb leaveMethod (m_pNext i)
                 \<lparr>sc_rw = rw, sc_isTailCall = False, addPriorityProbe = [], addTargetProbe = []\<rparr>) (\<lambda>s.
     Inr (push_handlers covProb s)))"

subsection \<open>Carrying out the insertions\<close>

type_synonym insert_state = "il_rewriter \<times> u32 set"

definition insert_priority ::
  "tid \<Rightarrow> u32 \<Rightarrow> probe_insertion \<Rightarrow> insert_state \<Rightarrow> insert_state res" where
  "insert_priority t methodId insertion s =
     (let (rw, coveredInstructions) = s in
      and_then (MakeProbeInsertion t methodId insertion rw) (\<lambda>rw.
      and_then (instr_at (pi_target insertion) rw) (\<lambda>i.
      Inr (rw, insert (m_offset i) coveredInstructions))))"

text \<open>The treatment of a target that is a \<^verbatim>\<open>ret\<close> under a tail call.\<close>

definition insert_ret_target ::
  "tid \<Rightarrow> probe_call \<Rightarrow> u32 \<Rightarrow> ref \<Rightarrow> u32 \<Rightarrow> il_rewriter \<Rightarrow> il_rewriter res" where
  "insert_ret_target t leaveMethod methodId branch targetOffset rw =
     and_then (insert_new_after branch CEE_RET (Arg 0) rw) (\<lambda>(pNewRet, rw).
     and_then (AddLDCInstrBefore pNewRet targetOffset rw) (\<lambda>(probeStart, rw).
     and_then (AddLDCInstrBefore pNewRet methodId rw) (\<lambda>(_, rw).
     and_then (AddProbe (pc_addr leaveMethod) (getSig t leaveMethod) pNewRet rw) (\<lambda>rw.
     and_then (update_instr branch (\<lambda>i. i\<lparr>m_arg := Target probeStart\<rparr>) rw) (\<lambda>rw.
     and_then (instr_at branch rw) (\<lambda>i.
     if m_opcode i = CEE_BR \<or> m_opcode i = CEE_BR_S then Inr rw
     else and_then (instr_at pNewRet rw) (\<lambda>r.
          and_then (insert_new_after branch CEE_BR (Target (m_pNext r)) rw) (\<lambda>(_, rw).
          Inr rw))))))))"

definition insert_target ::
  "tid \<Rightarrow> probe_call \<Rightarrow> u32 \<Rightarrow> probe_insertion \<Rightarrow> insert_state \<Rightarrow> insert_state res" where
  "insert_target t leaveMethod methodId insertion s =
     (let (rw, coveredInstructions) = s; target = pi_target insertion in
      if target = m_IL then Inr s
      else and_then (instr_at target rw) (\<lambda>i.
           if m_offset i \<in> coveredInstructions then Inr s
           else let coveredInstructions = insert (m_offset i) coveredInstructions in
                and_then (IsTailcallRet (m_pNext i) rw) (\<lambda>tailcallRet.
                if \<not> tailcallRet
                then and_then (AddCoverageProbeAfter t (pi_probe insertion) methodId target rw) (\<lambda>(_, rw).
                     Inr (rw, coveredInstructions))
                else and_then (insert_ret_target t leaveMethod methodId (pi_parent insertion) (m_offset i) rw)
                       (\<lambda>rw. Inr (rw, coveredInstructions)))))"

text \<open>Everything \<^verbatim>\<open>RewriteIL\<close> does between the import and the export.\<close>

definition instrument_code ::
  "tid \<Rightarrow> coverage_probes \<Rightarrow> u32 \<Rightarrow> bool \<Rightarrow> il_rewriter \<Rightarrow> il_rewriter res" where
  "instrument_code t covProb methodId isMain rw =
     (let enterMethod = (if isMain then cp_EnterMain covProb else cp_Enter covProb);
          leaveMethod = (if isMain then cp_LeaveMain covProb else cp_Leave covProb) in
      and_then (countOffsets rw) (\<lambda>rw.
      and_then (scan covProb leaveMethod rw) (\<lambda>s.
      and_then (fold_res (insert_priority t methodId) (addPriorityProbe s) (sc_rw s, {})) (\<lambda>is.
      and_then (fold_res (insert_target t leaveMethod methodId) (addTargetProbe s) is) (\<lambda>(rw, _).
      AddEnterProbe (pc_addr enterMethod) (getSig t enterMethod) methodId rw)))))"

definition RewriteIL ::
  "il_host \<Rightarrow> (nat \<Rightarrow> byte) \<Rightarrow> tid \<Rightarrow> coverage_probes \<Rightarrow> hresult + il_method \<Rightarrow> u32 \<Rightarrow> bool
    \<Rightarrow> (hresult \<times> byte list option) res" where
  "RewriteIL host fresh t covProb functionBody methodId isMain =
     (case functionBody of
        Inl hr \<Rightarrow> Inr (hr, None)
      | Inr m \<Rightarrow>
          and_then (Import m new_rewriter) (\<lambda>rw.
          and_then (instrument_code t covProb methodId isMain rw) (\<lambda>rw.
          Export host fresh rw)))"

end
