(* ===== verification/IL_Weave.thy ===== *)
theory IL_Weave
  imports IL_Rewriter "HOL-Library.Sublist"
begin

section \<open>What the instrumentation does to a method\<close>

text \<open>
  Effects of the insertions of \<open>IL_Rewriter\<close> on the sequence of instructions: which instructions
  appear where, and that nothing else changes. \<open>grown\<close> relates states before and after the
  creation of instructions.
\<close>

named_theorems grow_simps \<open>contents of instructions after insertions\<close>

subsection \<open>New instructions\<close>

definition frame :: "il_rewriter \<Rightarrow> il_rewriter" where
  "frame rw = rw\<lparr>instrs := [], m_maxStack := 0, m_nInstrs := 0\<rparr>"

definition counted :: "il_rewriter \<Rightarrow> bool" where
  "counted rw \<longleftrightarrow> m_nInstrs rw + 1 = word_of_nat (length (instrs rw))"

definition grown :: "il_rewriter \<Rightarrow> payload list \<Rightarrow> il_rewriter \<Rightarrow> bool" where
  "grown rw ws rw' \<longleftrightarrow>
     length (instrs rw') = length (instrs rw) + length ws
     \<and> (\<forall>p. valid_ref rw p \<longrightarrow> payload rw' p = payload rw p)
     \<and> (\<forall>k < length ws. payload rw' (length (instrs rw) + Suc k) = ws ! k)
     \<and> frame rw' = frame rw \<and> m_nInstrs rw' = m_nInstrs rw + word_of_nat (length ws)"

lemma grown_refl: "grown rw [] rw"
  by (simp add: grown_def)

lemma grown_valid: "grown rw ws rw' \<Longrightarrow> valid_ref rw p \<Longrightarrow> valid_ref rw' p"
  by (simp add: grown_def valid_ref_def)

lemma grown_old: "grown rw ws rw' \<Longrightarrow> valid_ref rw p \<Longrightarrow> payload rw' p = payload rw p"
  by (simp add: grown_def)

lemma grown_counted: "grown rw ws rw' \<Longrightarrow> counted rw \<Longrightarrow> counted rw'"
  by (simp add: grown_def counted_def ac_simps)

lemma grown_trans:
  assumes "grown rw us rw'" and "grown rw' vs rw''"
  shows "grown rw (us @ vs) rw''"
proof -
  let ?n = "length (instrs rw)"
  have len: "length (instrs rw') = ?n + length us" "length (instrs rw'') = ?n + length us + length vs"
    using assms by (simp_all add: grown_def)
  have new: "payload rw'' (?n + Suc k) = (us @ vs) ! k" if k: "k < length (us @ vs)" for k
  proof (cases "k < length us")
    case True
    then have "valid_ref rw' (?n + Suc k)"
      using len by (simp add: valid_ref_def)
    with True assms show ?thesis
      by (simp add: grown_def nth_append)
  next
    case False
    then obtain j where j: "k = length us + j"
      by (metis add_diff_inverse)
    then have "j < length vs" using k by simp
    then have "payload rw'' (length (instrs rw') + Suc j) = vs ! j"
      using assms(2) by (simp add: grown_def)
    moreover have "length (instrs rw') + Suc j = ?n + Suc k"
      using len(1) j by simp
    ultimately show ?thesis
      using j by (simp add: nth_append add.assoc)
  qed
  have old: "payload rw'' p = payload rw p" if "valid_ref rw p" for p
    using grown_old [OF assms(1) that] grown_old [OF assms(2) grown_valid [OF assms(1) that]] by simp
  show ?thesis
    unfolding grown_def using len new old assms by (simp add: grown_def)
qed

lemma ins_NewILInstr:
  "valid_ref rw p \<Longrightarrow> ins (snd (NewILInstr rw)) p = ins rw p"
  by (auto simp: NewILInstr_def ins_def valid_ref_def nth_append)

lemma new_instr_with_ok:
  assumes "linked rw xs"
  shows "\<exists>rw'. new_instr_with opcode arg rw = Inr (length (instrs rw) + 1, rw')
    \<and> linked rw' xs \<and> grown rw [(opcode, 0, arg)] rw'"
proof -
  let ?n = "length (instrs rw) + 1" and ?rw = "snd (NewILInstr rw)"
  let ?i = "(ins ?rw ?n)\<lparr>m_opcode := opcode, m_arg := arg\<rparr>"
  let ?rw' = "set_ins ?n ?i ?rw"
  have v: "valid_ref ?rw ?n"
    by (simp add: NewILInstr_def valid_ref_def)
  have run: "new_instr_with opcode arg rw = Inr (?n, ?rw')"
    using v by (simp add: new_instr_with_def NewILInstr_def)
  have old: "ins ?rw' p = ins rw p" if "valid_ref rw p" for p
  proof -
    have "valid_ref ?rw p" and "p \<noteq> ?n"
      using that by (auto simp: NewILInstr_def valid_ref_def)
    with v ins_NewILInstr [OF that] show ?thesis by simp
  qed
  have len: "length (instrs ?rw') = length (instrs rw) + 1"
    by (simp add: NewILInstr_def)
  have "linked ?rw' xs"
    using assms
  proof (rule linked_cong)
    show "m_pNext (ins ?rw' p) = m_pNext (ins rw p) \<and> m_pPrev (ins ?rw' p) = m_pPrev (ins rw p)"
      if "p \<in> set (m_IL # xs)" for p
      using old [OF linked_valid [OF assms that]] by simp
  qed (simp add: NewILInstr_def)
  moreover have "grown rw [(opcode, 0, arg)] ?rw'"
  proof -
    have "m_offset (ins ?rw ?n) = 0"
      by (simp add: NewILInstr_def ins_def)
    then have "payload ?rw' ?n = (opcode, 0, arg)"
      using v by (simp add: payload_def)
    moreover have "frame ?rw' = frame rw" and "m_nInstrs ?rw' = m_nInstrs rw + 1"
      by (simp_all add: frame_def set_ins_def NewILInstr_def)
    ultimately show ?thesis
      using len old by (simp add: grown_def payload_def)
  qed
  ultimately show ?thesis using run by blast
qed

lemma same_contents_grown:
  assumes "grown rw ws rw'" and "same_contents rw' rw''"
  shows "grown rw ws rw''"
proof -
  have "frame rw'' = frame rw'" and n: "m_nInstrs rw'' = m_nInstrs rw'"
    using assms(2) by (cases rw'; cases rw''; simp add: same_contents_def frame_def)+
  moreover have "payload rw'' p = payload rw' p" if "valid_ref rw' p" for p
    using assms(2) that by (simp add: same_contents_def)
  moreover have "valid_ref rw' p" if "valid_ref rw p" for p
    using grown_valid [OF assms(1) that] .
  moreover have "valid_ref rw' (length (instrs rw) + Suc k)" if "k < length ws" for k
    using assms(1) that by (simp add: grown_def valid_ref_def)
  ultimately show ?thesis
    using assms by (simp add: grown_def same_contents_def)
qed

lemma insert_new_ok:
  assumes "linked rw (xs @ ys)" and "opcode_valid opcode"
  defines "w \<equiv> length (instrs rw) + 1"
  shows "\<exists>rw'. insert_new_before (hd (ys @ [m_IL])) opcode arg rw = Inr (w, rw')
      \<and> linked rw' (xs @ w # ys) \<and> grown rw [(opcode, 0, arg)] rw'" (is ?before)
    and "\<exists>rw'. insert_new_after (last (m_IL # xs)) opcode arg rw = Inr (w, rw')
      \<and> linked rw' (xs @ w # ys) \<and> grown rw [(opcode, 0, arg)] rw'" (is ?after)
proof -
  obtain rw1 where new: "new_instr_with opcode arg rw = Inr (w, rw1)"
    and lk: "linked rw1 (xs @ ys)" and gr: "grown rw [(opcode, 0, arg)] rw1"
    using new_instr_with_ok [OF assms(1)] unfolding w_def by blast
  have "payload rw1 w = (opcode, 0, arg)" and len: "length (instrs rw1) = w"
    using gr by (simp_all add: grown_def w_def)
  then have i: "insertable rw1 w"
    using assms(1,2) by (auto simp: insertable_def payload_def w_def linked_def)
  have fresh: "w \<notin> set (xs @ ys)"
    using linked_valid [OF assms(1)] by (fastforce simp: valid_ref_def w_def)
  from il.before [OF lk i fresh] il.after [OF lk i fresh] same_contents_grown [OF gr] new
  show ?before and ?after
    by (fastforce simp: insert_new_before_def insert_new_after_def)+
qed

lemmas insert_new_before_ok = insert_new_ok(1) [of _ _ "p # ys" for p ys, simplified]
lemmas insert_new_after_ok = insert_new_ok(2) [of _ "xs @ [p]" for xs p, simplified]

subsection \<open>Calls of probes\<close>

text \<open>The opcodes the rewriter inserts.\<close>

lemma probe_opcodes_valid:
  "opcode_valid CEE_NOP" "opcode_valid CEE_LDC_I4" "opcode_valid CEE_LDC_I4_0"
  "opcode_valid CEE_LDC_I8" "opcode_valid CEE_CALLI"
  by (simp_all add: opcode_valid_def)

text \<open>A run of insertions in front of the same instruction.\<close>

fun insert_all :: "ref \<Rightarrow> (nat \<times> il_arg) list \<Rightarrow> il_rewriter \<Rightarrow> il_rewriter res" where
  "insert_all p [] rw = Inr rw"
| "insert_all p ((opcode, arg) # ws) rw =
     and_then (insert_new_before p opcode arg rw) (\<lambda>(_, rw). insert_all p ws rw)"

abbreviation (input) new_refs :: "il_rewriter \<Rightarrow> nat \<Rightarrow> ref list" where
  "new_refs rw n \<equiv> [Suc (length (instrs rw)) ..< Suc (length (instrs rw)) + n]"

abbreviation (input) fresh_code :: "(nat \<times> il_arg) list \<Rightarrow> payload list" where
  "fresh_code \<equiv> map (\<lambda>(opcode, arg). (opcode, 0, arg))"

lemma insert_all_ok:
  assumes "linked rw (xs @ ys)" and "\<forall>(opcode, arg) \<in> set ws. opcode_valid opcode"
  shows "\<exists>rw'. insert_all (hd (ys @ [m_IL])) ws rw = Inr rw'
    \<and> linked rw' (xs @ new_refs rw (length ws) @ ys) \<and> grown rw (fresh_code ws) rw'"
  using assms
proof (induction ws arbitrary: rw xs)
  case Nil
  then show ?case using grown_refl by simp
next
  case (Cons w ws)
  obtain opcode arg where w: "w = (opcode, arg)" by force
  let ?n = "Suc (length (instrs rw))"
  obtain rw1 where ins1: "insert_new_before (hd (ys @ [m_IL])) opcode arg rw = Inr (?n, rw1)"
    and lk: "linked rw1 ((xs @ [?n]) @ ys)" and gr: "grown rw [(opcode, 0, arg)] rw1"
    using insert_new_ok(1) [OF Cons.prems(1), of opcode arg] Cons.prems(2) by (auto simp: w)
  have n: "length (instrs rw1) = ?n"
    using gr by (simp add: grown_def)
  obtain rw2 where "insert_all (hd (ys @ [m_IL])) ws rw1 = Inr rw2"
    and "linked rw2 ((xs @ [?n]) @ new_refs rw1 (length ws) @ ys)" and "grown rw1 (fresh_code ws) rw2"
    using Cons.IH [OF lk] Cons.prems(2) by auto
  moreover have "new_refs rw (length (w # ws)) = ?n # new_refs rw1 (length ws)"
    using n by (simp add: upt_rec)
  ultimately show ?case
    using ins1 grown_trans [OF gr] by (auto simp: w)
qed

definition probe_code :: "tid \<Rightarrow> probe_call \<Rightarrow> u32 \<Rightarrow> u32 \<Rightarrow> (nat \<times> il_arg) list" where
  "probe_code t probe offset methodId =
     [(CEE_LDC_I4, Arg (ucast offset)), (CEE_LDC_I4, Arg (ucast methodId)),
      (CEE_LDC_I8, Arg (pc_addr probe)), (CEE_CALLI, Arg (ucast (getSig t probe)))]"

definition enter_code :: "u64 \<Rightarrow> u32 \<Rightarrow> u32 \<Rightarrow> u32 \<Rightarrow> (nat \<times> il_arg) list" where
  "enter_code address signature offset methodId =
     [(CEE_LDC_I4, Arg (ucast offset)), (CEE_LDC_I4, Arg (ucast methodId)), (CEE_LDC_I4_0, Arg 0),
      (CEE_LDC_I8, Arg address), (CEE_CALLI, Arg (ucast signature))]"

lemma probe_code_ok:
  "length (probe_code t probe offset methodId) = 4"
  "\<forall>(opcode, arg) \<in> set (probe_code t probe offset methodId). opcode_valid opcode"
  "length (enter_code address signature offset methodId) = 5"
  "\<forall>(opcode, arg) \<in> set (enter_code address signature offset methodId). opcode_valid opcode"
  using probe_opcodes_valid by (simp_all add: probe_code_def enter_code_def)

lemma add_probe_call_eq:
  "add_probe_call t probe offset methodId p rw = insert_all p (probe_code t probe offset methodId) rw"
  unfolding add_probe_call_def probe_code_def AddLDCInstrBefore_def AddProbe_def insert_all.simps ..

lemma add_probe_call_ok:
  assumes "linked rw (xs @ p # ys)"
  shows "\<exists>rw'. add_probe_call t probe offset methodId p rw = Inr rw'
    \<and> linked rw' (xs @ new_refs rw 4 @ p # ys)
    \<and> grown rw (fresh_code (probe_code t probe offset methodId)) rw'"
  using insert_all_ok [OF assms probe_code_ok(2)] unfolding add_probe_call_eq probe_code_ok(1) by simp

lemma AddEnterProbe_ok:
  assumes "linked rw xs"
  shows "\<exists>rw'. AddEnterProbe address signature methodId rw = Inr rw'
    \<and> linked rw' (new_refs rw 5 @ xs)
    \<and> grown rw (fresh_code (enter_code address signature (m_offset (ins rw (hd (xs @ [m_IL])))) methodId)) rw'"
proof -
  let ?p = "hd (xs @ [m_IL])"
  have n: "m_pNext (ins rw m_IL) = ?p"
    using linked_neighbours(1) [of rw "[]" xs] assms by simp
  have v: "valid_ref rw m_IL" "valid_ref rw ?p"
    using linked_valid [OF assms] by (cases xs; simp)+
  have eq: "AddEnterProbe address signature methodId rw
      = insert_all ?p (enter_code address signature (m_offset (ins rw ?p)) methodId) rw"
    unfolding AddEnterProbe_def enter_code_def AddProbe_def insert_all.simps instr_at_valid [OF v(1)]
      and_then_Inr n Let_def instr_at_valid [OF v(2)] ..
  show ?thesis
    using insert_all_ok [of rw "[]" xs, OF _ probe_code_ok(4)] assms
    unfolding eq probe_code_ok(3) by simp
qed

definition corrected :: "ref \<Rightarrow> ref \<Rightarrow> eh_clause list \<Rightarrow> eh_clause list" where
  "corrected p q = map (\<lambda>c. if m_pHandlerEnd c = p then c\<lparr>m_pHandlerEnd := q\<rparr> else c)"

lemma grown_frame: "grown rw ws rw' \<Longrightarrow> m_pEH rw' = m_pEH rw"
  by (cases rw; cases rw'; simp add: grown_def frame_def)

lemma CorrectHandlers_eq: "CorrectHandlers p q rw = rw\<lparr>m_pEH := corrected p q (m_pEH rw)\<rparr>"
  by (simp add: CorrectHandlers_def corrected_def)

text \<open>A probe after an instruction: its arguments, its call and a \<^verbatim>\<open>nop\<close> follow it.\<close>

lemma AddCoverageProbeAfter_ok:
  assumes "linked rw (xs @ p # ys)"
  defines "n \<equiv> Suc (length (instrs rw))"
  shows "\<exists>rw'. AddCoverageProbeAfter t probe methodId p rw
      = Inr (n, rw'\<lparr>m_pEH := corrected p n (m_pEH rw)\<rparr>)
    \<and> linked rw' (xs @ p # [Suc n ..< Suc n + 4] @ n # ys)
    \<and> grown rw ((CEE_NOP, 0, Arg 0) # fresh_code (probe_code t probe (m_offset (ins rw p)) methodId)) rw'"
proof -
  have v: "valid_ref rw p"
    using linked_valid [OF assms(1)] by simp
  obtain rw1 where 1: "insert_new_after p CEE_NOP (Arg 0) rw = Inr (n, rw1)"
    "linked rw1 ((xs @ [p]) @ n # ys)" "grown rw [(CEE_NOP, 0, Arg 0)] rw1"
    using insert_new_after_ok [OF assms(1) probe_opcodes_valid(1)] unfolding n_def by auto
  have len: "length (instrs rw1) = n"
    using 1(3) by (simp add: grown_def n_def)
  have off: "m_offset (ins rw1 p) = m_offset (ins rw p)"
    using grown_old [OF 1(3) v] by (simp add: payload_def)
  obtain rw2 where 2: "add_probe_call t probe (m_offset (ins rw p)) methodId n rw1 = Inr rw2"
    "linked rw2 ((xs @ [p]) @ [Suc n ..< Suc n + 4] @ n # ys)"
    "grown rw1 (fresh_code (probe_code t probe (m_offset (ins rw p)) methodId)) rw2"
    using add_probe_call_ok [OF 1(2)] unfolding len by blast
  note gr = grown_trans [OF 1(3) 2(3)]
  have "AddCoverageProbeAfter t probe methodId p rw = Inr (n, rw2\<lparr>m_pEH := corrected p n (m_pEH rw)\<rparr>)"
    using 1(1) 2(1) grown_valid [OF 1(3) v] off grown_frame [OF gr]
    by (simp add: AddCoverageProbeAfter_def CorrectHandlers_eq)
  with 2(2) gr show ?thesis by (intro exI [of _ rw2]) simp
qed

lemma grown_set_opcode:
  assumes "grown rw ws rw'" and "valid_ref rw p"
  shows "grown (set_ins p ((ins rw p)\<lparr>m_opcode := op\<rparr>) rw) ws (set_ins p ((ins rw' p)\<lparr>m_opcode := op\<rparr>) rw')"
    (is "grown ?rw ws ?rw'")
proof -
  have v: "valid_ref rw' p"
    using assms by (rule grown_valid)
  have old: "payload ?rw' q = payload ?rw q" if "valid_ref rw q" for q
    using grown_old [OF assms(1) that] grown_valid [OF assms(1) that] that v assms(2) by (auto simp: payload_def)
  have new: "payload ?rw' (length (instrs rw) + Suc k) = ws ! k" if k: "k < length ws" for k
  proof -
    have "length (instrs rw) + Suc k \<noteq> p" and "valid_ref rw' (length (instrs rw) + Suc k)"
      using assms k by (auto simp: valid_ref_def grown_def)
    with v k assms(1) show ?thesis by (simp add: payload_def grown_def)
  qed
  have "frame ?rw' = frame ?rw" "m_nInstrs ?rw' = m_nInstrs ?rw + word_of_nat (length ws)"
    using assms(1) by (simp_all add: grown_def frame_def set_ins_def)
  with old new assms(1) show ?thesis by (simp add: grown_def)
qed

text \<open>
  A probe before an instruction: the instruction becomes a \<^verbatim>\<open>nop\<close> that keeps its place as a branch
  target, and the call of the probe and a copy of the instruction follow it.
\<close>

lemma AddCoverageProbeBefore_ok:
  assumes "linked rw (xs @ p # ys)" and "opcode_valid (m_opcode (ins rw p))"
  defines "n \<equiv> Suc (length (instrs rw))" and "rw0 \<equiv> set_ins p ((ins rw p)\<lparr>m_opcode := CEE_NOP\<rparr>) rw"
  shows "\<exists>rw'. AddCoverageProbeBefore t probe methodId p rw
      = Inr (n, rw'\<lparr>m_pEH := corrected p n (m_pEH rw)\<rparr>)
    \<and> linked rw' (xs @ p # [Suc n ..< Suc n + 4] @ n # ys)
    \<and> grown rw0 ((m_opcode (ins rw p), 0, m_arg (ins rw p))
        # fresh_code (probe_code t probe (m_offset (ins rw p)) methodId)) rw'"
proof -
  have v: "valid_ref rw p"
    using linked_valid [OF assms(1)] by simp
  obtain rw1 where 1: "insert_new_after p (m_opcode (ins rw p)) (m_arg (ins rw p)) rw = Inr (n, rw1)"
    "linked rw1 ((xs @ [p]) @ n # ys)" "grown rw [(m_opcode (ins rw p), 0, m_arg (ins rw p))] rw1"
    using insert_new_after_ok [OF assms(1,2)] unfolding n_def by auto
  have len: "length (instrs rw1) = n" and v1: "valid_ref rw1 p"
    using 1(3) grown_valid [OF 1(3) v] by (simp_all add: grown_def n_def)
  let ?rw1 = "set_ins p ((ins rw1 p)\<lparr>m_opcode := CEE_NOP\<rparr>) rw1"
  have lk1: "linked ?rw1 ((xs @ [p]) @ n # ys)"
    using 1(2)
  proof (rule linked_cong)
    show "m_pNext (ins ?rw1 q) = m_pNext (ins rw1 q) \<and> m_pPrev (ins ?rw1 q) = m_pPrev (ins rw1 q)"
      if "q \<in> set (m_IL # (xs @ [p]) @ n # ys)" for q
      using linked_valid [OF 1(2) that] v1 by simp
  qed simp
  obtain rw2 where 2: "add_probe_call t probe (m_offset (ins rw p)) methodId n ?rw1 = Inr rw2"
    "linked rw2 ((xs @ [p]) @ [Suc n ..< Suc n + 4] @ n # ys)"
    "grown ?rw1 (fresh_code (probe_code t probe (m_offset (ins rw p)) methodId)) rw2"
    using add_probe_call_ok [OF lk1, of t probe "m_offset (ins rw p)" methodId] len by auto
  have "grown rw0 [(m_opcode (ins rw p), 0, m_arg (ins rw p))] ?rw1"
    unfolding rw0_def using 1(3) v by (rule grown_set_opcode)
  from grown_trans [OF this 2(3)] have gr: "grown rw0 ((m_opcode (ins rw p), 0, m_arg (ins rw p))
      # fresh_code (probe_code t probe (m_offset (ins rw p)) methodId)) rw2"
    by simp
  have "m_pEH rw0 = m_pEH rw"
    by (simp add: rw0_def set_ins_def)
  then have "AddCoverageProbeBefore t probe methodId p rw = Inr (n, rw2\<lparr>m_pEH := corrected p n (m_pEH rw)\<rparr>)"
    using 1(1) 2(1) v v1 grown_frame [OF gr]
    by (simp add: AddCoverageProbeBefore_def CorrectHandlers_eq)
  with 2(2) gr show ?thesis by (intro exI [of _ rw2]) simp
qed

subsection \<open>Woven code\<close>

text \<open>
  What is executed at an instruction: opcode and operand; the argument of an instruction without
  operand is not read.
\<close>

definition norm_code :: "nat \<Rightarrow> il_arg \<Rightarrow> nat \<times> il_arg" where
  "norm_code opcode arg = (opcode, if flags_of opcode = 0 then Arg 0 else arg)"

definition code :: "il_rewriter \<Rightarrow> ref \<Rightarrow> nat \<times> il_arg" where
  "code rw p = norm_code (m_opcode (ins rw p)) (m_arg (ins rw p))"

abbreviation (input) nop_code :: "nat \<times> il_arg" where "nop_code \<equiv> (CEE_NOP, Arg 0)"

text \<open>Sequences of \<^verbatim>\<open>nop\<close> and of complete probe calls that report a given offset and method.\<close>

inductive padding :: "tid \<Rightarrow> probe_call set \<Rightarrow> u32 \<Rightarrow> u32 \<Rightarrow> (nat \<times> il_arg) list \<Rightarrow> bool"
  for t probes methodId offset where
  padding_nil: "padding t probes methodId offset []"
| padding_nop: "padding t probes methodId offset cs \<Longrightarrow> padding t probes methodId offset (nop_code # cs)"
| padding_probe: "probe \<in> probes \<Longrightarrow> padding t probes methodId offset cs \<Longrightarrow>
    padding t probes methodId offset (probe_code t probe offset methodId @ cs)"

text \<open>
  The instructions an original instruction became: the first is the original one, so branches to it
  enter the block at its start, and the block holds the original code once, with padding around it.
\<close>

inductive block ::
  "tid \<Rightarrow> probe_call set \<Rightarrow> u32 \<Rightarrow> il_rewriter \<Rightarrow> il_rewriter \<Rightarrow> ref \<Rightarrow> ref list \<Rightarrow> bool"
  for t probes methodId rw0 rw x where
  block_head: "code rw x = code rw0 x \<Longrightarrow>
    padding t probes methodId (m_offset (ins rw0 x)) (map (code rw) post) \<Longrightarrow>
    block t probes methodId rw0 rw x (x # post)"
| block_moved: "code rw x = nop_code \<Longrightarrow>
    padding t probes methodId (m_offset (ins rw0 x)) (map (code rw) pre) \<Longrightarrow>
    code rw y = code rw0 x \<Longrightarrow>
    padding t probes methodId (m_offset (ins rw0 x)) (map (code rw) post) \<Longrightarrow>
    block t probes methodId rw0 rw x (x # pre @ y # post)"

fun end_of :: "ref list \<Rightarrow> ref list list \<Rightarrow> ref \<Rightarrow> ref" where
  "end_of (x # xs) (b # bs) h = (if h = x then last b else end_of xs bs h)"
| "end_of xs bs h = h"

definition woven ::
  "tid \<Rightarrow> probe_call set \<Rightarrow> u32 \<Rightarrow> il_rewriter \<Rightarrow> ref list \<Rightarrow> il_rewriter \<Rightarrow> ref list list \<Rightarrow> bool" where
  "woven t probes methodId rw0 xs rw bs \<longleftrightarrow>
     linked rw (concat bs) \<and> list_all2 (block t probes methodId rw0 rw) xs bs
     \<and> (\<forall>x \<in> set xs. m_offset (ins rw x) = m_offset (ins rw0 x))
     \<and> m_pEH rw = map (\<lambda>c. c\<lparr>m_pHandlerEnd := end_of xs bs (m_pHandlerEnd c)\<rparr>) (m_pEH rw0)
     \<and> (frame rw)\<lparr>m_pEH := []\<rparr> = (frame rw0)\<lparr>m_pEH := []\<rparr> \<and> counted rw
     \<and> payload rw m_IL = payload rw0 m_IL"

lemma flags_of_nop: "flags_of CEE_NOP = 0"
  by (simp add: flags_of_table flags_table_def)

lemma probe_flags: "flags_of CEE_LDC_I4 = 4" "flags_of CEE_LDC_I8 = 8" "flags_of CEE_CALLI = 4"
  by (simp_all add: flags_of_table flags_table_def)

lemma norm_probe_code: "map (\<lambda>(op, a). norm_code op a) (probe_code t probe offset methodId)
    = probe_code t probe offset methodId"
  by (simp add: probe_code_def norm_code_def probe_flags)

lemma code_payload: "code rw p = (case payload rw p of (op, off, a) \<Rightarrow> norm_code op a)"
  by (simp add: code_def payload_def)

lemma norm_enter_code: "map (\<lambda>(op, a). norm_code op a) (enter_code address signature offset methodId)
    = enter_code address signature offset methodId"
  by (simp add: enter_code_def norm_code_def probe_flags)

lemma grown_codes:
  assumes "grown rw ws rw'"
  shows "map (code rw') (new_refs rw (length ws)) = map (\<lambda>(op, off, a). norm_code op a) ws"
proof (rule nth_equalityI)
  fix k assume "k < length (map (code rw') (new_refs rw (length ws)))"
  then have k: "k < length ws" by (simp del: upt_Suc)
  then have "payload rw' (Suc (length (instrs rw)) + k) = ws ! k"
    using assms by (simp add: grown_def)
  with k show "map (code rw') (new_refs rw (length ws)) ! k = map (\<lambda>(op, off, a). norm_code op a) ws ! k"
    by (simp add: code_payload case_prod_unfold del: upt_Suc)
qed (simp del: upt_Suc)

lemma grown_code:
  assumes "grown rw (w # fresh_code ws) rw'"
  defines "n \<equiv> Suc (length (instrs rw))"
  shows "code rw' n = (case w of (op, off, a) \<Rightarrow> norm_code op a)"
    and "map (code rw') [Suc n ..< Suc n + length ws] = map (\<lambda>(op, a). norm_code op a) ws"
proof -
  have "[n ..< n + Suc (length ws)] = n # [Suc n ..< Suc n + length ws]"
    by (simp add: upt_rec)
  with grown_codes [OF assms(1)]
  have "code rw' n # map (code rw') [Suc n ..< Suc n + length ws]
      = map (\<lambda>(op, off, a). norm_code op a) (w # fresh_code ws)"
    by (simp add: n_def del: upt_Suc)
  then show "code rw' n = (case w of (op, off, a) \<Rightarrow> norm_code op a)"
    and "map (code rw') [Suc n ..< Suc n + length ws] = map (\<lambda>(op, a). norm_code op a) ws"
    by (simp_all add: case_prod_unfold comp_def del: upt_Suc)
qed

lemma block_Cons: "block t probes methodId rw0 rw x b \<Longrightarrow> \<exists>rest. b = x # rest"
  by (auto elim: block.cases)

lemma block_cong:
  assumes "block t probes methodId rw0 rw x b" and "\<And>p. p \<in> set b \<Longrightarrow> code rw' p = code rw p"
  shows "block t probes methodId rw0 rw' x b"
proof -
  have same: "map (code rw') ps = map (code rw) ps" if "set ps \<subseteq> set b" for ps
    using assms(2) that by auto
  from assms(1) show ?thesis
  proof cases
    case (block_head post)
    moreover have "map (code rw') post = map (code rw) post"
      using block_head by (intro same) auto
    ultimately show ?thesis
      using assms(2) by (simp add: block.block_head del: map_eq_conv)
  next
    case (block_moved pre y post)
    moreover have "map (code rw') pre = map (code rw) pre" "map (code rw') post = map (code rw) post"
      using block_moved by (intro same; auto)+
    ultimately show ?thesis
      using assms(2) by (simp add: block.block_moved del: map_eq_conv)
  qed
qed

text \<open>Inserting a probe after or before the first instruction of a block.\<close>

lemma padding_after:
  "probe \<in> probes \<Longrightarrow> padding t probes methodId off cs \<Longrightarrow>
    padding t probes methodId off (probe_code t probe off methodId @ nop_code # cs)"
  by (intro padding_probe padding_nop)

lemma block_after:
  assumes "block t probes methodId rw0 rw x (x # rest)" and "probe \<in> probes"
    and "\<And>p. p \<in> set (x # rest) \<Longrightarrow> code rw' p = code rw p" and "code rw' n = nop_code"
    and "map (code rw') R = probe_code t probe (m_offset (ins rw0 x)) methodId"
  shows "block t probes methodId rw0 rw' x (x # R @ n # rest)"
proof -
  have "block t probes methodId rw0 rw' x (x # rest)"
    using assms(1,3) by (rule block_cong)
  then show ?thesis
  proof cases
    case block_head
    then have "padding t probes methodId (m_offset (ins rw0 x)) (map (code rw') (R @ n # rest))"
      using padding_after [OF assms(2)] assms(4,5) by simp
    with block_head show ?thesis by (intro block.block_head) simp_all
  next
    case (block_moved pre y post)
    then have "padding t probes methodId (m_offset (ins rw0 x)) (map (code rw') (R @ n # pre))"
      using padding_after [OF assms(2)] assms(4,5) by simp
    with block_moved block.block_moved [of rw' x t probes methodId rw0 "R @ n # pre" y post]
    show ?thesis by simp
  qed
qed

lemma block_before:
  assumes "block t probes methodId rw0 rw x (x # rest)" and "probe \<in> probes"
    and "\<And>p. p \<in> set rest \<Longrightarrow> code rw' p = code rw p" and "code rw' n = code rw x"
    and "code rw' x = nop_code"
    and R: "map (code rw') R = probe_code t probe (m_offset (ins rw0 x)) methodId"
  shows "block t probes methodId rw0 rw' x (x # R @ n # rest)"
proof -
  have same: "map (code rw') ps = map (code rw) ps" if "set ps \<subseteq> set rest" for ps
    using assms(3) that by auto
  have padR: "padding t probes methodId (m_offset (ins rw0 x)) (map (code rw') R)"
    using padding_probe [OF assms(2) padding_nil] R by simp
  from assms(1) show ?thesis
  proof cases
    case block_head
    with padR same [of rest] assms(4,5) show ?thesis
      by (intro block.block_moved) (simp_all del: map_eq_conv)
  next
    case (block_moved pre y post)
    then have "padding t probes methodId (m_offset (ins rw0 x)) (map (code rw') (R @ n # pre))"
      using padding_after [OF assms(2)] same [of pre] assms(4) R by (simp add: subset_iff del: map_eq_conv)
    moreover have "code rw' y = code rw0 x" "map (code rw') post = map (code rw) post"
      using block_moved assms(3) by auto
    ultimately show ?thesis
      using block_moved assms(5) block.block_moved [of rw' x t probes methodId rw0 "R @ n # pre" y post]
      by (simp del: map_eq_conv)
  qed
qed

subsection \<open>Insertion into woven code\<close>

lemma woven_split:
  assumes "woven t probes methodId rw0 xs rw bs" and "x \<in> set xs"
  obtains us vs bu rest bv where "xs = us @ x # vs" and "bs = bu @ (x # rest) # bv"
    and "list_all2 (block t probes methodId rw0 rw) us bu"
    and "block t probes methodId rw0 rw x (x # rest)"
    and "list_all2 (block t probes methodId rw0 rw) vs bv"
proof -
  from assms(2) obtain us vs where xs: "xs = us @ x # vs"
    by (meson split_list)
  from assms(1) have "list_all2 (block t probes methodId rw0 rw) (us @ x # vs) bs"
    unfolding woven_def xs by blast
  then obtain bu b bv where bs: "bs = bu @ b # bv" and "list_all2 (block t probes methodId rw0 rw) us bu"
    and b: "block t probes methodId rw0 rw x b" and "list_all2 (block t probes methodId rw0 rw) vs bv"
    by (auto simp: list_all2_append1 list_all2_Cons1)
  moreover obtain rest where "b = x # rest"
    using block_Cons [OF b] by blast
  ultimately show ?thesis
    using that xs by blast
qed

lemma blocks_elsewhere:
  assumes "list_all2 (block t probes methodId rw0 rw) us bu"
    and "\<And>p. p \<in> set (concat bu) \<Longrightarrow> code rw' p = code rw p"
  shows "list_all2 (block t probes methodId rw0 rw') us bu"
  using assms(1)
proof (rule list.rel_mono_strong)
  fix u b assume "b \<in> set bu" and "block t probes methodId rw0 rw u b"
  note b = this
  show "block t probes methodId rw0 rw' u b"
    using b(2)
  proof (rule block_cong)
    fix p assume "p \<in> set b"
    with b(1) have "p \<in> set (concat bu)" by auto
    then show "code rw' p = code rw p" by (rule assms(2))
  qed
qed

lemma end_of_append:
  "length us = length bu \<Longrightarrow>
    end_of (us @ vs) (bu @ bv) h = (if h \<in> set us then end_of us bu h else end_of vs bv h)"
  by (induction us bu rule: list_induct2) simp_all

lemma end_of_in:
  "list_all2 (block t probes methodId rw0 rw) us bu \<Longrightarrow> h \<in> set us \<Longrightarrow> end_of us bu h \<in> set (concat bu)"
proof (induction us bu rule: list_all2_induct)
  case (Cons x xs y ys)
  then show ?case using block_Cons [of t probes methodId rw0 rw x y] by auto
qed simp

lemma end_of_out: "h \<notin> set us \<Longrightarrow> end_of us bu h = h"
  by (induction us bu h rule: end_of.induct) simp_all

text \<open>The correction of the handlers follows the block that grew.\<close>

lemma end_of_insert:
  assumes "list_all2 (block t probes methodId rw0 rw) us bu" and "list_all2 (block t probes methodId rw0 rw) vs bv"
    and d: "distinct (concat (bu @ (x # rest) # bv))" and x: "x \<notin> set us" "x \<notin> set vs"
  shows "end_of (us @ x # vs) (bu @ (x # R @ n # rest) # bv) h
    = (let e = end_of (us @ x # vs) (bu @ (x # rest) # bv) h in if e = x then n else e)"
proof -
  have len: "length us = length bu"
    using assms(1) by (rule list_all2_lengthD)
  consider "h \<in> set us" | "h \<notin> set us" "h = x" | "h \<notin> set us" "h \<noteq> x" "h \<in> set vs"
    | "h \<notin> set (us @ x # vs)"
    by auto
  then show ?thesis
  proof cases
    case 1
    then have "end_of us bu h \<noteq> x"
      using end_of_in [OF assms(1) 1] d by auto
    with 1 len show ?thesis by (simp add: end_of_append)
  next
    case 2
    have "rest \<noteq> [] \<Longrightarrow> last rest \<noteq> x"
      using d last_in_set [of rest] by auto
    with 2 len show ?thesis by (simp add: end_of_append Let_def)
  next
    case 3
    then have "end_of vs bv h \<noteq> x"
      using end_of_in [OF assms(2) 3(3)] d by auto
    with 3 len show ?thesis by (simp add: end_of_append)
  next
    case 4
    then show ?thesis by (simp add: end_of_out)
  qed
qed

lemma heads_in: "list_all2 (block t probes methodId rw0 rw) us bu \<Longrightarrow> set us \<subseteq> set (concat bu)"
proof (induction us bu rule: list_all2_induct)
  case (Cons x xs y ys)
  then show ?case using block_Cons [of t probes methodId rw0 rw x y] by auto
qed simp

lemma code_eh [simp]: "code (rw\<lparr>m_pEH := e\<rparr>) p = code rw p"
  by (simp add: code_def)

lemma block_eh: "block t probes methodId rw0 rw x b \<Longrightarrow> block t probes methodId rw0 (rw\<lparr>m_pEH := e\<rparr>) x b"
  by (rule block_cong) simp_all

lemma payload_code: "payload rw' p = payload rw p \<Longrightarrow> code rw' p = code rw p"
  by (simp add: code_payload)

lemma woven_replace:
  assumes w: "woven t probes methodId rw0 xs rw bs"
    and xs: "xs = us @ x # vs" and bs: "bs = bu @ (x # rest) # bv"
    and u: "list_all2 (block t probes methodId rw0 rw) us bu"
    and v: "list_all2 (block t probes methodId rw0 rw) vs bv"
    and lk1: "linked rw1 (concat bu @ x # R @ n # rest @ concat bv)"
    and b: "block t probes methodId rw0 rw1 x (x # R @ n # rest)"
    and same: "\<And>p. valid_ref rw p \<Longrightarrow> p \<noteq> x \<Longrightarrow> payload rw1 p = payload rw p"
    and offx: "m_offset (ins rw1 x) = m_offset (ins rw x)"
    and fr: "(frame rw1)\<lparr>m_pEH := []\<rparr> = (frame rw)\<lparr>m_pEH := []\<rparr>" "counted rw1"
    and dx: "distinct xs"
  shows "woven t probes methodId rw0 xs (rw1\<lparr>m_pEH := corrected x n (m_pEH rw)\<rparr>) (bu @ (x # R @ n # rest) # bv)"
proof -
  let ?rw = "rw1\<lparr>m_pEH := corrected x n (m_pEH rw)\<rparr>"
  have lk: "linked rw (concat bs)" and offs: "\<forall>x \<in> set xs. m_offset (ins rw x) = m_offset (ins rw0 x)"
    and eh: "m_pEH rw = map (\<lambda>c. c\<lparr>m_pHandlerEnd := end_of xs bs (m_pHandlerEnd c)\<rparr>) (m_pEH rw0)"
    and fr0: "(frame rw)\<lparr>m_pEH := []\<rparr> = (frame rw0)\<lparr>m_pEH := []\<rparr>"
    using w unfolding woven_def by blast+
  have d: "distinct (concat (bu @ (x # rest) # bv))"
    using lk by (simp add: linked_def bs)
  have valid: "valid_ref rw p" if "p \<in> set (concat bs)" for p
    using linked_valid [OF lk] that by simp
  have old: "code ?rw p = code rw p" if "p \<in> set (concat bs)" "p \<noteq> x" for p
    using payload_code [OF same [OF valid [OF that(1)] that(2)]] by simp
  have "list_all2 (block t probes methodId rw0 ?rw) us bu"
    using u by (rule blocks_elsewhere) (use d in \<open>intro old; auto simp: bs\<close>)
  moreover have "list_all2 (block t probes methodId rw0 ?rw) vs bv"
    using v by (rule blocks_elsewhere) (use d in \<open>intro old; auto simp: bs\<close>)
  ultimately have "list_all2 (block t probes methodId rw0 ?rw) xs (bu @ (x # R @ n # rest) # bv)"
    using block_eh [OF b] by (simp add: xs list_all2_appendI)
  moreover have "m_offset (ins ?rw q) = m_offset (ins rw0 q)" if q: "q \<in> set xs" for q
  proof (cases "q = x")
    case True
    then show ?thesis using offx offs q by simp
  next
    case False
    have "q \<in> set (concat bs)"
      using q False heads_in [OF u] heads_in [OF v] unfolding xs bs by auto
    with False same [of q] valid offs q show ?thesis by (simp add: payload_def)
  qed
  moreover have "m_pEH ?rw = map (\<lambda>c. c\<lparr>m_pHandlerEnd :=
      end_of xs (bu @ (x # R @ n # rest) # bv) (m_pHandlerEnd c)\<rparr>) (m_pEH rw0)"
    using end_of_insert [OF u v d, of R n] dx
    by (simp add: eh corrected_def xs bs Let_def)
  moreover have "payload ?rw m_IL = payload rw0 m_IL"
  proof -
    have "m_IL \<noteq> x" "valid_ref rw m_IL"
      using lk linked_valid [OF lk] by (auto simp: linked_def bs)
    with same [of m_IL] w show ?thesis by (simp add: woven_def payload_def)
  qed
  ultimately show ?thesis
    using lk1 fr fr0 by (simp add: woven_def frame_def counted_def)
qed

text \<open>The block of an original instruction grew by the call of a probe behind its first instruction.\<close>

definition grew ::
  "tid \<Rightarrow> u32 \<Rightarrow> il_rewriter \<Rightarrow> ref \<Rightarrow> probe_call \<Rightarrow> bool
    \<Rightarrow> il_rewriter \<Rightarrow> ref list list \<Rightarrow> il_rewriter \<Rightarrow> ref list list \<Rightarrow> bool" where
  "grew t methodId rw0 x probe before rw bs rw' bs' \<longleftrightarrow>
     (\<exists>bu rest bv R n. bs = bu @ (x # rest) # bv \<and> bs' = bu @ (x # R @ n # rest) # bv
        \<and> map (code rw') R = probe_code t probe (m_offset (ins rw0 x)) methodId
        \<and> (\<forall>p \<in> set (concat bs). p \<noteq> x \<longrightarrow> code rw' p = code rw p)
        \<and> (if before then code rw' x = nop_code \<and> code rw' n = code rw x
           else code rw' x = code rw x \<and> code rw' n = nop_code))
     \<and> length (instrs rw') = length (instrs rw) + 5"

lemma grewI:
  assumes "bs = bu @ (x # rest) # bv"
    and "map (code rw') R = probe_code t probe (m_offset (ins rw0 x)) methodId"
    and "\<And>p. p \<in> set (concat bs) \<Longrightarrow> p \<noteq> x \<Longrightarrow> code rw' p = code rw p"
    and "if before then code rw' x = nop_code \<and> code rw' n = code rw x
      else code rw' x = code rw x \<and> code rw' n = nop_code"
    and "length (instrs rw') = length (instrs rw) + 5"
  shows "grew t methodId rw0 x probe before rw bs (rw'\<lparr>m_pEH := e\<rparr>) (bu @ (x # R @ n # rest) # bv)"
  unfolding grew_def using assms
  by (intro conjI exI [of _ bu] exI [of _ rest] exI [of _ bv] exI [of _ R] exI [of _ n])
    (simp_all cong: map_cong)

text \<open>A probe at an original instruction keeps the code woven.\<close>

lemma woven_code_valid:
  assumes "woven t probes methodId rw0 xs rw bs" and "code_ok rw0 xs" and "x \<in> set xs"
  shows "opcode_valid (m_opcode (ins rw x))"
proof -
  obtain rest where "block t probes methodId rw0 rw x (x # rest)"
    using woven_split [OF assms(1,3)] by metis
  then have "code rw x = code rw0 x \<or> code rw x = nop_code"
    by (auto elim: block.cases)
  moreover have "opcode_valid (m_opcode (ins rw0 x))"
    using assms(2,3) by (simp add: code_ok_def instr_ok_def)
  ultimately show ?thesis
    using probe_opcodes_valid(1) by (auto simp: code_def norm_code_def)
qed

lemma woven_after:
  assumes w: "woven t probes methodId rw0 xs rw bs" and x: "x \<in> set xs" and d: "distinct xs"
    and pr: "probe \<in> probes"
  shows "\<exists>q rw' bs'. AddCoverageProbeAfter t probe methodId x rw = Inr (q, rw')
    \<and> woven t probes methodId rw0 xs rw' bs' \<and> grew t methodId rw0 x probe False rw bs rw' bs'"
proof -
  obtain us vs bu rest bv where s: "xs = us @ x # vs" "bs = bu @ (x # rest) # bv"
    "list_all2 (block t probes methodId rw0 rw) us bu" "list_all2 (block t probes methodId rw0 rw) vs bv"
    and b: "block t probes methodId rw0 rw x (x # rest)"
    using woven_split [OF w x] by metis
  have lk: "linked rw (concat bu @ x # rest @ concat bv)" and off: "m_offset (ins rw x) = m_offset (ins rw0 x)"
    and cnt: "counted rw"
    using w x by (simp_all add: woven_def s(2))
  let ?n = "Suc (length (instrs rw))"
  obtain rw1 where run: "AddCoverageProbeAfter t probe methodId x rw
      = Inr (?n, rw1\<lparr>m_pEH := corrected x ?n (m_pEH rw)\<rparr>)"
    and lk1: "linked rw1 (concat bu @ x # [Suc ?n ..< Suc ?n + 4] @ ?n # rest @ concat bv)"
    and gr: "grown rw ((CEE_NOP, 0, Arg 0) # fresh_code (probe_code t probe (m_offset (ins rw x)) methodId)) rw1"
    using AddCoverageProbeAfter_ok [OF lk] by blast
  have old: "payload rw1 p = payload rw p" if "valid_ref rw p" for p
    using gr that by (rule grown_old)
  have valid: "valid_ref rw p" if "p \<in> set (x # rest)" for p
    using linked_valid [OF lk] that by auto
  let ?R = "[Suc ?n ..< Suc ?n + 4]" and ?rw1 = "rw1\<lparr>m_pEH := corrected x ?n (m_pEH rw)\<rparr>"
  have n: "code rw1 ?n = nop_code"
    using grown_code(1) [OF gr] by (simp add: norm_code_def)
  have R: "map (code rw1) ?R = probe_code t probe (m_offset (ins rw0 x)) methodId"
    using grown_code(2) [OF gr] unfolding norm_probe_code probe_code_ok(1) off .
  have oldc: "code rw1 p = code rw p" if "p \<in> set (concat bs)" for p
    by (rule payload_code [OF old]) (use linked_valid [OF lk, of p] that s(2) in auto)
  have len: "length (instrs rw1) = length (instrs rw) + 5"
    using gr by (simp add: grown_def probe_code_ok(1))
  have gw: "grew t methodId rw0 x probe False rw bs ?rw1 (bu @ (x # ?R @ ?n # rest) # bv)"
    using s(2) R by (rule grewI) (use n oldc s(2) len in simp_all)
  have "block t probes methodId rw0 rw1 x (x # ?R @ ?n # rest)"
    by (rule block_after [OF b pr _ n R]) (use oldc in \<open>auto simp: s(2)\<close>)
  note woven_replace [OF w s lk1 this old _ _ grown_counted [OF gr cnt] d]
  then have "woven t probes methodId rw0 xs (rw1\<lparr>m_pEH := corrected x ?n (m_pEH rw)\<rparr>)
      (bu @ (x # [Suc ?n ..< Suc ?n + 4] @ ?n # rest) # bv)"
    using old [OF valid] gr by (simp add: payload_def grown_def)
  with run gw show ?thesis by blast
qed

lemma woven_before:
  assumes w: "woven t probes methodId rw0 xs rw bs" and x: "x \<in> set xs" and ok: "code_ok rw0 xs"
    and pr: "probe \<in> probes"
  shows "\<exists>q rw' bs'. AddCoverageProbeBefore t probe methodId x rw = Inr (q, rw')
    \<and> woven t probes methodId rw0 xs rw' bs' \<and> grew t methodId rw0 x probe True rw bs rw' bs'"
proof -
  obtain us vs bu rest bv where s: "xs = us @ x # vs" "bs = bu @ (x # rest) # bv"
    "list_all2 (block t probes methodId rw0 rw) us bu" "list_all2 (block t probes methodId rw0 rw) vs bv"
    and b: "block t probes methodId rw0 rw x (x # rest)"
    using woven_split [OF w x] by metis
  have lk: "linked rw (concat bu @ x # rest @ concat bv)" and off: "m_offset (ins rw x) = m_offset (ins rw0 x)"
    and cnt: "counted rw" and d: "distinct xs"
    using w x ok by (simp_all add: woven_def s(2) code_ok_def linked_def)
  let ?n = "Suc (length (instrs rw))" and ?rw = "set_ins x ((ins rw x)\<lparr>m_opcode := CEE_NOP\<rparr>) rw"
  obtain rw1 where run: "AddCoverageProbeBefore t probe methodId x rw
      = Inr (?n, rw1\<lparr>m_pEH := corrected x ?n (m_pEH rw)\<rparr>)"
    and lk1: "linked rw1 (concat bu @ x # [Suc ?n ..< Suc ?n + 4] @ ?n # rest @ concat bv)"
    and gr: "grown ?rw ((m_opcode (ins rw x), 0, m_arg (ins rw x))
      # fresh_code (probe_code t probe (m_offset (ins rw x)) methodId)) rw1"
    using AddCoverageProbeBefore_ok [OF lk woven_code_valid [OF w ok x]] by blast
  have valid: "valid_ref rw p" if "p \<in> set (x # rest)" for p
    using linked_valid [OF lk] that by auto
  have vx: "valid_ref rw x" using valid by simp
  have old: "payload rw1 p = payload rw p" if "valid_ref rw p" "p \<noteq> x" for p
    using grown_old [OF gr, of p] that vx by (simp add: payload_def)
  have px: "payload rw1 x = (CEE_NOP, m_offset (ins rw x), m_arg (ins rw x))"
    using grown_old [OF gr, of x] vx by (simp add: payload_def)
  have "x \<notin> set rest"
    using lk by (auto simp: linked_def)
  let ?R = "[Suc ?n ..< Suc ?n + 4]" and ?rw1 = "rw1\<lparr>m_pEH := corrected x ?n (m_pEH rw)\<rparr>"
  have oldc: "code rw1 p = code rw p" if "p \<in> set (concat bs)" "p \<noteq> x" for p
    by (rule payload_code [OF old]) (use linked_valid [OF lk, of p] that s(2) in auto)
  have n: "code rw1 ?n = code rw x"
    using grown_code(1) [OF gr] by (simp add: code_def)
  have cx: "code rw1 x = nop_code"
    using px by (simp add: code_payload norm_code_def flags_of_nop)
  have R: "map (code rw1) ?R = probe_code t probe (m_offset (ins rw0 x)) methodId"
    using grown_code(2) [OF gr] unfolding norm_probe_code probe_code_ok(1) off by simp
  have len: "length (instrs rw1) = length (instrs rw) + 5"
    using gr by (simp add: grown_def probe_code_ok(1))
  have gw: "grew t methodId rw0 x probe True rw bs ?rw1 (bu @ (x # ?R @ ?n # rest) # bv)"
    using s(2) R by (rule grewI) (use n cx oldc s(2) len in simp_all)
  have blk: "block t probes methodId rw0 rw1 x (x # ?R @ ?n # rest)"
    by (rule block_before [OF b pr _ n cx R]) (use oldc \<open>x \<notin> set rest\<close> in \<open>auto simp: s(2)\<close>)
  have "counted ?rw"
    using cnt by (simp add: counted_def set_ins_def)
  with gr have "counted rw1" by (rule grown_counted)
  moreover have "frame rw1 = frame rw"
    using gr by (simp add: grown_def frame_def set_ins_def)
  moreover have "m_offset (ins rw1 x) = m_offset (ins rw x)"
    using px by (simp add: payload_def)
  ultimately have "woven t probes methodId rw0 xs (rw1\<lparr>m_pEH := corrected x ?n (m_pEH rw)\<rparr>)
      (bu @ (x # [Suc ?n ..< Suc ?n + 4] @ ?n # rest) # bv)"
    using woven_replace [OF w s lk1 blk old _ _ _ d] by simp
  with run gw show ?thesis by blast
qed

end
