(* ===== verification/IL_Instrument.thy ===== *)
theory IL_Instrument
  imports IL_Weave
begin

section \<open>The instrumentation of a method\<close>

text \<open>
  \<open>instrument_code\<close>, the part of \<^verbatim>\<open>RewriteIL\<close> between import and export, on imported methods without
  tail calls: it returns, and its result is the woven method of \<open>IL_Weave\<close> behind the call of
  the enter probe.
\<close>

subsection \<open>Methods\<close>

fun switches_ok :: "il_rewriter \<Rightarrow> ref list \<Rightarrow> bool" where
  "switches_ok rw [] \<longleftrightarrow> True"
| "switches_ok rw (p # ps) \<longleftrightarrow>
     (m_opcode (ins rw p) = CEE_SWITCH \<longrightarrow>
        (case m_arg (ins rw p) of
           Arg w \<Rightarrow> (let n = nat (sint (ucast w :: u32)) in
                    n \<le> length ps \<and> list_all (\<lambda>q. m_opcode (ins rw q) = CEE_SWITCH_ARG) (take n ps))
         | Target _ \<Rightarrow> False))
     \<and> switches_ok rw ps"

text \<open>
  What the decoder delivers for a valid method: the list of instructions is well formed, the sentinel has
  no opcode, the targets of a switch follow it, and handlers begin at instructions.
\<close>

definition method_ok :: "il_rewriter \<Rightarrow> ref list \<Rightarrow> bool" where
  "method_ok rw xs \<longleftrightarrow>
     code_ok rw xs \<and> m_opcode (ins rw m_IL) = 2 ^ 32 - 1 \<and> switches_ok rw xs \<and> counted rw
     \<and> (\<forall>c \<in> set (m_pEH rw). m_pHandlerBegin c \<in> set xs)
     \<and> (\<forall>p \<in> set xs. m_opcode (ins rw p) \<noteq> CEE_COUNT)"

definition no_tailcalls :: "il_rewriter \<Rightarrow> ref list \<Rightarrow> bool" where
  "no_tailcalls rw xs \<longleftrightarrow> (\<forall>p \<in> set xs. m_opcode (ins rw p) \<noteq> CEE_TAILCALL)"

subsection \<open>Offsets of the original instructions\<close>

lemma count_offset_ok:
  assumes "instr_ok rw T p"
  shows "count_offset p (rw, off) = Inr (set_ins p ((ins rw p)\<lparr>m_offset := word_of_nat off\<rparr>) rw,
    off + size_of (m_opcode (ins rw p)))"
proof -
  have v: "valid_ref rw p" and op: "opcode_valid (m_opcode (ins rw p))"
    using assms by (simp_all add: instr_ok_def)
  show ?thesis
    using v s_OpCodeFlags_valid [OF op]
    by (simp add: count_offset_def size_of_def opcode_bytes_def Let_def)
qed

lemma count_offsets_ok:
  assumes "\<forall>p \<in> set ps. instr_ok rw T p" and "distinct ps"
  shows "\<exists>rw' n. fold_res count_offset ps (rw, off) = Inr (rw', n)
    \<and> relabelled (set ps) rw rw' \<and> offsets_ok rw' off ps"
  using assms
proof (induction ps arbitrary: rw off)
  case Nil
  then show ?case using relabelled_refl by simp
next
  case (Cons p ps)
  let ?rw = "set_ins p ((ins rw p)\<lparr>m_offset := word_of_nat off\<rparr>) rw"
  have ok: "instr_ok rw T p" and v: "valid_ref rw p" and p: "p \<notin> set ps"
    using Cons.prems by (simp_all add: instr_ok_def)
  have rel: "relabelled {p} rw ?rw"
    using v by (rule relabelled_set_offset)
  obtain rw' n where rest: "fold_res count_offset ps (?rw, off + size_of (m_opcode (ins rw p))) = Inr (rw', n)"
    and rel': "relabelled (set ps) ?rw rw'" and offs: "offsets_ok rw' (off + size_of (m_opcode (ins rw p))) ps"
    using Cons.IH [of ?rw "off + size_of (m_opcode (ins rw p))"] Cons.prems relabelled_instr_ok [OF rel]
    by auto
  have "ins rw' p = ins ?rw p"
    using rel' p v by (simp add: relabelled_def)
  then have "offsets_ok rw' off (p # ps)"
    using offs v by simp
  with rest relabelled_trans [OF rel rel'] count_offset_ok [OF ok] show ?case
    by simp
qed

lemma countOffsets_ok:
  assumes "code_ok rw xs"
  shows "\<exists>rw'. countOffsets rw = Inr rw' \<and> relabelled (set xs) rw rw' \<and> offsets_ok rw' 0 xs"
proof -
  have lk: "linked rw xs" and oks: "\<forall>p \<in> set xs. instr_ok rw (set (m_IL # xs)) p"
    using assms by (simp_all add: code_ok_def)
  moreover have "distinct xs"
    using lk by (simp add: linked_def)
  ultimately show ?thesis
    using count_offsets_ok [OF oks, of 0] by (auto simp: countOffsets_def il_list_linked [OF lk])
qed

lemma switches_ok_cong:
  assumes "switches_ok rw ps"
    and "\<And>p. p \<in> set ps \<Longrightarrow> m_opcode (ins rw' p) = m_opcode (ins rw p)"
    and "\<And>p. p \<in> set ps \<Longrightarrow> m_opcode (ins rw p) = CEE_SWITCH \<Longrightarrow> m_arg (ins rw' p) = m_arg (ins rw p)"
  shows "switches_ok rw' ps"
  using assms
proof (induction ps)
  case (Cons p ps)
  have "list_all (\<lambda>q. m_opcode (ins rw' q) = CEE_SWITCH_ARG) (take n ps)
      = list_all (\<lambda>q. m_opcode (ins rw q) = CEE_SWITCH_ARG) (take n ps)" for n
    using Cons.prems(2) by (intro list.pred_cong) (auto dest: in_set_takeD)
  with Cons show ?case
    by (cases "m_arg (ins rw p)") auto
qed simp

lemma relabelled_method_ok:
  assumes rel: "relabelled (set xs) rw rw'" and ok: "method_ok rw xs"
  shows "method_ok rw' xs"
proof -
  have c: "code_ok rw xs"
    using ok by (simp add: method_ok_def)
  have lk: "linked rw xs"
    using c by (simp add: code_ok_def)
  have v: "\<forall>p \<in> set xs. valid_ref rw p" "valid_ref rw m_IL"
    using linked_valid [OF lk] by auto
  have fr: "rw'\<lparr>instrs := []\<rparr> = rw\<lparr>instrs := []\<rparr>" and len: "length (instrs rw') = length (instrs rw)"
    using rel by (simp_all add: relabelled_def)
  then have eh: "m_pEH rw' = m_pEH rw" and n: "m_nInstrs rw' = m_nInstrs rw"
    by (cases rw; cases rw'; simp)+
  have "code_ok rw' xs"
    using relabelled_laid_out [OF rel] c by (rule laid_out_code_ok)
  moreover have "switches_ok rw' xs"
    by (rule switches_ok_cong [of rw]) (use ok v relabelled_fields [OF rel] in \<open>simp_all add: method_ok_def\<close>)
  moreover have "m_opcode (ins rw' m_IL) = m_opcode (ins rw m_IL)"
    using relabelled_fields(1) [OF rel v(2)] .
  moreover have "\<forall>p \<in> set xs. m_opcode (ins rw' p) \<noteq> CEE_COUNT"
    using ok v relabelled_fields(1) [OF rel] by (simp add: method_ok_def)
  ultimately show ?thesis
    using ok eh n len by (simp add: method_ok_def counted_def)
qed

subsection \<open>The scan\<close>

definition scan_ok :: "probe_call set \<Rightarrow> il_rewriter \<Rightarrow> ref list \<Rightarrow> scan_state \<Rightarrow> bool" where
  "scan_ok probes rw xs s \<longleftrightarrow>
     sc_rw s = rw \<and> \<not> sc_isTailCall s
     \<and> (\<forall>i \<in> set (addPriorityProbe s). pi_target i \<in> set xs \<and> pi_probe i \<in> probes)
     \<and> (\<forall>i \<in> set (addTargetProbe s). pi_target i \<in> set (m_IL # xs) \<and> pi_probe i \<in> probes)"

definition probe_set :: "coverage_probes \<Rightarrow> probe_call \<Rightarrow> probe_call set" where
  "probe_set covProb leaveMethod =
     {cp_Coverage covProb, cp_Stsfld covProb, cp_Branch covProb, cp_Call covProb, cp_Throw covProb,
      leaveMethod}"

text \<open>The probe an instruction asks for, with its place: before or after which instruction.\<close>

definition wanted ::
  "coverage_probes \<Rightarrow> probe_call \<Rightarrow> il_rewriter \<Rightarrow> ref \<Rightarrow> (ref \<times> probe_call \<times> bool) list" where
  "wanted covProb leaveMethod rw p =
     (let opcode = m_opcode (ins rw p); q = m_pPrev (ins rw p) in
      if OpcodeIsBranch opcode then [(p, cp_Branch covProb, True)]
      else if opcode = CEE_STSFLD
      then [(if IsPrefix (m_opcode (ins rw q)) then q else p, cp_Stsfld covProb, True)]
      else if opcode \<in> {CEE_CALL, CEE_CALLI, CEE_CALLVIRT, CEE_NEWOBJ} then [(p, cp_Call covProb, False)]
      else if opcode = CEE_RET then [(p, leaveMethod, True)]
      else if opcode \<in> {CEE_ENDFINALLY, CEE_ENDFILTER} then [(p, cp_Coverage covProb, True)]
      else if opcode \<in> {CEE_THROW, CEE_RETHROW} then [(p, cp_Throw covProb, True)]
      else [])"

lemma length_wanted: "length (concat (map (wanted covProb leaveMethod rw) ps)) \<le> length ps"
proof (induction ps)
  case (Cons p ps)
  have "length (wanted covProb leaveMethod rw p) \<le> 1"
    by (simp add: wanted_def Let_def)
  with Cons show ?case by simp
qed simp

definition requests :: "probe_insertion list \<Rightarrow> (ref \<times> probe_call \<times> bool) list" where
  "requests = map (\<lambda>i. (pi_target i, pi_probe i, pi_isBeforeInstr i))"

text \<open>The number of target points of an instruction.\<close>

definition targets_of :: "il_rewriter \<Rightarrow> ref \<Rightarrow> nat" where
  "targets_of rw p =
     (if OpcodeIsBranch (m_opcode (ins rw p))
      then (if m_opcode (ins rw p) = CEE_SWITCH
            then (case m_arg (ins rw p) of Arg w \<Rightarrow> nat (sint (ucast w :: u32)) | Target _ \<Rightarrow> 0) else 1)
      else 0)"

text \<open>
  The target points of a branch: the instructions in front of its targets. For a switch the targets are those
  of the arguments that follow it.
\<close>

definition point_of :: "il_rewriter \<Rightarrow> ref \<Rightarrow> ref" where
  "point_of rw q = (case m_arg (ins rw q) of Target t \<Rightarrow> m_pPrev (ins rw t) | Arg _ \<Rightarrow> m_IL)"

definition points_of :: "il_rewriter \<Rightarrow> ref \<Rightarrow> ref list \<Rightarrow> ref list" where
  "points_of rw p ps =
     (if \<not> OpcodeIsBranch (m_opcode (ins rw p)) then []
      else if m_opcode (ins rw p) = CEE_SWITCH then map (point_of rw) (take (targets_of rw p) ps)
      else [point_of rw p])"

fun target_points :: "il_rewriter \<Rightarrow> ref list \<Rightarrow> ref list" where
  "target_points rw [] = []"
| "target_points rw (p # ps) = points_of rw p ps @ target_points rw ps"

abbreviation (input) coverage_requests :: "coverage_probes \<Rightarrow> ref list \<Rightarrow> (ref \<times> probe_call \<times> bool) list" where
  "coverage_requests covProb \<equiv> map (\<lambda>b. (b, cp_Coverage covProb, False))"

lemma length_points_of: "length (points_of rw p ps) \<le> targets_of rw p"
  by (simp add: points_of_def targets_of_def)

lemma length_target_points: "length (target_points rw ps) \<le> sum_list (map (targets_of rw) ps)"
  by (induction ps) (simp_all add: add_mono length_points_of)

lemma targets_bound:
  "switches_ok rw ps \<Longrightarrow> sum_list (map (targets_of rw) ps) \<le> length ps"
proof (induction "length ps" arbitrary: ps rule: less_induct)
  case less
  show ?case
  proof (cases ps)
    case (Cons p qs)
    have IH: "sum_list (map (targets_of rw) qs') \<le> length qs'" if "length qs' \<le> length qs" "switches_ok rw qs'" for qs'
      using less.hyps [of qs'] that Cons by simp
    show ?thesis
    proof (cases "m_opcode (ins rw p) = CEE_SWITCH")
      case False
      with IH [of qs] less.prems Cons show ?thesis
        by (simp add: targets_of_def)
    next
      case True
      with less.prems Cons obtain w where w: "m_arg (ins rw p) = Arg w"
        and n: "nat (sint (ucast w :: u32)) \<le> length qs"
        and args: "list_all (\<lambda>q. m_opcode (ins rw q) = CEE_SWITCH_ARG) (take (nat (sint (ucast w :: u32))) qs)"
        and sw: "switches_ok rw qs"
        by (auto simp: Let_def split: il_arg.splits)
      let ?n = "nat (sint (ucast w :: u32))"
      have "switches_ok rw (drop k qs')" if "switches_ok rw qs'" for k qs'
        using that by (induction qs' arbitrary: k) (auto simp: drop_Cons split: nat.splits)
      then have rest: "sum_list (map (targets_of rw) (drop ?n qs)) \<le> length qs - ?n"
        using IH [of "drop ?n qs"] sw by simp
      have zero: "sum_list (map (targets_of rw) (take ?n qs)) = 0"
        using args by (auto simp: list_all_iff targets_of_def OpcodeIsBranch_def)
      have "map (targets_of rw) qs = map (targets_of rw) (take ?n qs) @ map (targets_of rw) (drop ?n qs)"
        by (simp flip: map_append)
      then have "sum_list (map (targets_of rw) qs) \<le> length qs - ?n"
        using rest by (simp only: sum_list_append zero add_0)
      moreover have "targets_of rw p = ?n"
        using True w by (simp add: targets_of_def OpcodeIsBranch_def)
      ultimately show ?thesis
        using n Cons by simp
    qed
  qed simp
qed

lemma requests_push [simp]:
  "requests (addPriorityProbe (push_priority p probe b s)) = requests (addPriorityProbe s) @ [(p, probe, b)]"
  "addPriorityProbe (push_target p q probe s) = addPriorityProbe s"
  "requests (addTargetProbe (push_target p q probe s)) = requests (addTargetProbe s) @ [(p, probe, False)]"
  "addTargetProbe (push_priority p probe b s) = addTargetProbe s"
  by (simp_all add: requests_def push_priority_def push_target_def)

lemma push_priority_ok:
  "scan_ok probes rw xs s \<Longrightarrow> p \<in> set xs \<Longrightarrow> probe \<in> probes \<Longrightarrow>
    scan_ok probes rw xs (push_priority p probe before s)"
  by (auto simp: scan_ok_def push_priority_def)

lemma push_target_ok:
  "scan_ok probes rw xs s \<Longrightarrow> p \<in> set (m_IL # xs) \<Longrightarrow> probe \<in> probes \<Longrightarrow>
    scan_ok probes rw xs (push_target p q probe s)"
  by (auto simp: scan_ok_def push_target_def)

lemma linked_prev_in:
  assumes "linked rw xs" and "p \<in> set (m_IL # xs)"
  shows "m_pPrev (ins rw p) \<in> set (m_IL # xs)" and "m_pNext (ins rw p) \<in> set (m_IL # xs)"
proof -
  consider "p = m_IL" | us vs where "xs = us @ p # vs"
    using assms(2) by (auto dest: split_list)
  then have "m_pPrev (ins rw p) \<in> set (m_IL # xs) \<and> m_pNext (ins rw p) \<in> set (m_IL # xs)"
  proof cases
    case 1
    have "m_pPrev (ins rw m_IL) = last (m_IL # xs)" "m_pNext (ins rw m_IL) = hd (xs @ [m_IL])"
      using linked_neighbours(2) [of rw xs "[]"] linked_neighbours(1) [of rw "[]" xs] assms(1) by simp_all
    moreover have "last (m_IL # xs) \<in> set (m_IL # xs)" "hd (xs @ [m_IL]) \<in> set (m_IL # xs)"
      by (rule last_in_set, simp) (cases xs; simp)
    ultimately show ?thesis using 1 by metis
  next
    case 2
    have "m_pPrev (ins rw p) = last (m_IL # us)" "m_pNext (ins rw p) = hd (vs @ [m_IL])"
      using linked_neighbours(2) [of rw us "p # vs"] linked_neighbours(1) [of rw "us @ [p]" vs] assms(1) 2
      by simp_all
    moreover have "last (m_IL # us) \<in> set (m_IL # us)" "hd (vs @ [m_IL]) \<in> set (m_IL # vs)"
      by (rule last_in_set, simp) (cases vs; simp)
    ultimately show ?thesis using 2 by auto
  qed
  then show "m_pPrev (ins rw p) \<in> set (m_IL # xs)" and "m_pNext (ins rw p) \<in> set (m_IL # xs)"
    by blast+
qed

lemma before_target_ok:
  assumes "code_ok rw xs" and "p \<in> set xs" and "branching (flags_of (m_opcode (ins rw p)))"
  shows "point_of rw p \<in> set (m_IL # xs)" and "before_target (ins rw p) rw = Inr (point_of rw p)"
proof -
  have lk: "linked rw xs" and ok: "instr_ok rw (set (m_IL # xs)) p"
    using assms by (simp_all add: code_ok_def)
  obtain t where t: "t \<in> set (m_IL # xs)" and arg: "m_arg (ins rw p) = Target t"
    using ok assms(3) by (auto simp: instr_ok_def)
  from linked_prev_in(1) [OF lk t] linked_valid [OF lk t]
  show "point_of rw p \<in> set (m_IL # xs)" and "before_target (ins rw p) rw = Inr (point_of rw p)"
    by (simp_all add: before_target_def target_of_def point_of_def arg)
qed

lemma branch_flags:
  assumes "OpcodeIsBranch op" and "op \<noteq> CEE_SWITCH"
  shows "branching (flags_of op)"
proof -
  from assms have "op = 222 \<or> 43 \<le> op \<and> op \<le> 55 \<or> op = 221 \<or> 56 \<le> op \<and> op \<le> 68" and "op < 294"
    by (auto simp: OpcodeIsBranch_def)
  with row_ok_at [of op] show ?thesis
    by (auto simp: row_ok_def)
qed

lemma push_switch_targets_ok:
  assumes ok: "code_ok rw xs" and probes: "cp_Coverage covProb \<in> probes"
  shows "scan_ok probes rw xs s \<Longrightarrow> xs = us @ vs \<Longrightarrow> n \<le> length vs \<Longrightarrow>
    list_all (\<lambda>q. m_opcode (ins rw q) = CEE_SWITCH_ARG) (take n vs) \<Longrightarrow>
    \<exists>s'. push_switch_targets n covProb (hd (vs @ [m_IL])) p s = Inr s' \<and> scan_ok probes rw xs s'
      \<and> addPriorityProbe s' = addPriorityProbe s
      \<and> requests (addTargetProbe s') = requests (addTargetProbe s)
          @ coverage_requests covProb (map (point_of rw) (take n vs))"
proof (induction n arbitrary: us vs s)
  case 0
  then show ?case by simp
next
  case (Suc n)
  then obtain v vs' where vs: "vs = v # vs'"
    by (cases vs) auto
  have lk: "linked rw xs" and rw: "sc_rw s = rw"
    using ok Suc.prems by (simp_all add: code_ok_def scan_ok_def)
  have v: "v \<in> set xs" and arg: "m_opcode (ins rw v) = CEE_SWITCH_ARG"
    using Suc.prems vs by simp_all
  have nx: "m_pNext (ins rw v) = hd (vs' @ [m_IL])"
    using linked_neighbours(1) [of rw "us @ [v]" vs'] lk Suc.prems(2) vs by simp
  let ?b = "point_of rw v"
  have b: "?b \<in> set (m_IL # xs)" "before_target (ins rw v) rw = Inr ?b"
    using before_target_ok [OF ok v] arg switch_flags(2) by auto
  have "scan_ok probes rw xs (push_target ?b p (cp_Coverage covProb) s)"
    using Suc.prems(1) b(1) probes by (rule push_target_ok)
  then have "\<exists>s'. push_switch_targets n covProb (hd (vs' @ [m_IL])) p
      (push_target ?b p (cp_Coverage covProb) s) = Inr s' \<and> scan_ok probes rw xs s'
      \<and> addPriorityProbe s' = addPriorityProbe (push_target ?b p (cp_Coverage covProb) s)
      \<and> requests (addTargetProbe s') = requests (addTargetProbe (push_target ?b p (cp_Coverage covProb) s))
          @ coverage_requests covProb (map (point_of rw) (take n vs'))"
    using Suc.prems vs by (intro Suc.IH [of _ "us @ [v]"]) simp_all
  moreover have "valid_ref rw v"
    using linked_valid [OF lk] v by simp
  ultimately show ?case
    using b(2) arg nx by (simp add: vs rw)
qed

lemma scan_branch_ok:
  assumes ok: "code_ok rw xs" and xs: "xs = us @ p # vs" and sw: "switches_ok rw (p # vs)"
    and s: "scan_ok probes rw xs s" and br: "OpcodeIsBranch (m_opcode (ins rw p))"
    and pr: "cp_Branch covProb \<in> probes" "cp_Coverage covProb \<in> probes"
  shows "\<exists>s'. scan_branch covProb p (ins rw p) s = Inr s' \<and> scan_ok probes rw xs s'
    \<and> requests (addPriorityProbe s') = requests (addPriorityProbe s) @ [(p, cp_Branch covProb, True)]
    \<and> requests (addTargetProbe s') = requests (addTargetProbe s)
        @ coverage_requests covProb (points_of rw p vs)"
proof -
  let ?s = "push_priority p (cp_Branch covProb) PIBeforeInstr s"
  have p: "p \<in> set xs" using xs by simp
  have s1: "scan_ok probes rw xs ?s"
    using s p pr(1) by (rule push_priority_ok)
  have rw: "sc_rw ?s = rw"
    using s1 by (simp add: scan_ok_def)
  show ?thesis
  proof (cases "m_opcode (ins rw p) = CEE_SWITCH")
    case True
    with sw obtain w where w: "m_arg (ins rw p) = Arg w"
      and n: "nat (sint (ucast w :: u32)) \<le> length vs"
      and args: "list_all (\<lambda>q. m_opcode (ins rw q) = CEE_SWITCH_ARG) (take (nat (sint (ucast w :: u32))) vs)"
      by (auto simp: Let_def split: il_arg.splits)
    have "m_pNext (ins rw p) = hd (vs @ [m_IL])"
      using linked_neighbours(1) [of rw "us @ [p]" vs] ok xs by (simp add: code_ok_def)
    with True w push_switch_targets_ok [OF ok pr(2) s1, of "us @ [p]" vs, OF _ n args, of p] xs show ?thesis
      by (fastforce simp: scan_branch_def arg_of_def points_of_def targets_of_def OpcodeIsBranch_def)
  next
    case False
    then have b: "point_of rw p \<in> set (m_IL # xs)" "before_target (ins rw p) rw = Inr (point_of rw p)"
      using before_target_ok [OF ok p] branch_flags [OF br] by blast+
    have "scan_ok probes rw xs (push_target (point_of rw p) p (cp_Coverage covProb) ?s)"
      using s1 b(1) pr(2) by (rule push_target_ok)
    with False b(2) rw br show ?thesis
      by (simp add: scan_branch_def points_of_def Let_def)
  qed
qed

lemma scan_step_ok:
  assumes ok: "code_ok rw xs" and sentinel: "m_opcode (ins rw m_IL) = 2 ^ 32 - 1"
    and xs: "xs = us @ p # vs" and sw: "switches_ok rw (p # vs)" and nt: "no_tailcalls rw xs"
    and s: "scan_ok (probe_set covProb leaveMethod) rw xs s"
  shows "\<exists>s'. scan_step covProb leaveMethod p s = Inr (p, s') \<and> scan_ok (probe_set covProb leaveMethod) rw xs s'
    \<and> requests (addPriorityProbe s') = requests (addPriorityProbe s) @ wanted covProb leaveMethod rw p
    \<and> requests (addTargetProbe s') = requests (addTargetProbe s)
        @ coverage_requests covProb (points_of rw p vs)"
proof -
  let ?P = "probe_set covProb leaveMethod"
  have lk: "linked rw xs" and rw: "sc_rw s = rw" and nts: "\<not> sc_isTailCall s"
    using ok s by (simp_all add: code_ok_def scan_ok_def)
  have p: "p \<in> set xs" using xs by simp
  have v: "valid_ref rw p" and vp: "valid_ref rw (m_pPrev (ins rw p))"
    using linked_valid [OF lk] linked_prev_in(1) [OF lk, of p] p by auto
  have push: "scan_ok ?P rw xs (push_priority p probe b s)" if "probe \<in> ?P" for probe b
    using s p that by (rule push_priority_ok)
  have prev: "m_pPrev (ins rw p) \<in> set xs" if "IsPrefix (m_opcode (ins rw (m_pPrev (ins rw p))))"
    using linked_prev_in(1) [OF lk, of p] p that sentinel by (auto simp: IsPrefix_def)
  have notail: "m_opcode (ins rw p) \<noteq> CEE_TAILCALL"
    using nt p by (simp add: no_tailcalls_def)
  have in_P: "cp_Coverage covProb \<in> ?P" "cp_Stsfld covProb \<in> ?P" "cp_Branch covProb \<in> ?P"
    "cp_Call covProb \<in> ?P" "cp_Throw covProb \<in> ?P" "leaveMethod \<in> ?P"
    by (simp_all add: probe_set_def)
  show ?thesis
  proof (cases "OpcodeIsBranch (m_opcode (ins rw p))")
    case True
    from scan_branch_ok [OF ok xs sw s True in_P(3,1)] True v rw show ?thesis
      by (auto simp: scan_step_def wanted_def Let_def)
  next
    case False
    show ?thesis
      using False v vp rw nts notail push [OF in_P(1)] push [OF in_P(4)] push [OF in_P(5)] push [OF in_P(6)] s
        push_priority_ok [OF s prev in_P(2)] push [OF in_P(2)]
      by (simp add: scan_step_def wanted_def points_of_def Let_def)
  qed
qed

lemma scan_loop_ok:
  assumes ok: "code_ok rw xs" and sentinel: "m_opcode (ins rw m_IL) = 2 ^ 32 - 1"
    and nt: "no_tailcalls rw xs"
  shows "xs = us @ vs \<Longrightarrow> switches_ok rw vs \<Longrightarrow> scan_ok (probe_set covProb leaveMethod) rw xs s \<Longrightarrow>
    length vs \<le> n \<Longrightarrow>
    \<exists>s'. scan_loop n covProb leaveMethod (hd (vs @ [m_IL])) s = Inr s'
      \<and> scan_ok (probe_set covProb leaveMethod) rw xs s'
      \<and> requests (addPriorityProbe s') = requests (addPriorityProbe s)
          @ concat (map (wanted covProb leaveMethod rw) vs)
      \<and> requests (addTargetProbe s') = requests (addTargetProbe s)
          @ coverage_requests covProb (target_points rw vs)"
proof (induction vs arbitrary: us s n)
  case Nil
  then show ?case by (cases n) simp_all
next
  case (Cons p vs)
  then obtain k where n: "n = Suc k"
    by (cases n) auto
  have lk: "linked rw xs"
    using ok by (simp add: code_ok_def)
  obtain s1 where step: "scan_step covProb leaveMethod p s = Inr (p, s1)"
    and s1: "scan_ok (probe_set covProb leaveMethod) rw xs s1"
    and rq: "requests (addPriorityProbe s1) = requests (addPriorityProbe s) @ wanted covProb leaveMethod rw p"
    and tg: "requests (addTargetProbe s1) = requests (addTargetProbe s)
      @ coverage_requests covProb (points_of rw p vs)"
    using scan_step_ok [OF ok sentinel Cons.prems(1,2) nt Cons.prems(3)] by blast
  have "p \<noteq> m_IL" and "valid_ref rw p"
    using lk linked_valid [OF lk, of p] Cons.prems(1) by (auto simp: linked_def)
  moreover have "m_pNext (ins rw p) = hd (vs @ [m_IL])"
    using linked_neighbours(1) [of rw "us @ [p]" vs] lk Cons.prems(1) by simp
  moreover have "sc_rw s1 = rw"
    using s1 by (simp add: scan_ok_def)
  moreover have "\<exists>s'. scan_loop k covProb leaveMethod (hd (vs @ [m_IL])) s1 = Inr s'
      \<and> scan_ok (probe_set covProb leaveMethod) rw xs s'
      \<and> requests (addPriorityProbe s') = requests (addPriorityProbe s1)
          @ concat (map (wanted covProb leaveMethod rw) vs)
      \<and> requests (addTargetProbe s') = requests (addTargetProbe s1)
          @ coverage_requests covProb (target_points rw vs)"
    using Cons.prems s1 n by (intro Cons.IH [of "us @ [p]"]) simp_all
  ultimately show ?case
    using step n rq tg by (simp add: add.assoc)
qed

lemma push_handlers_ok:
  assumes "scan_ok probes rw xs s" and "\<forall>c \<in> set cs. m_pHandlerBegin c \<in> set xs" and "probe \<in> probes"
  shows "scan_ok probes rw xs (fold (\<lambda>c. push_priority (m_pHandlerBegin c) probe PIBeforeInstr) cs s)
    \<and> requests (addPriorityProbe (fold (\<lambda>c. push_priority (m_pHandlerBegin c) probe PIBeforeInstr) cs s))
      = requests (addPriorityProbe s) @ map (\<lambda>c. (m_pHandlerBegin c, probe, True)) cs
    \<and> addTargetProbe (fold (\<lambda>c. push_priority (m_pHandlerBegin c) probe PIBeforeInstr) cs s) = addTargetProbe s"
  using assms(1,2)
proof (induction cs arbitrary: s)
  case (Cons c cs)
  then show ?case
    using push_priority_ok [OF Cons.prems(1), of "m_pHandlerBegin c" probe PIBeforeInstr] assms(3) by simp
qed simp

lemma scan_result:
  assumes ok: "method_ok rw xs" and nt: "no_tailcalls rw xs"
  shows "\<exists>s. scan covProb leaveMethod rw = Inr s \<and> scan_ok (probe_set covProb leaveMethod) rw xs s
    \<and> requests (addPriorityProbe s) = concat (map (wanted covProb leaveMethod rw) xs)
        @ map (\<lambda>c. (m_pHandlerBegin c, cp_Throw covProb, True)) (m_pEH rw)
    \<and> requests (addTargetProbe s) = coverage_requests covProb (target_points rw xs)"
proof -
  let ?P = "probe_set covProb leaveMethod"
  let ?s = "\<lparr>sc_rw = rw, sc_isTailCall = False, addPriorityProbe = [], addTargetProbe = []\<rparr>"
  have c: "code_ok rw xs" and sent: "m_opcode (ins rw m_IL) = 2 ^ 32 - 1" and sw: "switches_ok rw xs"
    and hb: "\<forall>c \<in> set (m_pEH rw). m_pHandlerBegin c \<in> set xs" and lk: "linked rw xs"
    using ok by (simp_all add: method_ok_def code_ok_def)
  have "length xs \<le> length (instrs rw)"
    using linked_length [OF lk] by simp
  then obtain s where loop: "scan_loop (length (instrs rw)) covProb leaveMethod (hd (xs @ [m_IL])) ?s = Inr s"
    and s: "scan_ok ?P rw xs s"
    and rq: "requests (addPriorityProbe s) = concat (map (wanted covProb leaveMethod rw) xs)"
    and tg: "requests (addTargetProbe s) = coverage_requests covProb (target_points rw xs)"
    using scan_loop_ok [OF c sent nt, of "[]" xs covProb leaveMethod ?s "length (instrs rw)"] sw
    by (auto simp: scan_ok_def requests_def)
  have "m_pNext (ins rw m_IL) = hd (xs @ [m_IL])" and "valid_ref rw m_IL"
    using linked_neighbours(1) [of rw "[]" xs] linked_valid [OF lk] lk by simp_all
  then have "scan covProb leaveMethod rw = Inr (push_handlers covProb s)"
    using loop by (simp add: scan_def)
  moreover have "sc_rw s = rw"
    using s by (simp add: scan_ok_def)
  ultimately show ?thesis
    using push_handlers_ok [OF s hb, of "cp_Throw covProb"] rq tg
    by (simp add: push_handlers_def probe_set_def)
qed

subsection \<open>The insertions\<close>

lemma padding_elem:
  "padding t probes methodId off cs \<Longrightarrow> c \<in> set cs \<Longrightarrow>
    c = nop_code \<or> (\<exists>probe \<in> probes. c \<in> set (probe_code t probe off methodId))"
  by (induction rule: padding.induct) auto

lemma block_elem:
  assumes "block t probes methodId rw0 rw x b" and "p \<in> set b"
  shows "code rw p = nop_code \<or> (\<exists>probe off. code rw p \<in> set (probe_code t probe off methodId))
    \<or> code rw p = code rw0 x"
  using assms(1)
proof cases
  case (block_head post)
  then have "p = x \<or> code rw p \<in> set (map (code rw) post)"
    using assms(2) by auto
  with block_head padding_elem [of t probes methodId "m_offset (ins rw0 x)"] show ?thesis by metis
next
  case (block_moved pre y post)
  then have "p = x \<or> p = y \<or> code rw p \<in> set (map (code rw) pre) \<or> code rw p \<in> set (map (code rw) post)"
    using assms(2) by auto
  with block_moved padding_elem [of t probes methodId "m_offset (ins rw0 x)"] show ?thesis by metis
qed

lemma woven_elem:
  assumes "list_all2 (block t probes methodId rw0 rw) xs bs" and "p \<in> set (concat bs)"
  obtains "code rw p = nop_code" | probe off where "code rw p \<in> set (probe_code t probe off methodId)"
    | x where "x \<in> set xs" "code rw p = code rw0 x"
proof -
  have "\<exists>x \<in> set xs. \<exists>b. block t probes methodId rw0 rw x b \<and> p \<in> set b"
    using assms by (induction xs bs rule: list_all2_induct) auto
  with that block_elem show ?thesis by metis
qed

text \<open>Well-formedness of an instruction is a matter of its code.\<close>

definition good_code :: "ref set \<Rightarrow> nat \<times> il_arg \<Rightarrow> bool" where
  "good_code T c \<longleftrightarrow>
     opcode_valid (fst c)
     \<and> (if branching (flags_of (fst c)) then (\<exists>t \<in> T. snd c = Target t)
        else flags_of (fst c) = 0 \<or> (\<exists>w. snd c = Arg w))"

lemma instr_ok_code: "instr_ok rw T p \<longleftrightarrow> valid_ref rw p \<and> good_code T (code rw p)"
  by (simp add: instr_ok_def good_code_def code_def norm_code_def)

lemma good_code_mono: "good_code T c \<Longrightarrow> T \<subseteq> T' \<Longrightarrow> good_code T' c"
  by (auto simp: good_code_def split: if_splits)

lemma good_probe_code: "c \<in> set (probe_code t probe off methodId) \<Longrightarrow> good_code T c"
  using probe_opcodes_valid by (auto simp: probe_code_def good_code_def probe_flags)

lemma good_nop_code: "good_code T nop_code"
  using probe_opcodes_valid by (simp add: good_code_def flags_of_nop)

lemma woven_instr_ok:
  assumes "code_ok rw0 xs" and "list_all2 (block t probes methodId rw0 rw) xs bs" and "p \<in> set (concat bs)"
  shows "good_code (set (m_IL # xs)) (code rw p)"
  using assms(2,3)
proof (cases rule: woven_elem)
  case (3 x)
  then show ?thesis using assms(1) by (simp add: code_ok_def instr_ok_code)
qed (simp_all add: good_nop_code good_probe_code)

lemma woven_no_tailcall:
  assumes "woven t probes methodId rw0 xs rw bs" and "no_tailcalls rw0 xs"
    and "m_opcode (ins rw0 m_IL) = 2 ^ 32 - 1" and "p \<in> set (m_IL # concat bs)"
  shows "m_opcode (ins rw p) \<noteq> CEE_TAILCALL"
proof (cases "p = m_IL")
  case True
  then show ?thesis using assms(1,3) by (simp add: woven_def payload_def)
next
  case False
  then have p: "p \<in> set (concat bs)" and bl: "list_all2 (block t probes methodId rw0 rw) xs bs"
    using assms(1,4) by (simp_all add: woven_def)
  from bl p have "fst (code rw p) \<noteq> CEE_TAILCALL"
  proof (cases rule: woven_elem)
    case (3 x)
    then show ?thesis using assms(2) by (simp add: no_tailcalls_def code_def norm_code_def)
  qed (auto simp: probe_code_def)
  then show ?thesis by (simp add: code_def norm_code_def)
qed

lemma IsTailcallRet_woven:
  assumes w: "woven t probes methodId rw0 xs rw bs" and "no_tailcalls rw0 xs"
    and "m_opcode (ins rw0 m_IL) = 2 ^ 32 - 1" and p: "p \<in> set (m_IL # concat bs)"
  shows "IsTailcallRet p rw = Inr False"
proof -
  have lk: "linked rw (concat bs)"
    using w by (simp add: woven_def)
  note in1 = linked_prev_in(1) [OF lk p]
  note in2 = linked_prev_in(1) [OF lk in1]
  show ?thesis
    using linked_valid [OF lk p] linked_valid [OF lk in1] linked_valid [OF lk in2]
      woven_no_tailcall [OF assms(1-3) in2]
    by (simp add: IsTailcallRet_def)
qed

lemma woven_head:
  assumes "woven t probes methodId rw0 xs rw bs" and "x \<in> set (m_IL # xs)"
  shows "x \<in> set (m_IL # concat bs)" and "valid_ref rw x"
proof -
  have "list_all2 (block t probes methodId rw0 rw) xs bs" and lk: "linked rw (concat bs)"
    using assms(1) by (simp_all add: woven_def)
  from heads_in [OF this(1)] assms(2) show "x \<in> set (m_IL # concat bs)"
    by auto
  then show "valid_ref rw x"
    by (rule linked_valid [OF lk])
qed

subsection \<open>Probes that were asked for\<close>

text \<open>
  The exact code of the block of an original instruction: the calls of the probes asked for in front of it, the last one
  first, each behind a \<^verbatim>\<open>nop\<close>; the original opcode and operand; the calls of the probes asked for behind it,
  again the last one first, each followed by a \<^verbatim>\<open>nop\<close>.
\<close>

definition woven_code ::
  "tid \<Rightarrow> u32 \<Rightarrow> il_rewriter \<Rightarrow> ref \<Rightarrow> probe_call list \<Rightarrow> probe_call list \<Rightarrow> (nat \<times> il_arg) list" where
  "woven_code t methodId rw0 x befores afters =
     concat (map (\<lambda>probe. nop_code # probe_code t probe (m_offset (ins rw0 x)) methodId) (rev befores))
     @ code rw0 x
     # concat (map (\<lambda>probe. probe_code t probe (m_offset (ins rw0 x)) methodId @ [nop_code]) (rev afters))"

definition probes_at :: "bool \<Rightarrow> ref \<Rightarrow> (ref \<times> probe_call \<times> bool) list \<Rightarrow> probe_call list" where
  "probes_at before x reqs = map (fst \<circ> snd) (filter (\<lambda>(p, _, b). p = x \<and> b = before) reqs)"

definition placed ::
  "tid \<Rightarrow> u32 \<Rightarrow> il_rewriter \<Rightarrow> ref list \<Rightarrow> il_rewriter \<Rightarrow> ref list list
    \<Rightarrow> (ref \<times> probe_call \<times> bool) list \<Rightarrow> bool" where
  "placed t methodId rw0 xs rw bs reqs \<longleftrightarrow>
     list_all2 (\<lambda>x b. map (code rw) b = woven_code t methodId rw0 x (probes_at True x reqs) (probes_at False x reqs))
       xs bs"

lemma probes_at_simps [simp]:
  "probes_at before x [] = []"
  "probes_at before x (us @ vs) = probes_at before x us @ probes_at before x vs"
  "probes_at before x [(p, probe, b)] = (if p = x \<and> b = before then [probe] else [])"
  by (simp_all add: probes_at_def)

lemma probes_at_empty: "x \<notin> fst ` set reqs \<Longrightarrow> probes_at before x reqs = []"
  by (force simp: probes_at_def filter_empty_conv)

lemma woven_code_before:
  "woven_code t methodId rw0 x (befores @ [probe]) afters
    = nop_code # probe_code t probe (m_offset (ins rw0 x)) methodId @ woven_code t methodId rw0 x befores afters"
  by (simp add: woven_code_def)

lemma woven_code_after:
  "woven_code t methodId rw0 x [] (afters @ [probe])
    = code rw0 x # probe_code t probe (m_offset (ins rw0 x)) methodId @ nop_code
        # tl (woven_code t methodId rw0 x [] afters)"
  by (simp add: woven_code_def)

lemma woven_code_hd: "hd (woven_code t methodId rw0 x [] afters) = code rw0 x"
  by (simp add: woven_code_def)

text \<open>
  A probe goes behind an instruction only as long as no probe stands in front of it; then
  each insertion makes exactly one block grow.
\<close>

lemma placed_grow:
  assumes blk: "map (code rw) (x # rest) = woven_code t methodId rw0 x befores afters"
    and same: "\<And>p. p \<in> set rest \<Longrightarrow> code rw' p = code rw p"
    and n: "if before then code rw' x = nop_code \<and> code rw' n = code rw x
      else code rw' x = code rw x \<and> code rw' n = nop_code"
    and R: "map (code rw') R = probe_code t probe (m_offset (ins rw0 x)) methodId"
    and free: "before \<or> befores = []"
  shows "map (code rw') (x # R @ n # rest)
    = woven_code t methodId rw0 x (if before then befores @ [probe] else befores)
        (if before then afters else afters @ [probe])"
proof (cases before)
  case True
  have "map (code rw') rest = map (code rw) rest"
    using same by simp
  then have "map (code rw') (x # R @ n # rest) = nop_code # probe_code t probe (m_offset (ins rw0 x)) methodId
      @ map (code rw) (x # rest)"
    using True n R by (simp del: map_eq_conv)
  with True blk show ?thesis by (simp add: woven_code_before)
next
  case False
  with free have b: "befores = []" by simp
  have hd: "code rw x = code rw0 x"
    using arg_cong [OF blk, of hd] unfolding b by (simp add: woven_code_hd)
  have tl: "map (code rw) rest = tl (woven_code t methodId rw0 x [] afters)"
    using arg_cong [OF blk, of tl] unfolding b by simp
  have "map (code rw') rest = map (code rw) rest"
    using same by simp
  then have "map (code rw') (x # R @ n # rest) = code rw0 x # probe_code t probe (m_offset (ins rw0 x)) methodId
      @ nop_code # tl (woven_code t methodId rw0 x [] afters)"
    using False n R hd tl by (simp del: map_eq_conv)
  with False b show ?thesis by (simp add: woven_code_after)
qed

lemma placed_elsewhere:
  assumes "list_all2 (\<lambda>y b. map (code rw) b = woven_code t methodId rw0 y (probes_at True y reqs) (probes_at False y reqs)) us bu"
    and "x \<notin> set us" and "\<And>p. p \<in> set (concat bu) \<Longrightarrow> code rw' p = code rw p"
  shows "list_all2 (\<lambda>y b. map (code rw') b = woven_code t methodId rw0 y (probes_at True y (reqs @ [(x, probe, before)]))
    (probes_at False y (reqs @ [(x, probe, before)]))) us bu"
  using assms(1)
proof (rule list.rel_mono_strong)
  fix y b
  assume y: "y \<in> set us" and b: "b \<in> set bu"
    and eq: "map (code rw) b = woven_code t methodId rw0 y (probes_at True y reqs) (probes_at False y reqs)"
  have "map (code rw') b = map (code rw) b"
    using assms(3) b by auto
  moreover have "x \<noteq> y"
    using assms(2) y by auto
  ultimately show "map (code rw') b = woven_code t methodId rw0 y (probes_at True y (reqs @ [(x, probe, before)]))
      (probes_at False y (reqs @ [(x, probe, before)]))"
    using eq by simp
qed

lemma placed_grew:
  assumes w: "woven t probes methodId rw0 xs rw bs" and x: "x \<in> set xs" and d: "distinct xs"
    and g: "grew t methodId rw0 x probe before rw bs rw' bs'"
    and pl: "placed t methodId rw0 xs rw bs reqs" and free: "before \<or> probes_at True x reqs = []"
  shows "placed t methodId rw0 xs rw' bs' (reqs @ [(x, probe, before)])"
proof -
  from g obtain bu rest bv R n where bs: "bs = bu @ (x # rest) # bv" and bs': "bs' = bu @ (x # R @ n # rest) # bv"
    and R: "map (code rw') R = probe_code t probe (m_offset (ins rw0 x)) methodId"
    and same: "\<And>p. p \<in> set (concat bs) \<Longrightarrow> p \<noteq> x \<Longrightarrow> code rw' p = code rw p"
    and n: "if before then code rw' x = nop_code \<and> code rw' n = code rw x
      else code rw' x = code rw x \<and> code rw' n = nop_code"
    unfolding grew_def by blast
  have dc: "distinct (concat bs)" and bl: "list_all2 (block t probes methodId rw0 rw) xs bs"
    using w by (simp_all add: woven_def linked_def)
  obtain us y vs where xs: "xs = us @ y # vs" and "length us = length bu" and "length vs = length bv"
    and "block t probes methodId rw0 rw y (x # rest)"
    using bl by (auto simp: bs list_all2_append2 list_all2_Cons2 dest: list_all2_lengthD)
  then have y: "y = x" and len: "length us = length bu"
    using block_Cons [of t probes methodId rw0 rw y "x # rest"] by auto
  have parts: "list_all2 (\<lambda>y b. map (code rw) b = woven_code t methodId rw0 y (probes_at True y reqs) (probes_at False y reqs)) us bu"
    "map (code rw) (x # rest) = woven_code t methodId rw0 x (probes_at True x reqs) (probes_at False x reqs)"
    "list_all2 (\<lambda>y b. map (code rw) b = woven_code t methodId rw0 y (probes_at True y reqs) (probes_at False y reqs)) vs bv"
    using pl len unfolding placed_def xs bs y by (simp_all add: list_all2_append del: list.map)
  have rest: "code rw' p = code rw p" if "p \<in> set rest" for p
    using same [of p] that dc by (auto simp: bs)
  have out: "x \<notin> set us" "x \<notin> set vs"
    using d xs y by auto
  have elsewhere: "code rw' p = code rw p" if "p \<in> set (concat bu) \<union> set (concat bv)" for p
    using same [of p] that dc by (auto simp: bs)
  have "map (code rw') (x # R @ n # rest)
      = woven_code t methodId rw0 x (probes_at True x (reqs @ [(x, probe, before)]))
          (probes_at False x (reqs @ [(x, probe, before)]))"
    using placed_grow [OF parts(2) rest n R free] by (cases before) simp_all
  with placed_elsewhere [OF parts(1) out(1) elsewhere] placed_elsewhere [OF parts(3) out(2) elsewhere] len
  show ?thesis
    unfolding placed_def xs bs' y by (simp add: list_all2_append del: list.map)
qed

text \<open>
  The set of covered offsets holds those of the instructions at which a probe was inserted.
  Offsets tell instructions apart as long as the code is shorter than four gigabytes.
\<close>

abbreviation (input) covered :: "il_rewriter \<Rightarrow> (ref \<times> probe_call \<times> bool) list \<Rightarrow> u32 set" where
  "covered rw0 reqs \<equiv> (\<lambda>x. m_offset (ins rw0 x)) ` fst ` set reqs"

lemma size_of_pos: "opcode_valid opcode \<Longrightarrow> opcode \<noteq> CEE_COUNT \<Longrightarrow> 0 < size_of opcode"
  by (erule opcode_valid_cases) (simp_all add: size_of_def opcode_bytes_def flags_beyond)

lemma offsets_at_least:
  assumes "offsets_ok rw off ps" and "off + code_size rw ps < 2 ^ 32" and "p \<in> set ps"
  shows "off \<le> unat (m_offset (ins rw p))"
  using assms
proof (induction ps arbitrary: off)
  case (Cons q ps)
  show ?case
  proof (cases "p = q")
    case True
    with Cons.prems show ?thesis by (simp add: unat_u32_of_nat)
  next
    case False
    with Cons.IH [of "off + size_of (opc rw q)"] Cons.prems show ?thesis by simp
  qed
qed simp

lemma offsets_inj:
  assumes "offsets_ok rw off ps" and "off + code_size rw ps < 2 ^ 32"
    and "\<forall>p \<in> set ps. 0 < size_of (opc rw p)" and "distinct ps"
  shows "inj_on (\<lambda>p. m_offset (ins rw p)) (set ps)"
  using assms
proof (induction ps arbitrary: off)
  case (Cons q ps)
  have "unat (m_offset (ins rw q)) = off"
    using Cons.prems by (simp add: unat_u32_of_nat)
  moreover have "off + size_of (opc rw q) \<le> unat (m_offset (ins rw p))" if "p \<in> set ps" for p
    using offsets_at_least [OF _ _ that, of rw "off + size_of (opc rw q)"] Cons.prems by simp
  moreover have "0 < size_of (opc rw q)"
    using Cons.prems by simp
  ultimately have "m_offset (ins rw q) \<notin> (\<lambda>p. m_offset (ins rw p)) ` set ps"
    by fastforce
  moreover have "inj_on (\<lambda>p. m_offset (ins rw p)) (set ps)"
    using Cons.IH [of "off + size_of (opc rw q)"] Cons.prems by simp
  ultimately show ?case
    using Cons.prems by (simp add: inj_on_insert)
qed simp

abbreviation (input) good_state ::
  "tid \<Rightarrow> probe_call set \<Rightarrow> u32 \<Rightarrow> il_rewriter \<Rightarrow> ref list \<Rightarrow> (ref \<times> probe_call \<times> bool) list
    \<Rightarrow> il_rewriter \<Rightarrow> ref list list \<Rightarrow> bool" where
  "good_state t probes methodId rw0 xs reqs rw bs \<equiv>
     woven t probes methodId rw0 xs rw bs \<and> placed t methodId rw0 xs rw bs reqs
     \<and> fst ` set reqs \<subseteq> set xs"

abbreviation (input) request :: "probe_insertion \<Rightarrow> ref \<times> probe_call \<times> bool" where
  "request i \<equiv> (pi_target i, pi_probe i, pi_isBeforeInstr i)"

lemma insert_priority_woven:
  assumes w: "good_state t probes methodId rw0 xs reqs rw bs" and ok: "code_ok rw0 xs"
    and i: "pi_target i \<in> set xs" "pi_probe i \<in> probes"
    and free: "pi_isBeforeInstr i \<or> probes_at True (pi_target i) reqs = []"
  shows "\<exists>rw' bs'. insert_priority t methodId i (rw, covered rw0 reqs) = Inr (rw', covered rw0 (reqs @ [request i]))
    \<and> good_state t probes methodId rw0 xs (reqs @ [request i]) rw' bs'
    \<and> length (instrs rw') = length (instrs rw) + 5"
proof -
  have d: "distinct xs" and w1: "woven t probes methodId rw0 xs rw bs" and pl: "placed t methodId rw0 xs rw bs reqs"
    using ok w by (simp_all add: code_ok_def linked_def)
  obtain rw' bs' where run: "MakeProbeInsertion t methodId i rw = Inr rw'"
    and w': "woven t probes methodId rw0 xs rw' bs'"
    and g: "grew t methodId rw0 (pi_target i) (pi_probe i) (pi_isBeforeInstr i) rw bs rw' bs'"
    using woven_before [OF w1 i(1) ok i(2)] woven_after [OF w1 i(1) d i(2)]
    by (cases "pi_isBeforeInstr i") (fastforce simp: MakeProbeInsertion_def)+
  have "valid_ref rw' (pi_target i)" and "m_offset (ins rw' (pi_target i)) = m_offset (ins rw0 (pi_target i))"
    using woven_head(2) [OF w'] w' i(1) by (simp_all add: woven_def)
  moreover have "length (instrs rw') = length (instrs rw) + 5"
    using g by (simp add: grew_def)
  ultimately show ?thesis
    using run w' placed_grew [OF w1 i(1) d g pl free] w i(1) by (auto simp: insert_priority_def)
qed

text \<open>A target point asks for a probe if nothing was inserted there before.\<close>

definition add_target :: "probe_insertion \<Rightarrow> (ref \<times> probe_call \<times> bool) list \<Rightarrow> (ref \<times> probe_call \<times> bool) list" where
  "add_target i reqs =
     (if pi_target i = m_IL \<or> pi_target i \<in> fst ` set reqs then reqs
      else reqs @ [(pi_target i, pi_probe i, False)])"

lemma insert_target_woven:
  assumes w: "good_state t probes methodId rw0 xs reqs rw bs" and ok: "code_ok rw0 xs"
    and nt: "no_tailcalls rw0 xs" "m_opcode (ins rw0 m_IL) = 2 ^ 32 - 1"
    and i: "pi_target i \<in> set (m_IL # xs)" "pi_probe i \<in> probes"
    and inj: "inj_on (\<lambda>p. m_offset (ins rw0 p)) (set xs)"
  shows "\<exists>rw' bs'. insert_target t leaveMethod methodId i (rw, covered rw0 reqs)
      = Inr (rw', covered rw0 (add_target i reqs))
    \<and> good_state t probes methodId rw0 xs (add_target i reqs) rw' bs'
    \<and> length (instrs rw') \<le> length (instrs rw) + 5"
proof (cases "pi_target i = m_IL")
  case True
  with w show ?thesis
    by (intro exI [of _ rw] exI [of _ bs]) (simp add: insert_target_def add_target_def)
next
  case False
  have w1: "woven t probes methodId rw0 xs rw bs" and pl: "placed t methodId rw0 xs rw bs reqs"
    and sub: "fst ` set reqs \<subseteq> set xs" and d: "distinct xs" and x: "pi_target i \<in> set xs"
    using w ok False i(1) by (simp_all add: code_ok_def linked_def)
  have lk: "linked rw (concat bs)" and x': "pi_target i \<in> set (m_IL # concat bs)"
    and off: "m_offset (ins rw (pi_target i)) = m_offset (ins rw0 (pi_target i))"
    using w1 woven_head(1) [OF w1 i(1)] x by (simp_all add: woven_def)
  note v = linked_valid [OF lk x'] and nx = linked_prev_in(2) [OF lk x']
  have cov: "m_offset (ins rw0 (pi_target i)) \<in> covered rw0 reqs \<longleftrightarrow> pi_target i \<in> fst ` set reqs"
    using inj_on_image_mem_iff [OF inj x sub] .
  show ?thesis
  proof (cases "pi_target i \<in> fst ` set reqs")
    case True
    with w v off cov False show ?thesis
      by (intro exI [of _ rw] exI [of _ bs]) (simp add: insert_target_def add_target_def Let_def)
  next
    case new: False
    obtain q rw' bs' where run: "AddCoverageProbeAfter t (pi_probe i) methodId (pi_target i) rw = Inr (q, rw')"
      and w': "woven t probes methodId rw0 xs rw' bs'"
      and g: "grew t methodId rw0 (pi_target i) (pi_probe i) False rw bs rw' bs'"
      using woven_after [OF w1 x d i(2)] by blast
    have "placed t methodId rw0 xs rw' bs' (reqs @ [(pi_target i, pi_probe i, False)])"
      using placed_grew [OF w1 x d g pl] probes_at_empty [OF new] by simp
    moreover have "length (instrs rw') = length (instrs rw) + 5"
      using g by (simp add: grew_def)
    ultimately show ?thesis
      using False new cov off v IsTailcallRet_woven [OF w1 nt nx] run w' x sub
      by (intro exI [of _ rw'] exI [of _ bs']) (simp add: insert_target_def add_target_def Let_def)
  qed
qed

text \<open>Requests in an order in which no probe goes behind an instruction that has one in front of it.\<close>

fun orderly :: "(ref \<times> probe_call \<times> bool) list \<Rightarrow> (ref \<times> probe_call \<times> bool) list \<Rightarrow> bool" where
  "orderly reqs [] \<longleftrightarrow> True"
| "orderly reqs ((x, probe, before) # rs) \<longleftrightarrow>
     (before \<or> probes_at True x reqs = []) \<and> orderly (reqs @ [(x, probe, before)]) rs"

lemma insert_priorities_woven:
  assumes "good_state t probes methodId rw0 xs reqs rw bs" and ok: "code_ok rw0 xs"
    and "\<forall>i \<in> set js. pi_target i \<in> set xs \<and> pi_probe i \<in> probes" and "orderly reqs (requests js)"
  shows "\<exists>rw' bs'. fold_res (insert_priority t methodId) js (rw, covered rw0 reqs)
      = Inr (rw', covered rw0 (reqs @ requests js))
    \<and> good_state t probes methodId rw0 xs (reqs @ requests js) rw' bs'
    \<and> length (instrs rw') = length (instrs rw) + 5 * length js"
  using assms(1,3,4)
proof (induction js arbitrary: rw bs reqs)
  case Nil
  then show ?case by (intro exI [of _ rw] exI [of _ bs]) (simp add: requests_def)
next
  case (Cons i js)
  have eq: "requests (i # js) = request i # requests js"
    by (simp add: requests_def)
  obtain rw1 bs1 where step: "insert_priority t methodId i (rw, covered rw0 reqs)
      = Inr (rw1, covered rw0 (reqs @ [request i]))"
    and w1: "good_state t probes methodId rw0 xs (reqs @ [request i]) rw1 bs1"
    and len: "length (instrs rw1) = length (instrs rw) + 5"
    using insert_priority_woven [OF Cons.prems(1) ok, of i] Cons.prems(2,3) unfolding eq by auto
  obtain rw' bs' where "fold_res (insert_priority t methodId) js (rw1, covered rw0 (reqs @ [request i]))
      = Inr (rw', covered rw0 ((reqs @ [request i]) @ requests js))"
    and "good_state t probes methodId rw0 xs ((reqs @ [request i]) @ requests js) rw' bs'"
    and "length (instrs rw') = length (instrs rw1) + 5 * length js"
    using Cons.IH [OF w1] Cons.prems(2,3) unfolding eq by auto
  then show ?case
    using step len unfolding eq by (intro exI [of _ rw'] exI [of _ bs']) simp
qed

lemma insert_targets_woven:
  assumes "good_state t probes methodId rw0 xs reqs rw bs" and ok: "code_ok rw0 xs"
    and nt: "no_tailcalls rw0 xs" "m_opcode (ins rw0 m_IL) = 2 ^ 32 - 1"
    and "\<forall>i \<in> set js. pi_target i \<in> set (m_IL # xs) \<and> pi_probe i \<in> probes"
    and inj: "inj_on (\<lambda>p. m_offset (ins rw0 p)) (set xs)"
  shows "\<exists>rw' bs'. fold_res (insert_target t leaveMethod methodId) js (rw, covered rw0 reqs)
      = Inr (rw', covered rw0 (fold add_target js reqs))
    \<and> good_state t probes methodId rw0 xs (fold add_target js reqs) rw' bs'
    \<and> length (instrs rw') \<le> length (instrs rw) + 5 * length js"
  using assms(1,5)
proof (induction js arbitrary: rw bs reqs)
  case Nil
  then show ?case by (intro exI [of _ rw] exI [of _ bs]) simp
next
  case (Cons i js)
  obtain rw1 bs1 where step: "insert_target t leaveMethod methodId i (rw, covered rw0 reqs)
      = Inr (rw1, covered rw0 (add_target i reqs))"
    and w1: "good_state t probes methodId rw0 xs (add_target i reqs) rw1 bs1"
    and len: "length (instrs rw1) \<le> length (instrs rw) + 5"
    using insert_target_woven [OF Cons.prems(1) ok nt _ _ inj] Cons.prems(2) by (metis list.set_intros(1))
  obtain rw' bs' where "fold_res (insert_target t leaveMethod methodId) js (rw1, covered rw0 (add_target i reqs))
      = Inr (rw', covered rw0 (fold add_target js (add_target i reqs)))"
    and "good_state t probes methodId rw0 xs (fold add_target js (add_target i reqs)) rw' bs'"
    and "length (instrs rw') \<le> length (instrs rw1) + 5 * length js"
    using Cons.IH [OF w1] Cons.prems(2) by auto
  then show ?case
    using step len by (intro exI [of _ rw'] exI [of _ bs']) simp
qed

text \<open>What the target points add to the requests of an instruction.\<close>

lemma probes_at_targets:
  assumes "\<forall>i \<in> set js. pi_probe i = probe" and "x \<noteq> m_IL"
  shows "probes_at True x (fold add_target js reqs) = probes_at True x reqs
    \<and> probes_at False x (fold add_target js reqs) = probes_at False x reqs
      @ (if x \<in> pi_target ` set js \<and> x \<notin> fst ` set reqs then [probe] else [])"
  using assms(1)
proof (induction js arbitrary: reqs)
  case (Cons i js)
  have IH: "probes_at True x (fold add_target js rs) = probes_at True x rs
    \<and> probes_at False x (fold add_target js rs) = probes_at False x rs
      @ (if x \<in> pi_target ` set js \<and> x \<notin> fst ` set rs then [probe] else [])" for rs
    using Cons by simp
  show ?case
  proof (cases "pi_target i = m_IL \<or> pi_target i \<in> fst ` set reqs")
    case True
    then have "add_target i reqs = reqs" by (simp add: add_target_def)
    with IH [of reqs] True assms(2) show ?thesis by auto
  next
    case False
    then have "add_target i reqs = reqs @ [(pi_target i, probe, False)]"
      using Cons.prems by (simp add: add_target_def)
    with IH [of "reqs @ [(pi_target i, probe, False)]"] False show ?thesis by auto
  qed
qed simp

text \<open>The scan asks for probes in an order of that kind.\<close>

lemma wanted_places:
  assumes "(x, probe, before) \<in> set (wanted covProb leaveMethod rw p)"
  shows "before \<longleftrightarrow> m_opcode (ins rw x) \<notin> {CEE_CALL, CEE_CALLI, CEE_CALLVIRT, CEE_NEWOBJ}"
  using assms by (auto simp: wanted_def Let_def IsPrefix_def OpcodeIsBranch_def split: if_splits)

lemma orderly_by_opcode:
  assumes "\<And>x probe before. (x, probe, before) \<in> set (reqs @ rs) \<Longrightarrow> before \<longleftrightarrow> P x"
    and "\<And>x probe before. (x, probe, before) \<in> set hs \<Longrightarrow> before"
  shows "orderly reqs (rs @ hs)"
  using assms
proof (induction rs arbitrary: reqs)
  case Nil
  have "orderly us hs" for us
    using Nil(2) by (induction us hs rule: orderly.induct) auto
  then show ?case by simp
next
  case (Cons r rs)
  obtain x probe before where r: "r = (x, probe, before)" by (cases r)
  have "before \<or> probes_at True x reqs = []"
  proof (cases before)
    case False
    with Cons.prems(1) [of x probe before] have "\<not> P x" by (simp add: r)
    then have "(x, q, True) \<notin> set reqs" for q
      using Cons.prems(1) [of x q True] by auto
    then show ?thesis by (auto simp: probes_at_def filter_empty_conv)
  qed simp
  moreover have "orderly (reqs @ [r]) (rs @ hs)"
    using Cons.prems by (intro Cons.IH) auto
  ultimately show ?case by (simp add: r)
qed

lemma orderly_wanted:
  "orderly [] (concat (map (wanted covProb leaveMethod rw) xs)
    @ map (\<lambda>c. (m_pHandlerBegin c, probe, True)) cs)"
proof (rule orderly_by_opcode)
  show "before \<longleftrightarrow> m_opcode (ins rw x) \<notin> {CEE_CALL, CEE_CALLI, CEE_CALLVIRT, CEE_NEWOBJ}"
    if "(x, probe, before) \<in> set ([] @ concat (map (wanted covProb leaveMethod rw) xs))" for x probe before
  proof -
    from that obtain p where "(x, probe, before) \<in> set (wanted covProb leaveMethod rw p)" by auto
    then show ?thesis by (rule wanted_places)
  qed
  show before if "(x, q, before) \<in> set (map (\<lambda>c. (m_pHandlerBegin c, probe, True)) cs)" for x q before
    using that by auto
qed

lemma woven_initial:
  assumes "code_ok rw xs" and "counted rw"
  shows "woven t probes methodId rw xs rw (map (\<lambda>x. [x]) xs)"
proof -
  have "concat (map (\<lambda>x. [x]) xs) = xs"
    by (induction xs) simp_all
  moreover have "list_all2 (block t probes methodId rw rw) xs (map (\<lambda>x. [x]) xs)"
    by (simp add: list_all2_map2 list_all2_same block_head padding_nil)
  moreover have "end_of xs (map (\<lambda>x. [x]) xs) h = h" for h
    by (induction xs) simp_all
  ultimately show ?thesis
    using assms by (simp add: woven_def code_ok_def)
qed

subsection \<open>The instrumented method\<close>

text \<open>
  The probes the scan asks for, in its order: those of the instructions, then those of the handlers.
\<close>

definition requested ::
  "coverage_probes \<Rightarrow> probe_call \<Rightarrow> il_rewriter \<Rightarrow> ref list \<Rightarrow> (ref \<times> probe_call \<times> bool) list" where
  "requested covProb leaveMethod rw0 xs =
     concat (map (wanted covProb leaveMethod rw0) xs)
     @ map (\<lambda>c. (m_pHandlerBegin c, cp_Throw covProb, True)) (m_pEH rw0)"

text \<open>
  The instruction in front of the target of a branch gets a coverage probe behind it,
  unless it has another probe already.
\<close>

definition target_probes ::
  "coverage_probes \<Rightarrow> probe_call \<Rightarrow> il_rewriter \<Rightarrow> ref list \<Rightarrow> ref \<Rightarrow> probe_call list" where
  "target_probes covProb leaveMethod rw0 xs x =
     (if x \<in> set (target_points rw0 xs) \<and> x \<notin> fst ` set (requested covProb leaveMethod rw0 xs)
      then [cp_Coverage covProb] else [])"

text \<open>
  The instructions \<open>ps\<close> of the prologue call the enter probe; block \<open>i\<close> of \<open>bs\<close> is what
  became of the original instruction \<open>i\<close>, and its code is exactly the original code with the calls of the
  probes asked for in front of it and behind it; handlers keep their bounds, the end of a
  handler being the last instruction of the block of its last instruction.
\<close>

definition instrumented ::
  "tid \<Rightarrow> coverage_probes \<Rightarrow> u32 \<Rightarrow> bool \<Rightarrow> il_rewriter \<Rightarrow> ref list \<Rightarrow> il_rewriter
    \<Rightarrow> ref list \<Rightarrow> ref list list \<Rightarrow> bool" where
  "instrumented t covProb methodId isMain rw0 xs rw' ps bs \<longleftrightarrow>
     (let enterMethod = (if isMain then cp_EnterMain covProb else cp_Enter covProb);
          leaveMethod = (if isMain then cp_LeaveMain covProb else cp_Leave covProb);
          probes = probe_set covProb leaveMethod in
      linked rw' (ps @ concat bs)
      \<and> map (code rw') ps = enter_code (pc_addr enterMethod) (getSig t enterMethod) 0 methodId
      \<and> list_all2 (block t probes methodId rw0 rw') xs bs
      \<and> list_all2 (\<lambda>x b. map (code rw') b = woven_code t methodId rw0 x
            (probes_at True x (requested covProb leaveMethod rw0 xs))
            (probes_at False x (requested covProb leaveMethod rw0 xs)
             @ target_probes covProb leaveMethod rw0 xs x)) xs bs
      \<and> m_pEH rw' = map (\<lambda>c. c\<lparr>m_pHandlerEnd := end_of xs bs (m_pHandlerEnd c)\<rparr>) (m_pEH rw0)
      \<and> (frame rw')\<lparr>m_pEH := []\<rparr> = (frame rw0)\<lparr>m_pEH := []\<rparr>)"

lemma enter_woven:
  assumes w: "good_state t probes methodId rw0 xs reqs rw bs"
    and first: "m_offset (ins rw (hd (concat bs @ [m_IL]))) = 0"
  shows "\<exists>rw' ps. AddEnterProbe address signature methodId rw = Inr rw'
    \<and> linked rw' (ps @ concat bs) \<and> map (code rw') ps = enter_code address signature 0 methodId
    \<and> list_all2 (block t probes methodId rw0 rw') xs bs
    \<and> placed t methodId rw0 xs rw' bs reqs
    \<and> m_pEH rw' = m_pEH rw \<and> frame rw' = frame rw \<and> counted rw'
    \<and> length (instrs rw') = length (instrs rw) + 5"
proof -
  have lk: "linked rw (concat bs)" and bl: "list_all2 (block t probes methodId rw0 rw) xs bs" and cnt: "counted rw"
    using w by (simp_all add: woven_def)
  let ?ps = "new_refs rw 5" and ?c = "enter_code address signature 0 methodId"
  obtain rw' where run: "AddEnterProbe address signature methodId rw = Inr rw'"
    and lk': "linked rw' (?ps @ concat bs)" and gr: "grown rw (fresh_code ?c) rw'"
    using AddEnterProbe_ok [OF lk, of address signature methodId] first by auto
  have same: "code rw' p = code rw p" if "p \<in> set (concat bs)" for p
    by (rule payload_code [OF grown_old [OF gr linked_valid [OF lk]]]) (use that in simp)
  have "list_all2 (block t probes methodId rw0 rw') xs bs"
    using bl same by (rule blocks_elsewhere)
  moreover have "placed t methodId rw0 xs rw' bs reqs"
    using conjunct1 [OF conjunct2 [OF w]] unfolding placed_def
  proof (rule list.rel_mono_strong)
    fix y b assume "b \<in> set bs"
      and "map (code rw) b = woven_code t methodId rw0 y (probes_at True y reqs) (probes_at False y reqs)"
    moreover have "map (code rw') b = map (code rw) b"
      using same \<open>b \<in> set bs\<close> by auto
    ultimately show "map (code rw') b = woven_code t methodId rw0 y (probes_at True y reqs) (probes_at False y reqs)"
      by simp
  qed
  moreover have "map (code rw') ?ps = ?c"
  proof -
    have "map (code rw') (new_refs rw (length (fresh_code ?c))) = map (\<lambda>(op, a). norm_code op a) ?c"
      using grown_codes [OF gr] by (simp add: case_prod_unfold comp_def del: upt_Suc)
    then show ?thesis
      unfolding norm_enter_code length_map probe_code_ok(3) .
  qed
  ultimately show ?thesis
    using run lk' gr grown_frame [OF gr] grown_counted [OF gr cnt]
    by (auto simp: grown_def probe_code_ok(3))
qed

lemma good_enter_code: "c \<in> set (enter_code address signature offset methodId) \<Longrightarrow> good_code T c"
proof -
  have "flags_of CEE_LDC_I4_0 = 0"
    by (simp add: flags_of_table flags_table_def)
  then show "c \<in> set (enter_code address signature offset methodId) \<Longrightarrow> good_code T c"
    using probe_opcodes_valid by (auto simp: enter_code_def good_code_def probe_flags)
qed

lemma instrumented_code_ok:
  assumes ok: "code_ok rw0 xs" and i: "instrumented t covProb methodId isMain rw0 xs rw' ps bs"
  shows "code_ok rw' (ps @ concat bs)"
proof -
  obtain probes address signature where lk: "linked rw' (ps @ concat bs)"
    and ps: "map (code rw') ps = enter_code address signature 0 methodId"
    and bl: "list_all2 (block t probes methodId rw0 rw') xs bs"
    using i unfolding instrumented_def Let_def by blast
  have "good_code (set (m_IL # ps @ concat bs)) (code rw' p)" if "p \<in> set (ps @ concat bs)" for p
  proof (cases "p \<in> set ps")
    case True
    then have "code rw' p \<in> set (enter_code address signature 0 methodId)"
      unfolding ps [symmetric] by simp
    then show ?thesis by (rule good_enter_code)
  next
    case False
    then have "good_code (set (m_IL # xs)) (code rw' p)"
      using woven_instr_ok [OF ok bl] that by simp
    then show ?thesis
      by (rule good_code_mono) (use heads_in [OF bl] in auto)
  qed
  then show ?thesis
    using lk linked_valid [OF lk] by (simp add: code_ok_def instr_ok_code)
qed

lemma woven_first:
  assumes "woven t probes methodId rw0 xs rw bs" and "xs \<noteq> []"
  shows "m_offset (ins rw (hd (concat bs @ [m_IL]))) = m_offset (ins rw0 (hd xs))"
proof -
  obtain x ys where xs: "xs = x # ys"
    using assms(2) by (cases xs) auto
  have "x \<in> set xs" by (simp add: xs)
  have "list_all2 (block t probes methodId rw0 rw) (x # ys) bs"
    using assms(1) unfolding woven_def xs by blast
  then obtain b bs' where bs: "bs = b # bs'" and "block t probes methodId rw0 rw x b"
    by (auto simp: list_all2_Cons1)
  with block_Cons obtain rest where "b = x # rest" by blast
  moreover have "m_offset (ins rw x) = m_offset (ins rw0 x)"
    using assms(1) \<open>x \<in> set xs\<close> by (simp add: woven_def)
  ultimately show ?thesis by (simp add: xs bs)
qed

lemma placed_initial: "placed t methodId rw0 xs rw0 (map (\<lambda>x. [x]) xs) []"
  by (simp add: placed_def list_all2_map2 list_all2_same woven_code_def)

lemma method_offsets_inj:
  assumes "method_ok rw xs" and "offsets_ok rw 0 xs" and "9 * length xs < 2 ^ 32"
  shows "inj_on (\<lambda>p. m_offset (ins rw p)) (set xs)"
proof -
  have ops: "\<forall>p \<in> set xs. opcode_valid (m_opcode (ins rw p))" and d: "distinct xs"
    using assms(1) by (simp_all add: method_ok_def code_ok_def instr_ok_def linked_def)
  moreover have "\<forall>p \<in> set xs. m_opcode (ins rw p) \<noteq> CEE_COUNT"
    using assms(1) by (simp add: method_ok_def)
  ultimately have "\<forall>p \<in> set xs. 0 < size_of (m_opcode (ins rw p))"
    using size_of_pos by blast
  moreover have "0 + code_size rw xs < 2 ^ 32"
    using code_size_less [OF ops] assms(3) by simp
  ultimately show ?thesis
    using offsets_inj [OF assms(2) _ _ d] by blast
qed

lemma placed_all:
  assumes pl: "placed t methodId rw0 xs rw bs (fold add_target js reqs)"
    and js: "requests js = coverage_requests covProb (target_points rw0 xs)" and d: "m_IL \<notin> set xs"
  shows "list_all2 (\<lambda>x b. map (code rw) b = woven_code t methodId rw0 x (probes_at True x reqs)
    (probes_at False x reqs @ (if x \<in> set (target_points rw0 xs) \<and> x \<notin> fst ` set reqs
       then [cp_Coverage covProb] else []))) xs bs"
  using pl unfolding placed_def
proof (rule list.rel_mono_strong)
  fix x b assume "x \<in> set xs" and eq: "map (code rw) b = woven_code t methodId rw0 x
    (probes_at True x (fold add_target js reqs)) (probes_at False x (fold add_target js reqs))"
  then have x: "x \<noteq> m_IL"
    using d by auto
  have "map pi_probe js = map (fst \<circ> snd) (requests js)" and "map pi_target js = map fst (requests js)"
    by (simp_all add: requests_def)
  then have pr: "map pi_probe js = map (\<lambda>_. cp_Coverage covProb) (target_points rw0 xs)"
    and tg: "map pi_target js = target_points rw0 xs"
    unfolding js by (simp_all add: comp_def)
  have t: "pi_target ` set js = set (target_points rw0 xs)"
    using arg_cong [OF tg, of set] by simp
  have "pi_probe ` set js \<subseteq> {cp_Coverage covProb}"
    using arg_cong [OF pr, of set] by auto
  then have "\<forall>i \<in> set js. pi_probe i = cp_Coverage covProb" by auto
  from probes_at_targets [OF this x, of reqs] eq
  show "map (code rw) b = woven_code t methodId rw0 x (probes_at True x reqs)
    (probes_at False x reqs @ (if x \<in> set (target_points rw0 xs) \<and> x \<notin> fst ` set reqs
       then [cp_Coverage covProb] else []))"
    unfolding t by simp
qed

lemma instrument_ok:
  assumes ok: "method_ok rw xs" and ne: "xs \<noteq> []" and nt: "no_tailcalls rw xs"
    and small: "9 * length xs < 2 ^ 32"
  shows "\<exists>rw0 rw' ps bs. countOffsets rw = Inr rw0 \<and> relabelled (set xs) rw rw0 \<and> offsets_ok rw0 0 xs
    \<and> instrument_code t covProb methodId isMain rw = Inr rw'
    \<and> instrumented t covProb methodId isMain rw0 xs rw' ps bs \<and> counted rw'
    \<and> length (instrs rw') \<le> length (instrs rw) + 10 * length xs + 5 * length (m_pEH rw) + 5"
proof -
  let ?enter = "if isMain then cp_EnterMain covProb else cp_Enter covProb"
  let ?leave = "if isMain then cp_LeaveMain covProb else cp_Leave covProb"
  let ?P = "probe_set covProb ?leave"
  have c: "code_ok rw xs"
    using ok by (simp add: method_ok_def)
  obtain rw0 where co: "countOffsets rw = Inr rw0" and rel: "relabelled (set xs) rw rw0"
    and offs: "offsets_ok rw0 0 xs"
    using countOffsets_ok [OF c] by blast
  have ok0: "method_ok rw0 xs"
    using rel ok by (rule relabelled_method_ok)
  have c0: "code_ok rw0 xs" and sent: "m_opcode (ins rw0 m_IL) = 2 ^ 32 - 1" and cnt: "counted rw0"
    using ok0 by (simp_all add: method_ok_def)
  have nt0: "no_tailcalls rw0 xs"
    using nt relabelled_fields(1) [OF rel] linked_valid [of rw xs] c by (auto simp: no_tailcalls_def code_ok_def)
  obtain s where sc: "scan covProb ?leave rw0 = Inr s" and so: "scan_ok ?P rw0 xs s"
    and rq: "requests (addPriorityProbe s) = requested covProb ?leave rw0 xs"
    and tg: "requests (addTargetProbe s) = coverage_requests covProb (target_points rw0 xs)"
    using scan_result [OF ok0 nt0] unfolding requested_def by blast
  have g0: "good_state t ?P methodId rw0 xs [] rw0 (map (\<lambda>x. [x]) xs)"
    using woven_initial [OF c0 cnt] placed_initial by simp
  have sentinel_out: "m_IL \<notin> set xs"
    using c0 by (auto simp: code_ok_def linked_def)
  have inj: "inj_on (\<lambda>p. m_offset (ins rw0 p)) (set xs)"
    using ok0 offs small by (rule method_offsets_inj)
  let ?reqs = "requests (addPriorityProbe s)"
  obtain rw1 bs1 where pri: "fold_res (insert_priority t methodId) (addPriorityProbe s) (rw0, {}) = Inr (rw1, covered rw0 ?reqs)"
    and w1: "good_state t ?P methodId rw0 xs ?reqs rw1 bs1"
    and l1: "length (instrs rw1) = length (instrs rw0) + 5 * length (addPriorityProbe s)"
  proof -
    have "orderly [] ?reqs"
      unfolding rq requested_def by (rule orderly_wanted)
    moreover have "\<forall>i \<in> set (addPriorityProbe s). pi_target i \<in> set xs \<and> pi_probe i \<in> ?P"
      using so by (simp add: scan_ok_def)
    ultimately show ?thesis
      using insert_priorities_woven [OF g0 c0, of "addPriorityProbe s"] that by auto
  qed
  let ?all = "fold add_target (addTargetProbe s) ?reqs"
  obtain rw2 bs where tgt: "fold_res (insert_target t ?leave methodId) (addTargetProbe s) (rw1, covered rw0 ?reqs)
      = Inr (rw2, covered rw0 ?all)"
    and w2: "good_state t ?P methodId rw0 xs ?all rw2 bs"
    and l2: "length (instrs rw2) \<le> length (instrs rw1) + 5 * length (addTargetProbe s)"
    using insert_targets_woven [OF w1 c0 nt0 sent _ inj] so unfolding scan_ok_def by blast
  have "m_offset (ins rw2 (hd (concat bs @ [m_IL]))) = 0"
    using woven_first [OF conjunct1 [OF w2] ne] offs ne by (cases xs) simp_all
  from enter_woven [OF w2 this] obtain rw' ps where
    run: "AddEnterProbe (pc_addr ?enter) (getSig t ?enter) methodId rw2 = Inr rw'"
    and res: "linked rw' (ps @ concat bs)"
      "map (code rw') ps = enter_code (pc_addr ?enter) (getSig t ?enter) 0 methodId"
      "list_all2 (block t ?P methodId rw0 rw') xs bs"
      "placed t methodId rw0 xs rw' bs ?all"
      "m_pEH rw' = m_pEH rw2" "frame rw' = frame rw2" and cnt': "counted rw'"
    and l3: "length (instrs rw') = length (instrs rw2) + 5"
    by blast
  have "m_pEH rw2 = map (\<lambda>c. c\<lparr>m_pHandlerEnd := end_of xs bs (m_pHandlerEnd c)\<rparr>) (m_pEH rw0)"
    and "(frame rw2)\<lparr>m_pEH := []\<rparr> = (frame rw0)\<lparr>m_pEH := []\<rparr>"
    using w2 unfolding woven_def by blast+
  then have "instrumented t covProb methodId isMain rw0 xs rw' ps bs"
    using res placed_all [OF res(4) tg sentinel_out] unfolding instrumented_def Let_def rq target_probes_def
    by simp
  moreover have "instrument_code t covProb methodId isMain rw = Inr rw'"
    using co sc pri tgt run so by (simp add: instrument_code_def scan_ok_def)
  moreover have "length (instrs rw') \<le> length (instrs rw) + 10 * length xs + 5 * length (m_pEH rw) + 5"
  proof -
    have "length (concat (map (wanted covProb ?leave rw0) xs)) \<le> length xs"
      by (rule length_wanted)
    moreover have "length (addPriorityProbe s) = length ?reqs"
      by (simp add: requests_def)
    moreover have "length (addTargetProbe s) \<le> length xs"
    proof -
      have "length (addTargetProbe s) = length (target_points rw0 xs)"
        using arg_cong [OF tg, of length] by (simp add: requests_def)
      also have "\<dots> \<le> length xs"
        using length_target_points [of rw0 xs] targets_bound [of rw0 xs] ok0 by (simp add: method_ok_def)
      finally show ?thesis .
    qed
    moreover have "length (instrs rw0) = length (instrs rw)" "m_pEH rw0 = m_pEH rw"
      using rel by (cases rw; cases rw0; simp add: relabelled_def)+
    ultimately show ?thesis
      using l1 l2 l3 unfolding rq requested_def by simp
  qed
  ultimately show ?thesis
    using co rel offs cnt' by blast
qed

text \<open>
  Claim C2: the instrumentation of a method without tail calls, with code shorter than four
  gigabytes, ends without an error, and the result is the original method with calls of probes woven in.
  The method begins with the call of the enter probe. Each original instruction became a block that starts with
  the instruction that branches to the original one lead to, and whose code is known exactly: the probe calls
  asked for in front of the instruction (branches, returns, throws, ends of handlers, stores to static fields,
  begins of handlers), the original opcode and operand, and the probe calls asked for behind it: the
  one of a call, and the coverage probe of an instruction in front of the target of a branch or of a
  switch, which is inserted once, and only where no other probe was. Every call passes the offset of that
  instruction and the method. The bounds of exception handlers move with the blocks, and the
  result is well formed, so it can be exported.
\<close>

theorem instrument_weaves:
  assumes "method_ok rw xs" and "xs \<noteq> []" and "no_tailcalls rw xs" and "9 * length xs < 2 ^ 32"
  shows "\<exists>rw0 rw' ps bs. countOffsets rw = Inr rw0 \<and> relabelled (set xs) rw rw0 \<and> offsets_ok rw0 0 xs
    \<and> instrument_code t covProb methodId isMain rw = Inr rw'
    \<and> instrumented t covProb methodId isMain rw0 xs rw' ps bs
    \<and> code_ok rw' (ps @ concat bs) \<and> counted rw'"
proof -
  obtain rw0 rw' ps bs where res: "countOffsets rw = Inr rw0" "relabelled (set xs) rw rw0" "offsets_ok rw0 0 xs"
      "instrument_code t covProb methodId isMain rw = Inr rw'"
    and i: "instrumented t covProb methodId isMain rw0 xs rw' ps bs" and cnt: "counted rw'"
    using instrument_ok [OF assms] by blast
  have "code_ok rw0 xs"
    using relabelled_method_ok [OF res(2) assms(1)] by (simp add: method_ok_def)
  with res i cnt instrumented_code_ok [OF _ i] show ?thesis by blast
qed

definition sample_probes :: coverage_probes where
  "sample_probes = InitializeProbes (\<lambda>f. if f = F_Track_LeaveMain then 7 else 5)"

lemma sample_method_ok: "method_ok sample_il [2, 3, 4]" "no_tailcalls sample_il [2, 3, 4]"
  using sample_il_ok
  by (simp_all add: method_ok_def no_tailcalls_def sample_il_def ins_def counted_def new_rewriter_def)

theorem instrument_weaves_witness:
  "\<exists>rw0 rw' ps bs. instrument_code 9 sample_probes 1 True sample_il = Inr rw'
    \<and> instrumented 9 sample_probes 1 True rw0 [2, 3, 4] rw' ps bs \<and> code_ok rw' (ps @ concat bs)"
  using instrument_weaves [OF sample_method_ok(1) _ sample_method_ok(2), of 9 sample_probes 1 True] by auto

end
