(* ===== verification/IL_Import.thy ===== *)
theory IL_Import
  imports IL_Instrument
begin

section \<open>Imported methods are well formed\<close>

text \<open>
  A successful import delivers what the instrumentation and the export rely on: the list of
  instructions with its links, valid opcodes, branch targets inside the list, the targets of
  a switch behind it, a counter that agrees with the number of instructions, and handlers
  that begin at instructions.
\<close>

subsection \<open>The state of the decoder\<close>

definition raw_ok :: "il_rewriter \<Rightarrow> ref \<Rightarrow> bool" where
  "raw_ok rw p \<longleftrightarrow> opcode_valid (m_opcode (ins rw p)) \<and> m_opcode (ins rw p) \<noteq> CEE_COUNT \<and> (\<exists>w. m_arg (ins rw p) = Arg w)"

definition importing :: "nat \<Rightarrow> bool \<Rightarrow> il_rewriter \<Rightarrow> ref list \<Rightarrow> bool" where
  "importing n fBranch rw xs \<longleftrightarrow>
     linked rw xs \<and> counted rw \<and> m_opcode (ins rw m_IL) = 2 ^ 32 - 1
     \<and> (\<forall>p \<in> set xs. raw_ok rw p)
     \<and> (fBranch \<or> (\<forall>p \<in> set xs. \<not> branching (flags_of (m_opcode (ins rw p)))))
     \<and> switches_ok rw xs \<and> unat (m_CodeSize rw) = n \<and> m_pEH rw = [] \<and> \<not> m_fGenerateTinyHeader rw
     \<and> length (m_pOffsetToInstr rw) = Suc n \<and> m_pOffsetToInstr rw ! n = m_IL
     \<and> (\<forall>k < n. m_pOffsetToInstr rw ! k = null \<or> m_pOffsetToInstr rw ! k \<in> set xs)"

lemma switches_ok_append: "switches_ok rw xs \<Longrightarrow> switches_ok rw ys \<Longrightarrow> switches_ok rw (xs @ ys)"
proof (induction xs)
  case (Cons p ps)
  then show ?case
    by (cases "m_arg (ins rw p)") (auto simp: Let_def)
qed simp

lemma importing_append:
  assumes imp: "importing n fBranch rw xs" and lk: "linked rw' (xs @ ys)"
    and old: "\<And>p. p \<in> set (m_IL # xs) \<Longrightarrow> payload rw' p = payload rw p"
    and ys: "\<forall>p \<in> set ys. raw_ok rw' p" "switches_ok rw' ys"
    and br: "fBranch' \<or> \<not> fBranch \<and> (\<forall>p \<in> set ys. \<not> branching (flags_of (m_opcode (ins rw' p))))"
    and cnt: "counted rw'" and fr: "m_CodeSize rw' = m_CodeSize rw" "m_pEH rw' = m_pEH rw"
      "m_fGenerateTinyHeader rw' = m_fGenerateTinyHeader rw"
    and tbl: "m_pOffsetToInstr rw' = (m_pOffsetToInstr rw)[start := p]" "start < n" "p \<in> set ys"
  shows "importing n fBranch' rw' (xs @ ys)"
proof -
  have same: "m_opcode (ins rw' q) = m_opcode (ins rw q) \<and> m_arg (ins rw' q) = m_arg (ins rw q)"
    if "q \<in> set (m_IL # xs)" for q
    using old [OF that] by (simp add: payload_def)
  have "switches_ok rw' xs"
    using imp same by (intro switches_ok_cong [of rw xs rw']) (simp_all add: importing_def)
  then have "switches_ok rw' (xs @ ys)"
    using ys(2) by (rule switches_ok_append)
  moreover have "\<forall>q \<in> set (xs @ ys). raw_ok rw' q"
    using imp ys(1) same by (auto simp: importing_def raw_ok_def)
  moreover have "fBranch' \<or> (\<forall>q \<in> set (xs @ ys). \<not> branching (flags_of (m_opcode (ins rw' q))))"
    using br imp same by (auto simp: importing_def)
  moreover have "m_pOffsetToInstr rw' ! k = null \<or> m_pOffsetToInstr rw' ! k \<in> set (xs @ ys)" if "k < n" for k
    using imp that tbl by (cases "k = start") (auto simp: importing_def)
  ultimately show ?thesis
    using imp lk cnt fr tbl same [of m_IL] by (simp add: importing_def)
qed

subsection \<open>One step of the decoder\<close>

lemma import_step_insert:
  "import_step pIL startOffset fBranch rw =
     and_then (import_opcode pIL startOffset rw) (\<lambda>(opcode, offset).
     and_then (s_OpCodeFlags opcode) (\<lambda>flags.
     and_then (check (\<not> (offset + flags_size flags) mod 2 ^ 32 > unat (m_CodeSize rw)) Assert_failed) (\<lambda>_.
     and_then (insert_new_before m_IL opcode (Arg 0) rw) (\<lambda>(pInstr, rw).
     import_operand pIL pInstr flags offset fBranch
       (rw\<lparr>m_pOffsetToInstr := (m_pOffsetToInstr rw)[startOffset := pInstr]\<rparr>)))))"
  by (simp add: import_step_def insert_new_before_def and_then_assoc case_prod_unfold)

lemma import_switch_args_insert:
  "import_switch_args (Suc n) base pIL offset rw =
     and_then (check (offset + 4 \<le> unat (m_CodeSize rw)) Assert_failed) (\<lambda>_.
     and_then (insert_new_before m_IL CEE_SWITCH_ARG
                 (Arg (ucast (base + word_of_int (int_at 4 offset pIL)))) rw) (\<lambda>(p, rw).
     import_switch_args n base pIL (offset + 4) rw))"
  by (simp add: insert_new_before_def and_then_assoc case_prod_unfold)

lemma import_switch_args_ok:
  assumes "linked rw xs" and "import_switch_args n base pIL offset rw = Inr (offset', rw')"
  shows "linked rw' (xs @ new_refs rw n)
    \<and> (\<exists>ws. grown rw ws rw' \<and> length ws = n \<and> (\<forall>w \<in> set ws. \<exists>a. w = (CEE_SWITCH_ARG, 0, Arg a)))"
  using assms
proof (induction n arbitrary: offset rw xs)
  case 0
  then show ?case using grown_refl by auto
next
  case (Suc n)
  let ?n = "Suc (length (instrs rw))"
  let ?a = "Arg (ucast (base + word_of_int (int_at 4 offset pIL)))"
  have "opcode_valid CEE_SWITCH_ARG"
    by (simp add: opcode_valid_def)
  then obtain rw1 where ins1: "insert_new_before m_IL CEE_SWITCH_ARG ?a rw = Inr (?n, rw1)"
    and lk: "linked rw1 (xs @ [?n])" and gr: "grown rw [(CEE_SWITCH_ARG, 0, ?a)] rw1"
    using insert_new_ok(1) [of rw xs "[]" CEE_SWITCH_ARG ?a] Suc.prems(1) by auto
  have n: "length (instrs rw1) = ?n"
    using gr by (simp add: grown_def)
  from Suc.prems(2) ins1 have "import_switch_args n base pIL (offset + 4) rw1 = Inr (offset', rw')"
    unfolding import_switch_args_insert by (auto simp: res_simps)
  from Suc.IH [OF lk this] obtain ws where lk': "linked rw' ((xs @ [?n]) @ new_refs rw1 n)"
    and gr': "grown rw1 ws rw'" and ws: "length ws = n" "\<forall>w \<in> set ws. \<exists>a. w = (CEE_SWITCH_ARG, 0, Arg a)"
    by blast
  have "new_refs rw (Suc n) = ?n # new_refs rw1 n"
    using n by (simp add: upt_rec)
  with lk' grown_trans [OF gr gr'] ws show ?case
    by (intro conjI exI [of _ "(CEE_SWITCH_ARG, 0, ?a) # ws"]) simp_all
qed

lemma grown_fields:
  assumes "grown rw ws rw'"
  shows "m_CodeSize rw' = m_CodeSize rw" and "m_pOffsetToInstr rw' = m_pOffsetToInstr rw"
    and "m_pEH rw' = m_pEH rw" and "m_fGenerateTinyHeader rw' = m_fGenerateTinyHeader rw"
  using assms by (cases rw; cases rw'; simp add: grown_def frame_def)+

lemma table_simps [simp]:
  "ins (rw\<lparr>m_pOffsetToInstr := tbl\<rparr>) p = ins rw p"
  "linked (rw\<lparr>m_pOffsetToInstr := tbl\<rparr>) xs = linked rw xs"
  "valid_ref (rw\<lparr>m_pOffsetToInstr := tbl\<rparr>) p = valid_ref rw p"
  "counted (rw\<lparr>m_pOffsetToInstr := tbl\<rparr>) = counted rw"
  by (simp_all add: ins_def linked_def valid_ref_def counted_def)

text \<open>Writing the operand of the new instruction.\<close>

lemma set_arg_linked:
  assumes "linked rw xs" and "valid_ref rw p"
  shows "linked (set_ins p ((ins rw p)\<lparr>m_arg := a\<rparr>) rw) xs"
  using assms(1)
proof (rule linked_cong)
  fix q assume "q \<in> set (m_IL # xs)"
  from linked_valid [OF assms(1) this] assms(2)
  show "m_pNext (ins (set_ins p ((ins rw p)\<lparr>m_arg := a\<rparr>) rw) q) = m_pNext (ins rw q)
      \<and> m_pPrev (ins (set_ins p ((ins rw p)\<lparr>m_arg := a\<rparr>) rw) q) = m_pPrev (ins rw q)"
    by simp
qed simp

lemma set_ins_fields [simp]:
  "m_CodeSize (set_ins p i rw) = m_CodeSize rw" "m_pOffsetToInstr (set_ins p i rw) = m_pOffsetToInstr rw"
  "m_pEH (set_ins p i rw) = m_pEH rw" "m_fGenerateTinyHeader (set_ins p i rw) = m_fGenerateTinyHeader rw" "counted (set_ins p i rw) = counted rw"
  by (simp_all add: set_ins_def counted_def)

text \<open>The state after the creation of an instruction and the write of its operand.\<close>

definition with_new :: "nat \<Rightarrow> il_arg \<Rightarrow> nat \<Rightarrow> il_rewriter \<Rightarrow> ref list \<Rightarrow> ref \<Rightarrow> il_rewriter \<Rightarrow> bool" where
  "with_new opcode arg start rw xs p rw' \<longleftrightarrow>
     linked rw' (xs @ [p]) \<and> (counted rw \<longrightarrow> counted rw')
     \<and> (\<forall>q \<in> set (m_IL # xs). payload rw' q = payload rw q)
     \<and> m_opcode (ins rw' p) = opcode \<and> m_arg (ins rw' p) = arg
     \<and> m_CodeSize rw' = m_CodeSize rw \<and> m_pEH rw' = m_pEH rw
     \<and> m_fGenerateTinyHeader rw' = m_fGenerateTinyHeader rw
     \<and> m_pOffsetToInstr rw' = (m_pOffsetToInstr rw)[start := p]"

lemma with_new_ok:
  assumes lk: "linked rw xs" and op: "opcode_valid opcode"
  shows "\<exists>p rw1. insert_new_before m_IL opcode (Arg 0) rw = Inr (p, rw1)
    \<and> (\<forall>arg. \<exists>rw2. update_instr p (\<lambda>i. i\<lparr>m_arg := arg\<rparr>)
          (rw1\<lparr>m_pOffsetToInstr := (m_pOffsetToInstr rw1)[start := p]\<rparr>) = Inr rw2
        \<and> with_new opcode arg start rw xs p rw2)"
proof -
  let ?p = "Suc (length (instrs rw))"
  obtain rw1 where run: "insert_new_before m_IL opcode (Arg 0) rw = Inr (?p, rw1)"
    and lk1: "linked rw1 (xs @ [?p])" and gr: "grown rw [(opcode, 0, Arg 0)] rw1"
    using insert_new_ok(1) [of rw xs "[]" opcode "Arg 0"] lk op by auto
  let ?rw1 = "rw1\<lparr>m_pOffsetToInstr := (m_pOffsetToInstr rw1)[start := ?p]\<rparr>"
  have v: "valid_ref ?rw1 ?p"
    using linked_valid [OF lk1] by simp
  have old: "payload rw1 q = payload rw q" if "q \<in> set (m_IL # xs)" for q
    using grown_old [OF gr linked_valid [OF lk that]] .
  have fresh: "q \<noteq> ?p" "valid_ref rw1 q" if "q \<in> set (m_IL # xs)" for q
    using linked_valid [OF lk that] grown_valid [OF gr] by (auto simp: valid_ref_def)
  have "payload rw1 ?p = (opcode, 0, Arg 0)"
    using gr by (simp add: grown_def)
  then have "with_new opcode arg start rw xs ?p (set_ins ?p ((ins ?rw1 ?p)\<lparr>m_arg := arg\<rparr>) ?rw1)" for arg
    using set_arg_linked [of ?rw1 "xs @ [?p]" ?p arg] lk1 v old fresh grown_fields [OF gr] grown_counted [OF gr]
    by (simp add: with_new_def payload_def)
  with run v show ?thesis by fastforce
qed

lemma importing_new:
  assumes imp: "importing n fBranch rw xs" and new: "with_new opcode (Arg w) start rw xs p rw'"
    and op: "opcode < CEE_COUNT" "opcode \<noteq> CEE_SWITCH" and start: "start < n"
  shows "importing n (fBranch \<or> branching (flags_of opcode)) rw' (xs @ [p])"
proof -
  have "linked rw' (xs @ [p])" and "\<And>q. q \<in> set (m_IL # xs) \<Longrightarrow> payload rw' q = payload rw q"
    and "counted rw'" and fr: "m_CodeSize rw' = m_CodeSize rw" "m_pEH rw' = m_pEH rw"
      "m_fGenerateTinyHeader rw' = m_fGenerateTinyHeader rw"
    and tbl: "m_pOffsetToInstr rw' = (m_pOffsetToInstr rw)[start := p]"
    and p: "m_opcode (ins rw' p) = opcode" "m_arg (ins rw' p) = Arg w"
    using new imp unfolding with_new_def importing_def by blast+
  from imp this(1,2) _ _ _ this(3) fr tbl start show ?thesis
    by (rule importing_append) (use p op in \<open>auto simp: raw_ok_def opcode_valid_def\<close>)
qed

lemma import_switch_args_bound:
  "import_switch_args n base pIL offset rw = Inr (offset', rw') \<Longrightarrow> linked rw xs \<Longrightarrow>
    n \<noteq> 0 \<Longrightarrow> offset + 4 * n \<le> unat (m_CodeSize rw)"
proof (induction n arbitrary: offset rw xs)
  case (Suc n)
  let ?a = "Arg (ucast (base + word_of_int (int_at 4 offset pIL)))"
  have "opcode_valid CEE_SWITCH_ARG"
    by (simp add: opcode_valid_def)
  then obtain p rw1 where ins1: "insert_new_before m_IL CEE_SWITCH_ARG ?a rw = Inr (p, rw1)"
    and lk: "linked rw1 (xs @ [p])" and gr: "grown rw [(CEE_SWITCH_ARG, 0, ?a)] rw1"
    using insert_new_ok(1) [of rw xs "[]" CEE_SWITCH_ARG ?a] Suc.prems(2) by auto
  from Suc.prems(1) ins1 have rest: "import_switch_args n base pIL (offset + 4) rw1 = Inr (offset', rw')"
    and "offset + 4 \<le> unat (m_CodeSize rw)"
    unfolding import_switch_args_insert by (auto simp: res_simps)
  with Suc.IH [OF rest lk] grown_fields(1) [OF gr] show ?case
    by (cases "n = 0") simp_all
qed simp

lemma nat_sint_small:
  fixes w :: u32
  assumes "unat w < 2 ^ 31"
  shows "nat (sint w) = unat w"
proof -
  have u: "uint w = int (unat w)" by simp
  have "int (unat w) < int (2 ^ 31)"
    using assms by (simp only: of_nat_less_iff)
  then have hi: "int (unat w) < 2 ^ 31" by (simp only: of_nat_power of_nat_numeral)
  have "- (2 ^ 31) \<le> (0 :: int)" and "0 \<le> int (unat w)" by simp_all
  then have "- (2 ^ 31) \<le> int (unat w)" by (rule order_trans)
  then have "signed_take_bit 31 (int (unat w)) = int (unat w)"
    using hi by (rule signed_take_bit_int_eq_self)
  then have "sint w = int (unat w)"
    unfolding sint_uint u by simp
  then show ?thesis by simp
qed

lemma importing_switch:
  assumes imp: "importing n fBranch rw xs" and new: "with_new CEE_SWITCH (Arg w) start rw xs p rw1"
    and args: "import_switch_args k base pIL offset rw1 = Inr (offset', rw')"
    and k: "k = unat (ucast w :: u32)" and start: "start < n" and n: "n < 2 ^ 32"
  shows "importing n True rw' (xs @ p # new_refs rw1 k)"
proof -
  let ?qs = "new_refs rw1 k"
  have lk1: "linked rw1 (xs @ [p])" and old1: "\<And>q. q \<in> set (m_IL # xs) \<Longrightarrow> payload rw1 q = payload rw q"
    and cnt1: "counted rw1" and fr1: "m_CodeSize rw1 = m_CodeSize rw" "m_pEH rw1 = m_pEH rw"
      "m_fGenerateTinyHeader rw1 = m_fGenerateTinyHeader rw"
    and tbl1: "m_pOffsetToInstr rw1 = (m_pOffsetToInstr rw)[start := p]"
    and p1: "m_opcode (ins rw1 p) = CEE_SWITCH" "m_arg (ins rw1 p) = Arg w" and cs: "unat (m_CodeSize rw) = n"
    using new imp unfolding with_new_def importing_def by blast+
  from import_switch_args_ok [OF lk1 args] obtain ws where lk: "linked rw' ((xs @ [p]) @ ?qs)"
    and gr: "grown rw1 ws rw'" and ws: "length ws = k" "\<forall>w \<in> set ws. \<exists>a. w = (CEE_SWITCH_ARG, 0, Arg a)"
    by blast
  have old: "payload rw' q = payload rw1 q" if "q \<in> set (m_IL # xs @ [p])" for q
    using grown_old [OF gr linked_valid [OF lk1 that]] .
  have qs: "m_opcode (ins rw' q) = CEE_SWITCH_ARG \<and> (\<exists>a. m_arg (ins rw' q) = Arg a)" if q: "q \<in> set ?qs" for q
  proof -
    have "Suc (length (instrs rw1)) \<le> q" and "q < Suc (length (instrs rw1)) + k"
      using q by (simp_all only: set_upt atLeastLessThan_iff)
    then obtain j where j: "j < k" "q = length (instrs rw1) + Suc j"
      by (metis add_Suc add_Suc_right le_Suc_ex nat_add_left_cancel_less)
    then have "payload rw' q = ws ! j" and "ws ! j \<in> set ws"
      using gr ws(1) by (simp_all add: grown_def)
    with ws(2) show ?thesis by (auto simp: payload_def)
  qed
  have p: "m_opcode (ins rw' p) = CEE_SWITCH" "m_arg (ins rw' p) = Arg w"
    using old [of p] p1 by (simp_all add: payload_def)
  have "4 * k \<le> n"
    using import_switch_args_bound [OF args lk1] fr1(1) cs by (cases "k = 0") simp_all
  then have "unat (ucast w :: u32) < 2 ^ 31"
    using n k by simp
  then have sk: "nat (sint (ucast w :: u32)) = k"
    unfolding k by (rule nat_sint_small)
  have "switches_ok rw' qs'" if "set qs' \<subseteq> set ?qs" for qs'
    using that qs by (induction qs') auto
  then have "switches_ok rw' ?qs" by blast
  moreover have "list_all (\<lambda>q. m_opcode (ins rw' q) = CEE_SWITCH_ARG) (take k ?qs)"
    using qs by (simp add: list_all_iff del: upt_Suc)
  ultimately have sw: "switches_ok rw' (p # ?qs)"
    using p sk by (simp del: upt_Suc)
  show ?thesis
    using imp
  proof (rule importing_append [where ys = "p # ?qs"])
    show "linked rw' (xs @ p # ?qs)"
      using lk by simp
    show "payload rw' q = payload rw q" if "q \<in> set (m_IL # xs)" for q
      using old [of q] old1 [OF that] that by auto
    show "\<forall>q \<in> set (p # ?qs). raw_ok rw' q"
      using p qs by (auto simp: raw_ok_def opcode_valid_def simp del: upt_Suc)
    show "m_pOffsetToInstr rw' = (m_pOffsetToInstr rw)[start := p]"
      using grown_fields(2) [OF gr] tbl1 by simp
  qed (use sw start grown_counted [OF gr cnt1] grown_fields [OF gr] fr1 in simp_all)
qed

lemma ucast_u64_u32: "ucast (ucast (t :: u32) :: u64) = t"
  by transfer simp

lemma import_opcode_valid:
  assumes "import_opcode pIL offset rw = Inr (opcode, offset')"
  shows "opcode < CEE_COUNT"
  using assms by (auto simp: import_opcode_def res_simps Let_def)

lemma import_step_ok:
  assumes imp: "importing n fBranch rw xs" and step: "import_step pIL start fBranch rw = Inr (offset', fBranch', rw')"
    and start: "start < n" and n: "n < 2 ^ 32"
  shows "\<exists>ys. ys \<noteq> [] \<and> importing n fBranch' rw' (xs @ ys)"
proof -
  from step obtain opcode offset flags where opc: "import_opcode pIL start rw = Inr (opcode, offset)"
    and fl: "s_OpCodeFlags opcode = Inr flags"
    and rest: "and_then (insert_new_before m_IL opcode (Arg 0) rw) (\<lambda>(pInstr, rw).
      import_operand pIL pInstr flags offset fBranch
        (rw\<lparr>m_pOffsetToInstr := (m_pOffsetToInstr rw)[start := pInstr]\<rparr>)) = Inr (offset', fBranch', rw')"
    unfolding import_step_insert by (auto simp: res_simps)
  have less: "opcode < CEE_COUNT"
    using opc by (rule import_opcode_valid)
  then have op: "opcode_valid opcode"
    by (simp add: opcode_valid_def)
  have f: "flags = flags_of opcode"
    using s_OpCodeFlags_valid [OF op] fl by simp
  have lk: "linked rw xs"
    using imp by (simp add: importing_def)
  obtain p rw1 where ins1: "insert_new_before m_IL opcode (Arg 0) rw = Inr (p, rw1)"
    and upd: "\<And>arg. \<exists>rw2. update_instr p (\<lambda>i. i\<lparr>m_arg := arg\<rparr>)
          (rw1\<lparr>m_pOffsetToInstr := (m_pOffsetToInstr rw1)[start := p]\<rparr>) = Inr rw2
        \<and> with_new opcode arg start rw xs p rw2"
    using with_new_ok [OF lk op] by blast
  let ?rw1 = "rw1\<lparr>m_pOffsetToInstr := (m_pOffsetToInstr rw1)[start := p]\<rparr>"
  from rest ins1 have opd: "import_operand pIL p flags offset fBranch ?rw1 = Inr (offset', fBranch', rw')"
    by simp
  show ?thesis
  proof (cases "flags = 32")
    case True
    then have sw: "opcode = CEE_SWITCH"
      using flags_switch_only [OF op] f by simp
    let ?t = "word_of_int (int_at 4 offset pIL) :: u32"
    obtain rw2 where upd2: "update_instr p (\<lambda>i. i\<lparr>m_arg := Arg (ucast ?t)\<rparr>) ?rw1 = Inr rw2"
      and new: "with_new CEE_SWITCH (Arg (ucast ?t)) start rw xs p rw2"
      using upd [of "Arg (ucast ?t)"] sw by blast
    from opd True upd2 obtain base o2 where "import_switch_args (unat ?t) base pIL (offset + 4) rw2 = Inr (o2, rw')"
      and fb: "fBranch'"
      by (auto simp: import_operand_def import_switch_def res_simps Let_def)
    from importing_switch [OF imp new this(1) _ start n] have "importing n True rw' (xs @ p # new_refs rw2 (unat ?t))"
      by (simp only: ucast_u64_u32)
    with fb show ?thesis
      by (intro exI [of _ "p # new_refs rw2 (unat ?t)"]) (simp del: upt_Suc)
  next
    case False
    let ?a = "Arg (import_arg flags offset pIL)"
    obtain rw2 where upd2: "update_instr p (\<lambda>i. i\<lparr>m_arg := ?a\<rparr>) ?rw1 = Inr rw2"
      and new: "with_new opcode ?a start rw xs p rw2"
      using upd [of ?a] by blast
    from opd False upd2 have rw': "rw' = rw2" and fb: "fBranch' = (fBranch \<or> branching flags)"
      by (auto simp: import_operand_def res_simps split: if_splits)
    have "opcode \<noteq> CEE_SWITCH"
      using False f switch_flags(1) by auto
    from importing_new [OF imp new less this start] show ?thesis
      unfolding rw' fb f by blast
  qed
qed

lemma import_loop_ok:
  assumes "importing n fBranch rw xs" and "n < 2 ^ 32"
    and "import_loop n pIL offset fBranch rw = Inr (offset', fBranch', rw')"
  shows "\<exists>ys. (offset < n \<longrightarrow> ys \<noteq> []) \<and> importing n fBranch' rw' (xs @ ys)"
  using assms
proof (induction n pIL offset fBranch rw arbitrary: xs rule: import_loop.induct)
  case (1 n pIL offset fBranch rw)
  show ?case
  proof (cases "offset < n")
    case False
    with "1.prems"(1,3) show ?thesis
      by (subst (asm) import_loop.simps) (auto intro: exI [of _ "[]"])
  next
    case True
    with "1.prems"(3) obtain o1 fb1 rw1 where step: "import_step pIL offset fBranch rw = Inr (o1, fb1, rw1)"
      and rest: "import_loop n pIL o1 fb1 rw1 = Inr (offset', fBranch', rw')"
      by (subst (asm) import_loop.simps) (auto simp: res_simps)
    obtain ys where ys: "ys \<noteq> []" "importing n fb1 rw1 (xs @ ys)"
      using import_step_ok [OF "1.prems"(1) step True "1.prems"(2)] by blast
    then obtain zs where "importing n fBranch' rw' ((xs @ ys) @ zs)"
      using "1.IH" [OF True step _ _ ys(2) "1.prems"(2) rest] by blast
    with ys(1) show ?thesis by (intro exI [of _ "ys @ zs"]) simp
  qed
qed

subsection \<open>Resolving the targets\<close>

lemma GetInstrFromOffset_in:
  assumes "importing n fBranch rw xs" and "GetInstrFromOffset offset rw' = Inr p"
    and "m_CodeSize rw' = m_CodeSize rw" and "m_pOffsetToInstr rw' = m_pOffsetToInstr rw"
  shows "p \<in> set (m_IL # xs)" and "unat offset < n \<Longrightarrow> p \<in> set xs"
proof -
  from assms(2) have le: "offset \<le> m_CodeSize rw" and p: "p = m_pOffsetToInstr rw ! unat offset" "p \<noteq> null"
    by (auto simp: GetInstrFromOffset_def res_simps Let_def assms(3,4) split: if_splits)
  have n: "unat offset \<le> n"
    using le assms(1) by (simp add: importing_def word_le_nat_alt)
  have tbl: "m_pOffsetToInstr rw ! n = m_IL"
    "\<And>k. k < n \<Longrightarrow> m_pOffsetToInstr rw ! k = null \<or> m_pOffsetToInstr rw ! k \<in> set xs"
    using assms(1) by (simp_all add: importing_def)
  show lt: "unat offset < n \<Longrightarrow> p \<in> set xs"
    using tbl(2) [of "unat offset"] p by simp
  show "p \<in> set (m_IL # xs)"
    using lt tbl(1) p(1) n by (cases "unat offset = n") simp_all
qed

text \<open>States before and after the resolution of the branches among the instructions \<open>D\<close>.\<close>

definition resolved :: "il_rewriter \<Rightarrow> ref set \<Rightarrow> ref set \<Rightarrow> il_rewriter \<Rightarrow> bool" where
  "resolved rw T D rw' \<longleftrightarrow>
     length (instrs rw') = length (instrs rw) \<and> rw'\<lparr>instrs := []\<rparr> = rw\<lparr>instrs := []\<rparr>
     \<and> (\<forall>q. valid_ref rw q \<longrightarrow> m_pNext (ins rw' q) = m_pNext (ins rw q)
          \<and> m_pPrev (ins rw' q) = m_pPrev (ins rw q) \<and> m_opcode (ins rw' q) = m_opcode (ins rw q)
          \<and> (if q \<in> D \<and> branching (flags_of (m_opcode (ins rw q)))
             then \<exists>t \<in> T. m_arg (ins rw' q) = Target t else m_arg (ins rw' q) = m_arg (ins rw q)))"

lemma resolve_targets_ok:
  assumes imp: "importing n fBranch rw xs"
    and "resolved rw (set (m_IL # xs)) D rw1" and "set ps \<subseteq> set xs" and "set ps \<inter> D = {}" and "distinct ps"
    and "fold_res resolve_target ps rw1 = Inr rw'"
  shows "resolved rw (set (m_IL # xs)) (D \<union> set ps) rw'"
  using assms(2-)
proof (induction ps arbitrary: D rw1)
  case (Cons p ps)
  let ?T = "set (m_IL # xs)"
  from Cons.prems(5) obtain rw2 where step: "resolve_target p rw1 = Inr rw2"
    and rest: "fold_res resolve_target ps rw2 = Inr rw'"
    by auto
  have lk: "linked rw xs"
    using imp by (simp add: importing_def)
  have v: "valid_ref rw p"
    using linked_valid [OF lk] Cons.prems(2) by simp
  then have v1: "valid_ref rw1 p"
    using Cons.prems(1) by (simp add: resolved_def valid_ref_def)
  have op: "m_opcode (ins rw1 p) = m_opcode (ins rw p)"
    using Cons.prems(1) v by (simp add: resolved_def)
  have "raw_ok rw p"
    using imp Cons.prems(2) by (simp add: importing_def)
  then have opv: "opcode_valid (m_opcode (ins rw p))"
    by (simp add: raw_ok_def)
  note fl = s_OpCodeFlags_valid [OF opv]
  have br: "is_branch_flags (flags_of (m_opcode (ins rw p))) = branching (flags_of (m_opcode (ins rw p)))"
    using flags_cases [OF opv] by auto
  have "resolved rw ?T (insert p D) rw2"
  proof (cases "branching (flags_of (m_opcode (ins rw p)))")
    case True
    with step v1 op fl br obtain w t where "GetInstrFromOffset (ucast (w :: u64)) rw1 = Inr t"
      and rw2: "rw2 = set_ins p ((ins rw1 p)\<lparr>m_arg := Target t\<rparr>) rw1"
      by (auto simp: resolve_target_def res_simps)
    moreover have "m_CodeSize rw1 = m_CodeSize rw" "m_pOffsetToInstr rw1 = m_pOffsetToInstr rw"
      using Cons.prems(1) by (cases rw; cases rw1; simp add: resolved_def)+
    ultimately have t: "t \<in> ?T"
      using GetInstrFromOffset_in(1) [OF imp] by blast
    have "ins rw2 q = (if q = p then (ins rw1 p)\<lparr>m_arg := Target t\<rparr> else ins rw1 q)" if "valid_ref rw q" for q
    proof -
      have "valid_ref rw1 q"
        using Cons.prems(1) that by (simp add: resolved_def valid_ref_def)
      with v1 show ?thesis unfolding rw2 by simp
    qed
    moreover have "length (instrs rw2) = length (instrs rw1)" "rw2\<lparr>instrs := []\<rparr> = rw1\<lparr>instrs := []\<rparr>"
      unfolding rw2 by simp_all
    ultimately show ?thesis
      using Cons.prems(1) t True v unfolding resolved_def by (auto simp: op)
  next
    case False
    with step v1 op fl br have "rw2 = rw1"
      by (auto simp: resolve_target_def res_simps)
    with False Cons.prems(1) show ?thesis
      by (auto simp: resolved_def)
  qed
  then have "resolved rw ?T (insert p D \<union> set ps) rw'"
    using Cons.prems rest by (intro Cons.IH) auto
  then show ?case by simp
qed simp

lemma resolved_linked:
  assumes "resolved rw T D rw'" and "linked rw xs"
  shows "linked rw' xs"
  using assms(2)
proof (rule linked_cong)
  show "m_pNext (ins rw' q) = m_pNext (ins rw q) \<and> m_pPrev (ins rw' q) = m_pPrev (ins rw q)"
    if "q \<in> set (m_IL # xs)" for q
    using linked_valid [OF assms(2) that] assms(1) by (simp add: resolved_def)
qed (use assms(1) in \<open>simp add: resolved_def\<close>)

definition imported :: "nat \<Rightarrow> il_rewriter \<Rightarrow> ref list \<Rightarrow> bool" where
  "imported n rw xs \<longleftrightarrow>
     code_ok rw xs \<and> m_opcode (ins rw m_IL) = 2 ^ 32 - 1 \<and> switches_ok rw xs \<and> counted rw
     \<and> m_pEH rw = [] \<and> \<not> m_fGenerateTinyHeader rw \<and> unat (m_CodeSize rw) = n
     \<and> (\<forall>p \<in> set xs. m_opcode (ins rw p) \<noteq> CEE_COUNT)
     \<and> m_pOffsetToInstr rw ! n = m_IL \<and> length (m_pOffsetToInstr rw) = Suc n
     \<and> (\<forall>k < n. m_pOffsetToInstr rw ! k = null \<or> m_pOffsetToInstr rw ! k \<in> set xs)"

lemma importing_resolved:
  assumes imp: "importing n fBranch rw xs" and res: "resolved rw (set (m_IL # xs)) (set xs) rw'"
  shows "imported n rw' xs"
proof -
  have lk: "linked rw xs"
    using imp by (simp add: importing_def)
  have v: "valid_ref rw q" if "q \<in> set (m_IL # xs)" for q
    using linked_valid [OF lk that] .
  have "instr_ok rw' (set (m_IL # xs)) q" if "q \<in> set xs" for q
    using v [of q] imp res that by (auto simp: instr_ok_def importing_def raw_ok_def resolved_def valid_ref_def)
  then have "code_ok rw' xs"
    using resolved_linked [OF res lk] by (simp add: code_ok_def)
  moreover have "switches_ok rw' xs"
  proof (rule switches_ok_cong [of rw])
    show "switches_ok rw xs"
      using imp by (simp add: importing_def)
  qed (use v res switch_flags in \<open>auto simp: resolved_def\<close>)
  moreover have "m_opcode (ins rw' m_IL) = 2 ^ 32 - 1"
    using imp res v [of m_IL] by (simp add: importing_def resolved_def)
  moreover have "\<forall>p \<in> set xs. m_opcode (ins rw' p) \<noteq> CEE_COUNT"
    using imp res v by (simp add: importing_def raw_ok_def resolved_def)
  moreover have "counted rw'" "m_pEH rw' = m_pEH rw" "m_CodeSize rw' = m_CodeSize rw"
    "m_pOffsetToInstr rw' = m_pOffsetToInstr rw" "m_fGenerateTinyHeader rw' = m_fGenerateTinyHeader rw"
    using imp res by (cases rw; cases rw'; simp add: importing_def resolved_def counted_def)+
  ultimately show ?thesis
    using imp by (simp add: imported_def importing_def)
qed

lemma importing_initial:
  assumes "unat (m_CodeSize rw) = n" and "linked rw []" and "counted rw" and "m_pEH rw = []" "\<not> m_fGenerateTinyHeader rw"
  shows "\<exists>rw'. update_instr m_IL (\<lambda>i. i\<lparr>m_opcode := 2 ^ 32 - 1\<rparr>)
      (rw\<lparr>m_pOffsetToInstr := replicate n null @ [m_IL]\<rparr>) = Inr rw' \<and> importing n False rw' []"
proof -
  let ?rw = "rw\<lparr>m_pOffsetToInstr := replicate n null @ [m_IL]\<rparr>"
  let ?rw' = "set_ins m_IL ((ins ?rw m_IL)\<lparr>m_opcode := 2 ^ 32 - 1\<rparr>) ?rw"
  have v: "valid_ref ?rw m_IL"
    using linked_valid [OF assms(2)] by simp
  have "linked ?rw []"
    using assms(2) by simp
  then have "linked ?rw' []"
    by (rule linked_cong) (use v in auto)
  then have "importing n False ?rw' []"
    using assms v by (auto simp: importing_def nth_append)
  with v show ?thesis by simp
qed

lemma ImportIL_ok:
  assumes "unat (m_CodeSize rw) = n" and "linked rw []" and "counted rw" and "m_pEH rw = []" "\<not> m_fGenerateTinyHeader rw"
    and run: "ImportIL pIL rw = Inr rw'"
  shows "\<exists>xs. imported n rw' xs \<and> (0 < n \<longrightarrow> xs \<noteq> [])"
proof -
  have "unat (m_CodeSize rw) < 2 ^ LENGTH(32)"
    by (rule unsigned_less)
  then have n: "n < 2 ^ 32"
    using assms(1) by simp
  obtain rw1 where upd: "update_instr m_IL (\<lambda>i. i\<lparr>m_opcode := 2 ^ 32 - 1\<rparr>)
      (rw\<lparr>m_pOffsetToInstr := replicate n null @ [m_IL]\<rparr>) = Inr rw1" and imp1: "importing n False rw1 []"
    using importing_initial [OF assms(1-5)] by blast
  from run upd obtain offset fb rw2 where loop: "import_loop n pIL 0 False rw1 = Inr (offset, fb, rw2)"
    and rest: "(if fb then and_then (il_list rw2) (\<lambda>ps. fold_res resolve_target ps rw2) else Inr rw2) = Inr rw'"
    unfolding ImportIL_def assms(1) Let_def by (auto simp: res_simps)
  obtain xs where ne: "0 < n \<longrightarrow> xs \<noteq> []" and imp: "importing n fb rw2 xs"
    using import_loop_ok [OF imp1 n loop] by auto
  have lk: "linked rw2 xs" and d: "distinct xs"
    using imp by (simp_all add: importing_def linked_def)
  have start: "resolved rw2 (set (m_IL # xs)) {} rw2"
    by (simp add: resolved_def)
  have "resolved rw2 (set (m_IL # xs)) (set xs) rw'"
  proof (cases fb)
    case True
    then have "fold_res resolve_target xs rw2 = Inr rw'"
      using rest il_list_linked [OF lk] by simp
    from resolve_targets_ok [OF imp start _ _ d this] show ?thesis by simp
  next
    case False
    then show ?thesis
      using rest imp by (auto simp: resolved_def importing_def)
  qed
  from importing_resolved [OF imp this] ne show ?thesis by blast
qed

subsection \<open>The number of instructions\<close>

text \<open>Each instruction takes at least one byte.\<close>

lemma update_instr_length: "update_instr p f rw = Inr rw' \<Longrightarrow> length (instrs rw') = length (instrs rw)"
  by (auto simp: update_instr_def res_simps)

lemma InsertBefore_length: "InsertBefore p q rw = Inr rw' \<Longrightarrow> length (instrs rw') = length (instrs rw)"
  by (auto simp: InsertBefore_def AdjustState_def res_simps dest!: update_instr_length)

lemma new_instr_with_length: "new_instr_with opcode arg rw = Inr (p, rw') \<Longrightarrow> length (instrs rw') = Suc (length (instrs rw))"
  by (auto simp: new_instr_with_def NewILInstr_def res_simps dest!: update_instr_length)

lemma import_switch_args_length:
  "import_switch_args n base pIL offset rw = Inr (offset', rw') \<Longrightarrow> length (instrs rw') = length (instrs rw) + n"
proof (induction n arbitrary: offset rw)
  case (Suc n)
  then obtain p rw1 rw2 where "new_instr_with CEE_SWITCH_ARG
      (Arg (ucast (base + word_of_int (int_at 4 offset pIL)))) rw = Inr (p, rw1)"
    and "InsertBefore m_IL p rw1 = Inr rw2" and "import_switch_args n base pIL (offset + 4) rw2 = Inr (offset', rw')"
    by (auto simp: res_simps)
  with Suc.IH new_instr_with_length InsertBefore_length show ?case by fastforce
qed simp

lemma import_operand_length:
  assumes "import_operand pIL p flags offset fBranch rw = Inr (offset', b, rw')"
  shows "length (instrs rw') + offset \<le> length (instrs rw) + offset'"
proof (cases "flags = 32")
  case True
  with assms obtain n base rw1 o1 where upd: "update_instr p (\<lambda>i. i\<lparr>m_arg := Arg (ucast (n :: u32))\<rparr>) rw = Inr rw1"
    and args: "import_switch_args (unat n) base pIL (offset + 4) rw1 = Inr (o1, rw')" and o': "offset' = o1"
    by (auto simp: import_operand_def import_switch_def res_simps Let_def)
  with import_switch_args_length [OF args] import_switch_args_offset [OF args] update_instr_length [OF upd]
  show ?thesis by simp
next
  case False
  with assms show ?thesis
    by (auto simp: import_operand_def res_simps dest!: update_instr_length split: if_splits)
qed

lemma import_step_length:
  assumes "import_step pIL start fBranch rw = Inr (offset', b, rw')"
  shows "length (instrs rw') + start \<le> length (instrs rw) + offset'"
proof -
  from assms obtain opcode offset flags p rw1 rw2 where op: "import_opcode pIL start rw = Inr (opcode, offset)"
    and new: "new_instr_with opcode (Arg 0) rw = Inr (p, rw1)" and insb: "InsertBefore m_IL p rw1 = Inr rw2"
    and opd: "import_operand pIL p flags offset fBranch
      (rw2\<lparr>m_pOffsetToInstr := (m_pOffsetToInstr rw2)[start := p]\<rparr>) = Inr (offset', b, rw')"
    unfolding import_step_def by (auto simp: res_simps)
  from import_opcode_offset [OF op] new_instr_with_length [OF new] InsertBefore_length [OF insb]
    import_operand_length [OF opd]
  show ?thesis by simp
qed

lemma import_loop_length:
  "import_loop n pIL offset fBranch rw = Inr (offset', b, rw') \<Longrightarrow>
    length (instrs rw') + offset \<le> length (instrs rw) + offset'"
proof (induction n pIL offset fBranch rw rule: import_loop.induct)
  case (1 n pIL offset fBranch rw)
  show ?case
  proof (cases "offset < n")
    case False
    with "1.prems" show ?thesis
      by (subst (asm) import_loop.simps) simp
  next
    case True
    with "1.prems" obtain o1 fb1 rw1 where step: "import_step pIL offset fBranch rw = Inr (o1, fb1, rw1)"
      and rest: "import_loop n pIL o1 fb1 rw1 = Inr (offset', b, rw')"
      by (subst (asm) import_loop.simps) (auto simp: res_simps)
    from "1.IH" [OF True step _ _ rest] import_step_length [OF step] show ?thesis by simp
  qed
qed

lemma resolve_target_length: "resolve_target p rw = Inr rw' \<Longrightarrow> length (instrs rw') = length (instrs rw)"
  by (auto simp: resolve_target_def res_simps dest!: update_instr_length split: if_splits)

lemma resolve_targets_length:
  "fold_res resolve_target ps rw = Inr rw' \<Longrightarrow> length (instrs rw') = length (instrs rw)"
proof (induction ps arbitrary: rw)
  case (Cons p ps)
  then show ?case using resolve_target_length by (auto simp: res_simps)
qed simp

lemma ImportIL_length:
  assumes "ImportIL pIL rw = Inr rw'"
  shows "length (instrs rw') \<le> length (instrs rw) + unat (m_CodeSize rw)"
proof -
  let ?n = "unat (m_CodeSize rw)"
  from assms obtain rw1 rw2 fb where upd: "update_instr m_IL (\<lambda>i. i\<lparr>m_opcode := 2 ^ 32 - 1\<rparr>)
      (rw\<lparr>m_pOffsetToInstr := replicate ?n null @ [m_IL]\<rparr>) = Inr rw1"
    and loop: "import_loop ?n pIL 0 False rw1 = Inr (?n, fb, rw2)"
    and rest: "(if fb then and_then (il_list rw2) (\<lambda>ps. fold_res resolve_target ps rw2) else Inr rw2) = Inr rw'"
    unfolding ImportIL_def Let_def by (auto simp: res_simps)
  have "length (instrs rw') = length (instrs rw2)"
    using rest resolve_targets_length by (auto simp: res_simps split: if_splits)
  with import_loop_length [OF loop] update_instr_length [OF upd] show ?thesis by simp
qed

lemma map_res_length: "map_res f xs = Inr ys \<Longrightarrow> length ys = length xs"
  by (induction xs arbitrary: ys) (auto simp: res_simps)

subsection \<open>Exception clauses and the whole import\<close>

text \<open>What the export reads of a clause.\<close>

definition clause_ok :: "ref set \<Rightarrow> eh_clause \<Rightarrow> bool" where
  "clause_ok T c \<longleftrightarrow>
     m_pTryBegin c \<in> T \<and> m_pTryEnd c \<in> T \<and> m_pHandlerBegin c \<in> T \<and> m_pHandlerEnd c \<in> T
     \<and> (if eh_Flags c AND 1 = 0 then \<exists>t. eh_arg c = ClassToken t
        else \<exists>f \<in> T. eh_arg c = Filter f)"

lemma imported_lookup:
  assumes "imported n rw xs" and "GetInstrFromOffset offset rw = Inr p"
  shows "p \<in> set (m_IL # xs)" and "unat offset < n \<Longrightarrow> p \<in> set xs" and "valid_ref rw p"
proof -
  from assms(2) have le: "offset \<le> m_CodeSize rw" and p: "p = m_pOffsetToInstr rw ! unat offset" "p \<noteq> null"
    by (auto simp: GetInstrFromOffset_def res_simps Let_def split: if_splits)
  have n: "unat offset \<le> n"
    using le assms(1) by (simp add: imported_def word_le_nat_alt)
  have tbl: "m_pOffsetToInstr rw ! n = m_IL"
    "\<And>k. k < n \<Longrightarrow> m_pOffsetToInstr rw ! k = null \<or> m_pOffsetToInstr rw ! k \<in> set xs"
    using assms(1) by (simp_all add: imported_def)
  show lt: "unat offset < n \<Longrightarrow> p \<in> set xs"
    using tbl(2) [of "unat offset"] p by simp
  show in': "p \<in> set (m_IL # xs)"
    using lt tbl(1) p(1) n by (cases "unat offset = n") simp_all
  then show "valid_ref rw p"
    using assms(1) linked_valid [of rw xs] by (simp add: imported_def code_ok_def)
qed

lemma import_clause_ok:
  assumes imp: "imported n rw xs" and run: "import_clause e rw = Inr c" and h: "unat (ei_HandlerOffset e) < n"
  shows "clause_ok (set (m_IL # xs)) c" and "m_pHandlerBegin c \<in> set xs"
proof -
  have lk: "linked rw xs"
    using imp by (simp add: imported_def code_ok_def)
  from run obtain tb te hb he i a where
    g: "GetInstrFromOffset (ei_TryOffset e) rw = Inr tb"
      "GetInstrFromOffset (ei_TryOffset e + ei_TryLength e) rw = Inr te"
      "GetInstrFromOffset (ei_HandlerOffset e) rw = Inr hb"
      "GetInstrFromOffset (ei_HandlerOffset e + ei_HandlerLength e) rw = Inr he"
    and i: "instr_at he rw = Inr i"
    and a: "(if ei_Flags e AND 1 = 0 then Inr (ClassToken (ei_ClassTokenOrFilterOffset e))
       else and_then (GetInstrFromOffset (ei_ClassTokenOrFilterOffset e) rw) (\<lambda>f. Inr (Filter f))) = Inr a"
    and c: "c = \<lparr>eh_Flags = ei_Flags e, m_pTryBegin = tb, m_pTryEnd = te, m_pHandlerBegin = hb,
      m_pHandlerEnd = m_pPrev i, eh_arg = a\<rparr>"
    unfolding import_clause_def by (auto simp: res_simps simp del: il_simps)
  note v = imported_lookup(1) [OF imp]
  have "i = ins rw he"
    using i imported_lookup(3) [OF imp g(4)] by simp
  then have pin: "m_pPrev i \<in> set (m_IL # xs)"
    using linked_prev_in(1) [OF lk v [OF g(4)]] by simp
  have "if ei_Flags e AND 1 = 0 then \<exists>t. a = ClassToken t else \<exists>f \<in> set (m_IL # xs). a = Filter f"
    using a v by (auto simp: res_simps split: if_splits)
  then show "clause_ok (set (m_IL # xs)) c"
    using v [OF g(1)] v [OF g(2)] v [OF g(3)] pin c by (auto simp: clause_ok_def split: if_splits)
  show "m_pHandlerBegin c \<in> set xs"
    using imported_lookup(2) [OF imp g(3) h] c by simp
qed

lemma code_ok_eh: "code_ok (rw\<lparr>m_pEH := e\<rparr>) xs = code_ok rw xs"
  by (simp add: code_ok_def instr_ok_def)

lemma switches_ok_eh: "switches_ok rw xs \<Longrightarrow> switches_ok (rw\<lparr>m_pEH := e\<rparr>) xs"
  by (rule switches_ok_cong) simp_all

lemma map_res_Inr: "map_res f xs = Inr ys \<Longrightarrow> y \<in> set ys \<Longrightarrow> \<exists>x \<in> set xs. f x = Inr y"
  by (induction xs arbitrary: ys) (auto simp: res_simps)

text \<open>
  A method body that the decoder accepts is imported into a well-formed list of instructions:
  the links form a ring, all opcodes are valid, every branch leads to an instruction of the list,
  the targets of a switch follow it, the counter of instructions is exact, and the handlers of
  exception clauses begin at instructions and have all the pointers the export reads.
\<close>

lemma Import_ok:
  assumes run: "Import m new_rewriter = Inr rw" and len: "length (im_Code m) < 2 ^ 32"
    and h: "\<forall>e \<in> set (im_EH m). unat (ei_HandlerOffset e) < length (im_Code m)"
  shows "\<exists>xs. method_ok rw xs \<and> (im_Code m \<noteq> [] \<longrightarrow> xs \<noteq> [])
    \<and> (\<forall>c \<in> set (m_pEH rw). clause_ok (set (m_IL # xs)) c) \<and> \<not> m_fGenerateTinyHeader rw
    \<and> length (instrs rw) \<le> Suc (length (im_Code m)) \<and> length (m_pEH rw) = length (im_EH m)"
proof -
  let ?n = "length (im_Code m)"
  let ?rw = "new_rewriter\<lparr>m_tkLocalVarSig := im_LocalVarSigTok m, m_maxStack := im_MaxStack m,
      m_flags := im_Flags m AND 16, m_CodeSize := word_of_nat ?n\<rparr>"
  have n: "unat (m_CodeSize ?rw) = ?n"
    using unat_u32_of_nat [OF len] by simp
  have lk: "linked ?rw []" and cnt: "counted ?rw" and eh: "m_pEH ?rw = []" "\<not> m_fGenerateTinyHeader ?rw"
    by (simp_all add: linked_def new_rewriter_def ins_def counted_def)
  from run obtain rw1 where il: "ImportIL (im_Code m) ?rw = Inr rw1" and ex: "ImportEH (im_EH m) rw1 = Inr rw"
    by (auto simp: Import_def res_simps Let_def)
  from ImportIL_ok [OF n lk cnt eh il] obtain xs where imp: "imported ?n rw1 xs" and ne: "0 < ?n \<longrightarrow> xs \<noteq> []"
    by blast
  from ex obtain cs where cs: "map_res (\<lambda>e. import_clause e rw1) (im_EH m) = Inr cs" and rw: "rw = rw1\<lparr>m_pEH := cs\<rparr>"
    by (auto simp: ImportEH_def res_simps)
  have clauses: "clause_ok (set (m_IL # xs)) c \<and> m_pHandlerBegin c \<in> set xs"
    if c: "c \<in> set cs" for c
  proof -
    obtain e where "e \<in> set (im_EH m)" and "import_clause e rw1 = Inr c"
      using map_res_Inr [OF cs c] by blast
    with import_clause_ok [OF imp] h show ?thesis by blast
  qed
  have "method_ok rw xs"
    using imp clauses
    by (auto simp: method_ok_def imported_def rw code_ok_eh switches_ok_eh counted_def)
  moreover have "\<forall>c \<in> set (m_pEH rw). clause_ok (set (m_IL # xs)) c"
    using clauses by (simp add: rw)
  moreover have "\<not> m_fGenerateTinyHeader rw"
    using imp by (simp add: rw imported_def)
  moreover have "length (instrs rw) \<le> Suc ?n"
    using ImportIL_length [OF il] n by (simp add: rw new_rewriter_def)
  moreover have "length (m_pEH rw) = length (im_EH m)"
    using map_res_length [OF cs] by (simp add: rw)
  ultimately show ?thesis
    using ne by auto
qed

subsection \<open>A sample: ldc.i4.0, brtrue.s over a nop, ret\<close>

definition sample_method :: il_method where
  "sample_method = \<lparr>im_LocalVarSigTok = 0, im_MaxStack = 8, im_Flags = 0, im_Code = [22, 45, 1, 0, 42], im_EH = []\<rparr>"

lemma sample_opcodes:
  "s_OpCodeFlags 22 = Inr 0" "s_OpCodeFlags 45 = Inr 17" "s_OpCodeFlags 0 = Inr 0" "s_OpCodeFlags 42 = Inr 0"
  "k_rgnStackPushes 22 = Inr 1" "k_rgnStackPushes 45 = Inr 0" "k_rgnStackPushes 0 = Inr 0"
  "k_rgnStackPushes 42 = Inr 0"
  by (simp_all add: s_OpCodeFlags_def k_rgnStackPushes_def opdefs_def opdefs_first_def)

definition sample_import :: il_rewriter where
  "sample_import = new_rewriter\<lparr>instrs :=
     [\<lparr>m_pNext = 2, m_pPrev = 5, m_opcode = 2 ^ 32 - 1, m_offset = 0, m_arg = Arg 0\<rparr>,
      \<lparr>m_pNext = 3, m_pPrev = 1, m_opcode = 22, m_offset = 0, m_arg = Arg 0\<rparr>,
      \<lparr>m_pNext = 4, m_pPrev = 2, m_opcode = 45, m_offset = 0, m_arg = Target 5\<rparr>,
      \<lparr>m_pNext = 5, m_pPrev = 3, m_opcode = 0, m_offset = 0, m_arg = Arg 0\<rparr>,
      \<lparr>m_pNext = 1, m_pPrev = 4, m_opcode = 42, m_offset = 0, m_arg = Arg 0\<rparr>],
     m_nInstrs := 4, m_maxStack := 9, m_CodeSize := 5, m_pOffsetToInstr := [2, 3, 0, 4, 5, 1]\<rparr>"

lemma and_then_weak: "r = r' \<Longrightarrow> and_then r f = and_then r' f"
  by simp

lemma replicate_five: "replicate 5 x = [x, x, x, x, x]"
  by (simp add: numeral_eq_Suc)

lemma sample_Import: "Import sample_method new_rewriter = Inr sample_import"
  by (simp add: Import_def sample_method_def ImportIL_def new_rewriter_def update_instr_def instr_at_def
      import_loop.simps import_step_def import_opcode_def sample_opcodes new_instr_with_def NewILInstr_def
      InsertBefore_def AdjustState_def import_operand_def import_arg_def int_at_def
      il_list_def walk.simps resolve_target_def arg_of_def GetInstrFromOffset_def ImportEH_def sample_import_def
      check_def replicate_five list_update.simps  cong: and_then_weak prod.case_cong_weak)

text \<open>
  Claim C6: A method body that the decoder accepts, shorter than four gigabytes and with handlers that begin
  inside the code, is imported into a well-formed list of instructions: the links form a ring, all opcodes
  are in the tables, every branch leads to an instruction of the list, the targets of a switch follow it,
  the counter of instructions is exact, and each exception clause has all the pointers the export reads.
\<close>

theorem import_well_formed:
  assumes "Import m new_rewriter = Inr rw" and "length (im_Code m) < 2 ^ 32"
    and "\<forall>e \<in> set (im_EH m). unat (ei_HandlerOffset e) < length (im_Code m)"
  shows "\<exists>xs. il_list rw = Inr xs \<and> method_ok rw xs \<and> length xs \<le> length (im_Code m)
    \<and> (im_Code m \<noteq> [] \<longrightarrow> xs \<noteq> []) \<and> length (m_pEH rw) = length (im_EH m)
    \<and> (\<forall>c \<in> set (m_pEH rw). clause_ok (set (m_IL # xs)) c)"
proof -
  obtain xs where xs: "method_ok rw xs" "im_Code m \<noteq> [] \<longrightarrow> xs \<noteq> []"
      "\<forall>c \<in> set (m_pEH rw). clause_ok (set (m_IL # xs)) c" "length (m_pEH rw) = length (im_EH m)"
    and len: "length (instrs rw) \<le> Suc (length (im_Code m))"
    using Import_ok [OF assms] by blast
  then have "linked rw xs"
    by (simp add: method_ok_def code_ok_def)
  then have "il_list rw = Inr xs" and "length xs < length (instrs rw)"
    using il_list_linked linked_length by blast+
  with xs len show ?thesis by (intro exI [of _ xs]) simp
qed

theorem import_well_formed_witness:
  "Import sample_method new_rewriter = Inr sample_import
   \<and> (\<exists>xs. il_list sample_import = Inr xs \<and> method_ok sample_import xs \<and> xs \<noteq> [] \<and> length xs \<le> 5)"
  using import_well_formed [OF sample_Import] sample_Import by (auto simp: sample_method_def)

end
