(* ===== verification/IL_Rewrite.thy ===== *)
theory IL_Rewrite
  imports IL_Import
begin

section \<open>RewriteIL as a whole\<close>

text \<open>
  Import, instrumentation and export together: a method body that the decoder accepts, without tail
  calls, is handed back to the runtime as a body whose code is the encoding of the woven
  method, with a header and a table of exception clauses of the announced lengths.
\<close>

subsection \<open>Exception clauses in the exported body\<close>

definition clause_bytes :: "il_rewriter \<Rightarrow> eh_clause \<Rightarrow> byte list" where
  "clause_bytes rw c =
     word_bytes (eh_Flags c)
     @ word_bytes (m_offset (ins rw (m_pTryBegin c)))
     @ word_bytes (m_offset (ins rw (m_pTryEnd c)) - m_offset (ins rw (m_pTryBegin c)))
     @ word_bytes (m_offset (ins rw (m_pHandlerBegin c)))
     @ word_bytes (m_offset (ins rw (m_pNext (ins rw (m_pHandlerEnd c)))) - m_offset (ins rw (m_pHandlerBegin c)))
     @ word_bytes (case eh_arg c of ClassToken t \<Rightarrow> t | Filter f \<Rightarrow> m_offset (ins rw f))"

lemma export_clause_ok:
  assumes lk: "linked rw ys" and ok: "clause_ok (set (m_IL # ys)) c"
  shows "export_clause rw c = Inr (clause_bytes rw c)" and "length (clause_bytes rw c) = 24"
proof -
  have v: "valid_ref rw (m_pTryBegin c)" "valid_ref rw (m_pTryEnd c)" "valid_ref rw (m_pHandlerBegin c)"
    "valid_ref rw (m_pHandlerEnd c)" and he: "m_pHandlerEnd c \<in> set (m_IL # ys)"
    using ok linked_valid [OF lk] unfolding clause_ok_def by blast+
  have vn: "valid_ref rw (m_pNext (ins rw (m_pHandlerEnd c)))"
    using linked_valid [OF lk linked_prev_in(2) [OF lk he]] .
  show "export_clause rw c = Inr (clause_bytes rw c)"
  proof (cases "eh_Flags c AND 1 = 0")
    case True
    then obtain t where "eh_arg c = ClassToken t"
      using ok by (auto simp: clause_ok_def)
    with True v vn show ?thesis
      by (simp add: export_clause_def clause_bytes_def)
  next
    case False
    then obtain f where "eh_arg c = Filter f" and "f \<in> set (m_IL # ys)"
      using ok by (auto simp: clause_ok_def)
    with False v vn linked_valid [OF lk, of f] show ?thesis
      by (simp add: export_clause_def clause_bytes_def)
  qed
  show "length (clause_bytes rw c) = 24"
    by (simp add: clause_bytes_def)
qed

lemma map_res_all: "(\<And>x. x \<in> set xs \<Longrightarrow> f x = Inr (g x)) \<Longrightarrow> map_res f xs = Inr (map g xs)"
  by (induction xs) simp_all

definition eh_bytes :: "il_rewriter \<Rightarrow> byte list" where
  "eh_bytes rw =
     (if m_pEH rw = [] then []
      else word_bytes (0x41 OR push_bit 8 (word_of_nat (4 + 24 * length (m_pEH rw))) :: u32)
           @ concat (map (clause_bytes rw) (m_pEH rw)))"

lemma eh_section_ok:
  assumes lk: "linked rw ys" and ok: "\<forall>c \<in> set (m_pEH rw). clause_ok (set (m_IL # ys)) c"
  shows "eh_section rw = Inr (eh_bytes rw)"
    and "length (eh_bytes rw) = (if m_pEH rw \<noteq> [] then 4 + 24 * length (m_pEH rw) else 0)"
proof -
  have "map_res (export_clause rw) (m_pEH rw) = Inr (map (clause_bytes rw) (m_pEH rw))"
    using export_clause_ok(1) [OF lk] ok by (intro map_res_all) blast
  then show "eh_section rw = Inr (eh_bytes rw)"
    by (simp add: eh_section_def eh_bytes_def)
  have "length (concat (map (clause_bytes rw) cs)) = 24 * length cs"
    if "\<forall>c \<in> set cs. clause_ok (set (m_IL # ys)) c" for cs
    using that export_clause_ok(2) [OF lk] by (induction cs) simp_all
  with ok show "length (eh_bytes rw) = (if m_pEH rw \<noteq> [] then 4 + 24 * length (m_pEH rw) else 0)"
    by (simp add: eh_bytes_def)
qed

subsection \<open>The exported body\<close>

definition body_of :: "(nat \<Rightarrow> byte) \<Rightarrow> il_rewriter \<Rightarrow> ref list \<Rightarrow> byte list" where
  "body_of mem rw ys =
     (let code = concat (encode_list rw 0 ys); n = length code in
      fat_header rw n @ code @ map mem [12 + n ..< 12 + 4 * ((n + 3) div 4)] @ eh_bytes rw)"

lemma length_fat_header: "length (fat_header rw n) = 12"
  by (simp add: fat_header_def Let_def)

lemma counted_maxSize:
  assumes "counted rw" and "instrs rw \<noteq> []" and "10 * length (instrs rw) < 2 ^ 32"
  shows "unat (m_nInstrs rw * 10) = 10 * (length (instrs rw) - 1)"
proof -
  obtain k where k: "length (instrs rw) = Suc k"
    using assms(2) by (cases "instrs rw") auto
  have "m_nInstrs rw = word_of_nat k"
    using assms(1) k by (simp add: counted_def)
  then have "m_nInstrs rw * 10 = word_of_nat (10 * k)"
    by (simp add: mult.commute)
  then show ?thesis
    using assms(3) k unat_u32_of_nat [of "10 * k"] by simp
qed

lemma laid_out_fields:
  assumes "laid_out rw rw'"
  shows "m_pEH rw' = m_pEH rw" and "m_fGenerateTinyHeader rw' = m_fGenerateTinyHeader rw"
  using assms by (cases rw; cases rw'; simp add: laid_out_def)+

lemma Export_ok:
  assumes ok: "code_ok rw ys" and cnt: "counted rw" and small: "10 * length (instrs rw) < 2 ^ 32"
    and eh: "\<forall>c \<in> set (m_pEH rw). clause_ok (set (m_IL # ys)) c" and fat: "\<not> m_fGenerateTinyHeader rw"
    and mem: "\<And>n. host_alloc host n = Some (mem n)"
  shows "\<exists>rw' n. laid_out rw rw' \<and> offsets_ok rw' 0 (ys @ [m_IL]) \<and> (\<forall>p \<in> set ys. fits rw' p)
    \<and> n = total_size rw' (code_size rw' ys) \<and> length (body_of (mem n) rw' ys) = n
    \<and> Export host fresh rw
      = Inr (let hr = host_setBody host (body_of (mem n) rw' ys) in if FAILED hr then hr else S_OK,
             Some (body_of (mem n) rw' ys))"
proof -
  have lk: "linked rw ys"
    using ok by (simp add: code_ok_def)
  let ?max = "unat (m_nInstrs rw * 10)"
  have max: "?max = 10 * (length (instrs rw) - 1)"
    using cnt _ small by (rule counted_maxSize) (use lk in \<open>simp add: linked_def\<close>)
  have room: "10 * length ys \<le> ?max" and small': "?max < 2 ^ 32"
    using linked_length [OF lk] small max by simp_all
  obtain off buf' rw' where run: "export_loop ?max (map fresh [0 ..< ?max]) rw = Inr (off, buf', rw')"
    and len: "length buf' = ?max" and lay: "laid_out rw rw'" and enc: "encoded rw' ys off buf'"
    using export_loop_ok [OF ok _ room small', of "map fresh [0 ..< ?max]"] by auto
  have lk': "linked rw' ys"
    using lay lk by (rule laid_out_linked)
  have off: "off = code_size rw' ys" and code: "take off buf' = concat (encode_list rw' 0 ys)"
    using enc unfolding encoded_def by blast+
  have "code_size rw' ys \<le> 9 * length ys"
    using laid_out_code_ok [OF lay ok] by (intro code_size_less) (simp add: code_ok_def instr_ok_def)
  then have lcode: "length (concat (encode_list rw' 0 ys)) = off"
    using len room off unfolding code [symmetric] by simp
  have eh': "\<forall>c \<in> set (m_pEH rw'). clause_ok (set (m_IL # ys)) c"
    using eh laid_out_fields(1) [OF lay] by simp
  note sec = eh_section_ok [OF lk' eh']
  let ?n = "total_size rw' off"
  have body: "fat_body (mem ?n) (take off buf') off rw' = Inr (body_of (mem ?n) rw' ys)"
    by (simp add: fat_body_def body_of_def sec(1) code lcode Let_def)
  have "length (body_of (mem ?n) rw' ys) = ?n"
    by (simp add: body_of_def total_size_def length_fat_header lcode sec(2) Let_def)
  moreover have "Export host fresh rw = Inr (let hr = host_setBody host (body_of (mem ?n) rw' ys)
      in if FAILED hr then hr else S_OK, Some (body_of (mem ?n) rw' ys))"
    using run fat laid_out_fields(2) [OF lay] mem body by (simp add: Export_def Let_def)
  ultimately show ?thesis
    using lay enc off by (intro exI [of _ rw'] exI [of _ ?n]) (simp add: encoded_def)
qed

subsection \<open>From body to body\<close>

lemma clause_ok_woven:
  assumes "list_all2 (block t probes methodId rw0 rw) xs bs" and "clause_ok (set (m_IL # xs)) c"
  shows "clause_ok (set (m_IL # ps @ concat bs)) (c\<lparr>m_pHandlerEnd := end_of xs bs (m_pHandlerEnd c)\<rparr>)"
proof -
  have sub: "set (m_IL # xs) \<subseteq> set (m_IL # ps @ concat bs)"
    using heads_in [OF assms(1)] by auto
  have "end_of xs bs h \<in> set (m_IL # ps @ concat bs)" if "h \<in> set (m_IL # xs)" for h
  proof (cases "h \<in> set xs")
    case True
    from end_of_in [OF assms(1) True] show ?thesis by auto
  next
    case False
    with that end_of_out [of h xs bs] show ?thesis by simp
  qed
  with sub assms(2) show ?thesis
    unfolding clause_ok_def by (auto split: if_splits)
qed

lemma relabelled_eh: "relabelled A rw rw' \<Longrightarrow> m_pEH rw' = m_pEH rw"
  "relabelled A rw rw' \<Longrightarrow> m_fGenerateTinyHeader rw' = m_fGenerateTinyHeader rw"
  by (cases rw; cases rw'; simp add: relabelled_def)+

text \<open>
  What the hypotheses of the result below say of a method body: the decoder accepts it, its code
  is not empty, handlers begin inside it, it has no tail calls, and the buffer of the export (ten bytes for
  each instruction, at most ten new instructions for each old one and five for each handler)
  stays below four gigabytes.
\<close>

definition rewritable :: "il_method \<Rightarrow> il_rewriter \<Rightarrow> ref list \<Rightarrow> bool" where
  "rewritable m rw xs \<longleftrightarrow>
     Import m new_rewriter = Inr rw \<and> im_Code m \<noteq> []
     \<and> (\<forall>e \<in> set (im_EH m). unat (ei_HandlerOffset e) < length (im_Code m))
     \<and> il_list rw = Inr xs \<and> no_tailcalls rw xs
     \<and> 110 * length (im_Code m) + 50 * length (im_EH m) + 60 < 2 ^ 32"

text \<open>
  What the new body is: the original list \<open>xs\<close> with its offsets counted (\<open>rw0\<close>), the woven list
  \<open>ps @ concat bs\<close> (\<open>rw1\<close>), its layout (\<open>rw2\<close>), and the bytes of that layout.
\<close>

definition rewritten ::
  "(nat \<Rightarrow> nat \<Rightarrow> byte) \<Rightarrow> tid \<Rightarrow> coverage_probes \<Rightarrow> u32 \<Rightarrow> bool \<Rightarrow> il_rewriter \<Rightarrow> ref list \<Rightarrow> byte list \<Rightarrow> bool" where
  "rewritten mem t covProb methodId isMain rw xs body \<longleftrightarrow>
     (\<exists>rw0 rw1 ps bs rw2 n. countOffsets rw = Inr rw0 \<and> offsets_ok rw0 0 xs
        \<and> instrumented t covProb methodId isMain rw0 xs rw1 ps bs
        \<and> laid_out rw1 rw2 \<and> offsets_ok rw2 0 ((ps @ concat bs) @ [m_IL])
        \<and> (\<forall>p \<in> set (ps @ concat bs). fits rw2 p)
        \<and> n = total_size rw2 (code_size rw2 (ps @ concat bs))
        \<and> body = body_of (mem n) rw2 (ps @ concat bs) \<and> length body = n)"

lemma RewriteIL_ok:
  assumes "rewritable m rw xs" and "\<And>n. host_alloc host n = Some (mem n)"
  shows "\<exists>body. rewritten mem t covProb methodId isMain rw xs body
    \<and> RewriteIL host fresh t covProb (Inr m) methodId isMain
      = Inr (let hr = host_setBody host body in if FAILED hr then hr else S_OK, Some body)"
proof -
  have imp: "Import m new_rewriter = Inr rw" and code: "im_Code m \<noteq> []"
    and hs: "\<forall>e \<in> set (im_EH m). unat (ei_HandlerOffset e) < length (im_Code m)"
    and list: "il_list rw = Inr xs" and tail: "no_tailcalls rw xs"
    and room: "110 * length (im_Code m) + 50 * length (im_EH m) + 60 < 2 ^ 32"
    using assms(1) unfolding rewritable_def by blast+
  obtain ys where ok: "method_ok rw ys" and ne: "ys \<noteq> []"
    and eh: "\<forall>c \<in> set (m_pEH rw). clause_ok (set (m_IL # ys)) c" and fat: "\<not> m_fGenerateTinyHeader rw"
    and lens: "length (instrs rw) \<le> Suc (length (im_Code m))" "length (m_pEH rw) = length (im_EH m)"
    using Import_ok [OF imp _ hs] code room by auto
  have "linked rw ys"
    using ok by (simp add: method_ok_def code_ok_def)
  then have ys: "ys = xs"
    using il_list_linked list by fastforce
  have less: "length xs < length (instrs rw)"
    using linked_length [OF \<open>linked rw ys\<close>] by (simp add: ys)
  obtain rw0 rw1 ps bs where off: "countOffsets rw = Inr rw0" "offsets_ok rw0 0 xs"
    and rel: "relabelled (set xs) rw rw0"
    and run: "instrument_code t covProb methodId isMain rw = Inr rw1"
    and i: "instrumented t covProb methodId isMain rw0 xs rw1 ps bs" and cnt: "counted rw1"
    and len1: "length (instrs rw1) \<le> length (instrs rw) + 10 * length xs + 5 * length (m_pEH rw) + 5"
    using instrument_ok [OF ok [unfolded ys] ne [unfolded ys] tail] less lens room by fastforce
  have small: "10 * length (instrs rw1) < 2 ^ 32"
    using less len1 lens room by linarith
  have "code_ok rw0 xs"
    using relabelled_method_ok [OF rel ok [unfolded ys]] by (simp add: method_ok_def)
  then have ok1: "code_ok rw1 (ps @ concat bs)"
    using i by (rule instrumented_code_ok)
  obtain probes where bl: "list_all2 (block t probes methodId rw0 rw1) xs bs"
    and eh1: "m_pEH rw1 = map (\<lambda>c. c\<lparr>m_pHandlerEnd := end_of xs bs (m_pHandlerEnd c)\<rparr>) (m_pEH rw0)"
    and fr: "(frame rw1)\<lparr>m_pEH := []\<rparr> = (frame rw0)\<lparr>m_pEH := []\<rparr>"
    using i unfolding instrumented_def Let_def by blast
  have "\<forall>c \<in> set (m_pEH rw1). clause_ok (set (m_IL # ps @ concat bs)) c"
    using eh [unfolded ys] clause_ok_woven [OF bl] relabelled_eh(1) [OF rel] by (auto simp: eh1)
  moreover have "\<not> m_fGenerateTinyHeader rw1"
    using fr fat relabelled_eh(2) [OF rel] by (cases rw0; cases rw1; simp add: frame_def)
  ultimately obtain rw2 n where "laid_out rw1 rw2" "offsets_ok rw2 0 ((ps @ concat bs) @ [m_IL])"
      "\<forall>p \<in> set (ps @ concat bs). fits rw2 p" "n = total_size rw2 (code_size rw2 (ps @ concat bs))"
      "length (body_of (mem n) rw2 (ps @ concat bs)) = n"
    and ex: "Export host fresh rw1
      = Inr (let hr = host_setBody host (body_of (mem n) rw2 (ps @ concat bs)) in if FAILED hr then hr else S_OK,
             Some (body_of (mem n) rw2 (ps @ concat bs)))"
    using Export_ok [OF ok1 cnt small _ _ assms(2), of fresh] by blast
  moreover have "RewriteIL host fresh t covProb (Inr m) methodId isMain = Export host fresh rw1"
    using imp run by (simp add: RewriteIL_def)
  ultimately show ?thesis
    using off i unfolding rewritten_def by (intro exI [of _ "body_of (mem n) rw2 (ps @ concat bs)"]) metis
qed

text \<open>
  Claim C1: \<^verbatim>\<open>RewriteIL\<close> on a method body that the decoder accepts, whose handlers begin
  inside the code and which has no tail calls, always gives the runtime a new body, if the
  runtime has memory for it and the method is not so large that the buffer for the new code reaches four
  gigabytes. The code of the new body is the
  encoding of the instrumented method, in which each original instruction occurs once in a block that
  begins where branches to it lead, with exactly the requested probe calls before and after it; all short
  displacements fit, and header, code, padding and exception table have exactly the allocated length. The result code
  is the one of the runtime if it refuses the body, and success otherwise. A method with a tail call is
  outside this claim.
\<close>

theorem rewrite_delivers_woven_body:
  assumes "Import m new_rewriter = Inr rw" and "im_Code m \<noteq> []"
    and "\<forall>e \<in> set (im_EH m). unat (ei_HandlerOffset e) < length (im_Code m)"
    and "il_list rw = Inr xs" and "no_tailcalls rw xs"
    and "110 * length (im_Code m) + 50 * length (im_EH m) + 60 < 2 ^ 32"
    and "\<And>n. host_alloc host n = Some (mem n)"
  shows "\<exists>rw0 rw1 ps bs rw2 n. countOffsets rw = Inr rw0 \<and> offsets_ok rw0 0 xs
    \<and> instrumented t covProb methodId isMain rw0 xs rw1 ps bs
    \<and> laid_out rw1 rw2 \<and> offsets_ok rw2 0 ((ps @ concat bs) @ [m_IL])
    \<and> (\<forall>p \<in> set (ps @ concat bs). fits rw2 p)
    \<and> n = total_size rw2 (code_size rw2 (ps @ concat bs)) \<and> length (body_of (mem n) rw2 (ps @ concat bs)) = n
    \<and> RewriteIL host fresh t covProb (Inr m) methodId isMain
      = Inr (let hr = host_setBody host (body_of (mem n) rw2 (ps @ concat bs)) in if FAILED hr then hr else S_OK,
             Some (body_of (mem n) rw2 (ps @ concat bs)))"
  using RewriteIL_ok [of m rw xs host mem t covProb methodId isMain fresh] assms
  unfolding rewritable_def rewritten_def by metis

definition sample_host :: il_host where
  "sample_host = \<lparr>host_alloc = (\<lambda>n. Some (\<lambda>_. 0)), host_setBody = (\<lambda>_. S_OK)\<rparr>"

lemma sample_il_list: "il_list sample_import = Inr [2, 3, 4, 5]" "no_tailcalls sample_import [2, 3, 4, 5]"
  by (simp_all add: sample_import_def new_rewriter_def il_list_def instr_at_def no_tailcalls_def ins_def)

theorem rewrite_delivers_woven_body_witness:
  "\<exists>rw0 rw1 ps bs rw2 n. instrumented 9 sample_probes 1 True rw0 [2, 3, 4, 5] rw1 ps bs
    \<and> n = total_size rw2 (code_size rw2 (ps @ concat bs))
    \<and> length (body_of (\<lambda>_. 0) rw2 (ps @ concat bs)) = n
    \<and> RewriteIL sample_host (\<lambda>_. 0) 9 sample_probes (Inr sample_method) 1 True
      = Inr (S_OK, Some (body_of (\<lambda>_. 0) rw2 (ps @ concat bs)))"
proof -
  have "host_alloc sample_host n = Some (\<lambda>_. 0)" for n
    by (simp add: sample_host_def)
  from rewrite_delivers_woven_body [OF sample_Import _ _ sample_il_list _ this,
      where fresh = "\<lambda>_. 0" and t = 9 and covProb = sample_probes and methodId = 1 and isMain = True]
  obtain rw0 rw1 ps bs rw2 n where "instrumented 9 sample_probes 1 True rw0 [2, 3, 4, 5] rw1 ps bs"
    and "n = total_size rw2 (code_size rw2 (ps @ concat bs))" "length (body_of (\<lambda>_. 0) rw2 (ps @ concat bs)) = n"
    and "RewriteIL sample_host (\<lambda>_. 0) 9 sample_probes (Inr sample_method) 1 True
      = Inr (S_OK, Some (body_of (\<lambda>_. 0) rw2 (ps @ concat bs)))"
    by (auto simp: sample_method_def sample_host_def FAILED_def)
  then show ?thesis by blast
qed

end
