(* ===== verification/Coverage_Tracker.thy ===== *)
theory Coverage_Tracker
  imports Thread_Storage
begin

section \<open>Coverage histories, thread tracking and the coverage probes\<close>

text \<open>
  Models the run-time part of \<^verbatim>\<open>VSharp.CoverageInstrumenter/profiler\<close>: the coverage histories and
  their serialization (\<^verbatim>\<open>coverageTracker.cpp\<close>, \<^verbatim>\<open>serialization.h\<close>), the thread tracker
  (\<^verbatim>\<open>threadTracker.cpp\<close>), the probes that instrumented code calls (\<^verbatim>\<open>probes.cpp\<close>) and the
  exception callbacks of \<^verbatim>\<open>corProfiler.cpp\<close> that change this state. The global
  \<^verbatim>\<open>profilerState\<close> is the record \<open>profiler_state\<close>, passed and returned by every operation; the
  calling thread is an argument.

  A null \<^verbatim>\<open>CoverageHistory*\<close> is \<open>None\<close>. Each history is referenced by one storage entry only, so
  its mutation is an update of that entry. The \<^verbatim>\<open>int\<close> counters of frames and filters are
  unbounded integers here: to overflow them a thread would need two billion live frames.
\<close>

subsection \<open>Data\<close>

datatype coverage_event =
  EnterMain | Enter | LeaveMain | Leave | BranchHit | Call | Tailcall | TrackCoverage | StsfldHit

fun event_code :: "coverage_event \<Rightarrow> u32" where
  "event_code EnterMain = 0"
| "event_code Enter = 1"
| "event_code LeaveMain = 2"
| "event_code Leave = 3"
| "event_code BranchHit = 4"
| "event_code Call = 5"
| "event_code Tailcall = 6"
| "event_code TrackCoverage = 7"
| "event_code StsfldHit = 8"

record method_info =
  mi_token :: u32
  mi_assemblyNameLength :: u32
  mi_assemblyName :: "u16 list"
  mi_moduleNameLength :: u32
  mi_moduleName :: "u16 list"

record coverage_record =
  cr_offset :: u32
  cr_event :: coverage_event
  cr_thread :: tid
  cr_methodId :: u32

record coverage_history =
  ch_records :: "coverage_record list"
  ch_visitedMethods :: "u32 set"

record thread_tracker =
  threadIdMapping :: "u32 thread_storage"
  stackBalances :: "int thread_storage"
  unwindFunctionIds :: "u64 thread_storage"
  inFilterMapping :: "int thread_storage"

record coverage_tracker =
  ct_collectMainOnly :: bool
  collectedMethods :: "method_info list"
  visitedMethods :: "u32 set"
  trackedCoverage :: "coverage_history option thread_storage"
  serializedCoverage :: "byte list list"
  serializedCoverageThreadIds :: "u32 list"

record profiler_state =
  threadTracker :: thread_tracker
  coverageTracker :: coverage_tracker
  isPassiveRun :: bool
  collectMainOnly :: bool
  isFinished :: bool
  passiveResultPath :: "string option"
  mainMethodInfo :: "method_info option"    \<comment> \<open>\<open>None\<close>: never assigned\<close>
  mainFunctionId :: u64

subsection \<open>Serialization\<close>

definition serializePrimitive :: "'a::len word \<Rightarrow> byte list \<Rightarrow> byte list" where
  "serializePrimitive obj v = v @ word_bytes obj"

definition serializePrimitiveArray :: "'a::len word list \<Rightarrow> nat \<Rightarrow> byte list \<Rightarrow> byte list res" where
  "serializePrimitiveArray obj len v =
     and_then (check (len \<le> length obj) Out_of_bounds) (\<lambda>_.
     Inr (v @ concat (map word_bytes (take len obj))))"

definition methodInfo_serialize :: "method_info \<Rightarrow> byte list \<Rightarrow> byte list res" where
  "methodInfo_serialize info buffer =
     (let buffer = serializePrimitive (mi_token info) buffer;
          buffer = serializePrimitive (mi_assemblyNameLength info) buffer
      in and_then (serializePrimitiveArray (mi_assemblyName info)
                     (unat (mi_assemblyNameLength info)) buffer) (\<lambda>buffer.
         let buffer = serializePrimitive (mi_moduleNameLength info) buffer
         in serializePrimitiveArray (mi_moduleName info) (unat (mi_moduleNameLength info)) buffer))"

definition coverageRecord_serialize :: "coverage_record \<Rightarrow> byte list \<Rightarrow> byte list" where
  "coverageRecord_serialize r buffer =
     (let buffer = serializePrimitive (cr_offset r) buffer;
          buffer = serializePrimitive (event_code (cr_event r)) buffer;
          buffer = serializePrimitive (cr_methodId r) buffer
      in serializePrimitive (cr_thread r) buffer)"

definition newCoverageHistory :: "tid \<Rightarrow> u32 \<Rightarrow> u32 \<Rightarrow> coverage_history" where
  "newCoverageHistory thread offset methodId =
     \<lparr>ch_records = [\<lparr>cr_offset = offset, cr_event = EnterMain, cr_thread = thread,
                      cr_methodId = methodId\<rparr>],
      ch_visitedMethods = {methodId}\<rparr>"

definition history_addCoverage ::
  "tid \<Rightarrow> u32 \<Rightarrow> coverage_event \<Rightarrow> u32 \<Rightarrow> coverage_history \<Rightarrow> coverage_history" where
  "history_addCoverage thread offset event methodId h =
     h\<lparr>ch_visitedMethods := insert methodId (ch_visitedMethods h),
       ch_records := ch_records h @ [\<lparr>cr_offset = offset, cr_event = event, cr_thread = thread,
                                       cr_methodId = methodId\<rparr>]\<rparr>"

definition history_serialize :: "coverage_history \<Rightarrow> byte list \<Rightarrow> byte list" where
  "history_serialize h buffer =
     fold coverageRecord_serialize (ch_records h)
       (serializePrimitive (word_of_nat (length (ch_records h)) :: u32) buffer)"

subsection \<open>The thread tracker\<close>

definition newThreadTracker :: thread_tracker where
  "newThreadTracker = \<lparr>threadIdMapping = ts_new, stackBalances = ts_new,
                       unwindFunctionIds = ts_new, inFilterMapping = ts_new\<rparr>"

definition isCurrentThreadTracked :: "tid \<Rightarrow> thread_tracker \<Rightarrow> bool" where
  "isCurrentThreadTracked t tt \<longleftrightarrow> ts_exist t (stackBalances tt)"

definition trackCurrentThread :: "tid \<Rightarrow> thread_tracker \<Rightarrow> thread_tracker res" where
  "trackCurrentThread t tt =
     and_then (ts_store t 0 (stackBalances tt)) (\<lambda>sb.
     and_then (ts_store t 0 (inFilterMapping tt)) (\<lambda>fm.
     Inr (tt\<lparr>stackBalances := sb, inFilterMapping := fm\<rparr>)))"

definition stackBalanceUp :: "tid \<Rightarrow> thread_tracker \<Rightarrow> thread_tracker res" where
  "stackBalanceUp t tt =
     and_then (check (isCurrentThreadTracked t tt) Assert_failed) (\<lambda>_.
     and_then (ts_update t (\<lambda>value. value + 1) (stackBalances tt)) (\<lambda>(_, sb).
     Inr (tt\<lparr>stackBalances := sb\<rparr>)))"

definition stackBalance :: "tid \<Rightarrow> thread_tracker \<Rightarrow> int res" where
  "stackBalance t tt =
     and_then (check (isCurrentThreadTracked t tt) Assert_failed) (\<lambda>_.
     and_then (ts_load t (stackBalances tt)) (\<lambda>balance.
     and_then (check (balance \<ge> 0) Assert_failed) (\<lambda>_. Inr balance)))"

definition stackBalanceDown :: "tid \<Rightarrow> thread_tracker \<Rightarrow> (bool \<times> thread_tracker) res" where
  "stackBalanceDown t tt =
     and_then (check (isCurrentThreadTracked t tt) Assert_failed) (\<lambda>_.
     and_then (ts_update t (\<lambda>value. value - 1) (stackBalances tt)) (\<lambda>(newBalance, sb).
     and_then (check (newBalance \<ge> 0) Assert_failed) (\<lambda>_.
     Inr (newBalance \<noteq> 0, tt\<lparr>stackBalances := sb\<rparr>))))"

definition mapCurrentThread :: "tid \<Rightarrow> u32 \<Rightarrow> thread_tracker \<Rightarrow> thread_tracker res" where
  "mapCurrentThread t mapId tt =
     and_then (ts_store t mapId (threadIdMapping tt)) (\<lambda>m. Inr (tt\<lparr>threadIdMapping := m\<rparr>))"

definition hasMapping :: "tid \<Rightarrow> thread_tracker \<Rightarrow> bool" where
  "hasMapping t tt \<longleftrightarrow> ts_exist t (threadIdMapping tt)"

definition getCurrentThreadMappedId :: "tid \<Rightarrow> thread_tracker \<Rightarrow> u32 res" where
  "getCurrentThreadMappedId t tt = ts_load t (threadIdMapping tt)"

definition getMapping :: "thread_tracker \<Rightarrow> (tid \<times> u32) list" where
  "getMapping tt = ts_items (threadIdMapping tt)"

definition filterEnter :: "tid \<Rightarrow> thread_tracker \<Rightarrow> thread_tracker res" where
  "filterEnter t tt =
     and_then (check (isCurrentThreadTracked t tt) Assert_failed) (\<lambda>_.
     and_then (ts_update t (\<lambda>value. value + 1) (inFilterMapping tt)) (\<lambda>(_, fm).
     Inr (tt\<lparr>inFilterMapping := fm\<rparr>)))"

definition filterLeave :: "tid \<Rightarrow> thread_tracker \<Rightarrow> thread_tracker res" where
  "filterLeave t tt =
     and_then (check (isCurrentThreadTracked t tt) Assert_failed) (\<lambda>_.
     and_then (ts_update t (\<lambda>value. value - 1) (inFilterMapping tt)) (\<lambda>(_, fm).
     Inr (tt\<lparr>inFilterMapping := fm\<rparr>)))"

definition isInFilter :: "tid \<Rightarrow> thread_tracker \<Rightarrow> bool res" where
  "isInFilter t tt =
     and_then (check (isCurrentThreadTracked t tt) Assert_failed) (\<lambda>_.
     and_then (ts_load t (inFilterMapping tt)) (\<lambda>n. Inr (n > 0)))"

definition tracker_clear :: "thread_tracker \<Rightarrow> thread_tracker" where
  "tracker_clear tt = tt\<lparr>threadIdMapping := ts_clear (threadIdMapping tt),
                         stackBalances := ts_clear (stackBalances tt),
                         unwindFunctionIds := ts_clear (unwindFunctionIds tt),
                         inFilterMapping := ts_clear (inFilterMapping tt)\<rparr>"

subsection \<open>The coverage tracker\<close>

definition newCoverageTracker :: "bool \<Rightarrow> coverage_tracker" where
  "newCoverageTracker mainOnly =
     \<lparr>ct_collectMainOnly = mainOnly, collectedMethods = [], visitedMethods = {},
      trackedCoverage = ts_new, serializedCoverage = [], serializedCoverageThreadIds = []\<rparr>"

definition addCoverage ::
  "tid \<Rightarrow> u32 \<Rightarrow> coverage_event \<Rightarrow> u32 \<Rightarrow> profiler_state \<Rightarrow> profiler_state res" where
  "addCoverage t offset event methodId st =
     (let ct = coverageTracker st; mainOnly = ct_collectMainOnly ct in
      and_then (check (isCurrentThreadTracked t (threadTracker st)) Assert_failed) (\<lambda>_.
      if (event = EnterMain \<and> mainOnly \<or> \<not> mainOnly) \<and> \<not> ts_exist t (trackedCoverage ct)
      then and_then (ts_store t (Some (newCoverageHistory t offset methodId)) (trackedCoverage ct))
             (\<lambda>tc. Inr (st\<lparr>coverageTracker := ct\<lparr>trackedCoverage := tc\<rparr>\<rparr>))
      else and_then (ts_load t (trackedCoverage ct)) (\<lambda>p.
           and_then (from_option Null_pointer p) (\<lambda>h.
           Inr (st\<lparr>coverageTracker := ct\<lparr>trackedCoverage :=
             omap_put t (Some (history_addCoverage t offset event methodId h))
               (trackedCoverage ct)\<rparr>\<rparr>)))))"

definition invocationFinished :: "tid \<Rightarrow> profiler_state \<Rightarrow> profiler_state res" where
  "invocationFinished t st =
     (let ct = coverageTracker st; tt = threadTracker st in
      and_then (ts_load t (trackedCoverage ct)) (\<lambda>coverage.
      and_then (if hasMapping t tt then getCurrentThreadMappedId t tt else Inr 0) (\<lambda>threadId.
      and_then (from_option Null_pointer coverage) (\<lambda>visited.
      let ct = ct\<lparr>visitedMethods := visitedMethods ct \<union> ch_visitedMethods visited\<rparr>;
          buffer = serializePrimitive threadId [];
          buffer = (case coverage of
                      None \<Rightarrow> serializePrimitive (1 :: u32) buffer
                    | Some h \<Rightarrow> history_serialize h (serializePrimitive (0 :: u32) buffer))
      in and_then (ts_remove t (trackedCoverage ct)) (\<lambda>tc.
         Inr (st\<lparr>coverageTracker := ct\<lparr>trackedCoverage := tc,
                serializedCoverageThreadIds := serializedCoverageThreadIds ct @ [threadId],
                serializedCoverage := serializedCoverage ct @ [buffer]\<rparr>\<rparr>))))))"

definition invocationAborted :: "tid \<Rightarrow> profiler_state \<Rightarrow> profiler_state res" where
  "invocationAborted t st =
     (let ct = coverageTracker st in
      and_then (ts_update t (\<lambda>cov. None) (trackedCoverage ct)) (\<lambda>(_, tc).
      Inr (st\<lparr>coverageTracker := ct\<lparr>trackedCoverage := tc\<rparr>\<rparr>)))"

definition collectMethod :: "method_info \<Rightarrow> coverage_tracker \<Rightarrow> nat \<times> coverage_tracker" where
  "collectMethod info ct =
     (length (collectedMethods ct), ct\<lparr>collectedMethods := collectedMethods ct @ [info]\<rparr>)"

definition coverage_clear :: "coverage_tracker \<Rightarrow> coverage_tracker" where
  "coverage_clear ct = ct\<lparr>trackedCoverage := ts_clear (trackedCoverage ct)\<rparr>"

subsection \<open>The thread tracker's use of the coverage tracker\<close>

definition isCorrectFunctionId :: "u64 \<Rightarrow> bool" where
  "isCorrectFunctionId functionId \<longleftrightarrow> 0 \<noteq> functionId"

definition onCurrentThreadFinished :: "tid \<Rightarrow> profiler_state \<Rightarrow> profiler_state res" where
  "onCurrentThreadFinished t st =
     and_then (invocationFinished t st) (\<lambda>st.
     let tt = threadTracker st in
     and_then (ts_remove t (stackBalances tt)) (\<lambda>sb.
     and_then (ts_remove t (inFilterMapping tt)) (\<lambda>fm.
     let tt = tt\<lparr>stackBalances := sb, inFilterMapping := fm\<rparr> in
     if \<not> isPassiveRun st
     then and_then (ts_remove t (threadIdMapping tt)) (\<lambda>m.
          Inr (st\<lparr>threadTracker := tt\<lparr>threadIdMapping := m\<rparr>\<rparr>))
     else Inr (st\<lparr>threadTracker := tt\<rparr>))))"

definition loseCurrentThread :: "tid \<Rightarrow> profiler_state \<Rightarrow> profiler_state res" where
  "loseCurrentThread t st =
     and_then (check (isCurrentThreadTracked t (threadTracker st)) Assert_failed) (\<lambda>_.
     and_then (ts_load t (stackBalances (threadTracker st))) (\<lambda>b.
     and_then (check (b = 0) Assert_failed) (\<lambda>_.
     and_then (ts_load t (inFilterMapping (threadTracker st))) (\<lambda>f.
     and_then (check (f = 0) Assert_failed) (\<lambda>_.
     onCurrentThreadFinished t st)))))"

definition abortCurrentThread :: "tid \<Rightarrow> profiler_state \<Rightarrow> profiler_state res" where
  "abortCurrentThread t st = onCurrentThreadFinished t st"

definition unwindFunctionEnter :: "tid \<Rightarrow> u64 \<Rightarrow> thread_tracker \<Rightarrow> thread_tracker res" where
  "unwindFunctionEnter t functionId tt =
     and_then (check (isCurrentThreadTracked t tt) Assert_failed) (\<lambda>_.
     and_then (check (isCorrectFunctionId functionId) Assert_failed) (\<lambda>_.
     Inr (tt\<lparr>unwindFunctionIds := ts_storeOrUpdate t functionId (unwindFunctionIds tt)\<rparr>)))"

definition unwindFunctionLeave :: "tid \<Rightarrow> profiler_state \<Rightarrow> profiler_state res" where
  "unwindFunctionLeave t st =
     (let tt = threadTracker st in
      and_then (check (isCurrentThreadTracked t tt) Assert_failed) (\<lambda>_.
      and_then (ts_load t (unwindFunctionIds tt)) (\<lambda>functionId.
      and_then (ts_remove t (unwindFunctionIds tt)) (\<lambda>u.
      let tt = tt\<lparr>unwindFunctionIds := u\<rparr>; st = st\<lparr>threadTracker := tt\<rparr> in
      if collectMainOnly st \<and> mainFunctionId st \<noteq> functionId then Inr st
      else and_then (isInFilter t tt) (\<lambda>inFilter.
           and_then (if \<not> inFilter then Inr True
                     else and_then (stackBalance t tt) (\<lambda>b. Inr (b > 1))) (\<lambda>down.
           if \<not> down then Inr st
           else and_then (stackBalanceDown t tt) (\<lambda>(notEmpty, tt).
                let st = st\<lparr>threadTracker := tt\<rparr> in
                if notEmpty then Inr st else loseCurrentThread t st)))))))"

subsection \<open>The probes\<close>

definition on_tracker ::
  "(thread_tracker \<Rightarrow> thread_tracker res) \<Rightarrow> profiler_state \<Rightarrow> profiler_state res" where
  "on_tracker f st = and_then (f (threadTracker st)) (\<lambda>tt. Inr (st\<lparr>threadTracker := tt\<rparr>))"

definition cov_Track_Coverage :: "tid \<Rightarrow> u32 \<Rightarrow> u32 \<Rightarrow> profiler_state \<Rightarrow> profiler_state res" where
  "cov_Track_Coverage t offset methodId st =
     (if \<not> isCurrentThreadTracked t (threadTracker st) then Inr st
      else addCoverage t offset TrackCoverage methodId st)"

definition cov_Track_Stsfld :: "tid \<Rightarrow> u32 \<Rightarrow> u32 \<Rightarrow> profiler_state \<Rightarrow> profiler_state res" where
  "cov_Track_Stsfld t offset methodId st =
     (if \<not> isCurrentThreadTracked t (threadTracker st) then Inr st
      else addCoverage t offset StsfldHit methodId st)"

definition cov_Branch :: "tid \<Rightarrow> u32 \<Rightarrow> u32 \<Rightarrow> profiler_state \<Rightarrow> profiler_state res" where
  "cov_Branch t offset methodId st =
     (if \<not> isCurrentThreadTracked t (threadTracker st) then Inr st
      else addCoverage t offset BranchHit methodId st)"

definition cov_Track_Call :: "tid \<Rightarrow> u32 \<Rightarrow> u32 \<Rightarrow> profiler_state \<Rightarrow> profiler_state res" where
  "cov_Track_Call t offset methodId st =
     (if \<not> isCurrentThreadTracked t (threadTracker st) then Inr st
      else addCoverage t offset Call methodId st)"

definition cov_Track_Tailcall :: "tid \<Rightarrow> u32 \<Rightarrow> u32 \<Rightarrow> profiler_state \<Rightarrow> profiler_state res" where
  "cov_Track_Tailcall t offset methodId st =
     (if \<not> isCurrentThreadTracked t (threadTracker st) then Inr st
      else and_then (stackBalanceDown t (threadTracker st)) (\<lambda>(_, tt).
           addCoverage t offset Tailcall methodId (st\<lparr>threadTracker := tt\<rparr>)))"

definition cov_Track_Enter :: "tid \<Rightarrow> u32 \<Rightarrow> u32 \<Rightarrow> profiler_state \<Rightarrow> profiler_state res" where
  "cov_Track_Enter t offset methodId st =
     (if \<not> isCurrentThreadTracked t (threadTracker st) then Inr st
      else and_then (if \<not> ct_collectMainOnly (coverageTracker st)
                     then addCoverage t offset Enter methodId st else Inr st) (\<lambda>st.
           on_tracker (stackBalanceUp t) st))"

definition cov_Track_EnterMain :: "tid \<Rightarrow> u32 \<Rightarrow> u32 \<Rightarrow> profiler_state \<Rightarrow> profiler_state res" where
  "cov_Track_EnterMain t offset methodId st =
     (if isCurrentThreadTracked t (threadTracker st) then on_tracker (stackBalanceUp t) st
      else and_then (on_tracker (trackCurrentThread t) st) (\<lambda>st.
           and_then (on_tracker (stackBalanceUp t) st) (\<lambda>st.
           addCoverage t offset EnterMain methodId st)))"

definition cov_Track_Leave :: "tid \<Rightarrow> u32 \<Rightarrow> u32 \<Rightarrow> profiler_state \<Rightarrow> profiler_state res" where
  "cov_Track_Leave t offset methodId st =
     (if \<not> isCurrentThreadTracked t (threadTracker st) then Inr st
      else and_then (if \<not> ct_collectMainOnly (coverageTracker st)
                     then addCoverage t offset Leave methodId st else Inr st) (\<lambda>st.
           and_then (stackBalanceDown t (threadTracker st)) (\<lambda>(_, tt).
           Inr (st\<lparr>threadTracker := tt\<rparr>))))"

definition cov_Track_LeaveMain :: "tid \<Rightarrow> u32 \<Rightarrow> u32 \<Rightarrow> profiler_state \<Rightarrow> profiler_state res" where
  "cov_Track_LeaveMain t offset methodId st =
     (if \<not> isCurrentThreadTracked t (threadTracker st) then Inr st
      else and_then (addCoverage t offset LeaveMain methodId st) (\<lambda>st.
           and_then (stackBalanceDown t (threadTracker st)) (\<lambda>(notEmpty, tt).
           let st = st\<lparr>threadTracker := tt\<rparr> in
           if notEmpty then Inr st else loseCurrentThread t st)))"

definition cov_Track_Throw :: "tid \<Rightarrow> u32 \<Rightarrow> u32 \<Rightarrow> profiler_state \<Rightarrow> profiler_state res" where
  "cov_Track_Throw t offset methodId st =
     (if \<not> isCurrentThreadTracked t (threadTracker st) then Inr st
      else addCoverage t offset Leave methodId st)"

definition cov_Finalize_Call :: "tid \<Rightarrow> u32 \<Rightarrow> profiler_state \<Rightarrow> profiler_state res" where
  "cov_Finalize_Call t offset st = Inr st"

subsection \<open>The callbacks of the runtime\<close>

definition ExceptionThrown :: "tid \<Rightarrow> string \<Rightarrow> profiler_state \<Rightarrow> profiler_state res" where
  "ExceptionThrown t exceptionName st =
     (if isCurrentThreadTracked t (threadTracker st)
         \<and> exceptionName = ''System.Threading.ThreadAbortException''
      then and_then (invocationAborted t st) (abortCurrentThread t)
      else Inr st)"

definition ExceptionSearchFilterEnter :: "tid \<Rightarrow> profiler_state \<Rightarrow> profiler_state res" where
  "ExceptionSearchFilterEnter t st =
     (if isFinished st \<or> \<not> isCurrentThreadTracked t (threadTracker st) then Inr st
      else on_tracker (filterEnter t) st)"

definition ExceptionSearchFilterLeave :: "tid \<Rightarrow> profiler_state \<Rightarrow> profiler_state res" where
  "ExceptionSearchFilterLeave t st =
     (if isFinished st \<or> \<not> isCurrentThreadTracked t (threadTracker st) then Inr st
      else on_tracker (filterLeave t) st)"

definition ExceptionUnwindFunctionEnter :: "tid \<Rightarrow> u64 \<Rightarrow> profiler_state \<Rightarrow> profiler_state res" where
  "ExceptionUnwindFunctionEnter t functionId st =
     (if isCurrentThreadTracked t (threadTracker st)
      then on_tracker (unwindFunctionEnter t functionId) st else Inr st)"

definition ExceptionUnwindFunctionLeave :: "tid \<Rightarrow> profiler_state \<Rightarrow> profiler_state res" where
  "ExceptionUnwindFunctionLeave t st =
     (if isFinished st \<or> \<not> isCurrentThreadTracked t (threadTracker st) then Inr st
      else unwindFunctionLeave t st)"

definition SetCurrentThreadId :: "tid \<Rightarrow> u32 \<Rightarrow> profiler_state \<Rightarrow> profiler_state res" where
  "SetCurrentThreadId t mapId st = on_tracker (mapCurrentThread t mapId) st"

subsection \<open>Start of the profiler\<close>

text \<open>
  The constructor reads the environment: \<open>env\<close> is \<^verbatim>\<open>std::getenv\<close> and \<open>from_bytes\<close> the conversion of
  the standard library from UTF-8 to UTF-16. A null pointer given to either conversion is a failure;
  so is text that \<^verbatim>\<open>std::stoi\<close> rejects.
\<close>

definition isspace :: "char \<Rightarrow> bool" where
  "isspace c \<longleftrightarrow> of_char c \<in> {9, 10, 11, 12, 13, 32 :: nat}"

definition isdigit :: "char \<Rightarrow> bool" where
  "isdigit c \<longleftrightarrow> 48 \<le> (of_char c :: nat) \<and> (of_char c :: nat) \<le> 57"

definition decimal :: "string \<Rightarrow> int" where
  "decimal ds = foldl (\<lambda>n c. 10 * n + (of_char c - 48)) 0 ds"

definition stoi :: "string \<Rightarrow> int res" where
  "stoi str =
     (let s = dropWhile isspace str;
          neg = (s \<noteq> [] \<and> hd s = CHR ''-'');
          s = (if s \<noteq> [] \<and> (hd s = CHR ''-'' \<or> hd s = CHR ''+'') then tl s else s);
          ds = takeWhile isdigit s;
          n = (if neg then - decimal ds else decimal ds)
      in and_then (check (ds \<noteq> []) (Fail_loud ''stoi'')) (\<lambda>_.
         and_then (check (- (2 ^ 31) \<le> n \<and> n < 2 ^ 31) (Fail_loud ''stoi'')) (\<lambda>_. Inr n)))"

definition main_from_environment ::
  "(string \<Rightarrow> string option) \<Rightarrow> (string \<Rightarrow> u16 list) \<Rightarrow> method_info res" where
  "main_from_environment env from_bytes =
     and_then (from_option Null_pointer (env ''COVERAGE_TOOL_METHOD_ASSEMBLY_NAME'')) (\<lambda>a.
     and_then (from_option Null_pointer (env ''COVERAGE_TOOL_METHOD_MODULE_NAME'')) (\<lambda>m.
     and_then (from_option Null_pointer (env ''COVERAGE_TOOL_METHOD_TOKEN'')) (\<lambda>k.
     and_then (stoi k) (\<lambda>mainToken.
     Inr \<lparr>mi_token = word_of_int mainToken,
          mi_assemblyNameLength = word_of_nat (length (from_bytes a)),
          mi_assemblyName = from_bytes a,
          mi_moduleNameLength = word_of_nat (length (from_bytes m)),
          mi_moduleName = from_bytes m\<rparr>))))"

definition newProfilerState ::
  "(string \<Rightarrow> string option) \<Rightarrow> (string \<Rightarrow> u16 list) \<Rightarrow> profiler_state res" where
  "newProfilerState env from_bytes =
     (let passive = (env ''COVERAGE_TOOL_ENABLE_PASSIVE'' \<noteq> None);
          mainOnly = True;
          mainOnly = (if passive then True else mainOnly);
          mainOnly = (if env ''COVERAGE_TOOL_INSTRUMENT_MAIN_ONLY'' \<noteq> None then True else mainOnly)
      in and_then (if passive then and_then (main_from_environment env from_bytes) (\<lambda>i. Inr (Some i))
                   else Inr None) (\<lambda>main.
         Inr \<lparr>threadTracker = newThreadTracker, coverageTracker = newCoverageTracker mainOnly,
              isPassiveRun = passive, collectMainOnly = mainOnly, isFinished = False,
              passiveResultPath = (if passive then env ''COVERAGE_TOOL_RESULT_NAME'' else None),
              mainMethodInfo = main, mainFunctionId = -1\<rparr>))"

definition setEntryMain ::
  "u16 list \<Rightarrow> u32 \<Rightarrow> u16 list \<Rightarrow> u32 \<Rightarrow> u32 \<Rightarrow> profiler_state \<Rightarrow> profiler_state res" where
  "setEntryMain assemblyName assemblyNameLength moduleName moduleNameLength methodToken st =
     and_then (check (0 \<le> sint assemblyNameLength) Bad_array_length) (\<lambda>_.
     and_then (check (unat assemblyNameLength \<le> length assemblyName) Out_of_bounds) (\<lambda>_.
     and_then (check (0 \<le> sint moduleNameLength) Bad_array_length) (\<lambda>_.
     and_then (check (unat moduleNameLength \<le> length moduleName) Out_of_bounds) (\<lambda>_.
     Inr (st\<lparr>mainMethodInfo := Some
            \<lparr>mi_token = methodToken, mi_assemblyNameLength = assemblyNameLength,
             mi_assemblyName = take (unat assemblyNameLength) assemblyName,
             mi_moduleNameLength = moduleNameLength,
             mi_moduleName = take (unat moduleNameLength) moduleName\<rparr>\<rparr>)))))"

end
