(* ===== verification/Coverage_Runs.thy ===== *)
theory Coverage_Runs
  imports Coverage_Tracker
begin

section \<open>Runs of the coverage tool\<close>

text \<open>
  The specification of the run-time part of the coverage tool, and the proof that the operations of
  \<open>Coverage_Tracker\<close> implement it. The specification knows nothing of storages and byte buffers: a
  thread is either outside the method under test or runs it, with the number of frames, the number
  of exception filters it is in and the list of records made so far; an event of a thread changes
  the state of that thread alone and may finish an invocation, which produces one report.

  \<open>probe_step\<close> dispatches an event to the modelled function; \<open>run\<close> executes an interleaving of the
  events of several threads. Each event is one step. That is justified by the commutation laws
  of \<open>Thread_Storage\<close>: the parts of a probe access entries of the calling thread only, apart
  from the two vectors of finished reports, which are extended together under
  \<^verbatim>\<open>serializedCoverageMutex\<close>.
\<close>

named_theorems tracker_simps \<open>the effect of the tracker's operations on a running thread\<close>

subsection \<open>Events\<close>

datatype probe_event =
    Ev_Coverage u32 u32
  | Ev_Stsfld u32 u32
  | Ev_Branch u32 u32
  | Ev_Call u32 u32
  | Ev_Tailcall u32 u32
  | Ev_Enter u32 u32
  | Ev_EnterMain u32 u32
  | Ev_Leave u32 u32
  | Ev_LeaveMain u32 u32
  | Ev_Throw u32 u32
  | Ev_FinalizeCall u32
  | Ev_ExceptionThrown string
  | Ev_FilterEnter
  | Ev_FilterLeave
  | Ev_UnwindEnter u64
  | Ev_UnwindLeave
  | Ev_SetCurrentThreadId u32

fun probe_step :: "tid \<Rightarrow> probe_event \<Rightarrow> profiler_state \<Rightarrow> profiler_state res" where
  "probe_step t (Ev_Coverage o' m) = cov_Track_Coverage t o' m"
| "probe_step t (Ev_Stsfld o' m) = cov_Track_Stsfld t o' m"
| "probe_step t (Ev_Branch o' m) = cov_Branch t o' m"
| "probe_step t (Ev_Call o' m) = cov_Track_Call t o' m"
| "probe_step t (Ev_Tailcall o' m) = cov_Track_Tailcall t o' m"
| "probe_step t (Ev_Enter o' m) = cov_Track_Enter t o' m"
| "probe_step t (Ev_EnterMain o' m) = cov_Track_EnterMain t o' m"
| "probe_step t (Ev_Leave o' m) = cov_Track_Leave t o' m"
| "probe_step t (Ev_LeaveMain o' m) = cov_Track_LeaveMain t o' m"
| "probe_step t (Ev_Throw o' m) = cov_Track_Throw t o' m"
| "probe_step t (Ev_FinalizeCall o') = cov_Finalize_Call t o'"
| "probe_step t (Ev_ExceptionThrown n) = ExceptionThrown t n"
| "probe_step t Ev_FilterEnter = ExceptionSearchFilterEnter t"
| "probe_step t Ev_FilterLeave = ExceptionSearchFilterLeave t"
| "probe_step t (Ev_UnwindEnter f) = ExceptionUnwindFunctionEnter t f"
| "probe_step t Ev_UnwindLeave = ExceptionUnwindFunctionLeave t"
| "probe_step t (Ev_SetCurrentThreadId i) = SetCurrentThreadId t i"

fun run :: "(tid \<times> probe_event) list \<Rightarrow> profiler_state \<Rightarrow> profiler_state res" where
  "run [] st = Inr st"
| "run ((t, e) # tr) st = and_then (probe_step t e st) (run tr)"

subsection \<open>The specification\<close>

record config =
  cfg_mainOnly :: bool
  cfg_passive :: bool
  cfg_finished :: bool
  cfg_main :: u64

record invocation =
  frames :: int
  filters :: int
  recs :: "coverage_record list"

record thread_state =
  mapped :: "u32 option"
  unwinding :: "u64 option"
  current :: "invocation option"

type_synonym report = "u32 \<times> coverage_record list"

definition record_of :: "tid \<Rightarrow> u32 \<Rightarrow> coverage_event \<Rightarrow> u32 \<Rightarrow> coverage_record" where
  "record_of t offset e m =
     \<lparr>cr_offset = offset, cr_event = e, cr_thread = t, cr_methodId = m\<rparr>"

definition logged :: "coverage_record \<Rightarrow> invocation \<Rightarrow> invocation" where
  "logged r i = i\<lparr>recs := recs i @ [r]\<rparr>"

definition frame_up :: "invocation \<Rightarrow> invocation" where
  "frame_up i = i\<lparr>frames := frames i + 1\<rparr>"

definition frame_down :: "invocation \<Rightarrow> invocation option" where
  "frame_down i = (if frames i \<ge> 1 then Some (i\<lparr>frames := frames i - 1\<rparr>) else None)"

text \<open>
  The end of an invocation: it is only allowed outside exception filters, and outside passive mode
  only on a thread that was given an identifier, which it then loses.
\<close>

definition finish :: "config \<Rightarrow> invocation \<Rightarrow> thread_state \<Rightarrow> (thread_state \<times> report list) option" where
  "finish c i v =
     (if filters i = 0 \<and> (cfg_passive c \<or> mapped v \<noteq> None)
      then Some (v\<lparr>current := None, mapped := (if cfg_passive c then mapped v else None)\<rparr>,
                 [(case mapped v of None \<Rightarrow> 0 | Some k \<Rightarrow> k, recs i)])
      else None)"

definition go_on :: "invocation \<Rightarrow> thread_state \<Rightarrow> (thread_state \<times> report list) option" where
  "go_on i v = Some (v\<lparr>current := Some i\<rparr>, [])"

text \<open>What an event does to a thread that runs the method under test; \<open>None\<close> is a failure.\<close>

fun running_step ::
  "config \<Rightarrow> tid \<Rightarrow> probe_event \<Rightarrow> invocation \<Rightarrow> thread_state \<Rightarrow> (thread_state \<times> report list) option"
where
  "running_step c t (Ev_Coverage o' m) i v = go_on (logged (record_of t o' TrackCoverage m) i) v"
| "running_step c t (Ev_Stsfld o' m) i v = go_on (logged (record_of t o' StsfldHit m) i) v"
| "running_step c t (Ev_Branch o' m) i v = go_on (logged (record_of t o' BranchHit m) i) v"
| "running_step c t (Ev_Call o' m) i v = go_on (logged (record_of t o' Call m) i) v"
| "running_step c t (Ev_Throw o' m) i v = go_on (logged (record_of t o' Leave m) i) v"
| "running_step c t (Ev_Tailcall o' m) i v =
     (case frame_down i of None \<Rightarrow> None
      | Some i' \<Rightarrow> go_on (logged (record_of t o' Tailcall m) i') v)"
| "running_step c t (Ev_Enter o' m) i v =
     go_on (frame_up (if cfg_mainOnly c then i else logged (record_of t o' Enter m) i)) v"
| "running_step c t (Ev_EnterMain o' m) i v = go_on (frame_up i) v"
| "running_step c t (Ev_Leave o' m) i v =
     (case frame_down (if cfg_mainOnly c then i else logged (record_of t o' Leave m) i) of
        None \<Rightarrow> None | Some i' \<Rightarrow> go_on i' v)"
| "running_step c t (Ev_LeaveMain o' m) i v =
     (case frame_down (logged (record_of t o' LeaveMain m) i) of None \<Rightarrow> None
      | Some i' \<Rightarrow> if frames i' = 0 then finish c i' v else go_on i' v)"
| "running_step c t (Ev_FinalizeCall o') i v = go_on i v"
| "running_step c t (Ev_ExceptionThrown n) i v =
     (if n = ''System.Threading.ThreadAbortException'' then None else go_on i v)"
| "running_step c t Ev_FilterEnter i v =
     go_on (if cfg_finished c then i else i\<lparr>filters := filters i + 1\<rparr>) v"
| "running_step c t Ev_FilterLeave i v =
     go_on (if cfg_finished c then i else i\<lparr>filters := filters i - 1\<rparr>) v"
| "running_step c t (Ev_UnwindEnter f) i v =
     (if f = 0 then None else go_on i (v\<lparr>unwinding := Some f\<rparr>))"
| "running_step c t Ev_UnwindLeave i v =
     (if cfg_finished c then go_on i v
      else case unwinding v of None \<Rightarrow> None
      | Some f \<Rightarrow>
          (let v' = v\<lparr>unwinding := None\<rparr> in
           if cfg_mainOnly c \<and> cfg_main c \<noteq> f then go_on i v'
           else if filters i > 0 \<and> frames i \<le> 1 then go_on i v'
           else case frame_down i of None \<Rightarrow> None
                | Some i' \<Rightarrow> if frames i' = 0 then finish c i' v' else go_on i' v'))"
| "running_step c t (Ev_SetCurrentThreadId k) i v =
     (if mapped v = None then go_on i (v\<lparr>mapped := Some k\<rparr>) else None)"

definition spec_step ::
  "config \<Rightarrow> tid \<Rightarrow> probe_event \<Rightarrow> thread_state \<Rightarrow> (thread_state \<times> report list) option" where
  "spec_step c t e v =
     (case current v of
        Some i \<Rightarrow> running_step c t e i v
      | None \<Rightarrow>
          (case e of
             Ev_EnterMain o' m \<Rightarrow>
               go_on \<lparr>frames = 1, filters = 0, recs = [record_of t o' EnterMain m]\<rparr> v
           | Ev_SetCurrentThreadId k \<Rightarrow>
               (if mapped v = None then Some (v\<lparr>mapped := Some k\<rparr>, []) else None)
           | _ \<Rightarrow> Some (v, [])))"

subsection \<open>The abstraction\<close>

definition config_of :: "profiler_state \<Rightarrow> config" where
  "config_of st = \<lparr>cfg_mainOnly = collectMainOnly st, cfg_passive = isPassiveRun st,
                   cfg_finished = isFinished st, cfg_main = mainFunctionId st\<rparr>"

definition view :: "tid \<Rightarrow> profiler_state \<Rightarrow> thread_state" where
  "view t st =
     \<lparr>mapped = map_of (threadIdMapping (threadTracker st)) t,
      unwinding = map_of (unwindFunctionIds (threadTracker st)) t,
      current = (case (map_of (stackBalances (threadTracker st)) t,
                       map_of (inFilterMapping (threadTracker st)) t,
                       map_of (trackedCoverage (coverageTracker st)) t) of
                   (Some b, Some f, Some (Some h)) \<Rightarrow>
                     Some \<lparr>frames = b, filters = f, recs = ch_records h\<rparr>
                 | _ \<Rightarrow> None)\<rparr>"

definition history_ok :: "coverage_history \<Rightarrow> bool" where
  "history_ok h \<longleftrightarrow> ch_visitedMethods h = cr_methodId ` set (ch_records h)"

definition thread_ok :: "tid \<Rightarrow> profiler_state \<Rightarrow> bool" where
  "thread_ok t st \<longleftrightarrow>
     (case map_of (stackBalances (threadTracker st)) t of
        None \<Rightarrow> map_of (inFilterMapping (threadTracker st)) t = None
                \<and> map_of (trackedCoverage (coverageTracker st)) t = None
      | Some b \<Rightarrow> b \<ge> 0 \<and> map_of (inFilterMapping (threadTracker st)) t \<noteq> None
                \<and> (\<exists>h. map_of (trackedCoverage (coverageTracker st)) t = Some (Some h)
                       \<and> history_ok h))"

definition storages_wf :: "profiler_state \<Rightarrow> bool" where
  "storages_wf st \<longleftrightarrow>
     omap_wf (threadIdMapping (threadTracker st)) \<and> omap_wf (stackBalances (threadTracker st))
     \<and> omap_wf (unwindFunctionIds (threadTracker st)) \<and> omap_wf (inFilterMapping (threadTracker st))
     \<and> omap_wf (trackedCoverage (coverageTracker st))"

definition state_inv :: "profiler_state \<Rightarrow> bool" where
  "state_inv st \<longleftrightarrow> storages_wf st \<and> (\<forall>t. thread_ok t st)
     \<and> ct_collectMainOnly (coverageTracker st) = collectMainOnly st"

definition report_bytes :: "report \<Rightarrow> byte list" where
  "report_bytes r = word_bytes (fst r) @ word_bytes (0 :: u32)
     @ word_bytes (word_of_nat (length (snd r)) :: u32)
     @ concat (map (\<lambda>c. coverageRecord_serialize c []) (snd r))"

subsection \<open>One event\<close>

definition step_ok ::
  "tid \<Rightarrow> profiler_state \<Rightarrow> thread_state \<Rightarrow> report list \<Rightarrow> profiler_state \<Rightarrow> bool" where
  "step_ok t st v out st' \<longleftrightarrow>
     state_inv st' \<and> config_of st' = config_of st \<and> view t st' = v
     \<and> (\<forall>t'. t' \<noteq> t \<longrightarrow> view t' st' = view t' st)
     \<and> collectedMethods (coverageTracker st') = collectedMethods (coverageTracker st)
     \<and> serializedCoverage (coverageTracker st')
         = serializedCoverage (coverageTracker st) @ map report_bytes out
     \<and> serializedCoverageThreadIds (coverageTracker st')
         = serializedCoverageThreadIds (coverageTracker st) @ map fst out
     \<and> visitedMethods (coverageTracker st')
         = visitedMethods (coverageTracker st) \<union> (\<Union>r \<in> set out. cr_methodId ` set (snd r))"

text \<open>The entries of the other threads are untouched.\<close>

definition elsewhere_same :: "tid \<Rightarrow> profiler_state \<Rightarrow> profiler_state \<Rightarrow> bool" where
  "elsewhere_same t st st' \<longleftrightarrow> (\<forall>t'. t' \<noteq> t \<longrightarrow>
     map_of (threadIdMapping (threadTracker st')) t' = map_of (threadIdMapping (threadTracker st)) t'
     \<and> map_of (stackBalances (threadTracker st')) t' = map_of (stackBalances (threadTracker st)) t'
     \<and> map_of (unwindFunctionIds (threadTracker st')) t'
         = map_of (unwindFunctionIds (threadTracker st)) t'
     \<and> map_of (inFilterMapping (threadTracker st')) t'
         = map_of (inFilterMapping (threadTracker st)) t'
     \<and> map_of (trackedCoverage (coverageTracker st')) t'
         = map_of (trackedCoverage (coverageTracker st)) t')"

lemma elsewhere_thread_ok:
  "elsewhere_same t st st' \<Longrightarrow> t' \<noteq> t \<Longrightarrow> thread_ok t' st' = thread_ok t' st"
  by (simp add: elsewhere_same_def thread_ok_def split: option.split)

lemma elsewhere_view:
  "elsewhere_same t st st' \<Longrightarrow> t' \<noteq> t \<Longrightarrow> view t' st' = view t' st"
  by (simp add: elsewhere_same_def view_def)

lemma step_okI:
  assumes "state_inv st" and "storages_wf st'" and "thread_ok t st'"
    and "elsewhere_same t st st'" and "config_of st' = config_of st"
    and "ct_collectMainOnly (coverageTracker st') = ct_collectMainOnly (coverageTracker st)"
    and "collectedMethods (coverageTracker st') = collectedMethods (coverageTracker st)"
    and "view t st' = v"
    and "serializedCoverage (coverageTracker st')
         = serializedCoverage (coverageTracker st) @ map report_bytes out"
    and "serializedCoverageThreadIds (coverageTracker st')
         = serializedCoverageThreadIds (coverageTracker st) @ map fst out"
    and "visitedMethods (coverageTracker st')
         = visitedMethods (coverageTracker st) \<union> (\<Union>r \<in> set out. cr_methodId ` set (snd r))"
  shows "step_ok t st v out st'"
proof -
  have "thread_ok t' st'" for t'
    using assms(1,3) elsewhere_thread_ok [OF assms(4), of t']
    by (cases "t' = t") (simp_all add: state_inv_def)
  moreover have "collectMainOnly st' = collectMainOnly st"
    using assms(5) by (simp add: config_of_def)
  ultimately have "state_inv st'"
    using assms(1,2,6) by (simp add: state_inv_def)
  with assms elsewhere_view [OF assms(4)] show ?thesis
    by (simp add: step_ok_def)
qed

lemma step_ok_trans:
  assumes "step_ok t st v out st'" and "step_ok t st' v' out' st''"
  shows "step_ok t st v' (out @ out') st''"
  using assms by (auto simp: step_ok_def)

lemma step_ok_refl: "state_inv st \<Longrightarrow> step_ok t st (view t st) [] st"
  by (simp add: step_ok_def)

text \<open>A running thread in the storages.\<close>

lemma running_iff:
  assumes "state_inv st"
  shows "current (view t st) = Some i \<longleftrightarrow>
    map_of (stackBalances (threadTracker st)) t = Some (frames i)
    \<and> map_of (inFilterMapping (threadTracker st)) t = Some (filters i) \<and> 0 \<le> frames i
    \<and> (\<exists>h. map_of (trackedCoverage (coverageTracker st)) t = Some (Some h)
           \<and> ch_records h = recs i \<and> history_ok h)"
proof -
  have "thread_ok t st"
    using assms by (simp add: state_inv_def)
  then show ?thesis
    by (cases i) (auto simp: thread_ok_def view_def split: option.splits)
qed

lemma idle_iff:
  assumes "state_inv st"
  shows "current (view t st) = None \<longleftrightarrow> map_of (stackBalances (threadTracker st)) t = None"
proof -
  have "thread_ok t st"
    using assms by (simp add: state_inv_def)
  then show ?thesis
    by (auto simp: thread_ok_def view_def split: option.splits)
qed

lemma tracked_iff:
  "state_inv st \<Longrightarrow> isCurrentThreadTracked t (threadTracker st) \<longleftrightarrow> current (view t st) \<noteq> None"
  by (simp add: isCurrentThreadTracked_def ts_exist_def idle_iff)

lemma mapped_view [simp]: "mapped (view t st) = map_of (threadIdMapping (threadTracker st)) t"
  by (simp add: view_def)

lemma unwinding_view [simp]:
  "unwinding (view t st) = map_of (unwindFunctionIds (threadTracker st)) t"
  by (simp add: view_def)

text \<open>The operations on a running thread.\<close>

definition at_run :: "tid \<Rightarrow> profiler_state \<Rightarrow> invocation \<Rightarrow> bool" where
  "at_run t st i \<longleftrightarrow> state_inv st \<and> current (view t st) = Some i"

lemmas storage_defs =
  storages_wf_def state_inv_def thread_ok_def elsewhere_same_def config_of_def

lemma at_runE:
  assumes "at_run t st i"
  obtains h where "state_inv st"
    and "map_of (trackedCoverage (coverageTracker st)) t = Some (Some h)"
    and "map_of (stackBalances (threadTracker st)) t = Some (frames i)" and "0 \<le> frames i"
    and "map_of (inFilterMapping (threadTracker st)) t = Some (filters i)"
    and "ch_records h = recs i" and "history_ok h"
  using assms by (auto simp: at_run_def running_iff)

lemma at_run_tracked: "at_run t st i \<Longrightarrow> isCurrentThreadTracked t (threadTracker st)"
  by (simp add: at_run_def tracked_iff)

lemma at_run_step:
  assumes "step_ok t st ((view t st)\<lparr>current := Some i\<rparr>) [] st'"
  shows "at_run t st' i"
  using assms by (simp add: step_ok_def at_run_def)

lemma addCoverage_running:
  assumes "at_run t st i"
  obtains st' where "addCoverage t offset e m st = Inr st'"
    and "step_ok t st ((view t st)\<lparr>current := Some (logged (record_of t offset e m) i)\<rparr>) [] st'"
    and "threadTracker st' = threadTracker st"
proof -
  obtain h where inv: "state_inv st"
    and h: "map_of (trackedCoverage (coverageTracker st)) t = Some (Some h)"
    and b: "map_of (stackBalances (threadTracker st)) t = Some (frames i)" "0 \<le> frames i"
    and f: "map_of (inFilterMapping (threadTracker st)) t = Some (filters i)"
    and r: "ch_records h = recs i" and ok: "history_ok h"
    using assms by (rule at_runE)
  let ?h = "history_addCoverage t offset e m h"
  let ?st = "st\<lparr>coverageTracker := coverageTracker st\<lparr>trackedCoverage :=
               omap_put t (Some ?h) (trackedCoverage (coverageTracker st))\<rparr>\<rparr>"
  have ok': "history_ok ?h"
    using ok by (simp add: history_ok_def history_addCoverage_def)
  have "addCoverage t offset e m st = Inr ?st"
    using h b by (simp add: addCoverage_def Let_def isCurrentThreadTracked_def ts_exist_def ts_ops_at)
  moreover have "step_ok t st ((view t st)\<lparr>current := Some (logged (record_of t offset e m) i)\<rparr>) [] ?st"
    using inv b f h r ok'
    by (intro step_okI)
      (simp_all add: storage_defs storage_simps view_def logged_def record_of_def
        history_addCoverage_def)
  ultimately show thesis
    by (rule that) simp
qed

lemma stackBalanceUp_running:
  assumes "at_run t st i"
  obtains st' where "on_tracker (stackBalanceUp t) st = Inr st'"
    and "step_ok t st ((view t st)\<lparr>current := Some (frame_up i)\<rparr>) [] st'"
proof -
  obtain h where inv: "state_inv st"
    and h: "map_of (trackedCoverage (coverageTracker st)) t = Some (Some h)"
    and b: "map_of (stackBalances (threadTracker st)) t = Some (frames i)" "0 \<le> frames i"
    and f: "map_of (inFilterMapping (threadTracker st)) t = Some (filters i)"
    and r: "ch_records h = recs i" and ok: "history_ok h"
    using assms by (rule at_runE)
  let ?st = "st\<lparr>threadTracker := threadTracker st\<lparr>stackBalances :=
               omap_put t (frames i + 1) (stackBalances (threadTracker st))\<rparr>\<rparr>"
  have "on_tracker (stackBalanceUp t) st = Inr ?st"
    using b by (simp add: on_tracker_def stackBalanceUp_def isCurrentThreadTracked_def ts_exist_def ts_ops_at)
  moreover have "step_ok t st ((view t st)\<lparr>current := Some (frame_up i)\<rparr>) [] ?st"
    using inv b f h r ok
    by (intro step_okI) (simp_all add: storage_defs storage_simps view_def frame_up_def)
  ultimately show thesis
    by (rule that)
qed

lemma stackBalanceDown_running:
  assumes "at_run t st i"
  shows "case frame_down i of
      None \<Rightarrow> stackBalanceDown t (threadTracker st) = Inl Assert_failed
    | Some i' \<Rightarrow> \<exists>tt. stackBalanceDown t (threadTracker st) = Inr (frames i' \<noteq> 0, tt)
        \<and> step_ok t st ((view t st)\<lparr>current := Some i'\<rparr>) [] (st\<lparr>threadTracker := tt\<rparr>)"
proof -
  obtain h where inv: "state_inv st"
    and h: "map_of (trackedCoverage (coverageTracker st)) t = Some (Some h)"
    and b: "map_of (stackBalances (threadTracker st)) t = Some (frames i)" "0 \<le> frames i"
    and f: "map_of (inFilterMapping (threadTracker st)) t = Some (filters i)"
    and r: "ch_records h = recs i" and ok: "history_ok h"
    using assms by (rule at_runE)
  show ?thesis
  proof (cases "frames i \<ge> 1")
    case False
    with b show ?thesis
      by (simp add: frame_down_def stackBalanceDown_def isCurrentThreadTracked_def ts_exist_def ts_ops_at)
  next
    case True
    let ?tt = "threadTracker st\<lparr>stackBalances :=
                 omap_put t (frames i - 1) (stackBalances (threadTracker st))\<rparr>"
    have "stackBalanceDown t (threadTracker st) = Inr (frames i - 1 \<noteq> 0, ?tt)"
      using b True
      by (simp add: stackBalanceDown_def isCurrentThreadTracked_def ts_exist_def ts_ops_at)
    moreover have "step_ok t st ((view t st)\<lparr>current := Some (i\<lparr>frames := frames i - 1\<rparr>)\<rparr>) []
        (st\<lparr>threadTracker := ?tt\<rparr>)"
      using inv b f h r ok True
      by (intro step_okI) (simp_all add: storage_defs storage_simps view_def)
    ultimately show ?thesis
      using True by (simp add: frame_down_def)
  qed
qed

lemma filter_running:
  assumes "at_run t st i"
  shows "\<exists>st'. on_tracker (filterEnter t) st = Inr st'
      \<and> step_ok t st ((view t st)\<lparr>current := Some (i\<lparr>filters := filters i + 1\<rparr>)\<rparr>) [] st'"
    and "\<exists>st'. on_tracker (filterLeave t) st = Inr st'
      \<and> step_ok t st ((view t st)\<lparr>current := Some (i\<lparr>filters := filters i - 1\<rparr>)\<rparr>) [] st'"
proof -
  obtain h where inv: "state_inv st"
    and h: "map_of (trackedCoverage (coverageTracker st)) t = Some (Some h)"
    and b: "map_of (stackBalances (threadTracker st)) t = Some (frames i)" "0 \<le> frames i"
    and f: "map_of (inFilterMapping (threadTracker st)) t = Some (filters i)"
    and r: "ch_records h = recs i" and ok: "history_ok h"
    using assms by (rule at_runE)
  have "step_ok t st ((view t st)\<lparr>current := Some (i\<lparr>filters := n\<rparr>)\<rparr>) []
      (st\<lparr>threadTracker := threadTracker st\<lparr>inFilterMapping :=
         omap_put t n (inFilterMapping (threadTracker st))\<rparr>\<rparr>)" for n
    using inv b f h r ok
    by (intro step_okI) (simp_all add: storage_defs storage_simps view_def)
  then show "\<exists>st'. on_tracker (filterEnter t) st = Inr st'
      \<and> step_ok t st ((view t st)\<lparr>current := Some (i\<lparr>filters := filters i + 1\<rparr>)\<rparr>) [] st'"
    and "\<exists>st'. on_tracker (filterLeave t) st = Inr st'
      \<and> step_ok t st ((view t st)\<lparr>current := Some (i\<lparr>filters := filters i - 1\<rparr>)\<rparr>) [] st'"
    using f at_run_tracked [OF assms]
    by (simp_all add: on_tracker_def filterEnter_def filterLeave_def ts_ops_at)
qed

lemma thread_ok_ignores:
  "thread_ok t (st\<lparr>threadTracker := threadTracker st\<lparr>unwindFunctionIds := u\<rparr>\<rparr>) = thread_ok t st"
  "thread_ok t (st\<lparr>threadTracker := threadTracker st\<lparr>threadIdMapping := m\<rparr>\<rparr>) = thread_ok t st"
  by (simp_all add: thread_ok_def split: option.split)

lemma unwind_set_running:
  assumes "at_run t st i"
  shows "step_ok t st ((view t st)\<lparr>unwinding := Some k\<rparr>) []
      (st\<lparr>threadTracker := threadTracker st\<lparr>unwindFunctionIds :=
         omap_put t k (unwindFunctionIds (threadTracker st))\<rparr>\<rparr>)"
    and "step_ok t st ((view t st)\<lparr>unwinding := None\<rparr>) []
      (st\<lparr>threadTracker := threadTracker st\<lparr>unwindFunctionIds :=
         omap_erase t (unwindFunctionIds (threadTracker st))\<rparr>\<rparr>)"
proof -
  have inv: "state_inv st" and "thread_ok t st"
    using assms by (simp_all add: at_run_def state_inv_def)
  then show "step_ok t st ((view t st)\<lparr>unwinding := Some k\<rparr>) []
      (st\<lparr>threadTracker := threadTracker st\<lparr>unwindFunctionIds :=
         omap_put t k (unwindFunctionIds (threadTracker st))\<rparr>\<rparr>)"
    and "step_ok t st ((view t st)\<lparr>unwinding := None\<rparr>) []
      (st\<lparr>threadTracker := threadTracker st\<lparr>unwindFunctionIds :=
         omap_erase t (unwindFunctionIds (threadTracker st))\<rparr>\<rparr>)"
    by (intro step_okI; simp add: storages_wf_def state_inv_def elsewhere_same_def config_of_def
        thread_ok_ignores storage_simps view_def)+
qed

lemma map_thread:
  assumes "state_inv st"
  shows "mapped (view t st) = None \<Longrightarrow>
      \<exists>st'. SetCurrentThreadId t k st = Inr st'
        \<and> step_ok t st ((view t st)\<lparr>mapped := Some k\<rparr>) [] st'"
    and "mapped (view t st) \<noteq> None \<Longrightarrow> SetCurrentThreadId t k st = Inl Assert_failed"
proof -
  have "thread_ok t st"
    using assms by (simp add: state_inv_def)
  with assms have "step_ok t st ((view t st)\<lparr>mapped := Some k\<rparr>) []
      (st\<lparr>threadTracker := threadTracker st\<lparr>threadIdMapping :=
         omap_put t k (threadIdMapping (threadTracker st))\<rparr>\<rparr>)"
    by (intro step_okI; simp add: storages_wf_def state_inv_def elsewhere_same_def config_of_def
        thread_ok_ignores storage_simps view_def)
  then show "mapped (view t st) = None \<Longrightarrow>
      \<exists>st'. SetCurrentThreadId t k st = Inr st'
        \<and> step_ok t st ((view t st)\<lparr>mapped := Some k\<rparr>) [] st'"
    and "mapped (view t st) \<noteq> None \<Longrightarrow> SetCurrentThreadId t k st = Inl Assert_failed"
    by (auto simp: SetCurrentThreadId_def on_tracker_def mapCurrentThread_def ts_ops_at)
qed

text \<open>The end of an invocation writes the report of the specification.\<close>

lemma fold_record_serialize:
  "fold coverageRecord_serialize rs buffer
   = buffer @ concat (map (\<lambda>c. coverageRecord_serialize c []) rs)"
proof (induction rs arbitrary: buffer)
  case (Cons r rs)
  have "coverageRecord_serialize r buffer = buffer @ coverageRecord_serialize r []"
    by (simp add: coverageRecord_serialize_def serializePrimitive_def Let_def)
  with Cons show ?case by simp
qed simp

lemma finished_buffer:
  "history_serialize h (serializePrimitive (0 :: u32) (serializePrimitive k []))
   = report_bytes (k, ch_records h)"
  by (simp add: history_serialize_def report_bytes_def serializePrimitive_def fold_record_serialize)

lemma loseCurrentThread_running:
  assumes "at_run t st i" and "frames i = 0"
  shows "case finish (config_of st) i (view t st) of
      None \<Rightarrow> loseCurrentThread t st = Inl Assert_failed
    | Some (v, out) \<Rightarrow> \<exists>st'. loseCurrentThread t st = Inr st' \<and> step_ok t st v out st'"
proof -
  obtain h where inv: "state_inv st"
    and h: "map_of (trackedCoverage (coverageTracker st)) t = Some (Some h)"
    and b: "map_of (stackBalances (threadTracker st)) t = Some (frames i)" "0 \<le> frames i"
    and f: "map_of (inFilterMapping (threadTracker st)) t = Some (filters i)"
    and r: "ch_records h = recs i" and ok: "history_ok h"
    using assms(1) by (rule at_runE)
  let ?m = "map_of (threadIdMapping (threadTracker st)) t"
  let ?k = "case ?m of None \<Rightarrow> 0 | Some k \<Rightarrow> k"
  let ?ct = "coverageTracker st" and ?tt = "threadTracker st"
  let ?st = "st\<lparr>threadTracker := ?tt\<lparr>stackBalances := omap_erase t (stackBalances ?tt),
                 inFilterMapping := omap_erase t (inFilterMapping ?tt),
                 threadIdMapping := (if isPassiveRun st then threadIdMapping ?tt
                                     else omap_erase t (threadIdMapping ?tt))\<rparr>,
               coverageTracker := ?ct\<lparr>trackedCoverage := omap_erase t (trackedCoverage ?ct),
                 visitedMethods := visitedMethods ?ct \<union> ch_visitedMethods h,
                 serializedCoverageThreadIds := serializedCoverageThreadIds ?ct @ [?k],
                 serializedCoverage := serializedCoverage ?ct @ [report_bytes (?k, recs i)]\<rparr>\<rparr>"
  have fin: "invocationFinished t st = Inr (st\<lparr>coverageTracker := coverageTracker ?st\<rparr>)"
    using h r
    by (auto simp: invocationFinished_def Let_def ts_ops_at hasMapping_def ts_exist_def
        getCurrentThreadMappedId_def finished_buffer split: option.splits)
  have lose: "loseCurrentThread t st =
      (if filters i \<noteq> 0 then Inl Assert_failed
       else if isPassiveRun st \<or> ?m \<noteq> None then Inr ?st else Inl Assert_failed)"
    using b f fin assms(2) at_run_tracked [OF assms(1)]
    by (auto simp: loseCurrentThread_def onCurrentThreadFinished_def Let_def ts_ops_at)
  have "step_ok t st ((view t st)\<lparr>current := None, mapped := (if isPassiveRun st then ?m else None)\<rparr>)
      [(?k, recs i)] ?st"
    using inv b f h r ok
    by (intro step_okI) (simp_all add: storage_defs storage_simps view_def history_ok_def)
  with lose show ?thesis
    by (auto simp: finish_def config_of_def)
qed

subsection \<open>Every event follows the specification\<close>

definition implements ::
  "tid \<Rightarrow> profiler_state \<Rightarrow> profiler_state res \<Rightarrow> (thread_state \<times> report list) option \<Rightarrow> bool" where
  "implements t st r s \<longleftrightarrow>
     (case s of None \<Rightarrow> \<exists>x. r = Inl x
      | Some (v, out) \<Rightarrow> \<exists>st'. r = Inr st' \<and> step_ok t st v out st')"

lemma implements_go_on:
  "implements t st r (go_on i v) \<longleftrightarrow>
     (\<exists>st'. r = Inr st' \<and> step_ok t st (v\<lparr>current := Some i\<rparr>) [] st')"
  by (simp add: implements_def go_on_def)

lemma implements_failure [simp]: "implements t st (Inl x) None"
  by (simp add: implements_def)

lemma view_current_self: "current (view t st) = Some i \<Longrightarrow> (view t st)\<lparr>current := Some i\<rparr> = view t st"
  by (cases "view t st") simp

lemma stay_running:
  assumes "at_run t st i"
  shows "implements t st (Inr st) (go_on i (view t st))"
  using assms step_ok_refl [of st t]
  by (simp add: implements_go_on at_run_def view_current_self)

text \<open>A step followed by what is specified for the state it leads to.\<close>

lemma implements_after:
  assumes "step_ok t st v [] st'" and "implements t st' r s"
  shows "implements t st r s"
  using assms step_ok_trans [OF assms(1)] by (auto simp: implements_def split: option.splits)

lemma record_running:
  assumes "at_run t st i"
  shows "implements t st (addCoverage t o' e m st) (go_on (logged (record_of t o' e m) i) (view t st))"
  using addCoverage_running [OF assms, of o' e m] by (metis implements_go_on)

lemma up_running:
  assumes "at_run t st i"
  shows "implements t st (on_tracker (stackBalanceUp t) st) (go_on (frame_up i) (view t st))"
  using stackBalanceUp_running [OF assms] by (metis implements_go_on)

text \<open>The common tail of the events that leave a frame.\<close>

lemma down_running:
  assumes "at_run t st i"
  shows "implements t st
      (and_then (stackBalanceDown t (threadTracker st)) (\<lambda>(_, tt). Inr (st\<lparr>threadTracker := tt\<rparr>)))
      (case frame_down i of None \<Rightarrow> None | Some i' \<Rightarrow> go_on i' (view t st))"
  using stackBalanceDown_running [OF assms]
  by (auto simp: implements_def go_on_def split: option.splits)

lemma step_ok_view: "step_ok t st v out st' \<Longrightarrow> view t st' = v"
  and step_ok_config: "step_ok t st v out st' \<Longrightarrow> config_of st' = config_of st"
  and step_ok_inv: "step_ok t st v out st' \<Longrightarrow> state_inv st'"
  by (simp_all add: step_ok_def)

lemma finish_current [simp]: "finish c i (v\<lparr>current := x\<rparr>) = finish c i v"
  by (cases v) (simp add: finish_def)

lemma down_or_finish_running:
  assumes "at_run t st i"
  shows "implements t st
      (and_then (stackBalanceDown t (threadTracker st)) (\<lambda>(notEmpty, tt).
         let st = st\<lparr>threadTracker := tt\<rparr> in
         if notEmpty then Inr st else loseCurrentThread t st))
      (case frame_down i of None \<Rightarrow> None
       | Some i' \<Rightarrow> if frames i' = 0 then finish (config_of st) i' (view t st)
                    else go_on i' (view t st))"
proof (cases "frame_down i")
  case None
  with stackBalanceDown_running [OF assms] show ?thesis
    by (simp add: implements_def)
next
  case (Some i')
  with stackBalanceDown_running [OF assms] obtain tt where
    down: "stackBalanceDown t (threadTracker st) = Inr (frames i' \<noteq> 0, tt)"
    and step: "step_ok t st ((view t st)\<lparr>current := Some i'\<rparr>) [] (st\<lparr>threadTracker := tt\<rparr>)"
    by auto
  show ?thesis
  proof (cases "frames i' = 0")
    case False
    with down step Some show ?thesis
      by (simp add: implements_go_on Let_def)
  next
    case True
    have run': "at_run t (st\<lparr>threadTracker := tt\<rparr>) i'"
      using step by (rule at_run_step)
    have "implements t (st\<lparr>threadTracker := tt\<rparr>) (loseCurrentThread t (st\<lparr>threadTracker := tt\<rparr>))
        (finish (config_of st) i' ((view t st)\<lparr>current := Some i'\<rparr>))"
      using loseCurrentThread_running [OF run' True] step_ok_view [OF step] step_ok_config [OF step]
      by (auto simp: implements_def split: option.splits)
    then have "implements t st (loseCurrentThread t (st\<lparr>threadTracker := tt\<rparr>))
        (finish (config_of st) i' ((view t st)\<lparr>current := Some i'\<rparr>))"
      by (rule implements_after [OF step])
    with down True Some show ?thesis
      by (simp add: Let_def)
  qed
qed

lemmas probe_defs =
  cov_Track_Coverage_def cov_Track_Stsfld_def cov_Branch_def cov_Track_Call_def
  cov_Track_Throw_def cov_Track_Tailcall_def cov_Track_Enter_def cov_Track_EnterMain_def
  cov_Track_Leave_def cov_Track_LeaveMain_def cov_Finalize_Call_def ExceptionThrown_def
  ExceptionSearchFilterEnter_def ExceptionSearchFilterLeave_def
  ExceptionUnwindFunctionEnter_def ExceptionUnwindFunctionLeave_def

text \<open>A record followed by a step.\<close>

lemma record_then_running:
  assumes "at_run t st i"
    and "\<And>st'. at_run t st' (logged (record_of t o' e m) i) \<Longrightarrow> config_of st' = config_of st \<Longrightarrow>
           view t st' = (view t st)\<lparr>current := Some (logged (record_of t o' e m) i)\<rparr> \<Longrightarrow>
           implements t st' (k st') s"
  shows "implements t st (and_then (addCoverage t o' e m st) k) s"
proof -
  obtain st' where add: "addCoverage t o' e m st = Inr st'"
    and step: "step_ok t st ((view t st)\<lparr>current := Some (logged (record_of t o' e m) i)\<rparr>) [] st'"
    using addCoverage_running [OF assms(1)] by metis
  have "implements t st' (k st') s"
    using at_run_step [OF step] step_ok_config [OF step] step_ok_view [OF step] by (rule assms(2))
  with implements_after [OF step] add show ?thesis by simp
qed

lemma go_on_current [simp]: "go_on i (v\<lparr>current := x\<rparr>) = go_on i v"
  by (cases v) (simp add: go_on_def)

lemma tailcall_running:
  assumes "at_run t st i"
  shows "implements t st (cov_Track_Tailcall t o' m st) (running_step (config_of st) t (Ev_Tailcall o' m) i (view t st))"
proof (cases "frame_down i")
  case None
  with stackBalanceDown_running [OF assms] at_run_tracked [OF assms] show ?thesis
    by (simp add: implements_def probe_defs)
next
  case (Some i')
  with stackBalanceDown_running [OF assms] obtain tt where
    down: "stackBalanceDown t (threadTracker st) = Inr (frames i' \<noteq> 0, tt)"
    and step: "step_ok t st ((view t st)\<lparr>current := Some i'\<rparr>) [] (st\<lparr>threadTracker := tt\<rparr>)"
    by auto
  have "implements t st (addCoverage t o' Tailcall m (st\<lparr>threadTracker := tt\<rparr>))
      (go_on (logged (record_of t o' Tailcall m) i') (view t st))"
    using implements_after [OF step record_running [OF at_run_step [OF step]]]
      step_ok_view [OF step] by simp
  with Some down at_run_tracked [OF assms] show ?thesis
    by (simp add: probe_defs)
qed

lemma enter_running:
  assumes "at_run t st i"
  shows "implements t st (cov_Track_Enter t o' m st) (running_step (config_of st) t (Ev_Enter o' m) i (view t st))"
proof -
  have mo: "ct_collectMainOnly (coverageTracker st) = cfg_mainOnly (config_of st)"
    using assms by (simp add: at_run_def state_inv_def config_of_def)
  show ?thesis
  proof (cases "cfg_mainOnly (config_of st)")
    case True
    with up_running [OF assms] at_run_tracked [OF assms] mo show ?thesis
      by (simp add: probe_defs)
  next
    case False
    have "implements t st (and_then (addCoverage t o' Enter m st) (on_tracker (stackBalanceUp t)))
        (go_on (frame_up (logged (record_of t o' Enter m) i)) (view t st))"
      using assms
      by (rule record_then_running)
        (metis up_running go_on_current)
    with False at_run_tracked [OF assms] mo show ?thesis
      by (simp add: probe_defs)
  qed
qed

lemma leave_running:
  assumes "at_run t st i"
  shows "implements t st (cov_Track_Leave t o' m st) (running_step (config_of st) t (Ev_Leave o' m) i (view t st))"
proof -
  have mo: "ct_collectMainOnly (coverageTracker st) = cfg_mainOnly (config_of st)"
    using assms by (simp add: at_run_def state_inv_def config_of_def)
  show ?thesis
  proof (cases "cfg_mainOnly (config_of st)")
    case True
    with down_running [OF assms] at_run_tracked [OF assms] mo show ?thesis
      by (simp add: probe_defs)
  next
    case False
    have "implements t st (and_then (addCoverage t o' Leave m st) (\<lambda>st.
        and_then (stackBalanceDown t (threadTracker st)) (\<lambda>(_, tt). Inr (st\<lparr>threadTracker := tt\<rparr>))))
        (case frame_down (logged (record_of t o' Leave m) i) of
           None \<Rightarrow> None | Some i' \<Rightarrow> go_on i' (view t st))"
      using assms
    proof (rule record_then_running)
      fix st'
      assume run': "at_run t st' (logged (record_of t o' Leave m) i)"
        and v: "view t st' = (view t st)\<lparr>current := Some (logged (record_of t o' Leave m) i)\<rparr>"
      show "implements t st'
        (and_then (stackBalanceDown t (threadTracker st')) (\<lambda>(_, tt). Inr (st'\<lparr>threadTracker := tt\<rparr>)))
        (case frame_down (logged (record_of t o' Leave m) i) of
           None \<Rightarrow> None | Some i' \<Rightarrow> go_on i' (view t st))"
        using down_running [OF run'] unfolding v
        by (cases "frame_down (logged (record_of t o' Leave m) i)") simp_all
    qed
    with False at_run_tracked [OF assms] mo show ?thesis
      by (simp add: probe_defs)
  qed
qed

lemma leaveMain_running:
  assumes "at_run t st i"
  shows "implements t st (cov_Track_LeaveMain t o' m st)
    (running_step (config_of st) t (Ev_LeaveMain o' m) i (view t st))"
proof -
  let ?s = "case frame_down (logged (record_of t o' LeaveMain m) i) of None \<Rightarrow> None
       | Some i' \<Rightarrow> if frames i' = 0 then finish (config_of st) i' (view t st)
                    else go_on i' (view t st)"
  have "implements t st (and_then (addCoverage t o' LeaveMain m st) (\<lambda>st.
      and_then (stackBalanceDown t (threadTracker st)) (\<lambda>(notEmpty, tt).
         let st = st\<lparr>threadTracker := tt\<rparr> in
         if notEmpty then Inr st else loseCurrentThread t st))) ?s"
    using assms
  proof (rule record_then_running)
    fix st'
    assume run': "at_run t st' (logged (record_of t o' LeaveMain m) i)"
      and c: "config_of st' = config_of st"
      and v: "view t st' = (view t st)\<lparr>current := Some (logged (record_of t o' LeaveMain m) i)\<rparr>"
    show "implements t st' (and_then (stackBalanceDown t (threadTracker st')) (\<lambda>(notEmpty, tt).
         let st = st'\<lparr>threadTracker := tt\<rparr> in
         if notEmpty then Inr st else loseCurrentThread t st)) ?s"
      using down_or_finish_running [OF run'] unfolding c v
      by (cases "frame_down (logged (record_of t o' LeaveMain m) i)") (simp_all split: if_splits)
  qed
  with at_run_tracked [OF assms] show ?thesis
    by (simp add: probe_defs)
qed

lemma unwindLeave_running:
  assumes "at_run t st i"
  shows "implements t st (ExceptionUnwindFunctionLeave t st)
    (running_step (config_of st) t Ev_UnwindLeave i (view t st))"
proof (cases "isFinished st")
  case True
  with stay_running [OF assms] show ?thesis
    by (simp add: probe_defs config_of_def)
next
  case False
  note tracked = at_run_tracked [OF assms]
  show ?thesis
  proof (cases "map_of (unwindFunctionIds (threadTracker st)) t")
    case None
    with False tracked show ?thesis
      by (simp add: probe_defs config_of_def implements_def unwindFunctionLeave_def Let_def ts_ops_at)
  next
    case (Some f)
    let ?tt = "threadTracker st\<lparr>unwindFunctionIds := omap_erase t (unwindFunctionIds (threadTracker st))\<rparr>"
    let ?st = "st\<lparr>threadTracker := ?tt\<rparr>"
    let ?v = "(view t st)\<lparr>unwinding := None\<rparr>"
    have step: "step_ok t st ?v [] ?st"
      using assms by (rule unwind_set_running)
    have run': "at_run t ?st i"
      using assms step by (simp add: at_run_def step_ok_def)
    have b: "map_of (stackBalances ?tt) t = Some (frames i)" "0 \<le> frames i"
      and fl: "map_of (inFilterMapping ?tt) t = Some (filters i)"
      by (rule at_runE [OF assms], simp)+
    have tr: "isCurrentThreadTracked t ?tt"
      using at_run_tracked [OF run'] by simp
    have cfg: "cfg_mainOnly (config_of st) = collectMainOnly st"
      "cfg_main (config_of st) = mainFunctionId st" "cfg_finished (config_of st) = isFinished st"
      by (simp_all add: config_of_def)
    have "implements t ?st
        (if collectMainOnly st \<and> mainFunctionId st \<noteq> f then Inr ?st
         else if filters i > 0 \<and> frames i \<le> 1 then Inr ?st
         else and_then (stackBalanceDown t (threadTracker ?st)) (\<lambda>(notEmpty, tt).
           let st = ?st\<lparr>threadTracker := tt\<rparr> in
           if notEmpty then Inr st else loseCurrentThread t st))
        (running_step (config_of st) t Ev_UnwindLeave i (view t st))"
      using stay_running [OF run', unfolded step_ok_view [OF step]] Some False
        down_or_finish_running [OF run', unfolded step_ok_view [OF step] step_ok_config [OF step]]
      by (simp add: Let_def cfg)
    moreover have "ExceptionUnwindFunctionLeave t st =
        (if collectMainOnly st \<and> mainFunctionId st \<noteq> f then Inr ?st
         else if filters i > 0 \<and> frames i \<le> 1 then Inr ?st
         else and_then (stackBalanceDown t (threadTracker ?st)) (\<lambda>(notEmpty, tt).
           let st = ?st\<lparr>threadTracker := tt\<rparr> in
           if notEmpty then Inr st else loseCurrentThread t st))"
      using Some False tracked tr b fl
      by (simp add: probe_defs unwindFunctionLeave_def Let_def ts_ops_at isInFilter_def
          stackBalance_def not_less)
    ultimately show ?thesis
      using implements_after [OF step] by simp
  qed
qed

text \<open>The start of an invocation.\<close>

lemma enterMain_idle:
  assumes inv: "state_inv st" and idle: "current (view t st) = None"
  shows "implements t st (cov_Track_EnterMain t o' m st)
    (go_on \<lparr>frames = 1, filters = 0, recs = [record_of t o' EnterMain m]\<rparr> (view t st))"
proof -
  have b: "map_of (stackBalances (threadTracker st)) t = None"
    using inv idle by (simp add: idle_iff)
  moreover have "thread_ok t st"
    using inv by (simp add: state_inv_def)
  ultimately have f: "map_of (inFilterMapping (threadTracker st)) t = None"
    and h: "map_of (trackedCoverage (coverageTracker st)) t = None"
    by (simp_all add: thread_ok_def)
  let ?tt = "threadTracker st" and ?ct = "coverageTracker st"
  let ?h = "newCoverageHistory t o' m"
  let ?st = "st\<lparr>threadTracker := ?tt\<lparr>stackBalances := omap_put t 1 (stackBalances ?tt),
                                      inFilterMapping := omap_put t 0 (inFilterMapping ?tt)\<rparr>,
               coverageTracker := ?ct\<lparr>trackedCoverage := omap_put t (Some ?h) (trackedCoverage ?ct)\<rparr>\<rparr>"
  have wf: "omap_wf (stackBalances ?tt)"
    using inv by (simp add: state_inv_def storages_wf_def)
  have "cov_Track_EnterMain t o' m st = Inr ?st"
    using b f h wf
    by (simp add: probe_defs on_tracker_def trackCurrentThread_def stackBalanceUp_def addCoverage_def
        isCurrentThreadTracked_def ts_exist_def ts_ops_at storage_simps Let_def cells.put_put_same)
  moreover have "step_ok t st ((view t st)\<lparr>current :=
      Some \<lparr>frames = 1, filters = 0, recs = [record_of t o' EnterMain m]\<rparr>\<rparr>) [] ?st"
    using inv
    by (intro step_okI)
      (simp_all add: storage_defs storage_simps view_def history_ok_def newCoverageHistory_def
        record_of_def)
  ultimately show ?thesis
    by (simp add: implements_go_on)
qed

lemma running_step_implemented:
  assumes "at_run t st i"
  shows "implements t st (probe_step t e st) (running_step (config_of st) t e i (view t st))"
proof (cases e)
  case (Ev_UnwindEnter f)
  have "implements t st
      (Inr (st\<lparr>threadTracker := threadTracker st\<lparr>unwindFunctionIds :=
              omap_put t f (unwindFunctionIds (threadTracker st))\<rparr>\<rparr>))
      (go_on i ((view t st)\<lparr>unwinding := Some f\<rparr>))"
    using unwind_set_running(1) [OF assms, of f] assms
    by (simp add: implements_go_on at_run_def view_def)
  with Ev_UnwindEnter at_run_tracked [OF assms] show ?thesis
    by (cases "f = 0") (simp_all add: probe_defs on_tracker_def unwindFunctionEnter_def
        isCorrectFunctionId_def ts_storeOrUpdate_def)
next
  case (Ev_SetCurrentThreadId k)
  have "state_inv st" and "(view t st)\<lparr>mapped := Some k, current := Some i\<rparr> = (view t st)\<lparr>mapped := Some k\<rparr>"
    using assms by (simp_all add: at_run_def view_def)
  with map_thread [of st t k] Ev_SetCurrentThreadId show ?thesis
    by (auto simp: implements_def go_on_def)
next
  case (Ev_ExceptionThrown n)
  obtain h where "map_of (trackedCoverage (coverageTracker st)) t = Some (Some h)"
    and "state_inv st"
    using assms by (rule at_runE)
  then show ?thesis
    using Ev_ExceptionThrown stay_running [OF assms] at_run_tracked [OF assms]
    by (auto simp: probe_defs implements_def invocationAborted_def abortCurrentThread_def
        onCurrentThreadFinished_def invocationFinished_def Let_def ts_ops_at storage_simps
        state_inv_def storages_wf_def hasMapping_def ts_exist_def getCurrentThreadMappedId_def)
next
  case Ev_FilterEnter
  then show ?thesis
    using filter_running(1) [OF assms] stay_running [OF assms] at_run_tracked [OF assms]
    by (simp add: probe_defs implements_go_on config_of_def)
next
  case Ev_FilterLeave
  then show ?thesis
    using filter_running(2) [OF assms] stay_running [OF assms] at_run_tracked [OF assms]
    by (simp add: probe_defs implements_go_on config_of_def)
qed (use record_running [OF assms] up_running [OF assms] stay_running [OF assms]
       tailcall_running [OF assms] enter_running [OF assms] leave_running [OF assms]
       leaveMain_running [OF assms] unwindLeave_running [OF assms] at_run_tracked [OF assms]
     in \<open>simp_all add: probe_defs del: running_step.simps(6,7,9,10,16)\<close>)

lemma spec_step_implemented:
  assumes inv: "state_inv st"
  shows "implements t st (probe_step t e st) (spec_step (config_of st) t e (view t st))"
proof (cases "current (view t st)")
  case (Some i)
  then have "at_run t st i"
    using inv by (simp add: at_run_def)
  from running_step_implemented [OF this] Some show ?thesis
    by (simp add: spec_step_def)
next
  case None
  then have "\<not> isCurrentThreadTracked t (threadTracker st)"
    using inv by (simp add: tracked_iff)
  moreover have "implements t st (Inr st) (Some (view t st, []))"
    using step_ok_refl [OF inv] by (simp add: implements_def)
  ultimately show ?thesis
    using None enterMain_idle [OF inv None] map_thread [OF inv]
    by (cases e) (auto simp: spec_step_def probe_defs implements_def)
qed

subsection \<open>Interleavings\<close>

lemma implements_Inr:
  assumes "implements t st (Inr st') s"
  shows "\<exists>out. s = Some (view t st', out) \<and> step_ok t st (view t st') out st'"
proof (cases s)
  case None
  with assms show ?thesis by (simp add: implements_def)
next
  case (Some p)
  obtain v out where "p = (v, out)" by force
  with Some assms have "step_ok t st v out st'" and "s = Some (v, out)"
    by (simp_all add: implements_def)
  with step_ok_view [of t st v out st'] show ?thesis by blast
qed

lemma implements_Inl: "implements t st (Inl x) s \<Longrightarrow> s = None"
  by (cases s) (auto simp: implements_def)

fun spec_run ::
  "config \<Rightarrow> tid \<Rightarrow> probe_event list \<Rightarrow> thread_state \<Rightarrow> (thread_state \<times> report list) option" where
  "spec_run c t [] v = Some (v, [])"
| "spec_run c t (e # es) v =
     (case spec_step c t e v of None \<Rightarrow> None
      | Some (v', out) \<Rightarrow>
          (case spec_run c t es v' of None \<Rightarrow> None
           | Some (v'', out') \<Rightarrow> Some (v'', out @ out')))"

definition events_of :: "tid \<Rightarrow> (tid \<times> 'a) list \<Rightarrow> 'a list" where
  "events_of t tr = map snd (filter (\<lambda>p. fst p = t) tr)"

lemma events_of_simps [simp]:
  "events_of t [] = []"
  "events_of t ((t', e) # tr) = (if t' = t then e # events_of t tr else events_of t tr)"
  "events_of t (tr @ tr') = events_of t tr @ events_of t tr'"
  by (simp_all add: events_of_def)

text \<open>All reports of a run, each with the thread that made it.\<close>

definition run_ok :: "(tid \<times> probe_event) list \<Rightarrow> profiler_state \<Rightarrow> profiler_state \<Rightarrow> bool" where
  "run_ok tr st st' \<longleftrightarrow>
     state_inv st' \<and> config_of st' = config_of st
     \<and> collectedMethods (coverageTracker st') = collectedMethods (coverageTracker st)
     \<and> (\<exists>outs.
          serializedCoverage (coverageTracker st')
            = serializedCoverage (coverageTracker st) @ map (\<lambda>p. report_bytes (snd p)) outs
          \<and> serializedCoverageThreadIds (coverageTracker st')
            = serializedCoverageThreadIds (coverageTracker st) @ map (\<lambda>p. fst (snd p)) outs
          \<and> visitedMethods (coverageTracker st')
            = visitedMethods (coverageTracker st) \<union> (\<Union>p \<in> set outs. cr_methodId ` set (snd (snd p)))
          \<and> (\<forall>t. spec_run (config_of st) t (events_of t tr) (view t st)
                  = Some (view t st', events_of t outs)))"

lemma run_simulates:
  assumes "state_inv st"
  shows "case run tr st of
      Inl x \<Rightarrow> \<exists>t. spec_run (config_of st) t (events_of t tr) (view t st) = None
    | Inr st' \<Rightarrow> run_ok tr st st'"
  using assms
proof (induction tr arbitrary: st)
  case Nil
  then show ?case by (simp add: run_ok_def)
next
  case (Cons p tr)
  obtain t e where p: "p = (t, e)" by force
  note step = spec_step_implemented [OF Cons.prems, of t e]
  show ?case
  proof (cases "probe_step t e st")
    case (Inl x)
    with step have "spec_step (config_of st) t e (view t st) = None"
      by (simp add: implements_Inl)
    with Inl p show ?thesis by (auto intro: exI [of _ t])
  next
    case (Inr st1)
    with step obtain out where spec: "spec_step (config_of st) t e (view t st) = Some (view t st1, out)"
      and ok: "step_ok t st (view t st1) out st1"
      using implements_Inr [of t st st1] by metis
    have c: "config_of st1 = config_of st" and others: "t' \<noteq> t \<Longrightarrow> view t' st1 = view t' st" for t'
      using ok by (simp_all add: step_ok_def)
    have spec': "spec_run (config_of st) t' (events_of t' (p # tr)) (view t' st) =
        (case spec_run (config_of st1) t' (events_of t' tr) (view t' st1) of None \<Rightarrow> None
         | Some (v, out') \<Rightarrow> Some (v, (if t' = t then out else []) @ out'))" for t'
      using spec others [of t'] p c by (cases "t' = t") (auto split: option.splits)
    note IH = Cons.IH [OF step_ok_inv [OF ok]]
    show ?thesis
    proof (cases "run tr st1")
      case (Inl x)
      with IH obtain t' where "spec_run (config_of st1) t' (events_of t' tr) (view t' st1) = None"
        by auto
      with spec' [of t'] have none: "spec_run (config_of st) t' (events_of t' (p # tr)) (view t' st) = None"
        by simp
      have "run (p # tr) st = Inl x"
        using Inl Inr p by simp
      with none show ?thesis by (auto simp only: sum.case)
    next
      case 2: (Inr st')
      with IH have ok': "run_ok tr st1 st'" by simp
      then obtain outs where outs:
        "serializedCoverage (coverageTracker st')
            = serializedCoverage (coverageTracker st1) @ map (\<lambda>p. report_bytes (snd p)) outs"
        "serializedCoverageThreadIds (coverageTracker st')
            = serializedCoverageThreadIds (coverageTracker st1) @ map (\<lambda>p. fst (snd p)) outs"
        "visitedMethods (coverageTracker st')
            = visitedMethods (coverageTracker st1) \<union> (\<Union>p \<in> set outs. cr_methodId ` set (snd (snd p)))"
        and sr: "\<And>t'. spec_run (config_of st1) t' (events_of t' tr) (view t' st1)
            = Some (view t' st', events_of t' outs)"
        unfolding run_ok_def by blast
      have own: "events_of t' (map (Pair t) out @ outs)
          = (if t' = t then out else []) @ events_of t' outs" for t'
        by (simp add: events_of_def comp_def)
      have "spec_run (config_of st) t' (events_of t' (p # tr)) (view t' st)
          = Some (view t' st', events_of t' (map (Pair t) out @ outs))" for t'
        unfolding spec' sr own by simp
      moreover have "state_inv st'" "config_of st' = config_of st"
        "collectedMethods (coverageTracker st') = collectedMethods (coverageTracker st)"
        using ok ok' by (simp_all add: run_ok_def step_ok_def)
      moreover have "serializedCoverage (coverageTracker st') = serializedCoverage (coverageTracker st)
          @ map (\<lambda>p. report_bytes (snd p)) (map (Pair t) out @ outs)"
        and "serializedCoverageThreadIds (coverageTracker st')
          = serializedCoverageThreadIds (coverageTracker st)
            @ map (\<lambda>p. fst (snd p)) (map (Pair t) out @ outs)"
        and "visitedMethods (coverageTracker st') = visitedMethods (coverageTracker st)
          \<union> (\<Union>p \<in> set (map (Pair t) out @ outs). cr_methodId ` set (snd (snd p)))"
        using ok outs by (simp_all add: step_ok_def comp_def Un_assoc)
      ultimately have "run_ok (p # tr) st st'"
        unfolding run_ok_def by blast
      with 2 Inr p show ?thesis by simp
    qed
  qed
qed

subsection \<open>Properties\<close>

lemma newProfilerState_inv:
  assumes "newProfilerState env conv = Inr st"
  shows "state_inv st" and "view t st = \<lparr>mapped = None, unwinding = None, current = None\<rparr>"
  using assms
  by (auto simp: newProfilerState_def Let_def newThreadTracker_def newCoverageTracker_def ts_new_def
      omap_wf_def state_inv_def storages_wf_def thread_ok_def view_def res_simps)

text \<open>
  Claim C10: the run-time part of the coverage tool refines its specification under every interleaving.
  From a state that satisfies the invariant, a sequence of events of several threads either fails, and
  then some thread alone violates its specification, or succeeds. In that case the new state satisfies
  the invariant, each thread is in the state the specification gives for its own events in their order,
  and the finished reports are exactly those of the threads, each thread's in its order.
\<close>

theorem interleaving_refines_threads:
  assumes "state_inv st"
  shows "case run tr st of
      Inl x \<Rightarrow> \<exists>t. spec_run (config_of st) t (events_of t tr) (view t st) = None
    | Inr st' \<Rightarrow> run_ok tr st st'"
  using assms by (rule run_simulates)

definition no_environment :: "string \<Rightarrow> string option" where
  "no_environment = Map.empty"

definition idle_state :: profiler_state where
  "idle_state =
     \<lparr>threadTracker = newThreadTracker, coverageTracker = newCoverageTracker True,
      isPassiveRun = False, collectMainOnly = True, isFinished = False, passiveResultPath = None,
      mainMethodInfo = None, mainFunctionId = -1\<rparr>"

lemma idle_state_new: "newProfilerState no_environment (\<lambda>_. []) = Inr idle_state"
  by (simp add: newProfilerState_def no_environment_def idle_state_def Let_def)

lemma interleaving_refines_threads_witness:
  "case run [(1, Ev_SetCurrentThreadId 7), (1, Ev_EnterMain 0 0), (2, Ev_Branch 4 0),
             (1, Ev_Branch 4 0), (1, Ev_LeaveMain 8 0)] idle_state of
      Inl x \<Rightarrow> False
    | Inr st' \<Rightarrow> run_ok [(1, Ev_SetCurrentThreadId 7), (1, Ev_EnterMain 0 0), (2, Ev_Branch 4 0),
             (1, Ev_Branch 4 0), (1, Ev_LeaveMain 8 0)] idle_state st'"
proof -
  let ?tr = "[(1, Ev_SetCurrentThreadId 7), (1, Ev_EnterMain 0 0), (2, Ev_Branch 4 0),
             (1, Ev_Branch 4 0), (1, Ev_LeaveMain 8 0)]"
  have "\<not> isl (run ?tr idle_state)"
    by code_simp
  with interleaving_refines_threads [OF newProfilerState_inv(1) [OF idle_state_new], of ?tr]
  show ?thesis
    by (cases "run ?tr idle_state") (simp_all only: sum.case sum.disc not_True_eq_False)
qed

text \<open>
  The events inside one invocation: calls and returns are nested below the frame of the method under
  test, no exception unwinds, and no exception filter runs. \<open>d\<close> is the number of live frames.
\<close>

fun nested :: "int \<Rightarrow> probe_event list \<Rightarrow> bool" where
  "nested d [] \<longleftrightarrow> d = 1"
| "nested d (Ev_Enter o' m # es) \<longleftrightarrow> nested (d + 1) es"
| "nested d (Ev_EnterMain o' m # es) \<longleftrightarrow> nested (d + 1) es"
| "nested d (Ev_Leave o' m # es) \<longleftrightarrow> d \<ge> 1 \<and> nested (d - 1) es"
| "nested d (Ev_Tailcall o' m # es) \<longleftrightarrow> d \<ge> 1 \<and> nested (d - 1) es"
| "nested d (Ev_LeaveMain o' m # es) \<longleftrightarrow> d \<ge> 2 \<and> nested (d - 1) es"
| "nested d (Ev_Coverage o' m # es) \<longleftrightarrow> nested d es"
| "nested d (Ev_Stsfld o' m # es) \<longleftrightarrow> nested d es"
| "nested d (Ev_Branch o' m # es) \<longleftrightarrow> nested d es"
| "nested d (Ev_Call o' m # es) \<longleftrightarrow> nested d es"
| "nested d (Ev_FinalizeCall o' # es) \<longleftrightarrow> nested d es"
| "nested d (_ # es) \<longleftrightarrow> False"

text \<open>What such an event leaves in the history.\<close>

fun record_for :: "bool \<Rightarrow> tid \<Rightarrow> probe_event \<Rightarrow> coverage_record list" where
  "record_for mainOnly t (Ev_Coverage o' m) = [record_of t o' TrackCoverage m]"
| "record_for mainOnly t (Ev_Stsfld o' m) = [record_of t o' StsfldHit m]"
| "record_for mainOnly t (Ev_Branch o' m) = [record_of t o' BranchHit m]"
| "record_for mainOnly t (Ev_Call o' m) = [record_of t o' Call m]"
| "record_for mainOnly t (Ev_Tailcall o' m) = [record_of t o' Tailcall m]"
| "record_for mainOnly t (Ev_Enter o' m) = (if mainOnly then [] else [record_of t o' Enter m])"
| "record_for mainOnly t (Ev_Leave o' m) = (if mainOnly then [] else [record_of t o' Leave m])"
| "record_for mainOnly t (Ev_LeaveMain o' m) = [record_of t o' LeaveMain m]"
| "record_for mainOnly t _ = []"

lemma frame_down_eq: "frame_down i = (if frames i \<ge> 1 then Some (i\<lparr>frames := frames i - 1\<rparr>) else None)"
  by (simp add: frame_down_def)

lemma nested_step:
  assumes "nested (frames i) (e # es)" and "current v = Some i"
  shows "\<exists>d. nested d es \<and> spec_step c t e v =
    Some (v\<lparr>current := Some (i\<lparr>frames := d, recs := recs i @ record_for (cfg_mainOnly c) t e\<rparr>)\<rparr>, [])"
  using assms
  by (cases e; cases i; cases v)
    (auto simp: spec_step_def go_on_def logged_def frame_up_def frame_down_eq)

lemma spec_run_nested:
  assumes "nested (frames i) es" and "current v = Some i"
  shows "spec_run c t (es @ rest) v =
    spec_run c t rest (v\<lparr>current := Some (i\<lparr>frames := 1,
       recs := recs i @ concat (map (record_for (cfg_mainOnly c) t) es)\<rparr>)\<rparr>)"
  using assms
proof (induction es arbitrary: i v)
  case Nil
  then show ?case
    by (cases v; cases i) simp
next
  case (Cons e es)
  from nested_step [OF Cons.prems] obtain d where d: "nested d es" and step: "spec_step c t e v =
      Some (v\<lparr>current := Some (i\<lparr>frames := d, recs := recs i @ record_for (cfg_mainOnly c) t e\<rparr>)\<rparr>, [])"
    by blast
  let ?i = "i\<lparr>frames := d, recs := recs i @ record_for (cfg_mainOnly c) t e\<rparr>"
  have "spec_run c t (es @ rest) (v\<lparr>current := Some ?i\<rparr>) =
      spec_run c t rest (v\<lparr>current := Some ?i\<rparr>\<lparr>current := Some (?i\<lparr>frames := 1,
       recs := recs ?i @ concat (map (record_for (cfg_mainOnly c) t) es)\<rparr>)\<rparr>)"
    using d by (intro Cons.IH) simp_all
  with step show ?case
    by (simp split: option.splits)
qed

lemma spec_run_invocation:
  assumes "nested 1 body" and "current v = None" and "cfg_passive c \<or> mapped v \<noteq> None"
  shows "spec_run c t (Ev_EnterMain o' m # body @ [Ev_LeaveMain o'' m']) v =
    Some (v\<lparr>mapped := (if cfg_passive c then mapped v else None)\<rparr>,
      [(case mapped v of None \<Rightarrow> 0 | Some k \<Rightarrow> k,
        record_of t o' EnterMain m # concat (map (record_for (cfg_mainOnly c) t) body)
          @ [record_of t o'' LeaveMain m'])])"
proof -
  let ?i = "\<lparr>frames = 1, filters = 0, recs = [record_of t o' EnterMain m]\<rparr>"
  have "spec_run c t (body @ [Ev_LeaveMain o'' m']) (v\<lparr>current := Some ?i\<rparr>) =
      spec_run c t [Ev_LeaveMain o'' m'] (v\<lparr>current := Some (?i\<lparr>frames := 1,
        recs := recs ?i @ concat (map (record_for (cfg_mainOnly c) t) body)\<rparr>)\<rparr>)"
    using spec_run_nested [of ?i body "v\<lparr>current := Some ?i\<rparr>"] assms(1) by simp
  with assms(2,3) show ?thesis
    by (cases v) (simp add: spec_step_def go_on_def logged_def frame_down_eq finish_def)
qed

lemma report_in_run:
  assumes "run_ok tr st st'" and "spec_run (config_of st) t (events_of t tr) (view t st) = Some (v, out)"
    and "r \<in> set out"
  shows "report_bytes r \<in> set (drop (length (serializedCoverage (coverageTracker st)))
                                     (serializedCoverage (coverageTracker st')))
    \<and> cr_methodId ` set (snd r) \<subseteq> visitedMethods (coverageTracker st')"
proof -
  from assms(1) obtain outs where
    ser: "serializedCoverage (coverageTracker st')
            = serializedCoverage (coverageTracker st) @ map (\<lambda>p. report_bytes (snd p)) outs"
    and vis: "visitedMethods (coverageTracker st')
            = visitedMethods (coverageTracker st) \<union> (\<Union>p \<in> set outs. cr_methodId ` set (snd (snd p)))"
    and "spec_run (config_of st) t (events_of t tr) (view t st) = Some (view t st', events_of t outs)"
    unfolding run_ok_def by blast
  with assms(2,3) have "r \<in> set (events_of t outs)" by simp
  then have "(t, r) \<in> set outs"
    by (auto simp: events_of_def)
  then have "report_bytes r \<in> (\<lambda>p. report_bytes (snd p)) ` set outs"
    and "cr_methodId ` set (snd r) \<subseteq> (\<Union>p \<in> set outs. cr_methodId ` set (snd (snd p)))"
    by force+
  with ser vis show ?thesis by auto
qed

text \<open>
  Claim C22: a whole invocation of the method under test ends with its history in the reports. Whatever
  other threads do in between, if the events of a thread are an entry into the method under test,
  properly nested events of the methods it calls and the matching return, then a run that does not
  fail adds the report of this thread, with one record per covered event in the order of execution,
  and marks every recorded method as visited; the thread is outside the method again.
\<close>

theorem invocation_is_reported:
  assumes "state_inv st" and "run tr st = Inr st'"
    and "current (view t st) = None" and "isPassiveRun st \<or> mapped (view t st) \<noteq> None"
    and "events_of t tr = Ev_EnterMain o' m # body @ [Ev_LeaveMain o'' m']" and "nested 1 body"
  defines "rs \<equiv> record_of t o' EnterMain m # concat (map (record_for (collectMainOnly st) t) body)
                 @ [record_of t o'' LeaveMain m']"
    and "k \<equiv> (case mapped (view t st) of None \<Rightarrow> 0 | Some i \<Rightarrow> i)"
  shows "report_bytes (k, rs) \<in> set (drop (length (serializedCoverage (coverageTracker st)))
                                     (serializedCoverage (coverageTracker st')))
    \<and> cr_methodId ` set rs \<subseteq> visitedMethods (coverageTracker st')
    \<and> current (view t st') = None \<and> state_inv st'"
proof -
  have ok: "run_ok tr st st'"
    using run_simulates [OF assms(1), of tr] assms(2) by simp
  have cfg: "cfg_mainOnly (config_of st) = collectMainOnly st" "cfg_passive (config_of st) = isPassiveRun st"
    by (simp_all add: config_of_def)
  have spec: "spec_run (config_of st) t (events_of t tr) (view t st) =
      Some ((view t st)\<lparr>mapped := (if isPassiveRun st then mapped (view t st) else None)\<rparr>, [(k, rs)])"
    unfolding assms(5) rs_def k_def
    using spec_run_invocation [OF assms(6,3), of "config_of st" t o' m o'' m'] assms(4)
    by (auto simp: cfg)
  have "spec_run (config_of st) t (events_of t tr) (view t st) = Some (view t st', out) \<Longrightarrow>
      current (view t st') = None" for out
    using spec assms(3) by (auto dest: arg_cong [of _ _ current])
  with ok have "current (view t st') = None" and "state_inv st'"
    unfolding run_ok_def by blast+
  with report_in_run [OF ok spec, of "(k, rs)"] show ?thesis by simp
qed

lemma invocation_is_reported_witness:
  "\<exists>st st'. view 1 st = \<lparr>mapped = Some 7, unwinding = None, current = None\<rparr>
    \<and> run [(1, Ev_EnterMain 0 0), (2, Ev_Branch 4 0), (1, Ev_Branch 4 0), (1, Ev_LeaveMain 8 0)] st = Inr st'
    \<and> report_bytes (7, [record_of 1 0 EnterMain 0, record_of 1 4 BranchHit 0, record_of 1 8 LeaveMain 0])
        \<in> set (serializedCoverage (coverageTracker st'))"
proof -
  define st where "st = projr (probe_step 1 (Ev_SetCurrentThreadId 7) idle_state)"
  let ?tr = "[(1, Ev_EnterMain 0 0), (2, Ev_Branch 4 0), (1, Ev_Branch 4 0), (1, Ev_LeaveMain 8 0)]"
  have st: "st = idle_state\<lparr>threadTracker := newThreadTracker\<lparr>threadIdMapping := [(1, 7)]\<rparr>\<rparr>"
    by (simp add: st_def idle_state_def SetCurrentThreadId_def on_tracker_def mapCurrentThread_def
        newThreadTracker_def ts_store_def ts_exist_def ts_new_def)
  have inv: "state_inv st"
    by (simp add: st idle_state_def newThreadTracker_def newCoverageTracker_def ts_new_def omap_wf_def
        state_inv_def storages_wf_def thread_ok_def)
  have v: "view 1 st = \<lparr>mapped = Some 7, unwinding = None, current = None\<rparr>"
    by (simp add: st idle_state_def newThreadTracker_def view_def ts_new_def)
  have "\<not> isl (run ?tr st)"
    unfolding st by code_simp
  then obtain st' where run: "run ?tr st = Inr st'"
    by (cases "run ?tr st") (simp_all only: sum.disc not_True_eq_False simp_thms)
  have main: "collectMainOnly st"
    by (simp add: st idle_state_def)
  have "serializedCoverage (coverageTracker st) = []"
    by (simp add: st idle_state_def newCoverageTracker_def)
  with invocation_is_reported [OF inv run, of 1 0 0 "[Ev_Branch 4 0]" 8 0] v main
  have "report_bytes (7, [record_of 1 0 EnterMain 0, record_of 1 4 BranchHit 0, record_of 1 8 LeaveMain 0])
        \<in> set (serializedCoverage (coverageTracker st'))"
    by simp
  with v run show ?thesis by blast
qed

text \<open>
  Claim C23: aborting a thread inside the method under test dereferences a null pointer. The callback for
  a thrown exception replaces the history of the thread by a null pointer and then finishes the
  invocation, which reads the visited methods through that pointer before it tests it for null.
\<close>

theorem abort_dereferences_null:
  assumes "state_inv st" and "current (view t st) = Some i"
  shows "ExceptionThrown t ''System.Threading.ThreadAbortException'' st = Inl Null_pointer"
proof -
  have run: "at_run t st i"
    using assms by (simp add: at_run_def)
  obtain h where "map_of (trackedCoverage (coverageTracker st)) t = Some (Some h)"
    using run by (rule at_runE)
  with assms(1) at_run_tracked [OF run] show ?thesis
    by (auto simp: ExceptionThrown_def invocationAborted_def abortCurrentThread_def
        onCurrentThreadFinished_def invocationFinished_def Let_def ts_ops_at storage_simps
        state_inv_def storages_wf_def hasMapping_def ts_exist_def getCurrentThreadMappedId_def)
qed

lemma enterMain_idle_state:
  "\<exists>st. probe_step 1 (Ev_EnterMain 0 0) idle_state = Inr st \<and> state_inv st
    \<and> current (view 1 st) = Some \<lparr>frames = 1, filters = 0, recs = [record_of 1 0 EnterMain 0]\<rparr>"
proof -
  have v: "view 1 idle_state = \<lparr>mapped = None, unwinding = None, current = None\<rparr>"
    and inv: "state_inv idle_state"
    using newProfilerState_inv [OF idle_state_new] by simp_all
  have "spec_step (config_of idle_state) 1 (Ev_EnterMain 0 0) (view 1 idle_state) =
      Some (\<lparr>mapped = None, unwinding = None, current =
        Some \<lparr>frames = 1, filters = 0, recs = [record_of 1 0 EnterMain 0]\<rparr>\<rparr>, [])"
    by (simp add: v spec_step_def go_on_def)
  with spec_step_implemented [OF inv, of 1 "Ev_EnterMain 0 0"] show ?thesis
    by (auto simp: implements_def step_ok_def)
qed

lemma abort_dereferences_null_witness:
  "\<exists>st. probe_step 1 (Ev_EnterMain 0 0) idle_state = Inr st
    \<and> ExceptionThrown 1 ''System.Threading.ThreadAbortException'' st = Inl Null_pointer"
  using enterMain_idle_state abort_dereferences_null by blast

text \<open>
  the tool always collects coverage of the method under test only. Whatever the environment
  says, the constructor leaves the flag for this mode set, because its initial value is already true and
  nothing ever clears it: leaving \<^verbatim>\<open>COVERAGE_TOOL_INSTRUMENT_MAIN_ONLY\<close> out has no effect.
\<close>

theorem main_only_always:
  assumes "newProfilerState env conv = Inr st"
  shows "collectMainOnly st \<and> ct_collectMainOnly (coverageTracker st)"
  using assms by (auto simp: newProfilerState_def newCoverageTracker_def Let_def res_simps)

lemma main_only_always_witness:
  "no_environment ''COVERAGE_TOOL_INSTRUMENT_MAIN_ONLY'' = None \<and> collectMainOnly idle_state"
  using main_only_always [OF idle_state_new] by (simp add: no_environment_def)

end
