(* ===== verification/Coverage_Report.thy ===== *)
theory Coverage_Report
  imports Coverage_Runs
begin

section \<open>The coverage report and its reader\<close>

text \<open>
  The report that \<^verbatim>\<open>CoverageTracker::serializeCoverageReport\<close> builds and \<^verbatim>\<open>GetHistory\<close>
  hands to managed code (\<^verbatim>\<open>profiler/coverageTracker.cpp\<close>, \<^verbatim>\<open>profiler/api.cpp\<close>), and the
  reader of that report on the managed side, \<^verbatim>\<open>VSharp.Utils/CoverageDeserializer.fs\<close>. The reader keeps
  its position in a mutable offset; here it is the list of bytes not yet read. Whatever makes the
  .NET runtime throw (a read past the end, a negative array length, a duplicate key) is
  \<open>None\<close>. The strings are the UTF-16 code units given to \<^verbatim>\<open>Encoding.Unicode.GetString\<close>.
\<close>

subsection \<open>Writing\<close>

definition methodsToSerialize :: "coverage_tracker \<Rightarrow> (u32 \<times> method_info) list" where
  "methodsToSerialize ct =
     filter (\<lambda>e. fst e \<in> visitedMethods ct)
       (map (\<lambda>(i, info). (word_of_nat i, info)) (enumerate 0 (collectedMethods ct)))"

definition serialize_method :: "u32 \<times> method_info \<Rightarrow> byte list \<Rightarrow> byte list res" where
  "serialize_method el buffer = methodInfo_serialize (snd el) (serializePrimitive (fst el) buffer)"

text \<open>Threads that never entered the method under test get an empty report.\<close>

definition add_not_entered :: "tid \<times> u32 \<Rightarrow> u32 list \<times> byte list list \<Rightarrow> u32 list \<times> byte list list" where
  "add_not_entered mapping acc =
     (let threadId = snd mapping; (ids, coverage) = acc in
      if count_list ids threadId = 0
      then (ids @ [threadId],
            coverage @ [serializePrimitive (1 :: u32) (serializePrimitive threadId [])])
      else (ids, coverage))"

definition serializeCoverageReport :: "profiler_state \<Rightarrow> (byte list \<times> profiler_state) res" where
  "serializeCoverageReport st =
     (let ct = coverageTracker st;
          methods = methodsToSerialize ct;
          buffer = serializePrimitive (word_of_nat (length methods) :: u32) []
      in and_then (fold_res serialize_method methods buffer) (\<lambda>buffer.
         let (ids, coverage) = fold add_not_entered (getMapping (threadTracker st))
                                 (serializedCoverageThreadIds ct, serializedCoverage ct);
             buffer = serializePrimitive (word_of_nat (length coverage) :: u32) buffer;
             buffer = buffer @ concat coverage
         in Inr (buffer, st\<lparr>coverageTracker := ct\<lparr>trackedCoverage := ts_clear (trackedCoverage ct),
                   serializedCoverage := [], serializedCoverageThreadIds := ids\<rparr>\<rparr>)))"

definition GetHistory :: "profiler_state \<Rightarrow> (byte list \<times> profiler_state) res" where
  "GetHistory st =
     and_then (serializeCoverageReport st) (\<lambda>(bytes, st).
     Inr (bytes, st\<lparr>coverageTracker := coverage_clear (coverageTracker st),
                    threadTracker := tracker_clear (threadTracker st)\<rparr>))"

subsection \<open>Reading\<close>

record raw_location =
  rl_offset :: u32
  rl_event :: u32
  rl_methodId :: u32
  rl_threadId :: u64

record raw_method =
  rm_methodToken :: u32
  rm_moduleName :: "u16 list"
  rm_assemblyName :: "u16 list"

record raw_report =
  rr_threadId :: u32
  rr_locations :: "raw_location list"

type_synonym 'a reader = "byte list \<Rightarrow> ('a \<times> byte list) option"

definition readInt32 :: "u32 reader" where
  "readInt32 bs = dec_u32 bs"

fun code_units :: "byte list \<Rightarrow> u16 list" where
  "code_units (a # b # bs) = word_of_bytes [a, b] # code_units bs"
| "code_units bs = []"

definition readString :: "u16 list reader" where
  "readString bs =
     (case readInt32 bs of None \<Rightarrow> None
      | Some (sz, bs) \<Rightarrow>
          (let n = sint (2 * sz - 2) in
           if 0 \<le> n \<and> nat n \<le> length bs
           then Some (code_units (take (nat n) bs), drop (nat n + 2) bs) else None))"

definition deserializeMethodData :: "raw_method reader" where
  "deserializeMethodData bs =
     (case readInt32 bs of None \<Rightarrow> None
      | Some (methodToken, bs) \<Rightarrow>
          (case readString bs of None \<Rightarrow> None
           | Some (assemblyName, bs) \<Rightarrow>
               (case readString bs of None \<Rightarrow> None
                | Some (moduleName, bs) \<Rightarrow>
                    Some (\<lparr>rm_methodToken = methodToken, rm_moduleName = moduleName,
                           rm_assemblyName = assemblyName\<rparr>, bs))))"

fun read_dictionary ::
  "nat \<Rightarrow> 'k reader \<Rightarrow> 'v reader \<Rightarrow> ('k \<times> 'v) list \<Rightarrow> ('k \<times> 'v) list reader" where
  "read_dictionary 0 key elem d bs = Some (d, bs)"
| "read_dictionary (Suc n) key elem d bs =
     (case key bs of None \<Rightarrow> None
      | Some (index, bs) \<Rightarrow>
          (case elem bs of None \<Rightarrow> None
           | Some (element, bs) \<Rightarrow>
               if index \<in> fst ` set d then None
               else read_dictionary n key elem (d @ [(index, element)]) bs))"

definition deserializeDictionary :: "'k reader \<Rightarrow> 'v reader \<Rightarrow> ('k \<times> 'v) list reader" where
  "deserializeDictionary key elem bs =
     (case readInt32 bs of None \<Rightarrow> None
      | Some (n, bs) \<Rightarrow> read_dictionary (nat (sint n)) key elem [] bs)"

fun read_array :: "nat \<Rightarrow> 'a reader \<Rightarrow> 'a list reader" where
  "read_array 0 elem bs = Some ([], bs)"
| "read_array (Suc n) elem bs =
     (case elem bs of None \<Rightarrow> None
      | Some (x, bs) \<Rightarrow>
          (case read_array n elem bs of None \<Rightarrow> None
           | Some (xs, bs) \<Rightarrow> Some (x # xs, bs)))"

definition deserializeArray :: "'a reader \<Rightarrow> 'a list reader" where
  "deserializeArray elem bs =
     (case readInt32 bs of None \<Rightarrow> None
      | Some (n, bs) \<Rightarrow> if sint n < 0 then None else read_array (nat (sint n)) elem bs)"

definition location_at :: "byte list \<Rightarrow> raw_location" where
  "location_at bs = \<lparr>rl_offset = word_of_bytes (take 4 bs),
                     rl_event = word_of_bytes (take 4 (drop 4 bs)),
                     rl_methodId = word_of_bytes (take 4 (drop 8 bs)),
                     rl_threadId = word_of_bytes (take 8 (drop 12 bs))\<rparr>"

fun cast_locations :: "nat \<Rightarrow> byte list \<Rightarrow> raw_location list" where
  "cast_locations 0 bs = []"
| "cast_locations (Suc n) bs = location_at bs # cast_locations n (drop 20 bs)"

definition deserializeCoverageInfoFast :: "raw_location list reader" where
  "deserializeCoverageInfoFast bs =
     (case readInt32 bs of None \<Rightarrow> None
      | Some (cnt, bs) \<Rightarrow>
          (let bytesCount = sint (20 * cnt) in
           if 0 \<le> bytesCount \<and> nat bytesCount \<le> length bs
           then Some (cast_locations (nat bytesCount div 20) (take (nat bytesCount) bs),
                      drop (nat bytesCount) bs)
           else None))"

definition deserializeRawReport :: "raw_report reader" where
  "deserializeRawReport bs =
     (case readInt32 bs of None \<Rightarrow> None
      | Some (threadId, bs) \<Rightarrow>
          (case readInt32 bs of None \<Rightarrow> None
           | Some (threadAborted, bs) \<Rightarrow>
               if threadAborted = 1 then Some (\<lparr>rr_threadId = threadId, rr_locations = []\<rparr>, bs)
               else (case deserializeCoverageInfoFast bs of None \<Rightarrow> None
                     | Some (ls, bs) \<Rightarrow> Some (\<lparr>rr_threadId = threadId, rr_locations = ls\<rparr>, bs))))"

definition getRawReports :: "byte list \<Rightarrow> ((u32 \<times> raw_method) list \<times> raw_report list) option" where
  "getRawReports bytes =
     (case deserializeDictionary readInt32 deserializeMethodData bytes of None \<Rightarrow> None
      | Some (methods, bs) \<Rightarrow>
          (case deserializeArray deserializeRawReport bs of None \<Rightarrow> None
           | Some (reports, bs) \<Rightarrow> Some (methods, reports)))"

subsection \<open>The reader undoes the writer\<close>

lemma sint_u32_of_nat: "n < 2 ^ 31 \<Longrightarrow> sint (word_of_nat n :: u32) = int n"
  by (simp add: signed_of_nat signed_take_bit_int_eq_self)

lemma readInt32_bytes [simp]: "readInt32 (word_bytes w @ rest) = Some (w, rest)"
  by (simp add: readInt32_def u32c.dec_enc)

lemma word_bytes_u16: "\<exists>a b. word_bytes (u :: u16) = [a, b]"
  by (simp add: word_bytes_def numeral_2_eq_2)

lemma code_units_bytes: "code_units (concat (map word_bytes us)) = (us :: u16 list)"
proof (induction us)
  case (Cons u us)
  obtain a b where ab: "word_bytes u = [a, b]"
    using word_bytes_u16 by blast
  then have "word_of_bytes [a, b] = u"
    by (metis word_of_bytes_word_bytes_std(2))
  with Cons ab show ?case by simp
qed simp

lemma length_units: "length (concat (map word_bytes (us :: u16 list))) = 2 * length us"
  by (induction us) simp_all

lemma readString_bytes:
  assumes "us \<noteq> []" and "2 * length us < 2 ^ 31"
  shows "readString (word_bytes (word_of_nat (length us) :: u32) @ concat (map word_bytes us) @ rest)
    = Some (butlast us, rest)"
proof -
  let ?n = "2 * length us - 2"
  have "2 * word_of_nat (length us) - 2 = (word_of_nat ?n :: u32)"
    using assms(1) by (cases us) (simp_all add: algebra_simps)
  moreover have "sint (word_of_nat ?n :: u32) = int ?n"
    using assms(2) by (intro sint_u32_of_nat) linarith
  ultimately have n: "sint (2 * word_of_nat (length us) - 2 :: u32) = int ?n"
    by simp
  have split: "concat (map word_bytes us) = concat (map word_bytes (butlast us)) @ word_bytes (last us)"
    using arg_cong [OF append_butlast_last_id [OF assms(1)], of "\<lambda>us. concat (map word_bytes us)"]
    by simp
  have len: "length (concat (map word_bytes (butlast us))) = ?n"
    by (simp add: length_units)
  have "take ?n (concat (map word_bytes us) @ rest) = concat (map word_bytes (butlast us))"
    using len by (simp add: split)
  moreover have "drop (?n + 2) (concat (map word_bytes us) @ rest) = rest"
  proof -
    have "length (concat (map word_bytes us)) = ?n + 2"
      using assms(1) by (cases us) (simp_all add: length_units)
    then show ?thesis by simp
  qed
  moreover have "?n \<le> length (concat (map word_bytes us) @ rest)"
    by (simp add: length_units)
  ultimately show ?thesis
    unfolding readString_def
    by (simp only: readInt32_bytes option.case prod.case Let_def n code_units_bytes nat_int
        of_nat_0_le_iff simp_thms if_True)
qed

text \<open>A method as the instrumenter collects it: both names with their terminator.\<close>

definition method_ok :: "method_info \<Rightarrow> bool" where
  "method_ok info \<longleftrightarrow>
     mi_assemblyName info \<noteq> [] \<and> 2 * length (mi_assemblyName info) < 2 ^ 31
     \<and> mi_assemblyNameLength info = word_of_nat (length (mi_assemblyName info))
     \<and> mi_moduleName info \<noteq> [] \<and> 2 * length (mi_moduleName info) < 2 ^ 31
     \<and> mi_moduleNameLength info = word_of_nat (length (mi_moduleName info))"

definition raw_of_method :: "method_info \<Rightarrow> raw_method" where
  "raw_of_method info = \<lparr>rm_methodToken = mi_token info, rm_moduleName = butlast (mi_moduleName info),
                         rm_assemblyName = butlast (mi_assemblyName info)\<rparr>"

definition method_bytes :: "method_info \<Rightarrow> byte list" where
  "method_bytes info = word_bytes (mi_token info)
     @ word_bytes (mi_assemblyNameLength info) @ concat (map word_bytes (mi_assemblyName info))
     @ word_bytes (mi_moduleNameLength info) @ concat (map word_bytes (mi_moduleName info))"

lemma methodInfo_serialize_bytes:
  assumes "method_ok info"
  shows "methodInfo_serialize info buffer = Inr (buffer @ method_bytes info)"
proof -
  have "unat (mi_assemblyNameLength info) = length (mi_assemblyName info)"
    and "unat (mi_moduleNameLength info) = length (mi_moduleName info)"
    using assms by (simp_all add: method_ok_def unat_u32_of_nat)
  then show ?thesis
    by (simp add: methodInfo_serialize_def serializePrimitive_def serializePrimitiveArray_def
        method_bytes_def Let_def)
qed

lemma deserializeMethodData_bytes:
  assumes "method_ok info"
  shows "deserializeMethodData (method_bytes info @ rest) = Some (raw_of_method info, rest)"
  using assms
  by (simp add: deserializeMethodData_def method_bytes_def method_ok_def raw_of_method_def
      readString_bytes)

definition raw_of_record :: "coverage_record \<Rightarrow> raw_location" where
  "raw_of_record r = \<lparr>rl_offset = cr_offset r, rl_event = event_code (cr_event r),
                      rl_methodId = cr_methodId r, rl_threadId = cr_thread r\<rparr>"

lemma length_record_bytes: "length (coverageRecord_serialize r []) = 20"
  by (simp add: coverageRecord_serialize_def serializePrimitive_def Let_def)

lemma location_at_bytes: "location_at (coverageRecord_serialize r [] @ rest) = raw_of_record r"
  by (simp add: location_at_def coverageRecord_serialize_def serializePrimitive_def Let_def
      raw_of_record_def)

lemma cast_locations_bytes:
  "cast_locations (length rs) (concat (map (\<lambda>c. coverageRecord_serialize c []) rs) @ rest)
   = map raw_of_record rs"
  by (induction rs) (simp_all add: location_at_bytes length_record_bytes)

lemma length_records_bytes:
  "length (concat (map (\<lambda>c. coverageRecord_serialize c []) rs)) = 20 * length rs"
  by (induction rs) (simp_all add: length_record_bytes)

lemma deserializeCoverageInfoFast_bytes:
  assumes "20 * length rs < 2 ^ 31"
  shows "deserializeCoverageInfoFast (word_bytes (word_of_nat (length rs) :: u32)
      @ concat (map (\<lambda>c. coverageRecord_serialize c []) rs) @ rest) = Some (map raw_of_record rs, rest)"
proof -
  have "20 * word_of_nat (length rs) = (word_of_nat (20 * length rs) :: u32)"
    by simp
  with assms have n: "sint (20 * word_of_nat (length rs) :: u32) = int (20 * length rs)"
    using sint_u32_of_nat by metis
  have c: "cast_locations (length rs) (concat (map (\<lambda>c. coverageRecord_serialize c []) rs))
      = map raw_of_record rs"
    using cast_locations_bytes [of rs "[]"] by simp
  show ?thesis
    unfolding deserializeCoverageInfoFast_def readInt32_bytes option.case prod.case Let_def n nat_int
    by (simp add: length_records_bytes c)
qed

lemma deserializeRawReport_bytes:
  assumes "20 * length (snd r) < 2 ^ 31"
  shows "deserializeRawReport (report_bytes r @ rest)
    = Some (\<lparr>rr_threadId = fst r, rr_locations = map raw_of_record (snd r)\<rparr>, rest)"
  using assms
  by (simp add: deserializeRawReport_def report_bytes_def deserializeCoverageInfoFast_bytes)

lemma deserializeRawReport_empty:
  "deserializeRawReport (serializePrimitive (1 :: u32) (serializePrimitive k []) @ rest)
   = Some (\<lparr>rr_threadId = k, rr_locations = []\<rparr>, rest)"
  by (simp add: deserializeRawReport_def serializePrimitive_def)

text \<open>Sequences of items that are read back one by one.\<close>

lemma read_array_items:
  assumes "\<And>x rest. x \<in> set xs \<Longrightarrow> elem (enc x @ rest) = Some (f x, rest)"
  shows "read_array (length xs) elem (concat (map enc xs) @ rest) = Some (map f xs, rest)"
  using assms by (induction xs) simp_all

lemma read_dictionary_items:
  assumes "\<And>x rest. x \<in> set xs \<Longrightarrow> key (ke x @ ve x @ rest) = Some (kf x, ve x @ rest)"
    and "\<And>x rest. x \<in> set xs \<Longrightarrow> elem (ve x @ rest) = Some (vf x, rest)"
    and "distinct (map fst d @ map kf xs)"
  shows "read_dictionary (length xs) key elem d (concat (map (\<lambda>x. ke x @ ve x) xs) @ rest)
    = Some (d @ map (\<lambda>x. (kf x, vf x)) xs, rest)"
  using assms
proof (induction xs arbitrary: d)
  case (Cons x xs)
  have "kf x \<notin> fst ` set d"
    using Cons.prems(3) by auto
  moreover have "read_dictionary (length xs) key elem (d @ [(kf x, vf x)])
      (concat (map (\<lambda>x. ke x @ ve x) xs) @ rest)
    = Some ((d @ [(kf x, vf x)]) @ map (\<lambda>x. (kf x, vf x)) xs, rest)"
    using Cons.prems by (intro Cons.IH) auto
  ultimately show ?case
    using Cons.prems(1,2) by simp
qed simp

lemma fold_serialize_method:
  assumes "\<forall>e \<in> set es. method_ok (snd e)"
  shows "fold_res serialize_method es buffer
    = Inr (buffer @ concat (map (\<lambda>e. word_bytes (fst e) @ method_bytes (snd e)) es))"
  using assms
  by (induction es arbitrary: buffer)
    (simp_all add: serialize_method_def methodInfo_serialize_bytes serializePrimitive_def)

lemma methodsToSerialize_distinct:
  assumes "length (collectedMethods ct) \<le> 2 ^ 32"
  shows "distinct (map fst (methodsToSerialize ct))"
proof -
  have "distinct (map (\<lambda>i. word_of_nat i :: u32) [0..<length (collectedMethods ct)])"
    using assms
    by (auto simp: distinct_map inj_on_def dest!: arg_cong [of _ _ unat] simp: unat_u32_of_nat)
  moreover have "map fst (map (\<lambda>(i, info). (word_of_nat i :: u32, info)) (enumerate 0 ms))
      = map word_of_nat [0..<length ms]" for ms :: "method_info list"
    by (rule nth_equalityI) (simp_all add: nth_enumerate_eq)
  ultimately show ?thesis
    unfolding methodsToSerialize_def by (metis distinct_map_filter)
qed

text \<open>The threads for which an empty report is added.\<close>

fun not_entered :: "u32 list \<Rightarrow> u32 list \<Rightarrow> u32 list" where
  "not_entered ids [] = []"
| "not_entered ids (k # ks) =
     (if k \<in> set ids then not_entered ids ks else k # not_entered (ids @ [k]) ks)"

lemma fold_add_not_entered:
  "fold add_not_entered mapping (ids, coverage) =
     (ids @ not_entered ids (map snd mapping),
      coverage @ map (\<lambda>k. serializePrimitive (1 :: u32) (serializePrimitive k []))
        (not_entered ids (map snd mapping)))"
  by (induction mapping arbitrary: ids coverage)
    (simp_all add: add_not_entered_def Let_def count_list_0_iff)

subsection \<open>Properties\<close>

text \<open>A report on the reader's side.\<close>

definition raw_of_report :: "report \<Rightarrow> raw_report" where
  "raw_of_report r = \<lparr>rr_threadId = fst r, rr_locations = map raw_of_record (snd r)\<rparr>"

text \<open>Sizes within which the 32-bit counts of the format are exact.\<close>

definition report_sizes_ok :: "profiler_state \<Rightarrow> report list \<Rightarrow> bool" where
  "report_sizes_ok st rs \<longleftrightarrow>
     length (collectedMethods (coverageTracker st)) < 2 ^ 31
     \<and> (\<forall>info \<in> set (collectedMethods (coverageTracker st)). method_ok info)
     \<and> length rs + length (threadIdMapping (threadTracker st)) < 2 ^ 31
     \<and> (\<forall>r \<in> set rs. 20 * length (snd r) < 2 ^ 31)"

lemma not_entered_length: "length (not_entered ids ks) \<le> length ks"
  by (induction ids ks rule: not_entered.induct) auto

lemma methodsToSerialize_sub:
  "e \<in> set (methodsToSerialize ct) \<Longrightarrow> snd e \<in> set (collectedMethods ct)"
  by (auto simp: methodsToSerialize_def enumerate_eq_zip dest: set_zip_rightD)

lemma length_methodsToSerialize: "length (methodsToSerialize ct) \<le> length (collectedMethods ct)"
  unfolding methodsToSerialize_def by (rule order_trans [OF length_filter_le]) simp

definition report_items :: "report list \<Rightarrow> u32 list \<Rightarrow> byte list list" where
  "report_items rs ks = map report_bytes rs
     @ map (\<lambda>k. serializePrimitive (1 :: u32) (serializePrimitive k [])) ks"

lemma read_report_items:
  assumes "\<forall>r \<in> set rs. 20 * length (snd r) < 2 ^ 31"
  shows "read_array (length rs + length ks) deserializeRawReport (concat (report_items rs ks))
    = Some (map raw_of_report rs @ map (\<lambda>k. \<lparr>rr_threadId = k, rr_locations = []\<rparr>) ks, [])"
proof -
  let ?enc = "\<lambda>x. case x of Inl r \<Rightarrow> report_bytes r
                | Inr k \<Rightarrow> serializePrimitive (1 :: u32) (serializePrimitive k [])"
  let ?f = "\<lambda>x. case x of Inl r \<Rightarrow> raw_of_report r | Inr k \<Rightarrow> \<lparr>rr_threadId = k, rr_locations = []\<rparr>"
  let ?xs = "map Inl rs @ map Inr ks"
  have "read_array (length ?xs) deserializeRawReport (concat (map ?enc ?xs) @ []) = Some (map ?f ?xs, [])"
    using assms
    by (intro read_array_items)
      (auto simp: deserializeRawReport_bytes deserializeRawReport_empty raw_of_report_def)
  then show ?thesis
    by (simp add: report_items_def comp_def)
qed

lemma serializeCoverageReport_bytes:
  assumes "serializedCoverage (coverageTracker st) = map report_bytes rs" and "report_sizes_ok st rs"
  defines "ks \<equiv> not_entered (serializedCoverageThreadIds (coverageTracker st))
                  (map snd (threadIdMapping (threadTracker st)))"
    and "ms \<equiv> methodsToSerialize (coverageTracker st)"
  shows "\<exists>st'. serializeCoverageReport st = Inr
    (word_bytes (word_of_nat (length ms) :: u32)
       @ concat (map (\<lambda>e. word_bytes (fst e) @ method_bytes (snd e)) ms)
       @ word_bytes (word_of_nat (length rs + length ks) :: u32) @ concat (report_items rs ks), st')
    \<and> serializedCoverage (coverageTracker st') = [] \<and> trackedCoverage (coverageTracker st') = []"
proof -
  have "\<forall>e \<in> set ms. method_ok (snd e)"
    using assms(2) methodsToSerialize_sub by (auto simp: report_sizes_ok_def ms_def)
  then show ?thesis
    by (simp add: serializeCoverageReport_def Let_def fold_serialize_method fold_add_not_entered
        getMapping_def ts_items_def assms(1) serializePrimitive_def report_items_def ms_def ks_def
        ts_clear_def)
qed

lemma read_methods:
  assumes "report_sizes_ok st rs"
  defines "ms \<equiv> methodsToSerialize (coverageTracker st)"
  shows "deserializeDictionary readInt32 deserializeMethodData
      (word_bytes (word_of_nat (length ms) :: u32)
        @ concat (map (\<lambda>e. word_bytes (fst e) @ method_bytes (snd e)) ms) @ rest)
    = Some (map (\<lambda>e. (fst e, raw_of_method (snd e))) ms, rest)"
proof -
  have ok: "\<forall>e \<in> set ms. method_ok (snd e)"
    using assms(1) methodsToSerialize_sub by (auto simp: report_sizes_ok_def ms_def)
  have "sint (word_of_nat (length ms) :: u32) = int (length ms)"
    using assms(1) length_methodsToSerialize [of "coverageTracker st"]
    by (intro sint_u32_of_nat) (simp add: report_sizes_ok_def ms_def)
  moreover have "read_dictionary (length ms) readInt32 deserializeMethodData []
      (concat (map (\<lambda>e. word_bytes (fst e) @ method_bytes (snd e)) ms) @ rest)
    = Some ([] @ map (\<lambda>e. (fst e, raw_of_method (snd e))) ms, rest)"
    using ok methodsToSerialize_distinct [of "coverageTracker st"] assms(1)
    by (intro read_dictionary_items)
      (simp_all add: deserializeMethodData_bytes report_sizes_ok_def ms_def)
  ultimately show ?thesis
    by (simp only: deserializeDictionary_def readInt32_bytes option.case prod.case nat_int append_Nil)
qed

lemma read_reports:
  assumes "length rs + length ks < 2 ^ 31" and "\<forall>r \<in> set rs. 20 * length (snd r) < 2 ^ 31"
  shows "deserializeArray deserializeRawReport
      (word_bytes (word_of_nat (length rs + length ks) :: u32) @ concat (report_items rs ks))
    = Some (map raw_of_report rs @ map (\<lambda>k. \<lparr>rr_threadId = k, rr_locations = []\<rparr>) ks, [])"
  unfolding deserializeArray_def readInt32_bytes option.case prod.case
    sint_u32_of_nat [OF assms(1)] nat_int
  using read_report_items [OF assms(2), of ks] by simp

text \<open>
  Claim C21: the managed reader of the coverage report gets back exactly what the tool recorded. If the
  finished reports are those of the invocations \<open>rs\<close> and the sizes fit the 32-bit counts of the
  format, then building the report succeeds, and reading it yields the collected methods that were
  visited, under their indices and with their names without terminators, the reports \<open>rs\<close> in their
  order, and one empty report for each mapped thread that has none.
\<close>

theorem coverage_report_roundtrip:
  assumes "serializedCoverage (coverageTracker st) = map report_bytes rs" and "report_sizes_ok st rs"
  shows "\<exists>bytes st'. serializeCoverageReport st = Inr (bytes, st')
    \<and> serializedCoverage (coverageTracker st') = []
    \<and> getRawReports bytes = Some
        (map (\<lambda>e. (fst e, raw_of_method (snd e))) (methodsToSerialize (coverageTracker st)),
         map raw_of_report rs
         @ map (\<lambda>k. \<lparr>rr_threadId = k, rr_locations = []\<rparr>)
             (not_entered (serializedCoverageThreadIds (coverageTracker st))
                (map snd (threadIdMapping (threadTracker st)))))"
proof -
  let ?ms = "methodsToSerialize (coverageTracker st)"
  let ?ks = "not_entered (serializedCoverageThreadIds (coverageTracker st))
               (map snd (threadIdMapping (threadTracker st)))"
  let ?bytes = "word_bytes (word_of_nat (length ?ms) :: u32)
       @ concat (map (\<lambda>e. word_bytes (fst e) @ method_bytes (snd e)) ?ms)
       @ word_bytes (word_of_nat (length rs + length ?ks) :: u32) @ concat (report_items rs ?ks)"
  have "length rs + length ?ks < 2 ^ 31"
    using assms(2) not_entered_length [of "serializedCoverageThreadIds (coverageTracker st)"
        "map snd (threadIdMapping (threadTracker st))"]
    by (simp add: report_sizes_ok_def)
  moreover have "\<forall>r \<in> set rs. 20 * length (snd r) < 2 ^ 31"
    using assms(2) by (simp add: report_sizes_ok_def)
  ultimately have "getRawReports ?bytes = Some
      (map (\<lambda>e. (fst e, raw_of_method (snd e))) ?ms,
       map raw_of_report rs @ map (\<lambda>k. \<lparr>rr_threadId = k, rr_locations = []\<rparr>) ?ks)"
    by (simp only: getRawReports_def read_methods [OF assms(2)] read_reports option.case prod.case)
  with serializeCoverageReport_bytes [OF assms] show ?thesis
    by blast
qed

text \<open>A state with one collected method, one finished report and a mapped thread without report.\<close>

definition report_state :: profiler_state where
  "report_state = idle_state
     \<lparr>threadTracker := newThreadTracker\<lparr>threadIdMapping := [(2, 8)]\<rparr>,
      coverageTracker := (newCoverageTracker True)
        \<lparr>collectedMethods := [\<lparr>mi_token = 9, mi_assemblyNameLength = 2, mi_assemblyName = [65, 0],
                                mi_moduleNameLength = 3, mi_moduleName = [77, 66, 0]\<rparr>],
         visitedMethods := {0}, serializedCoverageThreadIds := [7],
         serializedCoverage := [report_bytes (7, [record_of 1 4 BranchHit 0])]\<rparr>\<rparr>"

lemma coverage_report_roundtrip_witness:
  "\<exists>bytes st'. serializeCoverageReport report_state = Inr (bytes, st')
    \<and> getRawReports bytes = Some
        ([(0, \<lparr>rm_methodToken = 9, rm_moduleName = [77, 66], rm_assemblyName = [65]\<rparr>)],
         [\<lparr>rr_threadId = 7, rr_locations = [\<lparr>rl_offset = 4, rl_event = 4, rl_methodId = 0,
                                             rl_threadId = 1\<rparr>]\<rparr>,
          \<lparr>rr_threadId = 8, rr_locations = []\<rparr>])"
proof -
  let ?rs = "[(7, [record_of 1 4 BranchHit 0])] :: report list"
  have "serializedCoverage (coverageTracker report_state) = map report_bytes ?rs"
    by (simp add: report_state_def)
  moreover have "report_sizes_ok report_state ?rs"
    by (simp add: report_sizes_ok_def report_state_def method_ok_def newThreadTracker_def)
  ultimately show ?thesis
    using coverage_report_roundtrip [of report_state ?rs]
    by (auto simp: report_state_def newThreadTracker_def methodsToSerialize_def enumerate_eq_zip
        newCoverageTracker_def raw_of_method_def raw_of_report_def raw_of_record_def record_of_def)
qed

end
