(* ===== verification/Instrumenter.thy ===== *)
theory Instrumenter
  imports IL_Rewrite Coverage_Report
begin

section \<open>Compilation callbacks of the coverage tool\<close>

text \<open>
  \<^verbatim>\<open>instrumenter.cpp\<close> and the callbacks of \<^verbatim>\<open>corProfiler.cpp\<close> around it: for each method the
  runtime is about to compile, decide whether it is instrumented, register it with the coverage tracker,
  obtain the signature tokens of its module and rewrite its body.

  The runtime's profiling interface is the record \<open>profiler_info\<close>, an argument: \<open>Inl hr\<close> is a
  call that fails with that code. A query for a name is made twice, with the capacity of the buffer as its
  argument; it answers the length of the name including the terminator, what it stored, and
  for modules the assembly. This theory runs one callback from its start to its end; the callbacks of several
  threads hold no lock in common, and \<open>Compilations\<close> lets their steps interleave.
\<close>

subsection \<open>State\<close>

record profiler_info =
  GetFunctionInfo :: "u64 \<Rightarrow> hresult + u64 \<times> u32"
  GetModuleInfo :: "u64 \<Rightarrow> nat \<Rightarrow> hresult + u32 \<times> u16 list \<times> u64"
  GetAssemblyInfo :: "u64 \<Rightarrow> nat \<Rightarrow> hresult + u32 \<times> u16 list \<times> unit"
  GetModuleMetaData :: "u64 \<Rightarrow> hresult + unit"
  QueryMetaDataEmit :: "u64 \<Rightarrow> hresult + unit"
  GetTokenFromSig :: "u64 \<Rightarrow> byte list \<Rightarrow> hresult + u32"
  GetILFunctionBody :: "u64 \<Rightarrow> u32 \<Rightarrow> hresult + il_method"
  il_host_of :: "u64 \<Rightarrow> u32 \<Rightarrow> il_host"

record instrumenter =
  m_jittedToken :: "u32 option"    \<comment> \<open>\<open>None\<close>: never assigned\<close>
  m_moduleId :: u64
  m_signatureTokens :: "u32 list"

text \<open>The process: the global variables of the tool, the bodies handed to the runtime, files written.\<close>

record process =
  profilerState :: profiler_state
  coverageProbes :: coverage_probes
  instrumentedMethods :: "(u64 \<times> u64) set"
  shutdownBlockingRequestsCount :: int
  bodies :: "((u64 \<times> u32) \<times> byte list) list"
  files :: "(string \<times> byte list) list"

definition newInstrumenter :: instrumenter where
  "newInstrumenter = \<lparr>m_jittedToken = None, m_moduleId = 0, m_signatureTokens = []\<rparr>"

subsection \<open>Signatures\<close>

definition sig1 :: "byte list" where "sig1 = [2, 1, 1, 8]"
definition sig2 :: "byte list" where "sig2 = [2, 2, 1, 8, 8]"
definition sig3 :: "byte list" where "sig3 = [2, 3, 1, 8, 8, 8]"

definition set_sig1 :: "tid \<Rightarrow> u32 \<Rightarrow> coverage_probes \<Rightarrow> coverage_probes" where
  "set_sig1 t sig cp = cp\<lparr>cp_Finalize_Call := setSig t sig (cp_Finalize_Call cp)\<rparr>"

definition set_sig2 :: "tid \<Rightarrow> u32 \<Rightarrow> coverage_probes \<Rightarrow> coverage_probes" where
  "set_sig2 t sig cp =
     cp\<lparr>cp_Branch := setSig t sig (cp_Branch cp), cp_Call := setSig t sig (cp_Call cp),
        cp_Leave := setSig t sig (cp_Leave cp), cp_Throw := setSig t sig (cp_Throw cp),
        cp_Stsfld := setSig t sig (cp_Stsfld cp), cp_Coverage := setSig t sig (cp_Coverage cp),
        cp_Tailcall := setSig t sig (cp_Tailcall cp), cp_LeaveMain := setSig t sig (cp_LeaveMain cp)\<rparr>"

definition set_sig3 :: "tid \<Rightarrow> u32 \<Rightarrow> coverage_probes \<Rightarrow> coverage_probes" where
  "set_sig3 t sig cp =
     cp\<lparr>cp_EnterMain := setSig t sig (cp_EnterMain cp), cp_Enter := setSig t sig (cp_Enter cp)\<rparr>"

text \<open>The tokens collected before a failure are kept, and so are the signatures already set.\<close>

definition initTokens ::
  "tid \<Rightarrow> (byte list \<Rightarrow> hresult + u32) \<Rightarrow> coverage_probes \<Rightarrow> hresult \<times> u32 list \<times> coverage_probes" where
  "initTokens t getToken cp =
     (case getToken sig1 of Inl hr \<Rightarrow> (hr, [], cp)
      | Inr k1 \<Rightarrow>
        (let cp = set_sig1 t k1 cp in
         case getToken sig2 of Inl hr \<Rightarrow> (hr, [k1], cp)
         | Inr k2 \<Rightarrow>
           (let cp = set_sig2 t k2 cp in
            case getToken sig3 of Inl hr \<Rightarrow> (hr, [k1, k2], cp)
            | Inr k3 \<Rightarrow> (S_OK, [k1, k2, k3], set_sig3 t k3 cp))))"

subsection \<open>Which methods are instrumented\<close>

fun same_name :: "nat \<Rightarrow> u16 list \<Rightarrow> u16 list \<Rightarrow> bool res" where
  "same_name 0 xs ys = Inr True"
| "same_name (Suc n) (x # xs) (y # ys) = (if x \<noteq> y then Inr False else same_name n xs ys)"
| "same_name (Suc n) _ _ = Inl Out_of_bounds"

text \<open>
  The main method is \<open>None\<close> until it is assigned, and then its name is never null, so the test of the name for null
  at the beginning of \<^verbatim>\<open>IsMain\<close> is the read of an uninitialised member or false.
\<close>

definition IsMain :: "u16 list \<Rightarrow> u32 \<Rightarrow> u32 \<Rightarrow> profiler_state \<Rightarrow> bool res" where
  "IsMain moduleName moduleSize method st =
     and_then (from_option Uninitialised (mainMethodInfo st)) (\<lambda>main.
     if mi_moduleNameLength main \<noteq> moduleSize - 1 \<or> mi_token main \<noteq> method then Inr False
     else same_name (unat (mi_moduleNameLength main)) (mi_moduleName main) moduleName)"

definition InstrumentationIsNeeded :: "u16 list \<Rightarrow> u32 \<Rightarrow> u32 \<Rightarrow> profiler_state \<Rightarrow> bool res" where
  "InstrumentationIsNeeded moduleName moduleSize method st =
     and_then (IsMain moduleName moduleSize method st) (\<lambda>b. Inr (b \<or> \<not> collectMainOnly st))"

subsection \<open>Instrumenting a method\<close>

definition doInstrumentation ::
  "tid \<Rightarrow> (nat \<Rightarrow> byte) \<Rightarrow> profiler_info \<Rightarrow> u64 \<Rightarrow> nat \<Rightarrow> u16 list \<Rightarrow> u32 \<Rightarrow> instrumenter \<Rightarrow> process
    \<Rightarrow> (hresult \<times> instrumenter \<times> process) res" where
  "doInstrumentation t fresh info oldModuleId methodId moduleName moduleNameLength i w =
     (case GetModuleMetaData info (m_moduleId i) of Inl hr \<Rightarrow> Inr (hr, i, w)
      | Inr _ \<Rightarrow>
      case QueryMetaDataEmit info (m_moduleId i) of Inl hr \<Rightarrow> Inr (hr, i, w)
      | Inr _ \<Rightarrow>
        (let (i, w) =
           (if oldModuleId \<noteq> m_moduleId i
            then (let (_, tokens, cp) = initTokens t (GetTokenFromSig info (m_moduleId i)) (coverageProbes w)
                  in (i\<lparr>m_signatureTokens := tokens\<rparr>, w\<lparr>coverageProbes := cp\<rparr>))
            else (i, w)) in
         and_then (from_option Uninitialised (m_jittedToken i)) (\<lambda>token.
         and_then (IsMain moduleName moduleNameLength token (profilerState w)) (\<lambda>isMain.
         and_then (RewriteIL (il_host_of info (m_moduleId i) token) fresh t (coverageProbes w)
                     (GetILFunctionBody info (m_moduleId i) token) (word_of_nat methodId) isMain) (\<lambda>(_, body).
         Inr (S_OK, i,
              case body of None \<Rightarrow> w
              | Some b \<Rightarrow> w\<lparr>bodies := bodies w @ [((m_moduleId i, token), b)]\<rparr>))))))"

text \<open>A name in a buffer of the length that the first call announces.\<close>

definition read_name :: "(nat \<Rightarrow> hresult + u32 \<times> u16 list \<times> 'a) \<Rightarrow> hresult + u32 \<times> u16 list \<times> 'a" where
  "read_name get =
     (case get 0 of Inl hr \<Rightarrow> Inl hr
      | Inr (n, _) \<Rightarrow>
        (case get (unat n) of Inl hr \<Rightarrow> Inl hr
         | Inr (n', chars, x) \<Rightarrow> Inr (n', take (unat n) chars, x)))"

definition register_method :: "method_info \<Rightarrow> u64 \<Rightarrow> process \<Rightarrow> nat \<times> process" where
  "register_method info newModuleId w =
     (let st = profilerState w; (methodId, ct) = collectMethod info (coverageTracker st) in
      (methodId, w\<lparr>profilerState := st\<lparr>coverageTracker := ct\<rparr>,
                   instrumentedMethods := insert (ucast (mi_token info), newModuleId) (instrumentedMethods w)\<rparr>))"

definition instrument ::
  "tid \<Rightarrow> (nat \<Rightarrow> byte) \<Rightarrow> profiler_info \<Rightarrow> u64 \<Rightarrow> instrumenter \<Rightarrow> process
    \<Rightarrow> (hresult \<times> instrumenter \<times> process) res" where
  "instrument t fresh info functionId i w =
     (case GetFunctionInfo info functionId of Inl hr \<Rightarrow> Inr (hr, i, w)
      | Inr (newModuleId, token) \<Rightarrow>
        (let i = i\<lparr>m_jittedToken := Some token\<rparr> in
         and_then (check (token AND 0xFF000000 = 0x06000000) Assert_failed) (\<lambda>_.
         case read_name (GetModuleInfo info newModuleId) of Inl hr \<Rightarrow> Inr (hr, i, w)
         | Inr (moduleNameLength, moduleName, assembly) \<Rightarrow>
         case read_name (GetAssemblyInfo info assembly) of Inl hr \<Rightarrow> Inr (hr, i, w)
         | Inr (assemblyNameLength, assemblyName, _) \<Rightarrow>
         and_then (InstrumentationIsNeeded moduleName moduleNameLength token (profilerState w)) (\<lambda>needed.
         if \<not> needed then Inr (S_OK, i, w)
         else
           (let st = profilerState w;
                w = (if collectMainOnly st then w\<lparr>profilerState := st\<lparr>mainFunctionId := functionId\<rparr>\<rparr> else w) in
            if (ucast token, newModuleId) \<in> instrumentedMethods w then Inr (S_OK, i, w)
            else
              (let (currentMethodId, w) = register_method
                     \<lparr>mi_token = token, mi_assemblyNameLength = assemblyNameLength, mi_assemblyName = assemblyName,
                      mi_moduleNameLength = moduleNameLength, mi_moduleName = moduleName\<rparr> newModuleId w;
                   oldModuleId = m_moduleId i; i = i\<lparr>m_moduleId := newModuleId\<rparr> in
               doInstrumentation t fresh info oldModuleId currentMethodId moduleName moduleNameLength i w))))))"

subsection \<open>Callbacks\<close>

definition JITCompilationStarted ::
  "tid \<Rightarrow> (nat \<Rightarrow> byte) \<Rightarrow> profiler_info \<Rightarrow> u64 \<Rightarrow> process \<Rightarrow> (hresult \<times> process) res" where
  "JITCompilationStarted t fresh info functionId w =
     (if isFinished (profilerState w) then Inr (S_OK, w)
      else
        (let w = w\<lparr>shutdownBlockingRequestsCount := shutdownBlockingRequestsCount w + 1\<rparr> in
         and_then (instrument t fresh info functionId newInstrumenter w) (\<lambda>(hr, _, w).
         Inr (hr, w\<lparr>shutdownBlockingRequestsCount := shutdownBlockingRequestsCount w - 1\<rparr>))))"

text \<open>The wait for pending requests ends at once or, as nothing else runs, never.\<close>

definition Shutdown :: "process \<Rightarrow> (hresult \<times> process) res" where
  "Shutdown w =
     (let w = w\<lparr>profilerState := (profilerState w)\<lparr>isFinished := True\<rparr>\<rparr>; st = profilerState w in
      and_then (check (\<not> shutdownBlockingRequestsCount w > 0) Not_terminating) (\<lambda>_.
      if isPassiveRun st
      then and_then (serializeCoverageReport st) (\<lambda>(bytes, st).
           and_then (from_option Null_pointer (passiveResultPath st)) (\<lambda>path.
           Inr (S_OK, w\<lparr>profilerState := st, files := files w @ [(path, bytes)]\<rparr>)))
      else Inr (S_OK, w)))"

subsection \<open>What the callbacks decide\<close>

text \<open>The runtime's description of a function: its module and the method record made of it.\<close>

definition describes :: "'a profiler_info_scheme \<Rightarrow> u64 \<Rightarrow> u64 \<Rightarrow> method_info \<Rightarrow> bool" where
  "describes info functionId modl m \<longleftrightarrow>
     GetFunctionInfo info functionId = Inr (modl, mi_token m) \<and> mi_token m AND 0xFF000000 = 0x06000000
     \<and> (\<exists>assembly. read_name (GetModuleInfo info modl) = Inr (mi_moduleNameLength m, mi_moduleName m, assembly)
          \<and> read_name (GetAssemblyInfo info assembly) = Inr (mi_assemblyNameLength m, mi_assemblyName m, ()))"

text \<open>Names that are as long as they claim: the main method's without, the runtime's with a terminator.\<close>

definition names_ok :: "method_info \<Rightarrow> method_info \<Rightarrow> bool" where
  "names_ok main m \<longleftrightarrow>
     unat (mi_moduleNameLength main) \<le> length (mi_moduleName main)
     \<and> 0 < mi_moduleNameLength m \<and> unat (mi_moduleNameLength m) \<le> length (mi_moduleName m)"

definition is_main :: "method_info \<Rightarrow> method_info \<Rightarrow> bool" where
  "is_main main m \<longleftrightarrow>
     mi_token m = mi_token main \<and> mi_moduleNameLength m = mi_moduleNameLength main + 1
     \<and> take (unat (mi_moduleNameLength main)) (mi_moduleName m)
       = take (unat (mi_moduleNameLength main)) (mi_moduleName main)"

lemma same_name_eq:
  "n \<le> length xs \<Longrightarrow> n \<le> length ys \<Longrightarrow> same_name n xs ys = Inr (take n xs = take n ys)"
  by (induction n xs ys rule: same_name.induct) auto

lemma IsMain_eq:
  assumes "mainMethodInfo st = Some main" and "names_ok main m"
  shows "IsMain (mi_moduleName m) (mi_moduleNameLength m) (mi_token m) st = Inr (is_main main m)"
proof (cases "mi_moduleNameLength main = mi_moduleNameLength m - 1")
  case True
  then have "unat (mi_moduleNameLength main) \<le> length (mi_moduleName m)"
    using assms(2) by (simp add: names_ok_def unat_minus_one word_gt_0) linarith
  with True assms show ?thesis
    by (auto simp: IsMain_def is_main_def names_ok_def same_name_eq)
next
  case False
  with assms(1) show ?thesis by (auto simp: IsMain_def is_main_def)
qed

definition at_main :: "u64 \<Rightarrow> process \<Rightarrow> process" where
  "at_main functionId w =
     (if collectMainOnly (profilerState w)
      then w\<lparr>profilerState := (profilerState w)\<lparr>mainFunctionId := functionId\<rparr>\<rparr> else w)"

lemma at_main_simps [simp]:
  "coverageTracker (profilerState (at_main f w)) = coverageTracker (profilerState w)"
  "mainMethodInfo (profilerState (at_main f w)) = mainMethodInfo (profilerState w)"
  "collectMainOnly (profilerState (at_main f w)) = collectMainOnly (profilerState w)"
  "mainFunctionId (profilerState (at_main f w))
   = (if collectMainOnly (profilerState w) then f else mainFunctionId (profilerState w))"
  "instrumentedMethods (at_main f w) = instrumentedMethods w" "bodies (at_main f w) = bodies w"
  "coverageProbes (at_main f w) = coverageProbes w" "files (at_main f w) = files w"
  "shutdownBlockingRequestsCount (at_main f w) = shutdownBlockingRequestsCount w"
  by (simp_all add: at_main_def)

text \<open>The whole decision, for a function the runtime describes, once the main method is known.\<close>

lemma instrument_described:
  assumes d: "describes info f modl m" and main: "mainMethodInfo (profilerState w) = Some main"
    and names: "names_ok main m"
  shows "instrument t fresh info f i w =
    (let i = i\<lparr>m_jittedToken := Some (mi_token m)\<rparr> in
     if \<not> is_main main m \<and> collectMainOnly (profilerState w) then Inr (S_OK, i, w)
     else if (ucast (mi_token m), modl) \<in> instrumentedMethods w then Inr (S_OK, i, at_main f w)
     else (let (k, w) = register_method m modl (at_main f w) in
           doInstrumentation t fresh info (m_moduleId i) k (mi_moduleName m) (mi_moduleNameLength m)
             (i\<lparr>m_moduleId := modl\<rparr>) w))"
proof -
  from d obtain assembly where f: "GetFunctionInfo info f = Inr (modl, mi_token m)"
    and tok: "mi_token m AND 0xFF000000 = 0x06000000"
    and md: "read_name (GetModuleInfo info modl) = Inr (mi_moduleNameLength m, mi_moduleName m, assembly)"
    and asm: "read_name (GetAssemblyInfo info assembly) = Inr (mi_assemblyNameLength m, mi_assemblyName m, ())"
    unfolding describes_def by blast
  have need: "InstrumentationIsNeeded (mi_moduleName m) (mi_moduleNameLength m) (mi_token m) (profilerState w)
      = Inr (is_main main m \<or> \<not> collectMainOnly (profilerState w))"
    using IsMain_eq [OF main names] by (simp add: InstrumentationIsNeeded_def)
  have m: "\<lparr>mi_token = mi_token m, mi_assemblyNameLength = mi_assemblyNameLength m, mi_assemblyName = mi_assemblyName m,
      mi_moduleNameLength = mi_moduleNameLength m, mi_moduleName = mi_moduleName m\<rparr> = m"
    by simp
  show ?thesis
    by (simp add: instrument_def f tok md asm need m at_main_def Let_def)
qed

subsection \<open>Signatures in force\<close>

text \<open>
  The tokens a thread's probes carry after the tokens of a module are set: each probe has the
  signature with as many arguments as its calls push.
\<close>

definition signed :: "tid \<Rightarrow> (byte list \<Rightarrow> hresult + u32) \<Rightarrow> coverage_probes \<Rightarrow> bool" where
  "signed t getToken cp \<longleftrightarrow>
     getToken sig1 = Inr (getSig t (cp_Finalize_Call cp))
     \<and> list_all (\<lambda>p. getToken sig2 = Inr (getSig t p))
         [cp_Branch cp, cp_Call cp, cp_Leave cp, cp_Throw cp, cp_Stsfld cp, cp_Coverage cp, cp_Tailcall cp,
          cp_LeaveMain cp]
     \<and> list_all (\<lambda>p. getToken sig3 = Inr (getSig t p)) [cp_EnterMain cp, cp_Enter cp]"

lemma omap_put_self: "map_of (omap_put k v m) k = Some v"
  by (induction k v m rule: omap_put.induct) auto

lemma getSig_setSig: "getSig t (setSig t sig p) = sig"
  by (simp add: getSig_def setSig_def omap_put_self)

lemma initTokens_ok:
  assumes "\<And>s. \<exists>k. getToken s = Inr k"
  shows "\<exists>ks cp'. initTokens t getToken cp = (S_OK, ks, cp') \<and> signed t getToken cp'"
proof -
  obtain k1 k2 k3 where "getToken sig1 = Inr k1" "getToken sig2 = Inr k2" "getToken sig3 = Inr k3"
    using assms by metis
  then show ?thesis
    by (simp add: initTokens_def signed_def set_sig1_def set_sig2_def set_sig3_def getSig_setSig)
qed

subsection \<open>Every method once\<close>

abbreviation collected :: "process \<Rightarrow> method_info list" where
  "collected w \<equiv> collectedMethods (coverageTracker (profilerState w))"

text \<open>One callback leaves the registered methods alone or registers one method and perhaps delivers its body.\<close>

definition registers :: "process \<Rightarrow> process \<Rightarrow> bool" where
  "registers w w' \<longleftrightarrow>
     (\<exists>modl m. (ucast (mi_token m), modl) \<notin> instrumentedMethods w
        \<and> instrumentedMethods w' = insert (ucast (mi_token m), modl) (instrumentedMethods w)
        \<and> collected w' = collected w @ [m]
        \<and> (bodies w' = bodies w \<or> (\<exists>b. bodies w' = bodies w @ [((modl, mi_token m), b)])))"

definition leaves_alone :: "process \<Rightarrow> process \<Rightarrow> bool" where
  "leaves_alone w w' \<longleftrightarrow>
     instrumentedMethods w' = instrumentedMethods w \<and> collected w' = collected w \<and> bodies w' = bodies w"

lemma doInstrumentation_effect:
  assumes "doInstrumentation t fresh info old k name len i w = Inr (hr, i', w')" and "m_jittedToken i = Some tok"
  shows "instrumentedMethods w' = instrumentedMethods w" and "profilerState w' = profilerState w"
    and "bodies w' = bodies w \<or> (\<exists>b. bodies w' = bodies w @ [((m_moduleId i, tok), b)])"
    and "shutdownBlockingRequestsCount w' = shutdownBlockingRequestsCount w" and "files w' = files w"
  using assms
  by (auto simp: doInstrumentation_def res_simps Let_def split: sum.splits if_splits prod.splits option.splits)

lemma instrument_cases:
  assumes "instrument t fresh info f i w = Inr (hr, i', w')"
  obtains "w' = w" | "w' = at_main f w"
  | modl m k j v where "(ucast (mi_token m), modl) \<notin> instrumentedMethods w"
    and "register_method m modl (at_main f w) = (k, v)" and "m_jittedToken j = Some (mi_token m)" and "m_moduleId j = modl"
    and "doInstrumentation t fresh info (m_moduleId i) k (mi_moduleName m) (mi_moduleNameLength m) j v = Inr (hr, i', w')"
proof (cases "GetFunctionInfo info f")
  case (Inl e)
  with assms that(1) show ?thesis by (simp add: instrument_def)
next
  case (Inr b)
  obtain modl tok where f: "GetFunctionInfo info f = Inr (modl, tok)"
    using Inr by (cases b) simp
  consider "w' = w" | len name asm al an where
    "read_name (GetModuleInfo info modl) = Inr (len, name, asm)" "read_name (GetAssemblyInfo info asm) = Inr (al, an, ())"
    using assms f by (fastforce simp: instrument_def res_simps Let_def split: sum.splits prod.splits)
  then show ?thesis
  proof cases
    case 2
    let ?m = "\<lparr>mi_token = tok, mi_assemblyNameLength = al, mi_assemblyName = an, mi_moduleNameLength = len,
      mi_moduleName = name\<rparr>"
    from assms f 2 obtain needed where need: "InstrumentationIsNeeded name len tok (profilerState w) = Inr needed"
      by (auto simp: instrument_def res_simps Let_def)
    show ?thesis
    proof (cases "\<not> needed \<or> (ucast tok, modl) \<in> instrumentedMethods w")
      case True
      then have "w' = w \<or> w' = at_main f w"
        using assms f 2 need by (auto simp: instrument_def at_main_def res_simps Let_def split: if_splits)
      with that(1,2) show ?thesis by blast
    next
      case False
      obtain k v where kv: "register_method ?m modl (at_main f w) = (k, v)" by (cases "register_method ?m modl (at_main f w)")
      have "doInstrumentation t fresh info (m_moduleId i) k name len
          (i\<lparr>m_jittedToken := Some tok, m_moduleId := modl\<rparr>) v = Inr (hr, i', w')"
        using assms f 2 need False kv by (auto simp: instrument_def at_main_def res_simps Let_def split: if_splits)
      with False kv show ?thesis by (intro that(3) [of ?m modl k v]) simp_all
    qed
  qed (use that(1) in blast)
qed

lemma instrument_effect:
  assumes "instrument t fresh info f i w = Inr (hr, i', w')"
  shows "leaves_alone w w' \<or> registers w w'"
  using assms
proof (cases rule: instrument_cases)
  case (3 modl m k j v)
  have v: "instrumentedMethods v = insert (ucast (mi_token m), modl) (instrumentedMethods w)"
    "collected v = collected w @ [m]" "bodies v = bodies w"
    using 3(2) by (auto simp: register_method_def collectMethod_def)
  with doInstrumentation_effect(1-3) [OF 3(5,3)] 3(1,4) show ?thesis
    unfolding registers_def by metis
qed (simp_all add: leaves_alone_def)

text \<open>
  The invariant of the registrations: identifiers of methods are positions in the list of collected
  methods, one for each instrumented method, and no method has two bodies.
\<close>

definition registrations_ok :: "process \<Rightarrow> bool" where
  "registrations_ok w \<longleftrightarrow>
     finite (instrumentedMethods w) \<and> card (instrumentedMethods w) = length (collected w)
     \<and> distinct (map fst (bodies w))
     \<and> (\<forall>modl tok b. ((modl, tok), b) \<in> set (bodies w) \<longrightarrow> (ucast tok, modl) \<in> instrumentedMethods w)"

lemma registers_ok:
  assumes ok: "registrations_ok w" and reg: "registers w w'"
  shows "registrations_ok w'"
proof -
  from reg obtain modl m where new: "(ucast (mi_token m), modl) \<notin> instrumentedMethods w"
    and w': "instrumentedMethods w' = insert (ucast (mi_token m), modl) (instrumentedMethods w)"
      "collected w' = collected w @ [m]"
    and b: "bodies w' = bodies w \<or> (\<exists>b. bodies w' = bodies w @ [((modl, mi_token m), b)])"
    unfolding registers_def by blast
  have "(modl, mi_token m) \<notin> fst ` set (bodies w)"
    using ok new unfolding registrations_ok_def by fastforce
  with b have "distinct (map fst (bodies w'))"
    using ok by (auto simp: registrations_ok_def)
  moreover have "\<forall>p \<in> set (bodies w'). p \<in> set (bodies w) \<or> fst p = (modl, mi_token m)"
    using b by auto
  ultimately show ?thesis
    using ok new w' unfolding registrations_ok_def by fastforce
qed

lemma effect_ok:
  assumes "leaves_alone w w' \<or> registers w w'" and "registrations_ok w"
  shows "registrations_ok w' \<and> (\<exists>ms. collected w' = collected w @ ms)"
  using assms(1)
proof
  assume "registers w w'"
  with registers_ok [OF assms(2)] show ?thesis by (auto simp: registers_def)
qed (use assms(2) in \<open>simp add: leaves_alone_def registrations_ok_def\<close>)

type_synonym compilation = "tid \<times> (nat \<Rightarrow> byte) \<times> u64"

definition compile_all :: "profiler_info \<Rightarrow> compilation list \<Rightarrow> process \<Rightarrow> process res" where
  "compile_all info cs =
     fold_res (\<lambda>(t, fresh, f) w. and_then (JITCompilationStarted t fresh info f w) (\<lambda>(_, w). Inr w)) cs"

lemma JITCompilationStarted_effect:
  assumes "JITCompilationStarted t fresh info f w = Inr (hr, w')"
  shows "leaves_alone w w' \<or> registers w w'"
proof (cases "isFinished (profilerState w)")
  case True
  with assms show ?thesis by (simp add: JITCompilationStarted_def leaves_alone_def)
next
  case False
  let ?w = "w\<lparr>shutdownBlockingRequestsCount := shutdownBlockingRequestsCount w + 1\<rparr>"
  from assms False obtain i v where run: "instrument t fresh info f newInstrumenter ?w = Inr (hr, i, v)"
    and w': "w' = v\<lparr>shutdownBlockingRequestsCount := shutdownBlockingRequestsCount v - 1\<rparr>"
    by (auto simp: JITCompilationStarted_def res_simps)
  from instrument_effect [OF run] show ?thesis
    by (simp add: leaves_alone_def registers_def w')
qed

text \<open>
  If the callbacks come one after the other, each method is registered at most once and gets at most one new body:
  the number of collected methods is the number of instrumented methods, all delivered bodies belong
  to different methods, and the methods collected earlier keep their positions, which are the
  identifiers the probes report. Callbacks that overlap are the subject of \<open>Compilations\<close>.
\<close>

theorem each_method_once:
  assumes "registrations_ok w" and "compile_all info cs w = Inr w'"
  shows "registrations_ok w' \<and> take (length (collected w)) (collected w') = collected w"
  using assms
proof (induction cs arbitrary: w)
  case Nil
  then show ?case by (simp add: compile_all_def)
next
  case (Cons c cs)
  obtain t fresh f where c: "c = (t, fresh, f)" by (cases c)
  from Cons.prems(2) obtain hr v where step: "JITCompilationStarted t fresh info f w = Inr (hr, v)"
    and rest: "compile_all info cs v = Inr w'"
    by (auto simp: compile_all_def c res_simps)
  have v: "registrations_ok v \<and> (\<exists>ms. collected v = collected w @ ms)"
    using JITCompilationStarted_effect [OF step] Cons.prems(1) by (rule effect_ok)
  then obtain ms where ms: "collected v = collected w @ ms" by blast
  from Cons.IH [OF _ rest] v have "registrations_ok w'" and "take (length (collected v)) (collected w') = collected v"
    by blast+
  moreover have "take (length (collected w)) (collected w')
      = take (length (collected w)) (take (length (collected v)) (collected w'))"
    unfolding take_take by (simp add: ms min_def)
  ultimately show ?case
    by (simp only: ms) simp
qed

subsection \<open>A compiled method is instrumented\<close>

text \<open>What the runtime does for a method: metadata and tokens of the module, the method's body, memory.\<close>

definition serves :: "profiler_info \<Rightarrow> u64 \<Rightarrow> u32 \<Rightarrow> il_method \<Rightarrow> (nat \<Rightarrow> nat \<Rightarrow> byte) \<Rightarrow> bool" where
  "serves info modl tok m mem \<longleftrightarrow>
     GetModuleMetaData info modl = Inr () \<and> QueryMetaDataEmit info modl = Inr ()
     \<and> (\<forall>s. \<exists>k. GetTokenFromSig info modl s = Inr k) \<and> GetILFunctionBody info modl tok = Inr m
     \<and> (\<forall>n. host_alloc (il_host_of info modl tok) n = Some (mem n))"

lemma doInstrumentation_ok:
  assumes serves: "serves info modl tok m mem" and rw: "rewritable m rw xs"
    and i: "m_moduleId i = modl" "m_jittedToken i = Some tok" and old: "old \<noteq> modl"
    and main: "IsMain name len tok (profilerState w) = Inr isMain"
  shows "\<exists>ks cp body. rewritten mem t cp (word_of_nat k) isMain rw xs body
    \<and> signed t (GetTokenFromSig info modl) cp
    \<and> doInstrumentation t fresh info old k name len i w
      = Inr (S_OK, i\<lparr>m_signatureTokens := ks\<rparr>,
             w\<lparr>coverageProbes := cp, bodies := bodies w @ [((modl, tok), body)]\<rparr>)"
proof -
  have md: "GetModuleMetaData info modl = Inr ()" "QueryMetaDataEmit info modl = Inr ()"
    and body: "GetILFunctionBody info modl tok = Inr m"
    using serves by (simp_all add: serves_def)
  obtain ks cp where tokens: "initTokens t (GetTokenFromSig info modl) (coverageProbes w) = (S_OK, ks, cp)"
    and sig: "signed t (GetTokenFromSig info modl) cp"
    using initTokens_ok [of "GetTokenFromSig info modl" t "coverageProbes w"] serves by (auto simp: serves_def)
  have alloc: "host_alloc (il_host_of info modl tok) n = Some (mem n)" for n
    using serves by (simp add: serves_def)
  obtain b hr where b: "rewritten mem t cp (word_of_nat k) isMain rw xs b"
    and run: "RewriteIL (il_host_of info modl tok) fresh t cp (Inr m) (word_of_nat k) isMain = Inr (hr, Some b)"
    using RewriteIL_ok [OF rw alloc] by blast
  have "doInstrumentation t fresh info old k name len i w
      = Inr (S_OK, i\<lparr>m_signatureTokens := ks\<rparr>, w\<lparr>coverageProbes := cp, bodies := bodies w @ [((modl, tok), b)]\<rparr>)"
    using md body tokens i old main run by (simp add: doInstrumentation_def)
  with b sig show ?thesis by blast
qed

lemma JIT_instruments:
  assumes "\<not> isFinished (profilerState w)" and "describes info f modl m"
    and "mainMethodInfo (profilerState w) = Some main" and "names_ok main m"
    and "is_main main m \<or> \<not> collectMainOnly (profilerState w)"
    and "(ucast (mi_token m), modl) \<notin> instrumentedMethods w" and "modl \<noteq> 0"
    and "serves info modl (mi_token m) il mem" and "rewritable il rw xs"
  shows "\<exists>w' body. JITCompilationStarted t fresh info f w = Inr (S_OK, w')
    \<and> bodies w' = bodies w @ [((modl, mi_token m), body)]
    \<and> rewritten mem t (coverageProbes w') (word_of_nat (length (collected w))) (is_main main m) rw xs body
    \<and> signed t (GetTokenFromSig info modl) (coverageProbes w')
    \<and> collected w' = collected w @ [m]
    \<and> shutdownBlockingRequestsCount w' = shutdownBlockingRequestsCount w
    \<and> mainFunctionId (profilerState w')
      = (if collectMainOnly (profilerState w) then f else mainFunctionId (profilerState w))"
proof -
  let ?w = "w\<lparr>shutdownBlockingRequestsCount := shutdownBlockingRequestsCount w + 1\<rparr>"
  obtain v where v: "register_method m modl (at_main f ?w) = (length (collected w), v)"
    "bodies v = bodies w" "collected v = collected w @ [m]"
    "mainMethodInfo (profilerState v) = Some main"
    "shutdownBlockingRequestsCount v = shutdownBlockingRequestsCount w + 1"
    "mainFunctionId (profilerState v)
     = (if collectMainOnly (profilerState w) then f else mainFunctionId (profilerState w))"
    using assms(3) by (auto simp: register_method_def collectMethod_def Let_def)
  let ?i = "newInstrumenter\<lparr>m_jittedToken := Some (mi_token m), m_moduleId := modl\<rparr>"
  from doInstrumentation_ok [of info modl "mi_token m" il mem rw xs ?i 0 "mi_moduleName m"
      "mi_moduleNameLength m" v "is_main main m" t "length (collected w)" fresh]
  obtain ks cp body where "rewritten mem t cp (word_of_nat (length (collected w))) (is_main main m) rw xs body"
    "signed t (GetTokenFromSig info modl) cp"
    and run: "doInstrumentation t fresh info 0 (length (collected w)) (mi_moduleName m) (mi_moduleNameLength m) ?i v
      = Inr (S_OK, ?i\<lparr>m_signatureTokens := ks\<rparr>,
             v\<lparr>coverageProbes := cp, bodies := bodies v @ [((modl, mi_token m), body)]\<rparr>)"
    using assms(7-9) IsMain_eq [OF v(4) assms(4)] by auto
  moreover have "instrument t fresh info f newInstrumenter ?w = Inr (S_OK, ?i\<lparr>m_signatureTokens := ks\<rparr>,
      v\<lparr>coverageProbes := cp, bodies := bodies v @ [((modl, mi_token m), body)]\<rparr>)"
    using instrument_described [OF assms(2) _ assms(4), of ?w t fresh newInstrumenter] assms(3,5,6) v(1) run
    by (auto simp: newInstrumenter_def Let_def)
  ultimately show ?thesis
    using assms(1) v by (simp add: JITCompilationStarted_def)
qed

lemma JIT_skips:
  assumes "\<not> isFinished (profilerState w)" and "describes info f modl m"
    and "mainMethodInfo (profilerState w) = Some main" and "names_ok main m"
    and "\<not> is_main main m" and "collectMainOnly (profilerState w)"
  shows "JITCompilationStarted t fresh info f w = Inr (S_OK, w)"
  using instrument_described [OF assms(2) _ assms(4),
      of "w\<lparr>shutdownBlockingRequestsCount := shutdownBlockingRequestsCount w + 1\<rparr>" t fresh newInstrumenter] assms(1,3,5,6)
  by (simp add: JITCompilationStarted_def)

text \<open>
  Claim C3: When the runtime is about to compile a method that is to be instrumented (the main method, or
  any method if not only the main method is tracked), that was not instrumented before, and whose body the
  decoder accepts and has no tail calls, then a callback that no other one overlaps gives the runtime a new
  body: the original method with exactly the probe calls of \<open>instrumented\<close> woven in,
  with the entry and exit probes of the main method exactly for the main method. The probes report the method
  under the position at which it was just added to the collected methods and use signature tokens
  of this module with as many arguments as they are given. The counter that delays the
  shutdown is back at its value, and in main-only mode the function is remembered as the main function.
\<close>

theorem compiled_method_is_instrumented:
  assumes "\<not> isFinished (profilerState w)" and "describes info f modl m"
    and "mainMethodInfo (profilerState w) = Some main" and "names_ok main m"
    and "is_main main m \<or> \<not> collectMainOnly (profilerState w)"
    and "(ucast (mi_token m), modl) \<notin> instrumentedMethods w" and "modl \<noteq> 0"
    and "serves info modl (mi_token m) il mem" and "rewritable il rw xs"
  shows "\<exists>w' body. JITCompilationStarted t fresh info f w = Inr (S_OK, w')
    \<and> bodies w' = bodies w @ [((modl, mi_token m), body)]
    \<and> rewritten mem t (coverageProbes w') (word_of_nat (length (collected w))) (is_main main m) rw xs body
    \<and> signed t (GetTokenFromSig info modl) (coverageProbes w')
    \<and> collected w' = collected w @ [m]
    \<and> shutdownBlockingRequestsCount w' = shutdownBlockingRequestsCount w
    \<and> mainFunctionId (profilerState w')
      = (if collectMainOnly (profilerState w) then f else mainFunctionId (profilerState w))"
  using assms by (rule JIT_instruments)

text \<open>A runtime with one module and two functions, 77 and 78; 77 is the main method.\<close>

definition sample_info :: profiler_info where
  "sample_info =
     \<lparr>GetFunctionInfo = (\<lambda>f. Inr (3, if f = 77 then 0x06000001 else 0x06000002)),
      GetModuleInfo = (\<lambda>_ n. Inr (3, take n [65, 66, 0], 8)), GetAssemblyInfo = (\<lambda>_ n. Inr (2, take n [65, 0], ())),
      GetModuleMetaData = (\<lambda>_. Inr ()), QueryMetaDataEmit = (\<lambda>_. Inr ()),
      GetTokenFromSig = (\<lambda>_ s. Inr (0x11000000 + word_of_nat (length s))),
      GetILFunctionBody = (\<lambda>_ _. Inr sample_method), il_host_of = (\<lambda>_ _. sample_host)\<rparr>"

definition sample_function :: "u32 \<Rightarrow> method_info" where
  "sample_function tok =
     \<lparr>mi_token = tok, mi_assemblyNameLength = 2, mi_assemblyName = [65, 0], mi_moduleNameLength = 3,
      mi_moduleName = [65, 66, 0]\<rparr>"

definition sample_main :: method_info where
  "sample_main =
     \<lparr>mi_token = 0x06000001, mi_assemblyNameLength = 1, mi_assemblyName = [65], mi_moduleNameLength = 2,
      mi_moduleName = [65, 66]\<rparr>"

definition sample_process :: "method_info option \<Rightarrow> process" where
  "sample_process main =
     \<lparr>profilerState = idle_state\<lparr>mainMethodInfo := main\<rparr>, coverageProbes = sample_probes,
      instrumentedMethods = {}, shutdownBlockingRequestsCount = 0, bodies = [], files = []\<rparr>"

lemma sample_describes:
  "describes sample_info 77 3 (sample_function 0x06000001)" "describes sample_info 78 3 (sample_function 0x06000002)"
  by (simp_all add: describes_def sample_info_def sample_function_def read_name_def)

lemma sample_names: "names_ok sample_main (sample_function tok)"
  "is_main sample_main (sample_function tok) = (tok = 0x06000001)"
  by (simp_all add: names_ok_def is_main_def sample_main_def sample_function_def)

lemma sample_serves: "serves sample_info 3 tok sample_method (\<lambda>_ _. 0)"
  by (simp add: serves_def sample_info_def sample_host_def)

lemma sample_rewritable: "rewritable sample_method sample_import [2, 3, 4, 5]"
  using sample_Import sample_il_list by (simp add: rewritable_def sample_method_def)

lemma sample_process_simps:
  "\<not> isFinished (profilerState (sample_process main))" "collectMainOnly (profilerState (sample_process main))"
  "mainMethodInfo (profilerState (sample_process main)) = main" "instrumentedMethods (sample_process main) = {}"
  "bodies (sample_process main) = []" "collected (sample_process main) = []"
  by (simp_all add: sample_process_def idle_state_def newCoverageTracker_def)

theorem compiled_method_is_instrumented_witness:
  "\<exists>w' body. JITCompilationStarted 9 (\<lambda>_. 0) sample_info 77 (sample_process (Some sample_main)) = Inr (S_OK, w')
    \<and> bodies w' = [((3, 0x06000001), body)]
    \<and> rewritten (\<lambda>_ _. 0) 9 (coverageProbes w') 0 True sample_import [2, 3, 4, 5] body
    \<and> collected w' = [sample_function 0x06000001] \<and> mainFunctionId (profilerState w') = 77"
  using compiled_method_is_instrumented [OF sample_process_simps(1) sample_describes(1) sample_process_simps(3)
      sample_names(1) _ _ _ sample_serves sample_rewritable, of 9 "\<lambda>_. 0"]
  by (simp add: sample_process_simps sample_names) (auto simp: sample_function_def)

theorem each_method_once_witness:
  "\<exists>w'. compile_all sample_info [(9, \<lambda>_. 0, 78), (9, \<lambda>_. 0, 77)] (sample_process (Some sample_main)) = Inr w'
    \<and> registrations_ok w' \<and> length (bodies w') = 1"
proof -
  let ?w = "sample_process (Some sample_main)"
  have "JITCompilationStarted 9 (\<lambda>_. 0) sample_info 78 ?w = Inr (S_OK, ?w)"
    using JIT_skips [OF sample_process_simps(1) sample_describes(2) sample_process_simps(3) sample_names(1)]
    by (simp add: sample_process_simps sample_names)
  moreover obtain w' b where "JITCompilationStarted 9 (\<lambda>_. 0) sample_info 77 ?w = Inr (S_OK, w')" and b: "bodies w' = [b]"
    using JIT_instruments [OF sample_process_simps(1) sample_describes(1) sample_process_simps(3)
        sample_names(1) _ _ _ sample_serves sample_rewritable, of 9 "\<lambda>_. 0"]
    by (auto simp: sample_process_simps sample_names)
  ultimately have run: "compile_all sample_info [(9, \<lambda>_. 0, 78), (9, \<lambda>_. 0, 77)] ?w = Inr w'"
    by (simp add: compile_all_def)
  then show ?thesis
    using each_method_once [OF _ run] b by (simp add: registrations_ok_def sample_process_simps)
qed

text \<open>
  In main-only mode the compilation of any method other than the main method succeeds and changes
  nothing.
\<close>

theorem other_methods_untouched:
  assumes "\<not> isFinished (profilerState w)" and "describes info f modl m"
    and "mainMethodInfo (profilerState w) = Some main" and "names_ok main m"
    and "\<not> is_main main m" and "collectMainOnly (profilerState w)"
  shows "JITCompilationStarted t fresh info f w = Inr (S_OK, w)"
  using assms by (rule JIT_skips)

theorem other_methods_untouched_witness:
  "JITCompilationStarted 9 (\<lambda>_. 0) sample_info 78 (sample_process (Some sample_main))
   = Inr (S_OK, sample_process (Some sample_main))"
  using other_methods_untouched [OF sample_process_simps(1) sample_describes(2) sample_process_simps(3) sample_names(1),
      of 9 "\<lambda>_. 0"]
  by (simp add: sample_process_simps sample_names)

text \<open>
  Claim C40: Outside passive mode the main method is unknown until \<^verbatim>\<open>SetEntryMain\<close> is called; every
  compilation before that reads the uninitialised record of the main method.
\<close>

theorem compilation_before_entry_main:
  assumes "newProfilerState env conv = Inr st" and "profilerState w = st" and "env ''COVERAGE_TOOL_ENABLE_PASSIVE'' = None"
    and "describes info f modl m"
  shows "JITCompilationStarted t fresh info f w = Inl Uninitialised"
proof -
  have "mainMethodInfo (profilerState w) = None" and "\<not> isFinished (profilerState w)"
    using assms(1-3) by (auto simp: newProfilerState_def Let_def res_simps)
  then show ?thesis
    using assms(4) unfolding describes_def
    by (auto simp: JITCompilationStarted_def instrument_def InstrumentationIsNeeded_def IsMain_def)
qed

theorem compilation_before_entry_main_witness:
  "JITCompilationStarted 9 (\<lambda>_. 0) sample_info 77 (sample_process None) = Inl Uninitialised"
proof -
  have "newProfilerState no_environment (\<lambda>_. []) = Inr (profilerState (sample_process None))"
    using idle_state_new by (simp add: sample_process_def idle_state_def)
  from compilation_before_entry_main [OF this refl _ sample_describes(1)] show ?thesis
    by (simp add: no_environment_def)
qed

end
