(* ===== verification/Object_Types.thy ===== *)
theory Object_Types
  imports Heap_Collections Operand_Memory Instrumenter
begin

section \<open>Types of allocated objects\<close>

text \<open>
  The callbacks of \<^verbatim>\<open>VSharp.ClrInteraction/corProfiler.cpp\<close> that keep the shadow heap up to date: an
  allocation, with the description of the type of the object that is sent to the engine, and the
  callbacks of a garbage collection.

  \<open>resolveType\<close> asks the runtime about a class and appends what it learns to nine parallel vectors,
  first for the class and then for its components; \<open>serializeType\<close> reads the vectors in step and writes
  the description. The recursion of \<open>resolveType\<close> follows the answers of the runtime, so it has fuel.

  The specification is the tree of a type (\<open>class_tree\<close>) and its encoding in preorder. \<open>has_type\<close>
  relates a class to its tree through the answers of the runtime.
\<close>

subsection \<open>The interface of the runtime\<close>

text \<open>
  \<open>IsArrayClass\<close> and \<open>GetClassIDInfo2\<close> return their code beside their results because the code compares it
  with \<^verbatim>\<open>S_OK\<close>. The argument of the latter is the capacity of the array for type arguments.
\<close>

record class_runtime = profiler_info +
  IsArrayClass :: "u64 \<Rightarrow> hresult \<times> cor_element_type \<times> u64 \<times> u32"
  GetClassIDInfo2 :: "u64 \<Rightarrow> nat \<Rightarrow> hresult \<times> u64 \<times> u32 \<times> u32 \<times> u64 list"
  GetObjectSize :: "u64 \<Rightarrow> hresult + u32"

record type_vectors =
  isValid :: "bool list"
  isArray :: "bool list"
  arrayTypes :: "(cor_element_type \<times> u32) list"
  tokens :: "u32 list"
  typeArgsCount :: "u32 list"
  moduleNames :: "u16 list"
  moduleSizes :: "u32 list"
  assemblyNames :: "u16 list"
  assemblySizes :: "u32 list"

definition no_vectors :: type_vectors where
  "no_vectors = \<lparr>isValid = [], isArray = [], arrayTypes = [], tokens = [], typeArgsCount = [], moduleNames = [],
     moduleSizes = [], assemblyNames = [], assemblySizes = []\<rparr>"

subsection \<open>Resolving a class\<close>

definition corElementTypeIsPrimitive :: "cor_element_type \<Rightarrow> bool" where
  "corElementTypeIsPrimitive e \<longleftrightarrow>
     e \<in> set [0x02, 0x03, 0x04, 0x05, 0x06, 0x07, 0x08, 0x09, 0x0A, 0x0B, 0x0C, 0x0D, 0x18, 0x19]"

text \<open>The characters \<open>0 \<dots> n - 1\<close> of a buffer.\<close>

definition chars_of :: "u32 \<Rightarrow> u16 list \<Rightarrow> u16 list res" where
  "chars_of n buffer = and_then (check (unat n \<le> length buffer) Out_of_bounds) (\<lambda>_. Inr (take (unat n) buffer))"

definition loud :: "string \<Rightarrow> hresult + 'a \<Rightarrow> 'a res" where
  "loud message r = (case r of Inl hr \<Rightarrow> Inl (Fail_loud message) | Inr x \<Rightarrow> Inr x)"

definition push_array :: "cor_element_type \<Rightarrow> u32 \<Rightarrow> type_vectors \<Rightarrow> type_vectors" where
  "push_array e rank v =
     v\<lparr>isValid := isValid v @ [True], isArray := isArray v @ [True], arrayTypes := arrayTypes v @ [(e, rank)]\<rparr>"

text \<open>The part of \<^verbatim>\<open>resolveType\<close> between the two recursive calls: what is known of the class itself.\<close>

definition push_class ::
  "'a profiler_info_scheme \<Rightarrow> u64 \<Rightarrow> u32 \<Rightarrow> u32 \<Rightarrow> type_vectors \<Rightarrow> type_vectors res" where
  "push_class info moduleId token typeArgsNum v =
     (let v = v\<lparr>tokens := tokens v @ [token], typeArgsCount := typeArgsCount v @ [typeArgsNum]\<rparr> in
      and_then (loud ''getting module info failed'' (read_name (GetModuleInfo info moduleId)))
        (\<lambda>(moduleSize, moduleBuffer, assemblyId).
      and_then (chars_of moduleSize moduleBuffer) (\<lambda>moduleName.
      let v = v\<lparr>moduleSizes := moduleSizes v @ [moduleSize * 2], moduleNames := moduleNames v @ moduleName\<rparr> in
      and_then (loud ''getting assembly info failed'' (read_name (GetAssemblyInfo info assemblyId)))
        (\<lambda>(assemblySize, assemblyBuffer, _).
      and_then (chars_of assemblySize assemblyBuffer) (\<lambda>assemblyName.
      Inr (v\<lparr>assemblySizes := assemblySizes v @ [assemblySize * 2],
             assemblyNames := assemblyNames v @ assemblyName\<rparr>))))))"

fun resolveType :: "nat \<Rightarrow> class_runtime \<Rightarrow> u64 \<Rightarrow> type_vectors \<Rightarrow> type_vectors res" where
  "resolveType 0 info classId v = Inl Not_terminating"
| "resolveType (Suc fuel) info classId v =
     (let (hr, corElementType, elementType, rank) = IsArrayClass info classId in
      if hr = S_OK
      then (let v = push_array corElementType rank v in
            if \<not> corElementTypeIsPrimitive corElementType then resolveType fuel info elementType v else Inr v)
      else
        (let (hr, _, _, capacity, _) = GetClassIDInfo2 info classId 0 in
         if hr = S_OK
         then (let v = v\<lparr>isValid := isValid v @ [True], isArray := isArray v @ [False]\<rparr>;
                   (hr, moduleId, token, typeArgsNum, typeArgs) = GetClassIDInfo2 info classId (unat capacity);
                   typeArgs = take (unat capacity) typeArgs in
               if FAILED hr then Inl (Fail_loud ''getting generic type info failed!'')
               else and_then (push_class info moduleId token typeArgsNum v) (\<lambda>v.
                    and_then (fold_res (resolveType fuel info) (take (unat typeArgsNum) typeArgs) v) (\<lambda>v.
                    and_then (check (unat typeArgsNum \<le> length typeArgs) Out_of_bounds) (\<lambda>_. Inr v))))
         else Inr (v\<lparr>isValid := isValid v @ [False]\<rparr>)))"

subsection \<open>Serializing the vectors\<close>

text \<open>The position in each vector, the bytes of the names already copied, and what is written.\<close>

record type_cursor =
  written :: "byte list"
  arrayTypeIndex :: nat
  validObjectIndex :: nat
  tokenIndex :: nat
  moduleNamesPtr :: nat
  assemblyNamesPtr :: nat

definition elem_at :: "'a list \<Rightarrow> nat \<Rightarrow> 'a res" where
  "elem_at xs i = (if i < length xs then Inr (xs ! i) else Inl Out_of_bounds)"

text \<open>A store into the buffer of \<open>capacity\<close> bytes at the current position.\<close>

definition put :: "nat \<Rightarrow> byte list \<Rightarrow> type_cursor \<Rightarrow> type_cursor res" where
  "put capacity bs c =
     (if length (written c) + length bs \<le> capacity then Inr (c\<lparr>written := written c @ bs\<rparr>) else Inl Out_of_bounds)"

definition name_bytes :: "u16 list \<Rightarrow> byte list" where
  "name_bytes name = concat (map word_bytes name)"

text \<open>\<^verbatim>\<open>memcpy\<close> of \<open>n\<close> bytes of a vector of characters; a negative \<^verbatim>\<open>int\<close> is a huge size.\<close>

definition put_name :: "nat \<Rightarrow> u16 list \<Rightarrow> nat \<Rightarrow> u32 \<Rightarrow> type_cursor \<Rightarrow> type_cursor res" where
  "put_name capacity names from n c =
     (let n = unat (scast n :: u64); source = drop from (name_bytes names) in
      and_then (check (n \<le> length source) Out_of_bounds) (\<lambda>_. put capacity (take n source) c))"

definition put_array :: "nat \<Rightarrow> type_vectors \<Rightarrow> type_cursor \<Rightarrow> type_cursor res" where
  "put_array capacity v c =
     and_then (elem_at (arrayTypes v) (arrayTypeIndex c)) (\<lambda>(e, rank).
     and_then (put capacity [ucast e] c) (\<lambda>c.
     and_then (put capacity (word_bytes rank) c) (\<lambda>c.
     Inr (c\<lparr>arrayTypeIndex := arrayTypeIndex c + 1\<rparr>))))"

definition put_class :: "nat \<Rightarrow> type_vectors \<Rightarrow> type_cursor \<Rightarrow> type_cursor res" where
  "put_class capacity v c =
     and_then (elem_at (tokens v) (tokenIndex c)) (\<lambda>token.
     and_then (put capacity (word_bytes token) c) (\<lambda>c.
     and_then (elem_at (assemblySizes v) (tokenIndex c)) (\<lambda>assemblySize.
     and_then (put capacity (word_bytes assemblySize) c) (\<lambda>c.
     and_then (put_name capacity (assemblyNames v) (assemblyNamesPtr c) assemblySize c) (\<lambda>c.
     let c = c\<lparr>assemblyNamesPtr := assemblyNamesPtr c + unat assemblySize\<rparr> in
     and_then (elem_at (moduleSizes v) (tokenIndex c)) (\<lambda>moduleSize.
     and_then (put capacity (word_bytes moduleSize) c) (\<lambda>c.
     and_then (put_name capacity (moduleNames v) (moduleNamesPtr c) moduleSize c) (\<lambda>c.
     let c = c\<lparr>moduleNamesPtr := moduleNamesPtr c + unat moduleSize\<rparr> in
     and_then (elem_at (typeArgsCount v) (tokenIndex c)) (\<lambda>count.
     and_then (put capacity (word_bytes count) c) (\<lambda>c.
     Inr (c\<lparr>tokenIndex := tokenIndex c + 1\<rparr>)))))))))))"

definition put_type :: "nat \<Rightarrow> type_vectors \<Rightarrow> bool \<Rightarrow> type_cursor \<Rightarrow> type_cursor res" where
  "put_type capacity v valid c =
     and_then (put capacity [of_bool valid] c) (\<lambda>c.
     if valid
     then and_then (elem_at (isArray v) (validObjectIndex c)) (\<lambda>arrayCheck.
          and_then (put capacity [of_bool arrayCheck] c) (\<lambda>c.
          and_then (if arrayCheck then put_array capacity v c else put_class capacity v c) (\<lambda>c.
          Inr (c\<lparr>validObjectIndex := validObjectIndex c + 1\<rparr>))))
     else Inl (Fail_loud ''Type serialization: type was not resolved!''))"

definition int32_size :: "'a list \<Rightarrow> u32" where
  "int32_size xs = word_of_nat (length xs)"

definition type_length :: "type_vectors \<Rightarrow> u64" where
  "type_length v =
     scast (int32_size (isValid v)) + scast (int32_size (isArray v)) + scast (int32_size (arrayTypes v)) * 5
     + scast (int32_size (tokens v)) * 4 + scast (int32_size (typeArgsCount v)) * 4
     + scast (int32_size (moduleNames v)) * 2 + scast (int32_size (moduleSizes v)) * 4
     + scast (int32_size (assemblyNames v)) * 2 + scast (int32_size (assemblySizes v)) * 4"

text \<open>\<open>fresh\<close> is what the new buffer holds where nothing is stored.\<close>

definition serializeType :: "(nat \<Rightarrow> byte) \<Rightarrow> type_vectors \<Rightarrow> (byte list \<times> u64) res" where
  "serializeType fresh v =
     and_then (check (int32_size (tokens v) = int32_size (typeArgsCount v)
         \<and> int32_size (typeArgsCount v) = int32_size (moduleSizes v)
         \<and> int32_size (moduleSizes v) = int32_size (assemblySizes v)) Assert_failed) (\<lambda>_.
     let typeLength = type_length v; capacity = unat typeLength in
     and_then (fold_res (put_type capacity v) (isValid v)
         \<lparr>written = [], arrayTypeIndex = 0, validObjectIndex = 0, tokenIndex = 0, moduleNamesPtr = 0,
          assemblyNamesPtr = 0\<rparr>) (\<lambda>c.
     and_then (check (word_of_nat (tokenIndex c) = int32_size (tokens v)
         \<and> word_of_nat (validObjectIndex c) = int32_size (isArray v)) Assert_failed) (\<lambda>_.
     Inr (written c @ map fresh [length (written c)..<capacity], typeLength))))"

subsection \<open>Callbacks\<close>

definition ObjectAllocated ::
  "nat \<Rightarrow> (nat \<Rightarrow> byte) \<Rightarrow> class_runtime \<Rightarrow> objid \<Rightarrow> u64 \<Rightarrow> u64 \<Rightarrow> heap \<Rightarrow> (hresult \<times> heap) res" where
  "ObjectAllocated fuel fresh info new_obj objectId classId h =
     and_then (resolveType fuel info classId no_vectors) (\<lambda>v.
     and_then (serializeType fresh v) (\<lambda>(type, typeLength).
     and_then (case GetObjectSize info objectId of Inl _ \<Rightarrow> Inl Uninitialised | Inr sz \<Rightarrow> Inr sz) (\<lambda>sz.
     and_then (allocateObject new_obj objectId (ucast sz) type typeLength h) (\<lambda>(_, h). Inr (S_OK, h)))))"

definition MovedReferences :: "(addr \<times> addr \<times> u32) list \<Rightarrow> heap \<Rightarrow> (hresult \<times> heap) res" where
  "MovedReferences ranges h =
     and_then (fold_res (\<lambda>(oldStart, newStart, len). heap_moveAndMark oldStart newStart (ucast len)) ranges h)
       (\<lambda>h. Inr (S_OK, h))"

definition SurvivingReferences :: "(addr \<times> u32) list \<Rightarrow> heap \<Rightarrow> (hresult \<times> heap) res" where
  "SurvivingReferences ranges h =
     and_then (fold_res (\<lambda>(start, len). markSurvivedObjects start (ucast len)) ranges h) (\<lambda>h. Inr (S_OK, h))"

definition GarbageCollectionFinished :: "heap \<Rightarrow> (hresult \<times> heap) res" where
  "GarbageCollectionFinished h = and_then (clearAfterGC h) (\<lambda>h. Inr (S_OK, h))"

subsection \<open>Trees of types\<close>

datatype class_tree =
    Primitive_array cor_element_type u32
  | Array_of cor_element_type u32 class_tree
  | Class u32 "u16 list" "u16 list" "class_tree list"    \<comment> \<open>token, assembly, module, type arguments\<close>

text \<open>A node of a tree: what one call of \<open>resolveType\<close> appends.\<close>

datatype type_node = Array_node cor_element_type u32 | Class_node u32 "u16 list" "u16 list" u32

fun nodes :: "class_tree \<Rightarrow> type_node list" where
  "nodes (Primitive_array e rank) = [Array_node e rank]"
| "nodes (Array_of e rank t) = Array_node e rank # nodes t"
| "nodes (Class token assembly modl ts) =
     Class_node token assembly modl (word_of_nat (length ts)) # concat (map nodes ts)"

definition name_size :: "u16 list \<Rightarrow> u32" where
  "name_size name = word_of_nat (2 * length name)"

fun node_bytes :: "type_node \<Rightarrow> byte list" where
  "node_bytes (Array_node e rank) = [1, 1, ucast e] @ word_bytes rank"
| "node_bytes (Class_node token assembly modl n) =
     [1, 0] @ word_bytes token
     @ word_bytes (name_size assembly) @ name_bytes assembly
     @ word_bytes (name_size modl) @ name_bytes modl
     @ word_bytes n"

definition description :: "class_tree \<Rightarrow> byte list" where
  "description t = concat (map node_bytes (nodes t))"

fun depth :: "class_tree \<Rightarrow> nat" where
  "depth (Primitive_array e rank) = 1"
| "depth (Array_of e rank t) = Suc (depth t)"
| "depth (Class token assembly modl ts) = Suc (Max (set (map depth ts) \<union> {0}))"

text \<open>The tree of a class, as the runtime describes it.\<close>

definition class_named :: "'a profiler_info_scheme \<Rightarrow> u64 \<Rightarrow> u16 list \<Rightarrow> u16 list \<Rightarrow> bool" where
  "class_named info moduleId assembly modl \<longleftrightarrow>
     length modl < 2 ^ 32 \<and> length assembly < 2 ^ 32
     \<and> (\<exists>assemblyId. read_name (GetModuleInfo info moduleId) = Inr (word_of_nat (length modl), modl, assemblyId)
          \<and> read_name (GetAssemblyInfo info assemblyId) = Inr (word_of_nat (length assembly), assembly, ()))"

inductive has_type :: "class_runtime \<Rightarrow> u64 \<Rightarrow> class_tree \<Rightarrow> bool" for info where
  primitive_array: "IsArrayClass info c = (S_OK, e, x, rank) \<Longrightarrow> corElementTypeIsPrimitive e
    \<Longrightarrow> has_type info c (Primitive_array e rank)"
| array: "IsArrayClass info c = (S_OK, e, element, rank) \<Longrightarrow> \<not> corElementTypeIsPrimitive e
    \<Longrightarrow> has_type info element t \<Longrightarrow> has_type info c (Array_of e rank t)"
| class_type: "fst (IsArrayClass info c) \<noteq> S_OK
    \<Longrightarrow> GetClassIDInfo2 info c 0 = (S_OK, modl, token, n, x)
    \<Longrightarrow> GetClassIDInfo2 info c (unat n) = (S_OK, modl, token, n, args)
    \<Longrightarrow> length args = unat n \<Longrightarrow> class_named info modl assemblyName moduleName
    \<Longrightarrow> list_all2 (has_type info) args ts
    \<Longrightarrow> has_type info c (Class token assemblyName moduleName ts)"
  monos list_all2_mono

subsection \<open>The vectors of a list of nodes\<close>

fun push_node :: "type_node \<Rightarrow> type_vectors \<Rightarrow> type_vectors" where
  "push_node (Array_node e rank) v = push_array e rank v"
| "push_node (Class_node token assembly modl n) v =
     v\<lparr>isValid := isValid v @ [True], isArray := isArray v @ [False], tokens := tokens v @ [token],
       typeArgsCount := typeArgsCount v @ [n],
       moduleSizes := moduleSizes v @ [name_size modl], moduleNames := moduleNames v @ modl,
       assemblySizes := assemblySizes v @ [name_size assembly],
       assemblyNames := assemblyNames v @ assembly\<rparr>"

lemma push_class_eq:
  assumes "class_named info m assembly modl"
  shows "push_class info m token n (v\<lparr>isValid := isValid v @ [True], isArray := isArray v @ [False]\<rparr>)
    = Inr (push_node (Class_node token assembly modl n) v)"
  using assms
  by (auto simp: push_class_def class_named_def loud_def chars_of_def unat_u32_of_nat Let_def name_size_def mult.commute)

lemma resolveType_nodes:
  assumes "has_type info c t" and "depth t \<le> fuel"
  shows "resolveType fuel info c v = Inr (fold push_node (nodes t) v)"
  using assms
proof (induction arbitrary: fuel v rule: has_type.induct)
  case (primitive_array c e x rank)
  then show ?case by (cases fuel) auto
next
  case (array c e element rank t)
  then show ?case by (cases fuel) auto
next
  case (class_type c modl token n x args assemblyName moduleName ts)
  then obtain k where k: "fuel = Suc k" by (cases fuel) auto
  have args: "fold_res (resolveType k info) args w = Inr (fold push_node (concat (map nodes ts)) w)" for w
    using class_type.IH class_type.prems
  proof (induction args ts arbitrary: w rule: list_all2_induct)
    case Nil
    show ?case by simp
  next
    case (Cons x xs t ts)
    then show ?case by (simp add: k)
  qed
  have n: "n = word_of_nat (length ts)"
    using class_type.hyps(4) list_all2_lengthD [OF class_type.IH] by simp
  show ?case
    using class_type.hyps args push_class_eq [OF class_type.hyps(5)]
    by (auto simp: k n FAILED_def case_prod_beta Let_def)
qed

definition vectors_of :: "type_node list \<Rightarrow> type_vectors" where
  "vectors_of ns = fold push_node ns no_vectors"

lemma push_node_fields:
  "isValid (push_node x w) = isValid w @ isValid (push_node x no_vectors)"
  "isArray (push_node x w) = isArray w @ isArray (push_node x no_vectors)"
  "arrayTypes (push_node x w) = arrayTypes w @ arrayTypes (push_node x no_vectors)"
  "tokens (push_node x w) = tokens w @ tokens (push_node x no_vectors)"
  "typeArgsCount (push_node x w) = typeArgsCount w @ typeArgsCount (push_node x no_vectors)"
  "moduleNames (push_node x w) = moduleNames w @ moduleNames (push_node x no_vectors)"
  "moduleSizes (push_node x w) = moduleSizes w @ moduleSizes (push_node x no_vectors)"
  "assemblyNames (push_node x w) = assemblyNames w @ assemblyNames (push_node x no_vectors)"
  "assemblySizes (push_node x w) = assemblySizes w @ assemblySizes (push_node x no_vectors)"
  by (cases x; simp add: push_array_def no_vectors_def)+

lemma fold_append_field:
  assumes "\<And>x w. f (g x w) = f w @ f (g x z)" and "f z = []"
  shows "f (fold g xs w) = f w @ f (fold g xs z)"
proof (induction xs arbitrary: w)
  case (Cons x xs)
  from Cons [of "g x w"] Cons [of "g x z"] show ?case
    using assms(1) [of x w] by simp
qed (simp add: assms(2))

lemma vectors_of_append:
  "isValid (vectors_of (xs @ ys)) = isValid (vectors_of xs) @ isValid (vectors_of ys)"
  "isArray (vectors_of (xs @ ys)) = isArray (vectors_of xs) @ isArray (vectors_of ys)"
  "arrayTypes (vectors_of (xs @ ys)) = arrayTypes (vectors_of xs) @ arrayTypes (vectors_of ys)"
  "tokens (vectors_of (xs @ ys)) = tokens (vectors_of xs) @ tokens (vectors_of ys)"
  "typeArgsCount (vectors_of (xs @ ys)) = typeArgsCount (vectors_of xs) @ typeArgsCount (vectors_of ys)"
  "moduleNames (vectors_of (xs @ ys)) = moduleNames (vectors_of xs) @ moduleNames (vectors_of ys)"
  "moduleSizes (vectors_of (xs @ ys)) = moduleSizes (vectors_of xs) @ moduleSizes (vectors_of ys)"
  "assemblyNames (vectors_of (xs @ ys)) = assemblyNames (vectors_of xs) @ assemblyNames (vectors_of ys)"
  "assemblySizes (vectors_of (xs @ ys)) = assemblySizes (vectors_of xs) @ assemblySizes (vectors_of ys)"
  unfolding vectors_of_def fold_append comp_apply
  by (rule fold_append_field [OF push_node_fields(1)] fold_append_field [OF push_node_fields(2)]
      fold_append_field [OF push_node_fields(3)] fold_append_field [OF push_node_fields(4)]
      fold_append_field [OF push_node_fields(5)] fold_append_field [OF push_node_fields(6)]
      fold_append_field [OF push_node_fields(7)] fold_append_field [OF push_node_fields(8)]
      fold_append_field [OF push_node_fields(9)], simp add: no_vectors_def)+

lemma vectors_of_simps [simp]:
  "vectors_of [] = no_vectors"
  "vectors_of [x] = push_node x no_vectors"
  by (simp_all add: vectors_of_def)

lemma length_name_bytes [simp]: "length (name_bytes name) = 2 * length name"
  by (induction name) (simp_all add: name_bytes_def)

lemma name_bytes_append: "name_bytes (xs @ ys) = name_bytes xs @ name_bytes ys"
  by (simp add: name_bytes_def)

lemma length_nodes_bytes:
  "length (concat (map node_bytes ns)) =
     length (isValid (vectors_of ns)) + length (isArray (vectors_of ns)) + length (arrayTypes (vectors_of ns)) * 5
     + length (tokens (vectors_of ns)) * 4 + length (typeArgsCount (vectors_of ns)) * 4
     + length (moduleNames (vectors_of ns)) * 2 + length (moduleSizes (vectors_of ns)) * 4
     + length (assemblyNames (vectors_of ns)) * 2 + length (assemblySizes (vectors_of ns)) * 4"
proof (induction ns)
  case Nil
  show ?case by (simp add: no_vectors_def)
next
  case (Cons x ns)
  then show ?case
    using vectors_of_append [of "[x]" ns] by (cases x) (simp_all add: push_array_def no_vectors_def)
qed

lemma vectors_lengths:
  "length (isValid (vectors_of ns)) = length ns" "length (isArray (vectors_of ns)) = length ns"
  "length (typeArgsCount (vectors_of ns)) = length (tokens (vectors_of ns))"
  "length (moduleSizes (vectors_of ns)) = length (tokens (vectors_of ns))"
  "length (assemblySizes (vectors_of ns)) = length (tokens (vectors_of ns))"
proof (induction ns)
  case Nil
  case 1 show ?case by (simp add: no_vectors_def)
  case 2 show ?case by (simp add: no_vectors_def)
  case 3 show ?case by (simp add: no_vectors_def)
  case 4 show ?case by (simp add: no_vectors_def)
  case 5 show ?case by (simp add: no_vectors_def)
next
  case (Cons x ns)
  note app = vectors_of_append [of "[x]" ns]
  case 1 from Cons show ?case using app by (cases x) (simp_all add: push_array_def no_vectors_def)
  case 2 from Cons show ?case using app by (cases x) (simp_all add: push_array_def no_vectors_def)
  case 3 from Cons show ?case using app by (cases x) (simp_all add: push_array_def no_vectors_def)
  case 4 from Cons show ?case using app by (cases x) (simp_all add: push_array_def no_vectors_def)
  case 5 from Cons show ?case using app by (cases x) (simp_all add: push_array_def no_vectors_def)
qed

lemma isValid_vectors: "isValid (vectors_of ns) = replicate (length ns) True"
proof (induction ns)
  case Nil
  show ?case by (simp add: no_vectors_def)
next
  case (Cons x ns)
  then show ?case
    using vectors_of_append(1) [of "[x]" ns] by (cases x) (simp_all add: push_array_def no_vectors_def)
qed

lemma scast_u32_of_nat: "n < 2 ^ 31 \<Longrightarrow> (scast (word_of_nat n :: u32) :: u64) = word_of_nat n"
  by (simp add: signed_of_nat signed_take_bit_int_eq_self)

subsection \<open>The cursor\<close>

definition cursor_at :: "type_node list \<Rightarrow> type_cursor" where
  "cursor_at ns =
     \<lparr>written = concat (map node_bytes ns), arrayTypeIndex = length (arrayTypes (vectors_of ns)),
      validObjectIndex = length ns, tokenIndex = length (tokens (vectors_of ns)),
      moduleNamesPtr = 2 * length (moduleNames (vectors_of ns)),
      assemblyNamesPtr = 2 * length (assemblyNames (vectors_of ns))\<rparr>"

lemma put_fits: "length (written c) + length bs \<le> capacity \<Longrightarrow> put capacity bs c = Inr (c\<lparr>written := written c @ bs\<rparr>)"
  by (simp add: put_def)

lemma elem_at_append: "length xs = i \<Longrightarrow> elem_at (xs @ y # zs) i = Inr y"
  by (auto simp: elem_at_def)

lemma unat_name_size:
  assumes "2 * length name < 2 ^ 31"
  shows "unat (name_size name) = 2 * length name" and "unat (scast (name_size name) :: u64) = 2 * length name"
proof -
  show "unat (name_size name) = 2 * length name"
    using assms unat_u32_of_nat [of "2 * length name"] by (simp add: name_size_def del: of_nat_mult)
  have "unat (word_of_nat (2 * length name) :: u64) = 2 * length name"
    using assms by (simp add: unsigned_of_nat take_bit_nat_eq_self del: of_nat_mult)
  then show "unat (scast (name_size name) :: u64) = 2 * length name"
    unfolding name_size_def scast_u32_of_nat [OF assms] .
qed

lemma put_name_eq:
  assumes "2 * length pre = from" and "2 * length name < 2 ^ 31"
    and "length (written c) + 2 * length name \<le> capacity"
  shows "put_name capacity (pre @ name @ post) from (name_size name) c
    = Inr (c\<lparr>written := written c @ name_bytes name\<rparr>)"
proof -
  have "drop from (name_bytes (pre @ name @ post)) = name_bytes name @ name_bytes post"
    using assms(1) by (simp add: name_bytes_append)
  then show ?thesis
    using assms(3) by (simp add: put_name_def put_def Let_def unat_name_size(2) [OF assms(2)])
qed

text \<open>Names short enough that their sizes in bytes are positive integers.\<close>

fun node_ok :: "type_node \<Rightarrow> bool" where
  "node_ok (Array_node e rank) \<longleftrightarrow> True"
| "node_ok (Class_node token assembly modl n) \<longleftrightarrow> 2 * length assembly < 2 ^ 31 \<and> 2 * length modl < 2 ^ 31"

lemma put_array_step:
  assumes "arrayTypes v = arrayTypes (vectors_of pre) @ (e, rank) # as"
    and "length (written c) + 5 \<le> capacity" and "arrayTypeIndex c = length (arrayTypes (vectors_of pre))"
  shows "put_array capacity v c =
    Inr (c\<lparr>written := written c @ [ucast e] @ word_bytes rank, arrayTypeIndex := arrayTypeIndex c + 1\<rparr>)"
  using assms by (simp add: put_array_def elem_at_append put_def)

lemma put_class_step:
  assumes "tokens v = ts @ token # ts'" "assemblySizes v = as @ name_size assembly # as'"
    "moduleSizes v = ms @ name_size modl # ms'" "typeArgsCount v = cs @ n # cs'"
    "assemblyNames v = an @ assembly @ an'" "moduleNames v = mn @ modl @ mn'"
    and "length ts = tokenIndex c" "length as = tokenIndex c" "length ms = tokenIndex c" "length cs = tokenIndex c"
    "2 * length an = assemblyNamesPtr c" "2 * length mn = moduleNamesPtr c"
    and "node_ok (Class_node token assembly modl n)"
    and "length (written c) + length (node_bytes (Class_node token assembly modl n)) \<le> capacity + 2"
  shows "put_class capacity v c =
    Inr (c\<lparr>written := written c @ drop 2 (node_bytes (Class_node token assembly modl n)),
      tokenIndex := tokenIndex c + 1, assemblyNamesPtr := assemblyNamesPtr c + 2 * length assembly,
      moduleNamesPtr := moduleNamesPtr c + 2 * length modl\<rparr>)"
proof -
  have u: "unat (name_size assembly) = 2 * length assembly" "unat (name_size modl) = 2 * length modl"
    using assms(13) by (simp_all add: unat_name_size(1))
  show ?thesis
    unfolding put_class_def assms(1-6)
    using assms(7-14) by (simp add: elem_at_append put_fits put_name_eq Let_def u)
qed

lemma put_type_step:
  assumes v: "v = vectors_of (pre @ x # post)" and x: "node_ok x"
    and fits: "length (concat (map node_bytes (pre @ [x]))) \<le> capacity"
  shows "put_type capacity v True (cursor_at pre) = Inr (cursor_at (pre @ [x]))"
proof -
  note app = vectors_of_append [of pre "x # post"] vectors_of_append [of "[x]" post] vectors_of_append [of pre "[x]"]
  have ar: "elem_at (isArray v) (length pre) = Inr (case x of Array_node _ _ \<Rightarrow> True | Class_node _ _ _ _ \<Rightarrow> False)"
    using app vectors_lengths(2) [of pre]
    by (cases x) (simp_all add: v push_array_def no_vectors_def elem_at_append)
  show ?thesis
  proof (cases x)
    case (Array_node e rank)
    have "arrayTypes v = arrayTypes (vectors_of pre) @ (e, rank) # arrayTypes (vectors_of post)"
      using app by (simp add: v Array_node push_array_def no_vectors_def)
    then show ?thesis
      using fits ar app
      by (simp add: put_type_def cursor_at_def put_fits put_array_step Array_node push_array_def no_vectors_def)
  next
    case (Class_node token assembly modl n)
    have "put_class capacity v (cursor_at pre\<lparr>written := written (cursor_at pre) @ [1, 0]\<rparr>)
      = Inr (cursor_at pre\<lparr>written := written (cursor_at pre) @ [1, 0] @ drop 2 (node_bytes x),
          tokenIndex := tokenIndex (cursor_at pre) + 1,
          assemblyNamesPtr := assemblyNamesPtr (cursor_at pre) + 2 * length assembly,
          moduleNamesPtr := moduleNamesPtr (cursor_at pre) + 2 * length modl\<rparr>)"
      using app x fits vectors_lengths [of pre]
      by (subst put_class_step [where ts = "tokens (vectors_of pre)" and as = "assemblySizes (vectors_of pre)"
            and ms = "moduleSizes (vectors_of pre)" and cs = "typeArgsCount (vectors_of pre)"
            and an = "assemblyNames (vectors_of pre)" and mn = "moduleNames (vectors_of pre)" and n = n
            and token = token and assembly = assembly and modl = modl])
        (simp_all add: v Class_node no_vectors_def cursor_at_def)
    then show ?thesis
      using fits ar app by (simp add: put_type_def cursor_at_def put_fits Class_node no_vectors_def)
  qed
qed

lemma put_types:
  assumes "list_all node_ok (pre @ post)" and "length (concat (map node_bytes (pre @ post))) \<le> capacity"
  shows "fold_res (put_type capacity (vectors_of (pre @ post))) (replicate (length post) True) (cursor_at pre)
    = Inr (cursor_at (pre @ post))"
  using assms
proof (induction post arbitrary: pre)
  case (Cons x post)
  have "put_type capacity (vectors_of (pre @ x # post)) True (cursor_at pre) = Inr (cursor_at (pre @ [x]))"
    using Cons.prems by (intro put_type_step) auto
  with Cons.IH [of "pre @ [x]"] Cons.prems show ?case by simp
qed simp

lemma type_length_eq:
  assumes "length (concat (map node_bytes ns)) < 2 ^ 31"
  shows "type_length (vectors_of ns) = word_of_nat (length (concat (map node_bytes ns)))"
proof -
  have "scast (int32_size xs) = (word_of_nat (length xs) :: u64)" if "length xs \<le> length (concat (map node_bytes ns))"
    for xs :: "'a list"
    using that assms by (simp add: int32_size_def scast_u32_of_nat)
  note sizes = this
  show ?thesis
    unfolding type_length_def
    by (subst sizes, use length_nodes_bytes [of ns] in linarith)+ (simp add: length_nodes_bytes)
qed

lemma serializeType_nodes:
  assumes ok: "list_all node_ok ns" and small: "length (concat (map node_bytes ns)) < 2 ^ 31"
  shows "serializeType fresh (vectors_of ns)
    = Inr (concat (map node_bytes ns), word_of_nat (length (concat (map node_bytes ns))))"
proof -
  have cap: "unat (word_of_nat (length (concat (map node_bytes ns))) :: u64) = length (concat (map node_bytes ns))"
    using small by (simp add: unsigned_of_nat take_bit_nat_eq_self del: length_concat)
  have "fold_res (put_type (length (concat (map node_bytes ns))) (vectors_of ns)) (replicate (length ns) True)
      (cursor_at []) = Inr (cursor_at ns)"
    using put_types [of "[]" ns] ok by simp
  moreover have "cursor_at [] = \<lparr>written = [], arrayTypeIndex = 0, validObjectIndex = 0, tokenIndex = 0,
      moduleNamesPtr = 0, assemblyNamesPtr = 0\<rparr>"
    by (simp add: cursor_at_def no_vectors_def)
  moreover have "written (cursor_at ns) = concat (map node_bytes ns)" "tokenIndex (cursor_at ns) = length (tokens (vectors_of ns))"
    "validObjectIndex (cursor_at ns) = length ns"
    by (simp_all add: cursor_at_def)
  ultimately show ?thesis
    by (simp add: serializeType_def type_length_eq [OF small] cap isValid_vectors int32_size_def vectors_lengths Let_def
        del: length_concat)
qed

subsection \<open>A description determines the type\<close>

text \<open>Element types fit a byte, the kind of an array follows from its element type, and sizes are positive integers.\<close>

fun tree_ok :: "class_tree \<Rightarrow> bool" where
  "tree_ok (Primitive_array e rank) \<longleftrightarrow> corElementTypeIsPrimitive e \<and> e < 256"
| "tree_ok (Array_of e rank t) \<longleftrightarrow> \<not> corElementTypeIsPrimitive e \<and> e < 256 \<and> tree_ok t"
| "tree_ok (Class token assembly modl ts) \<longleftrightarrow>
     2 * length assembly < 2 ^ 31 \<and> 2 * length modl < 2 ^ 31 \<and> length ts < 2 ^ 32 \<and> list_all tree_ok ts"

lemma tree_ok_nodes: "tree_ok t \<Longrightarrow> list_all node_ok (nodes t)"
  by (induction t rule: nodes.induct) (auto simp: list_all_iff)

lemma name_bytes_inj:
  "length xs = length ys \<Longrightarrow> name_bytes xs @ r = name_bytes ys @ s \<Longrightarrow> xs = ys \<and> r = s"
proof (induction xs ys rule: list_induct2)
  case (Cons x xs y ys)
  then have "word_bytes x @ (name_bytes xs @ r) = word_bytes y @ (name_bytes ys @ s)"
    by (simp add: name_bytes_def)
  then have "word_bytes x = word_bytes y" and rest: "name_bytes xs @ r = name_bytes ys @ s"
    by (auto simp: append_eq_append_conv)
  then have "x = y"
    by (metis word_of_bytes_word_bytes_std(2))
  with Cons.IH [OF rest] show ?case by simp
qed (simp add: name_bytes_def)

lemma name_size_inj:
  assumes "2 * length a < 2 ^ 31" "2 * length b < 2 ^ 31" "name_size a = name_size b"
  shows "length a = length b"
  using unat_name_size(1) [OF assms(1)] unat_name_size(1) [OF assms(2)] assms(3) by simp

lemma ucast_byte_inj:
  assumes "(ucast (e :: u32) :: byte) = ucast e'" "e < 256" "e' < 256"
  shows "e = e'"
proof -
  have "unat (ucast e :: byte) = unat e" "unat (ucast e' :: byte) = unat e'"
    using assms(2,3) by (simp_all add: unsigned_ucast_eq take_bit_nat_eq_self word_less_nat_alt)
  with assms(1) show ?thesis by (metis word_unat_eq_iff)
qed

lemma description_simps:
  "description (Primitive_array e rank) = [1, 1, ucast e] @ word_bytes rank"
  "description (Array_of e rank t) = [1, 1, ucast e] @ word_bytes rank @ description t"
  "description (Class token assembly modl ts) =
     node_bytes (Class_node token assembly modl (word_of_nat (length ts))) @ concat (map description ts)"
proof -
  show "description (Class token assembly modl ts) =
     node_bytes (Class_node token assembly modl (word_of_nat (length ts))) @ concat (map description ts)"
    by (induction ts) (simp_all add: description_def)
qed (simp_all add: description_def)

lemma class_node_inj:
  assumes "node_bytes (Class_node token assembly modl n) @ r = node_bytes (Class_node token' assembly' modl' n') @ s"
    and "node_ok (Class_node token assembly modl n)" "node_ok (Class_node token' assembly' modl' n')"
  shows "token = token' \<and> assembly = assembly' \<and> modl = modl' \<and> n = n' \<and> r = s"
proof -
  from assms(1) have 1: "word_bytes token @ word_bytes (name_size assembly) @ name_bytes assembly
      @ word_bytes (name_size modl) @ name_bytes modl @ word_bytes n @ r
    = word_bytes token' @ word_bytes (name_size assembly') @ name_bytes assembly'
      @ word_bytes (name_size modl') @ name_bytes modl' @ word_bytes n' @ s"
    by simp
  note 2 = u32c.enc_inj [OF TrueI TrueI 1]
  note 3 = u32c.enc_inj [OF TrueI TrueI conjunct2 [OF 2]]
  have "length assembly = length assembly'"
    using assms(2,3) 3 name_size_inj by auto
  note 4 = name_bytes_inj [OF this conjunct2 [OF 3]]
  note 5 = u32c.enc_inj [OF TrueI TrueI conjunct2 [OF 4]]
  have "length modl = length modl'"
    using assms(2,3) 5 name_size_inj by auto
  note 6 = name_bytes_inj [OF this conjunct2 [OF 5]]
  note 7 = u32c.enc_inj [OF TrueI TrueI conjunct2 [OF 6]]
  show ?thesis using 2 4 6 7 by simp
qed

lemma array_node_inj:
  assumes "[1, 1, ucast (e :: u32)] @ word_bytes (rank :: u32) @ r = [1, 1, ucast (e' :: u32)] @ word_bytes (rank' :: u32) @ s"
    and "e < 256" "e' < 256"
  shows "e = e' \<and> rank = rank' \<and> r = s"
proof -
  from assms(1) have "(ucast e :: byte) = ucast e'" and "word_bytes rank @ r = word_bytes rank' @ s" by auto
  then show ?thesis
    using u32c.enc_inj [OF TrueI TrueI, of rank r rank' s] ucast_byte_inj [of e e'] assms(2,3) by simp
qed

lemma description_heads:
  "\<exists>x. description (Primitive_array e rank) = 1 # 1 # x" "\<exists>x. description (Array_of e rank t) = 1 # 1 # x"
  "\<exists>x. description (Class token assembly modl ts) = 1 # 0 # x"
  by (simp_all add: description_simps)

lemma descriptions_inj:
  assumes "\<And>t u r s. t \<in> set ts \<Longrightarrow> tree_ok t \<Longrightarrow> tree_ok u \<Longrightarrow> description t @ r = description u @ s
      \<Longrightarrow> t = u \<and> r = s"
    and "length ts = length us" "list_all tree_ok ts" "list_all tree_ok us"
    and "concat (map description ts) @ r = concat (map description us) @ s"
  shows "ts = us \<and> r = s"
  using assms(2,1,3-5)
proof (induction ts us rule: list_induct2)
  case (Cons t ts u us)
  from Cons.prems(1) [of t u "concat (map description ts) @ r" "concat (map description us) @ s"] Cons.prems(2-4)
  have tu: "t = u" "concat (map description ts) @ r = concat (map description us) @ s" by simp_all
  have "ts = us \<and> r = s"
    by (rule Cons.IH) (use Cons.prems tu in auto)
  with tu show ?case by simp
qed simp

lemma description_inj:
  assumes "tree_ok t" "tree_ok u" "description t @ r = description u @ s"
  shows "t = u \<and> r = s"
  using assms
proof (induction t arbitrary: u r s)
  case (Primitive_array e rank)
  show ?case
  proof (cases u)
    case (Primitive_array e' rank')
    show ?thesis
      using Primitive_array.prems array_node_inj [of e rank r e' rank' s]
      unfolding Primitive_array description_simps by simp
  next
    case (Array_of e' rank' u')
    have "e = e'"
      using Primitive_array.prems array_node_inj [of e rank r e' rank' "description u' @ s"]
      unfolding Array_of description_simps by simp
    with Primitive_array.prems Array_of show ?thesis by simp
  next
    case (Class token assembly modl us)
    then show ?thesis
      using Primitive_array.prems(3) by (simp add: description_simps)
  qed
next
  case (Array_of e rank t)
  show ?case
  proof (cases u)
    case (Primitive_array e' rank')
    have "e = e'"
      using Array_of.prems array_node_inj [of e rank "description t @ r" e' rank' s]
      unfolding Primitive_array description_simps by simp
    with Array_of.prems Primitive_array show ?thesis by simp
  next
    case u: (Array_of e' rank' u')
    have "e = e' \<and> rank = rank' \<and> description t @ r = description u' @ s"
      using Array_of.prems array_node_inj [of e rank "description t @ r" e' rank' "description u' @ s"]
      unfolding u description_simps by simp
    then show ?thesis
      using Array_of.IH [of u' r s] Array_of.prems(1,2) u by simp
  next
    case (Class token assembly modl us)
    then show ?thesis
      using Array_of.prems(3) by (simp add: description_simps)
  qed
next
  case (Class token assembly modl ts)
  show ?case
  proof (cases u)
    case u: (Class token' assembly' modl' us)
    have eqs: "token = token' \<and> assembly = assembly' \<and> modl = modl'
        \<and> (word_of_nat (length ts) :: u32) = word_of_nat (length us)
        \<and> concat (map description ts) @ r = concat (map description us) @ s"
      by (rule class_node_inj) (use Class.prems in \<open>simp_all add: u description_simps(3) del: node_bytes.simps\<close>)
    then have n: "(word_of_nat (length ts) :: u32) = word_of_nat (length us)" by (elim conjE)
    have ok: "length ts < 2 ^ 32" "list_all tree_ok ts" "length us < 2 ^ 32" "list_all tree_ok us"
      using Class.prems(1,2) by (simp_all only: u tree_ok.simps)
    have "length ts = length us"
      using arg_cong [OF n, of unat] unfolding unat_u32_of_nat [OF ok(1)] unat_u32_of_nat [OF ok(3)] .
    then have "ts = us \<and> r = s"
      using eqs by (intro descriptions_inj [OF Class.IH _ ok(2,4)]) (elim conjE, assumption)+
    with eqs show ?thesis by (simp add: u)
  qed (use Class.prems(3) in \<open>simp_all add: description_simps\<close>)
qed

subsection \<open>The properties of allocations\<close>

lemma resolve_and_serialize:
  assumes "has_type info c t" "depth t \<le> fuel" "tree_ok t" "length (description t) < 2 ^ 31"
  shows "and_then (resolveType fuel info c no_vectors) (serializeType fresh)
    = Inr (description t, word_of_nat (length (description t)))"
  using resolveType_nodes [OF assms(1,2), of no_vectors] serializeType_nodes [OF tree_ok_nodes [OF assms(3)], of fresh]
    assms(4)
  by (simp add: description_def vectors_of_def)

lemma ObjectAllocated_eq:
  assumes "has_type info c t" "depth t \<le> fuel" "tree_ok t" "length (description t) < 2 ^ 31"
    and "GetObjectSize info objectId = Inr sz"
  shows "ObjectAllocated fuel fresh info new_obj objectId c h =
    and_then (allocateObject new_obj objectId (ucast sz) (description t) (word_of_nat (length (description t))) h)
      (\<lambda>(_, h). Inr (S_OK, h))"
proof -
  have "ObjectAllocated fuel fresh info new_obj objectId c h =
      and_then (and_then (resolveType fuel info c no_vectors) (serializeType fresh)) (\<lambda>(type, typeLength).
      and_then (allocateObject new_obj objectId (ucast sz) type typeLength h) (\<lambda>(_, h). Inr (S_OK, h)))"
    by (simp add: ObjectAllocated_def assms(5) and_then_assoc)
  then show ?thesis
    by (simp add: resolve_and_serialize [OF assms(1-4)])
qed

text \<open>
  Claim C14: when the runtime reports the allocation of an object whose class it can describe, the shadow heap
  gains the object and stays in a reachable state, and the next report carries for it the
  description of its type: the preorder encoding of the tree of the class, with its exact length.
\<close>

theorem allocation_is_described:
  assumes "heap_reachable h" and "has_type info c t" "depth t \<le> fuel" "tree_ok t" "length (description t) < 2 ^ 31"
    and "GetObjectSize info objectId = Inr sz"
    and ok: "event_ok h (Allocate new_obj objectId (ucast sz) (description t) (word_of_nat (length (description t))))"
  shows "\<exists>h'. ObjectAllocated fuel fresh info new_obj objectId c h = Inr (S_OK, h') \<and> heap_reachable h'
    \<and> store (tree h') new_obj \<noteq> None
    \<and> map_of (fst (flushObjects h')) new_obj = Some (description t, word_of_nat (length (description t)))"
proof -
  obtain ob h' where h': "allocateObject new_obj objectId (ucast sz) (description t)
        (word_of_nat (length (description t))) h = Inr (new_obj, h')"
      "store (tree h') = (store (tree h))(new_obj \<mapsto> ob)"
      "newAddresses h' = omap_put new_obj (description t, word_of_nat (length (description t))) (newAddresses h)"
    by (rule allocate_inv [OF heap_reachable_inv [OF assms(1)] ok])
  have "heap_reachable h'"
    by (rule heap_reachable.step [OF assms(1) ok]) (simp add: h')
  with h' show ?thesis
    by (simp add: ObjectAllocated_eq [OF assms(2-6)] flushObjects_def omap_put_self)
qed

definition sample_runtime :: class_runtime where
  "sample_runtime = profiler_info.extend sample_info (class_runtime.fields
     (\<lambda>c. if c = 2 then (S_OK, 8, 0, 1) else (1, 0, 0, 0))
     (\<lambda>c n. if c = 1 then (S_OK, 3, 0x02000001, 1, take n [2]) else (E_FAIL, 0, 0, 0, []))
     (\<lambda>_. Inr 24))"

definition sample_type :: class_tree where
  "sample_type = Class 0x02000001 [65, 0] [65, 66, 0] [Primitive_array 8 1]"

lemma sample_runtime_simps [simp]:
  "IsArrayClass sample_runtime c = (if c = 2 then (S_OK, 8, 0, 1) else (1, 0, 0, 0))"
  "GetClassIDInfo2 sample_runtime c n
   = (if c = 1 then (S_OK, 3, 0x02000001, 1, take n [2]) else (E_FAIL, 0, 0, 0, []))"
  "GetObjectSize sample_runtime ob = Inr 24"
  "GetModuleInfo sample_runtime = (\<lambda>_ n. Inr (3, take n [65, 66, 0], 8))"
  "GetAssemblyInfo sample_runtime = (\<lambda>_ n. Inr (2, take n [65, 0], ()))"
  by (simp_all add: sample_runtime_def sample_info_def profiler_info.defs class_runtime.defs)

lemma le_bytes_numeral: "le_bytes (numeral k) x = word_of_nat (x mod 256) # le_bytes (pred_numeral k) (x div 256)"
  by (simp only: numeral_eq_Suc [of k] le_bytes.simps)

lemma sample_has_type: "has_type sample_runtime 1 sample_type"
  unfolding sample_type_def
proof (rule has_type.class_type)
  show "GetClassIDInfo2 sample_runtime 1 0 = (S_OK, 3, 0x02000001, 1, [])" by simp
  show "GetClassIDInfo2 sample_runtime 1 (unat (1 :: u32)) = (S_OK, 3, 0x02000001, 1, [2])" by simp
  show "class_named sample_runtime 3 [65, 0] [65, 66, 0]"
    by (simp add: class_named_def read_name_def)
  have "has_type sample_runtime 2 (Primitive_array 8 1)"
    by (rule has_type.primitive_array) (auto simp: corElementTypeIsPrimitive_def)
  then show "list_all2 (has_type sample_runtime) [2] [Primitive_array 8 1]" by simp
qed auto

lemma sample_type_ok: "tree_ok sample_type" "depth sample_type \<le> 2" "length (description sample_type) < 2 ^ 31"
  by (simp_all add: sample_type_def corElementTypeIsPrimitive_def description_simps)

theorem allocation_is_described_witness:
  "\<exists>h'. ObjectAllocated 2 (\<lambda>_. 0) sample_runtime 0x5000 0x1000 1 heap_empty = Inr (S_OK, h')
     \<and> map_of (fst (flushObjects h')) 0x5000
       = Some ([1, 0, 1, 0, 0, 2, 4, 0, 0, 0, 65, 0, 0, 0, 6, 0, 0, 0, 65, 0, 66, 0, 0, 0, 1, 0, 0, 0,
                1, 1, 8, 1, 0, 0, 0], 35)"
proof -
  have "event_ok heap_empty (Allocate 0x5000 0x1000 (ucast (24 :: u32)) (description sample_type)
      (word_of_nat (length (description sample_type))))"
    by (simp add: heap_empty_def)
  moreover have "description sample_type = [1, 0, 1, 0, 0, 2, 4, 0, 0, 0, 65, 0, 0, 0, 6, 0, 0, 0, 65, 0, 66, 0, 0, 0,
      1, 0, 0, 0, 1, 1, 8, 1, 0, 0, 0]"
    by (simp add: sample_type_def description_simps name_size_def name_bytes_def word_bytes_def le_bytes_numeral)
  ultimately show ?thesis
    using allocation_is_described [OF heap_reachable.start sample_has_type sample_type_ok(2,1,3), of "0x1000" 24 "0x5000"
        "\<lambda>_. 0"]
    by auto
qed

text \<open>
  Claim C15: what is sent of an allocation tells the types apart, even inside a longer message: when the bytes that the profiler
  produces for two classes, followed by anything, are the same, the classes have the same type, and what
  follows is the same.
\<close>

theorem description_determines_type:
  assumes "has_type info c t" "depth t \<le> fuel" "tree_ok t" "length (description t) < 2 ^ 31"
    and "has_type info' c' t'" "depth t' \<le> fuel" "tree_ok t'" "length (description t') < 2 ^ 31"
    and "and_then (resolveType fuel info c no_vectors) (serializeType fresh) = Inr (type, typeLength)"
    and "and_then (resolveType fuel info' c' no_vectors) (serializeType fresh') = Inr (type', typeLength')"
    and "type @ r = type' @ s"
  shows "t = t' \<and> type = type' \<and> typeLength = typeLength' \<and> r = s"
proof -
  have eqs: "type = description t" "typeLength = word_of_nat (length (description t))"
    "type' = description t'" "typeLength' = word_of_nat (length (description t'))"
    using resolve_and_serialize [OF assms(1-4), of fresh] resolve_and_serialize [OF assms(5-8), of fresh'] assms(9,10)
    by simp_all
  show ?thesis
    using description_inj [OF assms(3,7)] assms(11) unfolding eqs by blast
qed

theorem description_determines_type_witness:
  "and_then (resolveType 2 sample_runtime 1 no_vectors) (serializeType (\<lambda>_. 0)) = Inr (description sample_type, 35)
   \<and> and_then (resolveType 2 sample_runtime 1 no_vectors) (serializeType (\<lambda>_. 1)) = Inr (description sample_type, 35)
   \<and> (\<forall>r s. description sample_type @ r = description sample_type @ s \<longleftrightarrow> r = s)"
proof -
  have len: "word_of_nat (length (description sample_type)) = (35 :: u64)"
    by (simp add: sample_type_def description_simps)
  have runs: "and_then (resolveType 2 sample_runtime 1 no_vectors) (serializeType fresh) = Inr (description sample_type, 35)" for fresh
    unfolding resolve_and_serialize [OF sample_has_type sample_type_ok(2,1,3)] len ..
  show ?thesis
    using description_determines_type [OF sample_has_type sample_type_ok(2,1,3) sample_has_type sample_type_ok(2,1,3)
        runs [of "\<lambda>_. 0"] runs [of "\<lambda>_. 1"]] runs by blast
qed

text \<open>
  An allocation whose type has a component the runtime does not describe, such as an array of pointers, throws an
  exception through the callback of the runtime instead of being recorded.
\<close>

theorem unresolved_class_fails:
  assumes "fst (IsArrayClass info c) \<noteq> S_OK" and "fst (GetClassIDInfo2 info c 0) \<noteq> S_OK"
    and "IsArrayClass info a = (S_OK, e, c, rank)" "\<not> corElementTypeIsPrimitive e"
  shows "ObjectAllocated (Suc (Suc fuel)) fresh info new_obj objectId a h
    = Inl (Fail_loud ''Type serialization: type was not resolved!'')"
proof -
  have "resolveType (Suc (Suc fuel)) info a no_vectors
      = Inr (no_vectors\<lparr>isValid := [True, False], isArray := [True], arrayTypes := [(e, rank)]\<rparr>)"
    using assms by (simp add: case_prod_beta no_vectors_def push_array_def)
  then show ?thesis
    by (simp add: ObjectAllocated_def serializeType_def type_length_def int32_size_def no_vectors_def put_type_def
        put_array_def put_def elem_at_def Let_def)
qed

end
