(* ===== verification/Collections.thy ===== *)
theory Collections
  imports Object_Types
begin

section \<open>Garbage collections\<close>

text \<open>
  The callbacks of \<open>Object_Types\<close> that report a collection make the calls of \<open>Heap_Collections\<close>: moved
  ranges, ranges that stay, the end.
\<close>

subsection \<open>The callbacks of a collection\<close>

lemma moved_callback:
  "heap_inv h \<Longrightarrow> collection_ok h ms ks \<Longrightarrow> MovedReferences ms h = Inr (S_OK, with_objects (relocate ms) h)"
  by (simp add: MovedReferences_def moves_all)

lemma surviving_callback:
  "heap_inv h \<Longrightarrow> collection_ok h ms ks \<Longrightarrow>
    SurvivingReferences ks (with_objects (relocate ms) h) = Inr (S_OK, with_objects (retain ks \<circ> relocate ms) h)"
  by (simp add: SurvivingReferences_def marks_all)

lemma finished_callback:
  assumes "heap_inv h" and "collection_ok h ms ks"
  shows "\<exists>h'. GarbageCollectionFinished (with_objects (retain ks \<circ> relocate ms) h) = Inr (S_OK, h')
    \<and> store (tree h') = collected_store ms ks h
    \<and> objects (tree h') = filter (\<lambda>p. collected_store ms ks h p \<noteq> None) (objects (tree h))
    \<and> deletedAddresses h' = deletedAddresses h @ filter (\<lambda>p. collected_store ms ks h p = None) (objects (tree h))
    \<and> newAddresses h' = newAddresses h"
  using clear_all [OF assms] by (auto simp: GarbageCollectionFinished_def)

subsection \<open>The properties of a collection\<close>

lemma collection_run:
  assumes inv: "heap_inv h" and ok: "collection_ok h ms ks"
  obtains h1 h2 h' where "MovedReferences ms h = Inr (S_OK, h1)" "SurvivingReferences ks h1 = Inr (S_OK, h2)"
    "GarbageCollectionFinished h2 = Inr (S_OK, h')" "heap_inv h'" "store (tree h') = collected_store ms ks h"
    "deletedAddresses h' = deletedAddresses h @ filter (\<lambda>p. collected_store ms ks h p = None) (objects (tree h))"
    "newAddresses h' = newAddresses h"
proof -
  obtain h' where h': "GarbageCollectionFinished (with_objects (retain ks \<circ> relocate ms) h) = Inr (S_OK, h')"
    "store (tree h') = collected_store ms ks h"
    "objects (tree h') = filter (\<lambda>p. collected_store ms ks h p \<noteq> None) (objects (tree h))"
    "deletedAddresses h' = deletedAddresses h @ filter (\<lambda>p. collected_store ms ks h p = None) (objects (tree h))"
    "newAddresses h' = newAddresses h"
    using finished_callback [OF inv ok] by blast
  show ?thesis
    by (rule that [OF moved_callback [OF inv ok] surviving_callback [OF inv ok] h'(1) collected_inv [OF inv ok h'(2,3)]
          h'(2,4,5)])
qed

text \<open>
  Claim C12: the three callbacks of a collection succeed, even where a moved object is put over one that
  is dead, and together do what a collection means: an object inside a moved range is shifted with the
  range, an object inside a kept range stays, every other object is gone and recorded as
  deleted; the invariant of the heap holds again and no object is left marked.
\<close>

theorem collection_correct:
  assumes "heap_inv h" and "collection_ok h ms ks"
  shows "\<exists>h1 h2 h'. MovedReferences ms h = Inr (S_OK, h1) \<and> SurvivingReferences ks h1 = Inr (S_OK, h2)
    \<and> GarbageCollectionFinished h2 = Inr (S_OK, h') \<and> heap_inv h'
    \<and> (\<forall>p. store (tree h') p = Option.bind (store (tree h) p) (outcome ms ks))
    \<and> deletedAddresses h' = deletedAddresses h
        @ filter (\<lambda>p. Option.bind (store (tree h) p) (outcome ms ks) = None) (objects (tree h))
    \<and> (\<nexists>p ob. store (tree h') p = Some ob \<and> marked ob)"
proof -
  obtain h1 h2 h' where h': "MovedReferences ms h = Inr (S_OK, h1)" "SurvivingReferences ks h1 = Inr (S_OK, h2)"
    "GarbageCollectionFinished h2 = Inr (S_OK, h')" "heap_inv h'" "store (tree h') = collected_store ms ks h"
    "deletedAddresses h' = deletedAddresses h @ filter (\<lambda>p. collected_store ms ks h p = None) (objects (tree h))"
    using collection_run [OF assms] by metis
  with collected_unmarked [OF assms] show ?thesis
    by (intro exI [of _ h1] exI [of _ h2] exI [of _ h']) (auto simp: collected_store_def)
qed

text \<open>
  Claim C13: virtual addresses survive a whole collection: if an address resolves to a virtual address and the
  object is alive after the three callbacks, the virtual address translates to an address that resolves back
  to it, and a read there says the same about concreteness as before the collection.
\<close>

theorem collection_keeps_addresses:
  assumes inv: "heap_inv h" and ok: "collection_ok h ms ks"
    and run: "MovedReferences ms h = Inr (hr1, h1)" "SurvivingReferences ks h1 = Inr (hr2, h2)"
      "GarbageCollectionFinished h2 = Inr (hr3, h')"
    and v: "physToVirtAddress h a = Inr v" and live: "store (tree h') (obj v) \<noteq> None"
  shows "\<exists>a'. virtToPhysAddress h' v = Inr a' \<and> physToVirtAddress h' a' = Inr v \<and>
    heap_read h' a' sz = heap_read h a sz"
proof -
  from collection_run [OF inv ok] run have inv': "heap_inv h'" and st: "store (tree h') = collected_store ms ks h"
    by (metis Inr_inject Pair_inject)+
  obtain ob ob' where ob: "store (tree h) (obj v) = Some ob" and ob': "store (tree h') (obj v) = Some ob'"
    and out: "outcome ms ks ob = Some ob'"
    using live by (auto simp: st collected_store_def Option.bind_eq_Some_conv)
  have fits: "\<forall>m \<in> set ms. shift_fits (shift_of m) (right (source m))"
    using ok by (simp add: collection_ok_def)
  note wf = outcome_wf [OF out tree_invD(3) [OF heap_invD(1) [OF inv] ob] fits]
  show ?thesis
    by (rule same_object_addresses [OF inv inv' v ob ob' wf(3,4)])
qed

text \<open>A live object that is moved down over a dead one.\<close>

definition crowded_heap :: heap where
  "crowded_heap = \<lparr>tree = \<lparr>objects = [0x5000, 0x6000],
      store = [0x5000 \<mapsto> sample_object, 0x6000 \<mapsto> sample_object\<lparr>left := 0x1010, right := 0x101F\<rparr>]\<rparr>,
      newAddresses = [], deletedAddresses = []\<rparr>"

lemma crowded_inv: "heap_inv crowded_heap"
  by (auto simp: heap_inv_def crowded_heap_def tree_inv_def sample_object_def object_wf_def interval_disjoint_def
      split: if_splits)

lemma crowded_ok: "collection_ok crowded_heap [(0x1010, 0x1000, 0x10)] []"
  by (auto simp: collection_ok_def crowded_heap_def sample_object_def whole_in_def interval_includes_def
      interval_disjoint_def shift_fits_def split: if_splits)

lemma crowded_outcome:
  "Option.bind (store (tree crowded_heap) 0x5000) (outcome [(0x1010, 0x1000, 0x10)] []) = None"
  "Option.bind (store (tree crowded_heap) 0x6000) (outcome [(0x1010, 0x1000, 0x10)] []) = Some sample_object"
  by (simp_all add: crowded_heap_def sample_object_def interval_includes_def moved_def shifted_def)

theorem collection_correct_witness:
  "\<exists>h1 h2 h'. MovedReferences [(0x1010, 0x1000, 0x10)] crowded_heap = Inr (S_OK, h1)
     \<and> SurvivingReferences [] h1 = Inr (S_OK, h2) \<and> GarbageCollectionFinished h2 = Inr (S_OK, h')
     \<and> store (tree h') 0x5000 = None \<and> store (tree h') 0x6000 = Some sample_object
     \<and> deletedAddresses h' = [0x5000]"
proof -
  have "filter (\<lambda>p. Option.bind (store (tree crowded_heap) p) (outcome [(0x1010, 0x1000, 0x10)] []) = None)
      (objects (tree crowded_heap)) = [0x5000]" "deletedAddresses crowded_heap = []"
    using crowded_outcome by (simp_all add: crowded_heap_def)
  with collection_correct [OF crowded_inv crowded_ok] crowded_outcome show ?thesis
    by (elim exE conjE) (intro exI conjI; simp)
qed

theorem collection_keeps_addresses_witness:
  "\<exists>h1 h2 h'. MovedReferences [(0x1010, 0x1000, 0x10)] crowded_heap = Inr (S_OK, h1)
     \<and> SurvivingReferences [] h1 = Inr (S_OK, h2) \<and> GarbageCollectionFinished h2 = Inr (S_OK, h')
     \<and> (\<exists>a'. virtToPhysAddress h' \<lparr>obj = 0x6000, offset = 4\<rparr> = Inr a'
          \<and> physToVirtAddress h' a' = Inr \<lparr>obj = 0x6000, offset = 4\<rparr>
          \<and> heap_read h' a' 8 = heap_read crowded_heap 0x1014 8)"
proof -
  obtain h1 h2 h' where h': "MovedReferences [(0x1010, 0x1000, 0x10)] crowded_heap = Inr (S_OK, h1)"
    "SurvivingReferences [] h1 = Inr (S_OK, h2)" "GarbageCollectionFinished h2 = Inr (S_OK, h')"
    "store (tree h') = collected_store [(0x1010, 0x1000, 0x10)] [] crowded_heap"
    using collection_run [OF crowded_inv crowded_ok] by metis
  have v: "physToVirtAddress crowded_heap 0x1014 = Inr \<lparr>obj = 0x6000, offset = 4\<rparr>"
    unfolding physToVirt_eq [OF crowded_inv] by (simp add: crowded_heap_def interval_contains_def)
  have "store (tree h') (obj \<lparr>obj = 0x6000, offset = 4\<rparr>) \<noteq> None"
    using crowded_outcome(2) by (simp add: h'(4) collected_store_def)
  from collection_keeps_addresses [OF crowded_inv crowded_ok h'(1-3) v this, of 8] h'(1-3) show ?thesis by blast
qed

end
