(* ===== verification/Compilations.thy ===== *)
theory Compilations
  imports Instrumenter
begin

section \<open>Compilations on several threads\<close>

text \<open>
  The runtime compiles methods on several threads at once, and no lock spans the callback
  \<^verbatim>\<open>JITCompilationStarted\<close>: the test for an earlier instrumentation in \<^verbatim>\<open>instrumenter.cpp\<close> stands outside the
  critical section, whose mutex is a member of an object made anew for each callback. Here a callback is
  a sequence of steps, and the steps of the threads interleave in any order. A step is what the code does under
  one lock, on one atomic variable or on data of its own thread: the test whether the tool has finished, the
  increment of the counter of requests, the queries and the look-up, the registration with the coverage
  tracker, the insertion into the set of instrumented methods, the rewriting, the decrement.
\<close>

subsection \<open>Parts of a callback\<close>

text \<open>Everything up to the look-up: \<open>Inl hr\<close> ends the callback, \<open>Inr (modl, m)\<close> is a method to instrument.\<close>

definition instrument_lookup :: "profiler_info \<Rightarrow> u64 \<Rightarrow> process \<Rightarrow> ((hresult + u64 \<times> method_info) \<times> process) res" where
  "instrument_lookup info functionId w =
     (case GetFunctionInfo info functionId of Inl hr \<Rightarrow> Inr (Inl hr, w)
      | Inr (newModuleId, token) \<Rightarrow>
        and_then (check (token AND 0xFF000000 = 0x06000000) Assert_failed) (\<lambda>_.
        case read_name (GetModuleInfo info newModuleId) of Inl hr \<Rightarrow> Inr (Inl hr, w)
        | Inr (moduleNameLength, moduleName, assembly) \<Rightarrow>
        case read_name (GetAssemblyInfo info assembly) of Inl hr \<Rightarrow> Inr (Inl hr, w)
        | Inr (assemblyNameLength, assemblyName, _) \<Rightarrow>
        and_then (InstrumentationIsNeeded moduleName moduleNameLength token (profilerState w)) (\<lambda>needed.
        if \<not> needed then Inr (Inl S_OK, w)
        else
          (let w = at_main functionId w in
           if (ucast token, newModuleId) \<in> instrumentedMethods w then Inr (Inl S_OK, w)
           else Inr (Inr (newModuleId,
                  \<lparr>mi_token = token, mi_assemblyNameLength = assemblyNameLength, mi_assemblyName = assemblyName,
                   mi_moduleNameLength = moduleNameLength, mi_moduleName = moduleName\<rparr>), w)))))"

definition collect_method :: "method_info \<Rightarrow> process \<Rightarrow> nat \<times> process" where
  "collect_method m w =
     (let st = profilerState w; (methodId, ct) = collectMethod m (coverageTracker st) in
      (methodId, w\<lparr>profilerState := st\<lparr>coverageTracker := ct\<rparr>\<rparr>))"

definition insert_method :: "u64 \<Rightarrow> method_info \<Rightarrow> process \<Rightarrow> process" where
  "insert_method modl m w =
     w\<lparr>instrumentedMethods := insert (ucast (mi_token m), modl) (instrumentedMethods w)\<rparr>"

definition rewrite_method ::
  "tid \<Rightarrow> (nat \<Rightarrow> byte) \<Rightarrow> profiler_info \<Rightarrow> u64 \<Rightarrow> method_info \<Rightarrow> nat \<Rightarrow> process \<Rightarrow> (hresult \<times> process) res" where
  "rewrite_method t fresh info modl m methodId w =
     and_then (doInstrumentation t fresh info (m_moduleId newInstrumenter) methodId (mi_moduleName m) (mi_moduleNameLength m)
                (newInstrumenter\<lparr>m_jittedToken := Some (mi_token m), m_moduleId := modl\<rparr>) w) (\<lambda>(hr, _, w).
     Inr (hr, w))"

text \<open>Run one after the other, the parts are the callback.\<close>

lemma register_method_parts:
  "register_method m modl w = (let (k, w) = collect_method m w in (k, insert_method modl m w))"
  by (simp add: register_method_def collect_method_def insert_method_def Let_def case_prod_unfold)

lemma instrument_parts:
  "and_then (instrument t fresh info f newInstrumenter w) (\<lambda>(hr, _, w). Inr (hr, w)) =
    and_then (instrument_lookup info f w) (\<lambda>(r, w). case r of Inl hr \<Rightarrow> Inr (hr, w)
      | Inr (modl, m) \<Rightarrow> (let (k, w) = collect_method m w in rewrite_method t fresh info modl m k (insert_method modl m w)))"
proof (cases "GetFunctionInfo info f")
  case (Inr b)
  obtain modl token where b: "b = (modl, token)" by (cases b)
  show ?thesis
  proof (cases "read_name (GetModuleInfo info modl)")
    case md: (Inr x)
    obtain len name asm where x: "x = (len, name, asm)" by (cases x)
    show ?thesis
      using Inr md unfolding b x
      by (cases "token AND 0xFF000000 = 0x06000000"; cases "read_name (GetAssemblyInfo info asm)";
          cases "InstrumentationIsNeeded name len token (profilerState w)")
        (auto simp: instrument_def instrument_lookup_def at_main_def register_method_parts rewrite_method_def Let_def
          case_prod_unfold)
  qed (use Inr b in \<open>auto simp: instrument_def instrument_lookup_def and_then_def check_def Let_def\<close>)
qed (simp add: instrument_def instrument_lookup_def)

subsection \<open>Interleavings\<close>

datatype phase =
    Outside
  | Called u64
  | Counted u64
  | Found u64 method_info
  | Collected u64 method_info nat
  | Registered u64 method_info nat
  | Leaving

type_synonym compiling = "process \<times> (tid \<Rightarrow> phase)"

inductive compile_step :: "profiler_info \<Rightarrow> compiling \<Rightarrow> compiling \<Rightarrow> bool" for info where
  call: "ph t = Outside \<Longrightarrow> \<not> isFinished (profilerState w) \<Longrightarrow>
    compile_step info (w, ph) (w, ph(t := Called f))"
| count: "ph t = Called f \<Longrightarrow>
    compile_step info (w, ph)
      (w\<lparr>shutdownBlockingRequestsCount := shutdownBlockingRequestsCount w + 1\<rparr>, ph(t := Counted f))"
| finish: "ph t = Counted f \<Longrightarrow> instrument_lookup info f w = Inr (Inl hr, w') \<Longrightarrow>
    compile_step info (w, ph) (w', ph(t := Leaving))"
| found: "ph t = Counted f \<Longrightarrow> instrument_lookup info f w = Inr (Inr (modl, m), w') \<Longrightarrow>
    compile_step info (w, ph) (w', ph(t := Found modl m))"
| collect: "ph t = Found modl m \<Longrightarrow> collect_method m w = (k, w') \<Longrightarrow>
    compile_step info (w, ph) (w', ph(t := Collected modl m k))"
| register: "ph t = Collected modl m k \<Longrightarrow>
    compile_step info (w, ph) (insert_method modl m w, ph(t := Registered modl m k))"
| rewrite: "ph t = Registered modl m k \<Longrightarrow> rewrite_method t fresh info modl m k w = Inr (hr, w') \<Longrightarrow>
    compile_step info (w, ph) (w', ph(t := Leaving))"
| leave: "ph t = Leaving \<Longrightarrow>
    compile_step info (w, ph)
      (w\<lparr>shutdownBlockingRequestsCount := shutdownBlockingRequestsCount w - 1\<rparr>, ph(t := Outside))"

inductive_cases compile_stepE: "compile_step info (w, ph) s"

text \<open>The identifier a thread was given, and whether the counter counts the thread.\<close>

fun id_of :: "phase \<Rightarrow> (method_info \<times> nat) option" where
  "id_of (Collected modl m k) = Some (m, k)"
| "id_of (Registered modl m k) = Some (m, k)"
| "id_of _ = None"

fun counted_in :: "phase \<Rightarrow> bool" where
  "counted_in Outside \<longleftrightarrow> False"
| "counted_in (Called f) \<longleftrightarrow> False"
| "counted_in _ \<longleftrightarrow> True"

fun identifiers_ok :: "process \<Rightarrow> compiling \<Rightarrow> bool" where
  "identifiers_ok w0 (w, ph) \<longleftrightarrow>
     ((\<exists>ms. collected w = collected w0 @ ms)
      \<and> (\<forall>t m k. id_of (ph t) = Some (m, k) \<longrightarrow>
           length (collected w0) \<le> k \<and> k < length (collected w) \<and> collected w ! k = m)
      \<and> (\<forall>t u m m' k. t \<noteq> u \<longrightarrow> id_of (ph t) = Some (m, k) \<longrightarrow> id_of (ph u) \<noteq> Some (m', k)))"

fun requests_counted :: "process \<Rightarrow> compiling \<Rightarrow> bool" where
  "requests_counted w0 (w, ph) \<longleftrightarrow>
     (finite {t. counted_in (ph t)}
      \<and> shutdownBlockingRequestsCount w
        = shutdownBlockingRequestsCount w0 + int (card {t. counted_in (ph t)}))"

declare identifiers_ok.simps [simp del] requests_counted.simps [simp del]

lemma lookup_effect:
  assumes "instrument_lookup info f w = Inr (r, w')"
  shows "collected w' = collected w" and "instrumentedMethods w' = instrumentedMethods w" and "bodies w' = bodies w"
    and "shutdownBlockingRequestsCount w' = shutdownBlockingRequestsCount w"
  using assms
  by (auto simp: instrument_lookup_def res_simps Let_def split: sum.splits if_splits prod.splits)

lemma collect_effect:
  assumes "collect_method m w = (k, w')"
  shows "k = length (collected w)" and "collected w' = collected w @ [m]"
    and "instrumentedMethods w' = instrumentedMethods w" and "bodies w' = bodies w"
    and "shutdownBlockingRequestsCount w' = shutdownBlockingRequestsCount w"
    and "profilerState w' = (profilerState w)\<lparr>coverageTracker := coverageTracker (profilerState w')\<rparr>"
  using assms by (auto simp: collect_method_def collectMethod_def Let_def)

lemma rewrite_effect:
  assumes "rewrite_method t fresh info modl m k w = Inr (hr, w')"
  shows "collected w' = collected w" and "instrumentedMethods w' = instrumentedMethods w"
    and "shutdownBlockingRequestsCount w' = shutdownBlockingRequestsCount w"
proof -
  obtain i where run: "doInstrumentation t fresh info (m_moduleId newInstrumenter) k (mi_moduleName m) (mi_moduleNameLength m)
      (newInstrumenter\<lparr>m_jittedToken := Some (mi_token m), m_moduleId := modl\<rparr>) w = Inr (hr, i, w')"
    using assms by (auto simp: rewrite_method_def res_simps)
  from doInstrumentation_effect [OF run, of "mi_token m"]
  show "collected w' = collected w" and "instrumentedMethods w' = instrumentedMethods w"
    and "shutdownBlockingRequestsCount w' = shutdownBlockingRequestsCount w"
    by simp_all
qed

text \<open>Steps that keep the collected methods and give no new identifier.\<close>

lemma identifiers_keep:
  assumes "identifiers_ok w0 (w, ph)" and "collected w' = collected w"
    and "id_of p = None \<or> id_of p = id_of (ph t)"
  shows "identifiers_ok w0 (w', ph(t := p))"
proof -
  have old: "id_of (ph u) = Some x" if "id_of ((ph(t := p)) u) = Some x" for u x
    using that assms(3) by (auto split: if_splits)
  show ?thesis
    using assms(1) unfolding identifiers_ok.simps assms(2) by (blast dest: old)
qed

lemma identifiers_collect:
  assumes ok: "identifiers_ok w0 (w, ph)" and c: "collect_method m w = (k, w')"
  shows "identifiers_ok w0 (w', ph(t := Collected modl m k))"
proof -
  have k: "k = length (collected w)" and w': "collected w' = collected w @ [m]"
    using collect_effect [OF c] by simp_all
  have old: "length (collected w0) \<le> j \<and> j < length (collected w) \<and> collected w ! j = m'"
    if "id_of (ph u) = Some (m', j)" for u m' j
    using ok that by (simp add: identifiers_ok.simps)
  obtain ms where "collected w = collected w0 @ ms"
    using ok by (auto simp: identifiers_ok.simps)
  then have "\<exists>ms. collected w' = collected w0 @ ms" and "length (collected w0) \<le> k"
    by (simp_all add: w' k)
  moreover have "length (collected w0) \<le> j \<and> j < length (collected w') \<and> collected w' ! j = m'"
    if "id_of (ph u) = Some (m', j)" for u m' j
    using old [OF that] by (simp add: w' nth_append)
  moreover have "id_of (ph u) \<noteq> Some (m', k)" for u m'
    using old [of u m' k] by (auto simp: k)
  ultimately show ?thesis
    using ok by (auto simp: identifiers_ok.simps w' k)
qed

lemma identifiers_step:
  assumes "compile_step info (w, ph) s" and "identifiers_ok w0 (w, ph)"
  shows "identifiers_ok w0 s"
  using assms
proof (cases rule: compile_step.cases)
  case (collect t modl m k w')
  then show ?thesis using identifiers_collect assms(2) by blast
next
  case (rewrite t modl m k fresh hr w')
  then show ?thesis using identifiers_keep [OF assms(2) rewrite_effect(1)] by simp
qed (auto simp: insert_method_def intro!: identifiers_keep [OF assms(2)] dest: lookup_effect(1))

lemma counted_change:
  assumes "finite {t. counted_in (ph t)}"
  shows "finite {u. counted_in ((ph(t := p)) u)}"
    and "int (card {u. counted_in ((ph(t := p)) u)})
      = int (card {u. counted_in (ph u)}) + (if counted_in p then 1 else 0) - (if counted_in (ph t) then 1 else 0)"
proof -
  let ?A = "{u. counted_in (ph u)}"
  have eq: "{u. counted_in ((ph(t := p)) u)} = (if counted_in p then insert t (?A - {t}) else ?A - {t})"
    by auto
  show "finite {u. counted_in ((ph(t := p)) u)}"
    unfolding eq using assms by simp
  have "int (card (?A - {t})) = int (card ?A) - (if counted_in (ph t) then 1 else 0)"
  proof (cases "counted_in (ph t)")
    case True
    then have "t \<in> ?A" by simp
    then have "0 < card ?A" using assms by (metis card_gt_0_iff empty_iff)
    then show ?thesis using True assms by (simp add: card_Diff_singleton)
  next
    case False
    then have "?A - {t} = ?A" by auto
    with False show ?thesis by simp
  qed
  moreover have "card (insert t (?A - {t})) = Suc (card (?A - {t}))"
    using assms by (subst card_insert_disjoint) simp_all
  ultimately show "int (card {u. counted_in ((ph(t := p)) u)})
      = int (card ?A) + (if counted_in p then 1 else 0) - (if counted_in (ph t) then 1 else 0)"
    unfolding eq by (cases "counted_in p") (simp_all del: insert_Diff_single Diff_insert)
qed

lemma requests_keep:
  assumes "requests_counted w0 (w, ph)"
    and "shutdownBlockingRequestsCount w' = shutdownBlockingRequestsCount w
      + (if counted_in p then 1 else 0) - (if counted_in (ph t) then 1 else 0)"
  shows "requests_counted w0 (w', ph(t := p))"
  using counted_change [of ph t p] assms by (simp add: requests_counted.simps del: fun_upd_apply)

lemma requests_step:
  assumes "compile_step info (w, ph) s" and "requests_counted w0 (w, ph)"
  shows "requests_counted w0 s"
  using assms
proof (cases rule: compile_step.cases)
  case (rewrite t modl m k fresh hr w')
  then show ?thesis using rewrite_effect(3) by (auto intro!: requests_keep [OF assms(2)])
next
  case (collect t modl m k w')
  then show ?thesis using collect_effect(5) by (auto intro!: requests_keep [OF assms(2)])
qed (auto simp: insert_method_def intro!: requests_keep [OF assms(2)] dest: lookup_effect(4))

lemma run_keeps:
  assumes "(compile_step info)\<^sup>*\<^sup>* s s'" and "\<And>w ph s'. compile_step info (w, ph) s' \<Longrightarrow> P (w, ph) \<Longrightarrow> P s'" and "P s"
  shows "P s'"
  using assms(1,3)
proof (induction rule: rtranclp_induct)
  case (step u v)
  then show ?case using assms(2) by (cases u) blast
qed

text \<open>
  Claim C4: However the callbacks of the threads interleave, the identifiers of methods are reliable: the
  methods collected before keep their positions, the identifier a thread passes to the probes of its method is the
  position of just that method in the list of collected methods, and no two threads that are compiling hold the same
  identifier, not even for the same method. The counter that delays the shutdown is the number of
  callbacks that have been counted and have not ended.
\<close>

theorem identifiers_are_positions:
  assumes "(compile_step info)\<^sup>*\<^sup>* (w0, \<lambda>_. Outside) (w, ph)"
  shows "take (length (collected w0)) (collected w) = collected w0
    \<and> (\<forall>t m k. id_of (ph t) = Some (m, k) \<longrightarrow> k < length (collected w) \<and> collected w ! k = m)
    \<and> (\<forall>t u m m' k. t \<noteq> u \<longrightarrow> id_of (ph t) = Some (m, k) \<longrightarrow> id_of (ph u) \<noteq> Some (m', k))
    \<and> shutdownBlockingRequestsCount w
      = shutdownBlockingRequestsCount w0 + int (card {t. counted_in (ph t)})"
proof -
  have "identifiers_ok w0 (w, ph)"
    by (rule run_keeps [OF assms identifiers_step]) (simp_all add: identifiers_ok.simps)
  moreover have "requests_counted w0 (w, ph)"
    by (rule run_keeps [OF assms requests_step]) (simp_all add: requests_counted.simps)
  ultimately show ?thesis
    by (auto simp: identifiers_ok.simps requests_counted.simps)
qed

subsection \<open>Two threads and one method\<close>

lemma lookup_described:
  assumes d: "describes info f modl m" and main: "mainMethodInfo (profilerState w) = Some main"
    and names: "names_ok main m"
  shows "instrument_lookup info f w =
    (if \<not> is_main main m \<and> collectMainOnly (profilerState w) then Inr (Inl S_OK, w)
     else if (ucast (mi_token m), modl) \<in> instrumentedMethods w then Inr (Inl S_OK, at_main f w)
     else Inr (Inr (modl, m), at_main f w))"
proof -
  from d obtain assembly where f: "GetFunctionInfo info f = Inr (modl, mi_token m)"
    and tok: "mi_token m AND 0xFF000000 = 0x06000000"
    and md: "read_name (GetModuleInfo info modl) = Inr (mi_moduleNameLength m, mi_moduleName m, assembly)"
    and asm: "read_name (GetAssemblyInfo info assembly) = Inr (mi_assemblyNameLength m, mi_assemblyName m, ())"
    unfolding describes_def by blast
  have need: "InstrumentationIsNeeded (mi_moduleName m) (mi_moduleNameLength m) (mi_token m) (profilerState w)
      = Inr (is_main main m \<or> \<not> collectMainOnly (profilerState w))"
    using IsMain_eq [OF main names] by (simp add: InstrumentationIsNeeded_def)
  show ?thesis
    by (simp add: instrument_lookup_def f tok md asm need Let_def)
qed

text \<open>A method that is to be instrumented and was not, in a state of the tool that lets it pass.\<close>

definition pending :: "profiler_info \<Rightarrow> u64 \<Rightarrow> u64 \<Rightarrow> method_info \<Rightarrow> process \<Rightarrow> bool" where
  "pending info f modl m w \<longleftrightarrow>
     describes info f modl m \<and> \<not> isFinished (profilerState w)
     \<and> (\<exists>main. mainMethodInfo (profilerState w) = Some main \<and> names_ok main m
          \<and> (is_main main m \<or> \<not> collectMainOnly (profilerState w)))
     \<and> (ucast (mi_token m), modl) \<notin> instrumentedMethods w"

lemma reach_found:
  assumes "pending info f modl m w" and t: "ph t = Outside"
  shows "\<exists>w'. (compile_step info)\<^sup>*\<^sup>* (w, ph) (w', ph(t := Found modl m)) \<and> pending info f modl m w'
    \<and> collected w' = collected w"
proof -
  obtain main where main: "mainMethodInfo (profilerState w) = Some main" "names_ok main m"
      "is_main main m \<or> \<not> collectMainOnly (profilerState w)"
    and d: "describes info f modl m" "\<not> isFinished (profilerState w)"
      "(ucast (mi_token m), modl) \<notin> instrumentedMethods w"
    using assms(1) unfolding pending_def by blast
  let ?w = "w\<lparr>shutdownBlockingRequestsCount := shutdownBlockingRequestsCount w + 1\<rparr>"
  have "instrument_lookup info f ?w = Inr (Inr (modl, m), at_main f ?w)"
    using lookup_described [OF d(1) _ main(2), of ?w] main d(3) by auto
  then have "(compile_step info)\<^sup>*\<^sup>* (w, ph) (at_main f ?w, ph(t := Called f, t := Counted f, t := Found modl m))"
    using compile_step.call [where ph = ph and t = t and w = w and f = f, OF t d(2)]
      compile_step.count [where ph = "ph(t := Called f)" and t = t and w = w]
      compile_step.found [where ph = "ph(t := Called f, t := Counted f)" and t = t and w = ?w]
    by (meson converse_rtranclp_into_rtranclp fun_upd_same rtranclp.rtrancl_refl)
  moreover have "isFinished (profilerState (at_main f ?w)) = isFinished (profilerState w)"
    by (simp add: at_main_def)
  ultimately show ?thesis
    using d main by (intro exI [of _ "at_main f ?w"]) (auto simp: pending_def)
qed

lemma reach_collected:
  assumes "ph t = Found modl m"
  shows "\<exists>w'. compile_step info (w, ph) (w', ph(t := Collected modl m (length (collected w))))
    \<and> collected w' = collected w @ [m]"
proof -
  obtain k w' where c: "collect_method m w = (k, w')" by (cases "collect_method m w")
  with compile_step.collect [where ph = ph and t = t, OF assms c] collect_effect(1,2) [OF c] show ?thesis by blast
qed

text \<open>
  Claim C38: The test for an earlier instrumentation does not keep two threads apart. When two threads compile
  the same method at the same time, both can pass the test before either registers the method; then the
  method is collected twice and instrumented under two identifiers.
\<close>

theorem simultaneous_compilations_register_twice:
  assumes "pending info f modl m w" and "ph t = Outside" and "ph u = Outside" and "t \<noteq> u"
  shows "\<exists>w' ph'. (compile_step info)\<^sup>*\<^sup>* (w, ph) (w', ph') \<and> collected w' = collected w @ [m, m]
    \<and> ph' t = Registered modl m (length (collected w)) \<and> ph' u = Registered modl m (Suc (length (collected w)))"
proof -
  let ?n = "length (collected w)"
  obtain w1 where 1: "(compile_step info)\<^sup>*\<^sup>* (w, ph) (w1, ph(t := Found modl m))"
    "pending info f modl m w1" "collected w1 = collected w"
    using reach_found [where ph = ph and t = t, OF assms(1,2)] by blast
  let ?ph1 = "ph(t := Found modl m, u := Found modl m)"
  obtain w2 where 2: "(compile_step info)\<^sup>*\<^sup>* (w1, ph(t := Found modl m)) (w2, ?ph1)" "collected w2 = collected w"
    using reach_found [OF 1(2), of "ph(t := Found modl m)" u] assms(3,4) 1(3) by auto
  let ?ph2 = "?ph1(t := Collected modl m ?n)"
  obtain w3 where 3: "compile_step info (w2, ?ph1) (w3, ?ph2)" "collected w3 = collected w @ [m]"
    using reach_collected [of ?ph1 t modl m info w2] assms(4) 2(2) by auto
  let ?ph3 = "?ph2(u := Collected modl m (Suc ?n))"
  obtain w4 where 4: "compile_step info (w3, ?ph2) (w4, ?ph3)" "collected w4 = collected w @ [m, m]"
    using reach_collected [of ?ph2 u modl m info w3] assms(4) 3(2) by auto
  let ?ph4 = "?ph3(t := Registered modl m ?n)" and ?w5 = "insert_method modl m w4"
  have 5: "compile_step info (w4, ?ph3) (?w5, ?ph4)"
    using assms(4) by (intro compile_step.register) simp
  have 6: "compile_step info (?w5, ?ph4) (insert_method modl m ?w5, ?ph4(u := Registered modl m (Suc ?n)))"
    using assms(4) by (intro compile_step.register) simp
  have "(compile_step info)\<^sup>*\<^sup>* (w, ph) (insert_method modl m ?w5, ?ph4(u := Registered modl m (Suc ?n)))"
    using 1(1) 2(1) 3(1) 4(1) 5 6 by (meson rtranclp.rtrancl_into_rtrancl rtranclp_trans)
  then show ?thesis
    using 4(2) assms(4)
    by (intro exI [of _ "insert_method modl m ?w5"] exI [of _ "?ph4(u := Registered modl m (Suc ?n))"])
      (simp add: insert_method_def)
qed

lemma sample_pending: "pending sample_info 77 3 (sample_function 0x06000001) (sample_process (Some sample_main))"
  using sample_process_simps sample_describes(1) sample_names by (auto simp: pending_def)

theorem simultaneous_compilations_register_twice_witness:
  "\<exists>w' ph'. (compile_step sample_info)\<^sup>*\<^sup>* (sample_process (Some sample_main), \<lambda>_. Outside) (w', ph')
     \<and> collected w' = [sample_function 0x06000001, sample_function 0x06000001]
     \<and> ph' 7 = Registered 3 (sample_function 0x06000001) 0 \<and> ph' 8 = Registered 3 (sample_function 0x06000001) 1"
  using simultaneous_compilations_register_twice [OF sample_pending, of "\<lambda>_. Outside" 7 8]
  by (simp add: sample_process_simps)

theorem identifiers_are_positions_witness:
  "\<exists>w' ph'. (compile_step sample_info)\<^sup>*\<^sup>* (sample_process (Some sample_main), \<lambda>_. Outside) (w', ph')
     \<and> collected w' ! 0 = sample_function 0x06000001 \<and> id_of (ph' 7) = Some (sample_function 0x06000001, 0)
     \<and> shutdownBlockingRequestsCount w' = int (card {t. counted_in (ph' t)})"
proof -
  obtain w1 where 1: "(compile_step sample_info)\<^sup>*\<^sup>* (sample_process (Some sample_main), \<lambda>_. Outside)
      (w1, (\<lambda>_. Outside)(7 := Found 3 (sample_function 0x06000001)))" "collected w1 = []"
    using reach_found [OF sample_pending, of "\<lambda>_. Outside" 7] by (auto simp: sample_process_simps)
  let ?ph = "(\<lambda>_. Outside)(7 := Found 3 (sample_function 0x06000001))"
  define ph :: "tid \<Rightarrow> phase" where "ph = ?ph(7 := Collected 3 (sample_function 0x06000001) 0)"
  obtain w2 where "compile_step sample_info (w1, ?ph) (w2, ph)"
    using reach_collected [of ?ph 7 3 "sample_function 0x06000001" sample_info w1] 1(2) by (auto simp: ph_def)
  with 1(1) have run: "(compile_step sample_info)\<^sup>*\<^sup>* (sample_process (Some sample_main), \<lambda>_. Outside) (w2, ph)"
    by (rule rtranclp.rtrancl_into_rtrancl)
  have ph: "id_of (ph 7) = Some (sample_function 0x06000001, 0)"
    by (simp add: ph_def)
  with identifiers_are_positions [OF run] have "collected w2 ! 0 = sample_function 0x06000001" by blast
  moreover from identifiers_are_positions [OF run]
  have "shutdownBlockingRequestsCount w2 = int (card {t. counted_in (ph t)})"
    by (simp add: sample_process_def)
  ultimately show ?thesis
    using run ph by (intro exI [of _ w2] exI [of _ ph]) simp
qed

subsection \<open>Repeated compilations\<close>

text \<open>
  Claim C39: The runtime may announce the compilation of a method more than once and expects a profiler that
  replaces code to do so each time. The tool does it only the first time: a callback for a method that
  is in the set of instrumented methods succeeds without a new body, so that the runtime compiles the original
  code, and registers nothing.
\<close>

theorem repeated_compilation_gets_no_body:
  assumes "\<not> isFinished (profilerState w)" and "describes info f modl m"
    and "mainMethodInfo (profilerState w) = Some main" and "names_ok main m"
    and "(ucast (mi_token m), modl) \<in> instrumentedMethods w"
  shows "\<exists>w'. JITCompilationStarted t fresh info f w = Inr (S_OK, w') \<and> bodies w' = bodies w
    \<and> collected w' = collected w \<and> instrumentedMethods w' = instrumentedMethods w
    \<and> coverageProbes w' = coverageProbes w"
  using instrument_described [OF assms(2) _ assms(4),
      of "w\<lparr>shutdownBlockingRequestsCount := shutdownBlockingRequestsCount w + 1\<rparr>" t fresh newInstrumenter] assms(1,3,5)
  by (simp add: JITCompilationStarted_def Let_def)

theorem repeated_compilation_gets_no_body_witness:
  "\<exists>w'. JITCompilationStarted 9 (\<lambda>_. 0) sample_info 77
      ((sample_process (Some sample_main))\<lparr>instrumentedMethods := {(0x06000001, 3)}\<rparr>) = Inr (S_OK, w')
     \<and> bodies w' = []"
  using repeated_compilation_gets_no_body [OF _ sample_describes(1) _ sample_names(1),
      of "(sample_process (Some sample_main))\<lparr>instrumentedMethods := {(0x06000001, 3)}\<rparr>" 9 "\<lambda>_. 0"]
  by (simp add: sample_process_simps) (auto simp: sample_function_def sample_process_simps)

end
