(* ===== verification/Spec2Isabelle.thy ===== *)
theory Spec2Isabelle
  imports Probes Sig_Grammar Collections Compilations
begin

text \<open>
  A verification library for the native code of V#, the part of the repository written in C++.
  V# explores the behaviours of .NET programs symbolically; two profilers, shared libraries that
  the .NET runtime loads into the process under test, connect the engine to the running
  program.

  \<^bold>\<open>The symbolic-execution profiler\<close> (\<^verbatim>\<open>VSharp.ClrInteraction\<close>). Before the runtime compiles a
  method, the profiler replaces its body by one that calls a \<^emph>\<open>probe\<close> at every
  instruction. The probes shadow the execution: for every byte of every object and every slot of
  every evaluation stack they track whether its value is concrete, that is, independent of the symbolic
  inputs. When an instruction touches a value that is not, the probe sends a command with the
  operands to the engine over a pipe and waits for the answer.

  \<^bold>\<open>The coverage profiler\<close> (\<^verbatim>\<open>VSharp.CoverageInstrumenter/profiler\<close>). It rewrites method bodies
  itself: it decodes the instructions into a linked list, weaves in calls of its probes and encodes the
  list again. The probes record, per thread, which points of the program an invocation of the method
  under test has passed; a report of all invocations is handed to the managed side.

  \<^bold>\<open>How the library is laid out\<close>

  \<^item> \<open>VPrelude\<close>: machine integers, the result monad in which every assertion failure, invalid
    access and uninitialised read of the C++ code is a value, little-endian encodings, list lemmas.

  The shadow memory of the first profiler (\<^verbatim>\<open>memory/\<close>):

  \<^item> \<open>Interval_Tree\<close> (\<^verbatim>\<open>intervalTree.h\<close>, \<^verbatim>\<open>Interval\<close> of \<^verbatim>\<open>heap.cpp\<close>), \<open>Object_Bits\<close> (\<^verbatim>\<open>Object\<close>), \<open>Heap_Model\<close>
    (\<^verbatim>\<open>Heap\<close>): live objects as intervals behind pointers, one bit per byte, and virtual addresses.
    Reads and writes are exactly those of an array of flags, except strictly inside a cell; addresses
    round-trip. \<open>Heap_Collections\<close>: the heap over whole collections of the garbage collector, in which
    live objects may be moved over dead ones. The invariant holds in every state that allocations, writes, reports
    and whole collections lead to, and none of these calls fails there.
  \<^item> \<open>Object_Types\<close>, \<open>Collections\<close> (\<^verbatim>\<open>corProfiler.cpp\<close>): the callbacks for allocations, with the description of the
    type of the object, and for collections, which keep virtual addresses and what is read through them.
  \<^item> \<open>Eval_Stack\<close> (\<^verbatim>\<open>stack.cpp\<close>): frames refine bounded stacks of flags under any sequence
    of operations; the peer can rebuild the call stack from what it is sent.
  \<^item> \<open>Operand_Memory\<close> (\<^verbatim>\<open>memory.cpp\<close>): stacks per thread, the operand buffer and the string pool.
    A thread works on its own stack if no other thread interrupts the access; the switch between stacks is not
    protected, and interleaved switches mix them up. Operands round-trip up to the third, and the fourth overflows.

  Its communication and probes:

  \<^item> \<open>Pipe_Protocol\<close> (\<^verbatim>\<open>communication/protocol.cpp\<close>, \<^verbatim>\<open>unixFifoCommunicator.cpp\<close>): messages round-trip
    if the length arrives in one piece and writes are complete, with the message itself split in any way; short transfers
    and failures of the socket are modelled.
  \<^item> \<open>Probe_Commands\<close>, \<open>Probes\<close> (\<^verbatim>\<open>probes.h\<close>): commands, answers and all probes. Commands are
    serialized into their announced length and can be read back; calls and returns pass the concreteness
    of arguments and results.
  \<^item> \<open>Sig_Parser\<close>, \<open>Sig_Grammar\<close> (\<^verbatim>\<open>sigparse.h\<close>): the parser of metadata signatures ends on every
    blob and reads back every signature of its grammar; two weaknesses on other blobs.

  The coverage profiler:

  \<^item> \<open>Thread_Storage\<close> (\<^verbatim>\<open>threadStorage.h\<close>), \<open>Coverage_Tracker\<close> (\<^verbatim>\<open>threadTracker.cpp\<close>,
    \<^verbatim>\<open>coverageTracker.cpp\<close>, \<^verbatim>\<open>profilerState.cpp\<close>, \<^verbatim>\<open>probes.cpp\<close> and the exception callbacks of \<^verbatim>\<open>corProfiler.cpp\<close>),
    \<open>Coverage_Runs\<close>: under every interleaving of the threads, each thread behaves as a sequential
    specification says for its own events and the reports are those of the specification.
  \<^item> \<open>Coverage_Report\<close> (\<^verbatim>\<open>coverageTracker.cpp\<close>, \<^verbatim>\<open>serialization.h\<close> and the managed
    \<^verbatim>\<open>CoverageDeserializer.fs\<close>): the reader gets back what the profiler wrote.
  \<^item> \<open>IL_Opcodes\<close>, \<open>IL_List\<close>, \<open>IL_Codec\<close> (\<^verbatim>\<open>ILRewriter.cpp\<close>): the table of opcodes, the linked list with
    its pointers, decoding and encoding. \<open>IL_Layout\<close>: the loop that lengthens branches ends and
    the result is the encoding of the list. \<open>IL_Import\<close>: a body the decoder accepts becomes a
    well-formed list.
  \<^item> \<open>IL_Rewriter\<close>, \<open>IL_Weave\<close>, \<open>IL_Instrument\<close> (second half of \<^verbatim>\<open>ILRewriter.cpp\<close>): the insertion of
    probe calls into a method without tail calls keeps every original instruction once and in order, keeps
    branch targets and handler bounds, and the code of each block is known exactly: the probes the scan
    requests before and after the instruction, and the coverage probes of branch targets. \<open>IL_Rewrite\<close> composes
    import, weaving and export.
  \<^item> \<open>Instrumenter\<close> (\<^verbatim>\<open>instrumenter.cpp\<close>, \<^verbatim>\<open>corProfiler.cpp\<close>): from the compilation callback of the runtime to
    the delivered body, for one callback. \<open>Compilations\<close>: callbacks on several threads as interleaved
    steps. The identifiers of methods are reliable in every interleaving, but two threads can register the
    same method twice, and a repeated compilation gets no body.

  \<^bold>\<open>Conventions.\<close> A C++ object is a record, a member function a function on it, a
  vector a list with its bounds checks, a pointer into a container an index or a key. Failures are the
  left side of \<open>'a res\<close>. Integers have the width of the source, and sums wrap where the
  source's do. What the sources only call, the profiling interface of the runtime, the operating system's socket, the
  hardware's floating-point conversion, are arguments, and the theorems name what they rely on as
  hypotheses. The interfaces between components are locales (\<open>thread_cells\<close> of the
  thread storage, \<open>sequence\<close> of the instruction list and others), interpreted on the model's definitions.

  \<^bold>\<open>Bounds and fuel.\<close> Walks along the instruction list take the number of instructions in the store
  as fuel, which a ring of distinct pointers never exhausts. The export loop is a recursion whose measure is
  the number of short branches. The parser of types takes the length of the blob as fuel; theorem
  \<open>parser_ends\<close> shows that it is always enough. The loops over sockets consume one scheduled result
  or one byte per turn. The theorems on whole rewritings assume bodies that the decoder accepts, whose handlers begin
  inside the code, whose instrumented size stays below the 32-bit offsets, and that have no tail
  calls (\<open>rewritable\<close>); the path for tail calls is modelled, and two of its defects are recorded, but no theorem
  describes its result.

  \<^bold>\<open>Not modelled.\<close> The managed part (the symbolic engine, its solver, explorers and test
  generators, in F# and C#); the compilation callback of the first profiler
  (\<^verbatim>\<open>VSharp.ClrInteraction/instrumenter.cpp\<close>), which sends bodies to the managed rewriter over the protocol modelled
  here; the runtime's platform layer vendored under \<^verbatim>\<open>coreclr\<close>; \<^verbatim>\<open>dllmain.cpp\<close>,
  \<^verbatim>\<open>classFactory.cpp\<close> and the COM glue; logging and textual dumps; opening and closing of pipes; the Windows
  variant of the communicator, whose reads and writes have the same interface. Callbacks of the
  runtime that only return \<^verbatim>\<open>S_OK\<close> have no state to model. Locks are modelled by taking a
  method that holds its lock throughout as one step; code that shares variables without a lock is one step only in
  the theorems about a single thread, and is split into its accesses in \<open>Compilations\<close> and in the theorem on
  context switches.
\<close>

end
